(* ===== verification/Order_Spec.thy ===== *)
theory Order_Spec
  imports Go_Prelude
begin

text \<open>
  The data of \<^verbatim>\<open>internal/matching/types.go\<close> and the abstract specification every order
  book of the package is compared with: a book is two lists of resting orders in
  price-time order, best first, and matching eats a prefix of the opposite list.
\<close>

subsection \<open>Orders and trades\<close>

definition Buy :: uint8 where "Buy = 1"
definition Sell :: uint8 where "Sell = 2"

lemma sides [simp]: "Buy \<noteq> Sell" "Sell \<noteq> Buy" "Buy \<noteq> 0" "Sell \<noteq> 0"
  by (simp_all add: Buy_def Sell_def)

record Order =
  ID :: uint64
  Side :: uint8
  Price :: int
  Qty :: int
  UserID :: uint64

record Trade =
  TakerID :: uint64
  MakerID :: uint64
  TradePrice :: int
  TradeQty :: int

definition min64 :: "int \<Rightarrow> int \<Rightarrow> int" where
  "min64 a b = (if a < b then a else b)"

lemma min64_min: "min64 a b = min a b"
  by (simp add: min64_def)

subsection \<open>The specification\<close>

record abook =
  aAsks :: "Order list"
  aBids :: "Order list"

definition empty_abook :: abook where
  "empty_abook = \<lparr>aAsks = [], aBids = []\<rparr>"

text \<open>An order goes behind every order at least as good: price first, then time.\<close>

definition place :: "(int \<Rightarrow> int \<Rightarrow> bool) \<Rightarrow> Order \<Rightarrow> Order list \<Rightarrow> Order list" where
  "place le a xs =
     takeWhile (\<lambda>x. le (Price x) (Price a)) xs @ a # dropWhile (\<lambda>x. le (Price x) (Price a)) xs"

definition book_ids :: "abook \<Rightarrow> uint64 set" where
  "book_ids b = ID ` set (aAsks b) \<union> ID ` set (aBids b)"

definition spec_add :: "Order \<Rightarrow> abook \<Rightarrow> abook" where
  "spec_add a b =
     (if Qty a \<le> 0 \<or> ID a \<in> book_ids b then b
      else if Side a = Sell then b\<lparr>aAsks := place (\<le>) a (aAsks b)\<rparr>
      else if Side a = Buy then b\<lparr>aBids := place (\<ge>) a (aBids b)\<rparr>
      else b)"

definition spec_cancel :: "uint64 \<Rightarrow> abook \<Rightarrow> abook" where
  "spec_cancel i b =
     \<lparr>aAsks = filter (\<lambda>x. ID x \<noteq> i) (aAsks b), aBids = filter (\<lambda>x. ID x \<noteq> i) (aBids b)\<rparr>"

text \<open>
  \<open>eat ok t q ms\<close>: a taker \<open>t\<close> with open quantity \<open>q\<close> trades with the makers \<open>ms\<close> in order
  while their price is acceptable; it returns the trades, the open quantity and the makers left.
\<close>

fun eat :: "(int \<Rightarrow> bool) \<Rightarrow> uint64 \<Rightarrow> int \<Rightarrow> Order list \<Rightarrow> Trade list \<times> int \<times> Order list" where
  "eat ok t q [] = ([], q, [])"
| "eat ok t q (m # ms) =
     (if q \<le> 0 \<or> \<not> ok (Price m) then ([], q, m # ms)
      else let x = min q (Qty m);
               tr = \<lparr>TakerID = t, MakerID = ID m, TradePrice = Price m, TradeQty = x\<rparr>
           in if Qty m \<le> q then (let (ts, r, ms') = eat ok t (q - x) ms in (tr # ts, r, ms'))
              else ([tr], q - x, m\<lparr>Qty := Qty m - x\<rparr> # ms))"

definition spec_match :: "Order \<Rightarrow> abook \<Rightarrow> Trade list \<times> int \<times> abook" where
  "spec_match t b =
     (if Qty t \<le> 0 then ([], 0, b)
      else if Side t = Buy then
        (let (ts, r, ms) = eat (\<lambda>p. p \<le> Price t) (ID t) (Qty t) (aAsks b)
         in (ts, r, b\<lparr>aAsks := ms\<rparr>))
      else if Side t = Sell then
        (let (ts, r, ms) = eat (\<lambda>p. Price t \<le> p) (ID t) (Qty t) (aBids b)
         in (ts, r, b\<lparr>aBids := ms\<rparr>))
      else ([], Qty t, b))"

text \<open>A limit order: match, then rest what is left.\<close>

definition spec_submit :: "Order \<Rightarrow> abook \<Rightarrow> Trade list \<times> abook" where
  "spec_submit t b =
     (if Side t \<noteq> Buy \<and> Side t \<noteq> Sell then ([], b)
      else let (ts, r, b') = spec_match t b in (ts, spec_add (t\<lparr>Qty := r\<rparr>) b'))"

subsection \<open>Well-formed books\<close>

definition sorted_side :: "(int \<Rightarrow> int \<Rightarrow> bool) \<Rightarrow> Order list \<Rightarrow> bool" where
  "sorted_side le xs \<longleftrightarrow> sorted_wrt (\<lambda>x y. le (Price x) (Price y)) xs"

definition side_ok :: "uint8 \<Rightarrow> (int \<Rightarrow> int \<Rightarrow> bool) \<Rightarrow> Order list \<Rightarrow> bool" where
  "side_ok sd le xs \<longleftrightarrow> sorted_side le xs \<and> (\<forall>x \<in> set xs. Side x = sd \<and> 0 < Qty x)"

definition book_ok :: "abook \<Rightarrow> bool" where
  "book_ok b \<longleftrightarrow> side_ok Sell (\<le>) (aAsks b) \<and> side_ok Buy (\<ge>) (aBids b) \<and>
     distinct (map ID (aAsks b @ aBids b))"

text \<open>No resting bid is at or above a resting ask.\<close>

definition uncrossed :: "abook \<Rightarrow> bool" where
  "uncrossed b \<longleftrightarrow> (\<forall>a \<in> set (aAsks b). \<forall>c \<in> set (aBids b). Price c < Price a)"

lemma empty_abook_ok [simp]: "book_ok empty_abook" "uncrossed empty_abook"
  by (simp_all add: book_ok_def side_ok_def sorted_side_def empty_abook_def uncrossed_def)

lemma side_ok_Nil [simp]: "side_ok sd le []"
  by (simp add: side_ok_def sorted_side_def)

lemma side_ok_Cons:
  "side_ok sd le (x # xs) \<longleftrightarrow>
     (\<forall>y \<in> set xs. le (Price x) (Price y)) \<and> Side x = sd \<and> 0 < Qty x \<and> side_ok sd le xs"
  by (auto simp: side_ok_def sorted_side_def)

lemma set_place [simp]: "set (place le a xs) = insert a (set xs)"
  unfolding place_def by simp (metis set_append takeWhile_dropWhile_id)

lemma mset_place: "mset (place le a xs) = add_mset a (mset xs)"
proof -
  let ?P = "\<lambda>x. le (Price x) (Price a)"
  have "mset xs = mset (takeWhile ?P xs) + mset (dropWhile ?P xs)"
    by (metis mset_append takeWhile_dropWhile_id)
  then show ?thesis by (simp add: place_def)
qed

text \<open>The two price orders, best first.\<close>

locale price_order =
  fixes le :: "int \<Rightarrow> int \<Rightarrow> bool"
  assumes le_refl: "le p p"
    and le_trans: "le p q \<Longrightarrow> le q r \<Longrightarrow> le p r"
    and le_total: "le p q \<or> le q p"
    and le_antisym: "le p q \<Longrightarrow> le q p \<Longrightarrow> p = q"
begin

lemma dropWhile_place_worse:
  "sorted_side le xs \<Longrightarrow> x \<in> set (dropWhile (\<lambda>x. le (Price x) p) xs) \<Longrightarrow> \<not> le (Price x) p"
  unfolding sorted_side_def
proof (induction xs)
  case (Cons y ys)
  then show ?case using le_trans by (auto split: if_splits)
qed simp

lemma sorted_place:
  assumes "sorted_side le xs" shows "sorted_side le (place le a xs)"
proof -
  let ?P = "\<lambda>x. le (Price x) (Price a)"
  let ?R = "\<lambda>x y. le (Price x) (Price y)"
  obtain us vs where uv: "us = takeWhile ?P xs" "vs = dropWhile ?P xs" by blast
  have "sorted_wrt ?R (us @ vs)" using assms by (simp add: sorted_side_def uv)
  moreover have "\<forall>y \<in> set vs. le (Price a) (Price y)"
    using dropWhile_place_worse[OF assms] le_total uv by blast
  moreover have "\<forall>y \<in> set us. le (Price y) (Price a)"
    using uv by (auto dest: set_takeWhileD)
  ultimately have "sorted_wrt ?R (us @ a # vs)" by (auto simp: sorted_wrt_append)
  then show ?thesis by (simp add: sorted_side_def place_def uv)
qed

lemma side_ok_place:
  "side_ok sd le xs \<Longrightarrow> Side a = sd \<Longrightarrow> 0 < Qty a \<Longrightarrow> side_ok sd le (place le a xs)"
  by (auto simp: side_ok_def sorted_place)

text \<open>At its price the placed order is the last, and the other prices are untouched.\<close>

lemma filter_place:
  assumes "sorted_side le xs"
  shows "filter (\<lambda>x. Price x = p) (place le a xs) =
    (if p = Price a then filter (\<lambda>x. Price x = p) xs @ [a] else filter (\<lambda>x. Price x = p) xs)"
proof -
  let ?P = "\<lambda>x. le (Price x) (Price a)"
  obtain us vs where uv: "us = takeWhile ?P xs" "vs = dropWhile ?P xs" by blast
  have xs: "xs = us @ vs" by (simp add: uv)
  have "Price y \<noteq> Price a" if "y \<in> set vs" for y
    using dropWhile_place_worse[OF assms] le_refl that uv by metis
  then have "filter (\<lambda>x. Price x = Price a) vs = []" by (auto simp: filter_empty_conv)
  then have "filter (\<lambda>x. Price x = p) (us @ a # vs) =
    (if p = Price a then filter (\<lambda>x. Price x = p) (us @ vs) @ [a]
     else filter (\<lambda>x. Price x = p) (us @ vs))"
    by auto
  moreover have "place le a xs = us @ a # vs" by (simp only: place_def uv)
  ultimately show ?thesis using xs by (simp only:)
qed

text \<open>In a sorted list the positions at least as good as \<open>p\<close> are an initial segment.\<close>

lemma sorted_position:
  "sorted_side le xs \<Longrightarrow> i < length xs \<Longrightarrow>
     le (Price (xs ! i)) p \<longleftrightarrow> i < length (takeWhile (\<lambda>x. le (Price x) p) xs)"
proof (induction xs arbitrary: i)
  case (Cons y ys)
  have s: "sorted_side le ys" "\<forall>z \<in> set ys. le (Price y) (Price z)"
    using Cons.prems(1) by (simp_all add: sorted_side_def)
  show ?case
  proof (cases i)
    case 0 then show ?thesis by simp
  next
    case (Suc k)
    then have k: "k < length ys" using Cons.prems by simp
    have "le (Price (ys ! k)) p \<Longrightarrow> le (Price y) p" using s(2) k le_trans nth_mem by blast
    then show ?thesis using Cons.IH[OF s(1) k] Suc by auto
  qed
qed simp

lemma sorted_split:
  "sorted_side le xs \<Longrightarrow> \<forall>x \<in> set xs. le p (Price x) \<Longrightarrow>
     xs = filter (\<lambda>x. Price x = p) xs @ filter (\<lambda>x. Price x \<noteq> p) xs"
proof (induction xs)
  case (Cons y ys)
  have s: "sorted_side le ys" "\<forall>z \<in> set ys. le (Price y) (Price z)"
    using Cons.prems(1) by (simp_all add: sorted_side_def)
  show ?case
  proof (cases "Price y = p")
    case True
    then show ?thesis using Cons.IH[OF s(1)] Cons.prems(2) by simp
  next
    case False
    have "Price z \<noteq> p" if "z \<in> set ys" for z
      using that s(2) Cons.prems(2) False le_antisym le_trans by (metis list.set_intros(1))
    then have "filter (\<lambda>x. Price x = p) ys = []" "filter (\<lambda>x. Price x \<noteq> p) ys = ys"
      by (auto simp: filter_empty_conv filter_id_conv)
    then show ?thesis using False by simp
  qed
qed simp

lemma place_Nil [simp]: "place le a [] = [a]"
  by (simp add: place_def)

end

interpretation askOrder: price_order "(\<le>)"
  by unfold_locales auto

interpretation bidOrder: price_order "(\<ge>)"
  by unfold_locales auto

subsection \<open>What matching guarantees\<close>

text \<open>
  Every trade is at an acceptable maker price and moves a positive quantity; what is bought
  and what stays open add up to the order.
\<close>

lemma eat_trades:
  "eat ok t q ms = (ts, r, ms') \<Longrightarrow> \<forall>m \<in> set ms. 0 < Qty m \<Longrightarrow>
     \<forall>x \<in> set ts. ok (TradePrice x) \<and> 0 < TradeQty x \<and> TakerID x = t \<and>
       (\<exists>m \<in> set ms. MakerID x = ID m \<and> TradePrice x = Price m \<and> TradeQty x \<le> Qty m)"
proof (induction ok t q ms arbitrary: ts r ms' rule: eat.induct)
  case (2 ok t q m ms)
  show ?case
  proof (cases "q \<le> 0 \<or> \<not> ok (Price m)")
    case True then show ?thesis using 2 by simp
  next
    case False
    then show ?thesis
    proof (cases "Qty m \<le> q")
      case True
      obtain us r' ms'' where e: "eat ok t (q - min q (Qty m)) ms = (us, r', ms'')"
        by (cases "eat ok t (q - min q (Qty m)) ms") auto
      note IH = "2.IH"[OF False refl refl True e]
      show ?thesis using IH "2.prems" False True e by auto
    next
      case qm: False
      then show ?thesis using "2.prems" False by auto
    qed
  qed
qed simp

lemma eat_quantity:
  "eat ok t q ms = (ts, r, ms') \<Longrightarrow> sum_list (map TradeQty ts) + r = q"
proof (induction ok t q ms arbitrary: ts r ms' rule: eat.induct)
  case (2 ok t q m ms)
  then show ?case by (fastforce simp: Let_def split: if_splits prod.splits)
qed simp

lemma eat_rest_nonneg: "eat ok t q ms = (ts, r, ms') \<Longrightarrow> 0 \<le> q \<Longrightarrow> 0 \<le> r"
proof (induction ok t q ms arbitrary: ts r ms' rule: eat.induct)
  case (2 ok t q m ms)
  then show ?case by (fastforce simp: Let_def split: if_splits prod.splits)
qed simp

text \<open>If the order is not filled, no acceptable maker is left in front.\<close>

lemma eat_rest:
  "eat ok t q ms = (ts, r, ms') \<Longrightarrow> 0 < r \<Longrightarrow> (case ms' of [] \<Rightarrow> True | m # _ \<Rightarrow> \<not> ok (Price m))"
proof (induction ok t q ms arbitrary: ts r ms' rule: eat.induct)
  case (2 ok t q m ms)
  then show ?case by (fastforce simp: Let_def min_def split: if_splits prod.splits)
qed simp

lemma eat_rest_le: "eat ok t q ms = (ts, r, ms') \<Longrightarrow> \<forall>m \<in> set ms. 0 < Qty m \<Longrightarrow> r \<le> q"
proof (induction ok t q ms arbitrary: ts r ms' rule: eat.induct)
  case (2 ok t q m ms)
  then show ?case by (fastforce simp: Let_def split: if_splits prod.splits)
qed simp

lemma eat_progress:
  assumes "eat ok t q (m # ms) = (ts, r, ms')" and "\<forall>x \<in> set (m # ms). 0 < Qty x"
    and "0 < q" and "ok (Price m)"
  shows "r < q"
proof (cases "Qty m \<le> q")
  case True
  obtain us r' ms'' where e: "eat ok t (q - min q (Qty m)) ms = (us, r', ms'')"
    by (cases "eat ok t (q - min q (Qty m)) ms") auto
  then have "r = r'" using assms True by simp
  then show ?thesis using eat_rest_le[OF e] assms(2) True by simp
next
  case False
  then show ?thesis using assms by (auto simp: Let_def)
qed

text \<open>Eating a queue of acceptable makers first, then the rest.\<close>

lemma eat_append:
  "\<forall>m \<in> set os. ok (Price m) \<Longrightarrow>
   eat ok t q (os @ rest) =
     (let (ts, r, ms) = eat (\<lambda>_. True) t q os
      in if ms = [] then (let (us, r', ms') = eat ok t r rest in (ts @ us, r', ms'))
         else (ts, r, ms @ rest))"
proof (induction os arbitrary: q)
  case Nil
  then show ?case by (simp split: prod.split)
next
  case (Cons m os)
  then show ?case by (simp add: Let_def split: prod.splits)
qed

text \<open>
  Price-time priority: the makers left are a suffix of the queue, of which at most the first
  lost a part of its quantity.
\<close>

lemma eat_suffix:
  "eat ok t q ms = (ts, r, ms') \<Longrightarrow> \<forall>m \<in> set ms. 0 < Qty m \<Longrightarrow>
     \<exists>done rest. ms = done @ rest \<and> (ms' = rest \<or>
       (\<exists>m tl k. rest = m # tl \<and> ms' = m\<lparr>Qty := k\<rparr> # tl \<and> 0 < k \<and> k < Qty m))"
proof (induction ok t q ms arbitrary: ts r ms' rule: eat.induct)
  case (2 ok t q m ms)
  show ?case
  proof (cases "q \<le> 0 \<or> \<not> ok (Price m)")
    case True
    then have "ms' = m # ms" using "2.prems" by simp
    then show ?thesis by (intro exI[of _ "[]"] exI[of _ "m # ms"]) simp
  next
    case False
    show ?thesis
    proof (cases "Qty m \<le> q")
      case True
      obtain us r' ms'' where e: "eat ok t (q - min q (Qty m)) ms = (us, r', ms'')"
        by (cases "eat ok t (q - min q (Qty m)) ms") auto
      have ms': "ms' = ms''" using "2.prems" False True e by simp
      have "\<forall>m \<in> set ms. 0 < Qty m" using "2.prems" by simp
      from "2.IH"[OF False refl refl True e this] obtain d rest where
        "ms = d @ rest" "ms'' = rest \<or>
          (\<exists>m tl k. rest = m # tl \<and> ms'' = m\<lparr>Qty := k\<rparr> # tl \<and> 0 < k \<and> k < Qty m)" by blast
      then show ?thesis unfolding ms' by (intro exI[of _ "m # d"] exI[of _ rest]) simp
    next
      case qm: False
      then have "ms' = m\<lparr>Qty := Qty m - q\<rparr> # ms" "q < Qty m" "0 < q"
        using "2.prems" False by auto
      then show ?thesis by (intro exI[of _ "[]"] exI[of _ "m # ms"]) auto
    qed
  qed
qed simp

lemma eat_side_ok:
  assumes "eat ok t q ms = (ts, r, ms')" and "side_ok sd le ms"
  shows "side_ok sd le ms'"
proof -
  have "\<forall>m \<in> set ms. 0 < Qty m" using assms(2) by (simp add: side_ok_def)
  from eat_suffix[OF assms(1) this] obtain d rest where d: "ms = d @ rest" and
    r: "ms' = rest \<or> (\<exists>m tl k. rest = m # tl \<and> ms' = m\<lparr>Qty := k\<rparr> # tl \<and> 0 < k \<and> k < Qty m)"
    by blast
  have "side_ok sd le rest" using assms(2) d by (auto simp: side_ok_def sorted_side_def sorted_wrt_append)
  then show ?thesis using r by (auto simp: side_ok_Cons)
qed

lemma eat_ids:
  assumes "eat ok t q ms = (ts, r, ms')" and "\<forall>m \<in> set ms. 0 < Qty m"
  shows "\<exists>d. map ID ms = d @ map ID ms'"
proof -
  from eat_suffix[OF assms] obtain d rest where d: "ms = d @ rest" and
    "ms' = rest \<or> (\<exists>m tl k. rest = m # tl \<and> ms' = m\<lparr>Qty := k\<rparr> # tl \<and> 0 < k \<and> k < Qty m)"
    by blast
  then have "map ID ms' = map ID rest" by auto
  then show ?thesis using d by (intro exI[of _ "map ID d"]) simp
qed

lemma eat_prices:
  assumes "eat ok t q ms = (ts, r, ms')" and "\<forall>m \<in> set ms. 0 < Qty m"
  shows "Price ` set ms' \<subseteq> Price ` set ms"
proof -
  from eat_suffix[OF assms] obtain d rest where d: "ms = d @ rest" and
    "ms' = rest \<or> (\<exists>m tl k. rest = m # tl \<and> ms' = m\<lparr>Qty := k\<rparr> # tl \<and> 0 < k \<and> k < Qty m)"
    by blast
  then show ?thesis by auto
qed

text \<open>The book left behind by a match is well formed and does not hold the taker.\<close>

lemma spec_match_ok:
  assumes "spec_match t b = (ts, r, b')" and "book_ok b"
  shows "book_ok b'" and "book_ids b' \<subseteq> book_ids b" and "0 \<le> r"
proof -
  have pa: "\<forall>m \<in> set (aAsks b). 0 < Qty m" "\<forall>m \<in> set (aBids b). 0 < Qty m"
    using assms(2) by (simp_all add: book_ok_def side_ok_def)
  have A: "book_ok (b\<lparr>aAsks := ms\<rparr>) \<and> book_ids (b\<lparr>aAsks := ms\<rparr>) \<subseteq> book_ids b \<and> 0 \<le> r"
    if e: "eat ok (ID t) (Qty t) (aAsks b) = (ts, r, ms)" and q: "0 < Qty t" for ok ms
  proof -
    obtain d where d: "map ID (aAsks b) = d @ map ID ms" using eat_ids[OF e] pa(1) by blast
    then have "ID ` set ms \<subseteq> ID ` set (aAsks b)" by (metis list.set_map set_append sup_ge2)
    moreover have "distinct (map ID (ms @ aBids b))" using assms(2) d by (simp add: book_ok_def)
    ultimately show ?thesis using eat_side_ok[OF e] eat_rest_nonneg[OF e] q assms(2)
      by (auto simp: book_ok_def book_ids_def)
  qed
  have B: "book_ok (b\<lparr>aBids := ms\<rparr>) \<and> book_ids (b\<lparr>aBids := ms\<rparr>) \<subseteq> book_ids b \<and> 0 \<le> r"
    if e: "eat ok (ID t) (Qty t) (aBids b) = (ts, r, ms)" and q: "0 < Qty t" for ok ms
  proof -
    obtain d where d: "map ID (aBids b) = d @ map ID ms" using eat_ids[OF e] pa(2) by blast
    then have "ID ` set ms \<subseteq> ID ` set (aBids b)" by (metis list.set_map set_append sup_ge2)
    moreover have "distinct (map ID (aAsks b @ ms))" using assms(2) d by (auto simp: book_ok_def)
    ultimately show ?thesis using eat_side_ok[OF e] eat_rest_nonneg[OF e] q assms(2)
      by (auto simp: book_ok_def book_ids_def)
  qed
  have "book_ok b' \<and> book_ids b' \<subseteq> book_ids b \<and> 0 \<le> r"
    using assms A B unfolding spec_match_def by (fastforce split: if_splits prod.splits)
  then show "book_ok b'" "book_ids b' \<subseteq> book_ids b" "0 \<le> r" by auto
qed

lemma book_ok_place:
  assumes "book_ok b" and "0 < Qty a" and "ID a \<notin> book_ids b"
  shows "Side a = Sell \<Longrightarrow> book_ok (b\<lparr>aAsks := place (\<le>) a (aAsks b)\<rparr>)"
    and "Side a = Buy \<Longrightarrow> book_ok (b\<lparr>aBids := place (\<ge>) a (aBids b)\<rparr>)"
proof -
  have d: "distinct (ID a # map ID (aAsks b @ aBids b))"
    using assms by (auto simp: book_ok_def book_ids_def)
  have "mset (map ID (place (\<le>) a (aAsks b) @ aBids b)) = mset (ID a # map ID (aAsks b @ aBids b))"
    "mset (map ID (aAsks b @ place (\<ge>) a (aBids b))) = mset (ID a # map ID (aAsks b @ aBids b))"
    by (simp_all add: mset_place)
  then have "distinct (map ID (place (\<le>) a (aAsks b) @ aBids b))"
    "distinct (map ID (aAsks b @ place (\<ge>) a (aBids b)))"
    using d mset_eq_imp_distinct_iff by metis+
  then show "Side a = Sell \<Longrightarrow> book_ok (b\<lparr>aAsks := place (\<le>) a (aAsks b)\<rparr>)"
    "Side a = Buy \<Longrightarrow> book_ok (b\<lparr>aBids := place (\<ge>) a (aBids b)\<rparr>)"
    using assms askOrder.side_ok_place bidOrder.side_ok_place by (simp_all add: book_ok_def)
qed

lemma spec_add_ok: "book_ok b \<Longrightarrow> book_ok (spec_add a b)"
  using book_ok_place[of b a] by (simp add: spec_add_def)

lemma spec_submit_ok: "book_ok b \<Longrightarrow> book_ok (snd (spec_submit t b))"
  using spec_match_ok(1) spec_add_ok by (auto simp: spec_submit_def split: prod.splits)

lemma spec_cancel_ok: "book_ok b \<Longrightarrow> book_ok (spec_cancel i b)"
  by (auto simp: spec_cancel_def book_ok_def side_ok_def sorted_side_def sorted_wrt_filter
      distinct_map_filter image_iff)

lemma filter_absent: "i \<notin> ID ` set xs \<Longrightarrow> filter (\<lambda>x. ID x \<noteq> i) xs = xs"
  by (auto simp: filter_id_conv)

lemma filter_removed:
  assumes "distinct (map ID (us @ x # vs))"
  shows "filter (\<lambda>y. ID y \<noteq> ID x) (us @ x # vs) = us @ vs"
proof -
  have "ID x \<notin> ID ` set us" "ID x \<notin> ID ` set vs" using assms by auto
  then show ?thesis by (simp add: filter_absent)
qed

text \<open>A book that rests only what is left after matching is never crossed.\<close>

lemma sorted_head_bound:
  assumes "case ms of [] \<Rightarrow> True | m # _ \<Rightarrow> \<not> ok (Price m)" and "side_ok sd le ms"
    and "\<And>p q. le p q \<Longrightarrow> \<not> ok p \<Longrightarrow> \<not> ok q" and "m \<in> set ms"
  shows "\<not> ok (Price m)"
  using assms by (cases ms) (auto simp: side_ok_Cons)

lemma spec_submit_uncrossed:
  assumes ok: "book_ok b" and un: "uncrossed b"
  shows "uncrossed (snd (spec_submit t b))"
proof (cases "(Side t = Buy \<or> Side t = Sell) \<and> 0 < Qty t")
  case False
  then show ?thesis using un
    by (auto simp: spec_submit_def spec_match_def spec_add_def split: prod.splits)
next
  case True
  have pos: "\<forall>m \<in> set (aAsks b). 0 < Qty m" "\<forall>m \<in> set (aBids b). 0 < Qty m"
    using ok by (simp_all add: book_ok_def side_ok_def)
  show ?thesis
  proof (cases "Side t = Buy")
    case buy: True
    obtain ts r ms where e: "eat (\<lambda>p. p \<le> Price t) (ID t) (Qty t) (aAsks b) = (ts, r, ms)"
      by (cases "eat (\<lambda>p. p \<le> Price t) (ID t) (Qty t) (aAsks b)") auto
    have sub: "Price ` set ms \<subseteq> Price ` set (aAsks b)" using eat_prices[OF e pos(1)] .
    have un1: "uncrossed (b\<lparr>aAsks := ms\<rparr>)" using un sub by (fastforce simp: uncrossed_def)
    have sok: "side_ok Sell (\<le>) ms" using eat_side_ok[OF e] ok by (simp add: book_ok_def)
    have "Price t < Price m" if "0 < r" "m \<in> set ms" for m
      using sorted_head_bound[OF eat_rest[OF e that(1)] sok _ that(2)] by force
    then have "uncrossed (spec_add (t\<lparr>Qty := r\<rparr>) (b\<lparr>aAsks := ms\<rparr>))"
      using un1 buy by (auto simp: spec_add_def uncrossed_def)
    then show ?thesis using True buy e by (simp add: spec_submit_def spec_match_def)
  next
    case False
    then have sell: "Side t = Sell" using True by blast
    obtain ts r ms where e: "eat (\<lambda>p. Price t \<le> p) (ID t) (Qty t) (aBids b) = (ts, r, ms)"
      by (cases "eat (\<lambda>p. Price t \<le> p) (ID t) (Qty t) (aBids b)") auto
    have sub: "Price ` set ms \<subseteq> Price ` set (aBids b)" using eat_prices[OF e pos(2)] .
    have un1: "uncrossed (b\<lparr>aBids := ms\<rparr>)" using un sub by (fastforce simp: uncrossed_def)
    have sok: "side_ok Buy (\<ge>) ms" using eat_side_ok[OF e] ok by (simp add: book_ok_def)
    have "Price m < Price t" if "0 < r" "m \<in> set ms" for m
      using sorted_head_bound[OF eat_rest[OF e that(1)] sok _ that(2)] by force
    then have "uncrossed (spec_add (t\<lparr>Qty := r\<rparr>) (b\<lparr>aBids := ms\<rparr>))"
      using un1 sell by (auto simp: spec_add_def uncrossed_def)
    then show ?thesis using True sell e by (simp add: spec_submit_def spec_match_def)
  qed
qed

lemma spec_cancel_uncrossed: "uncrossed b \<Longrightarrow> uncrossed (spec_cancel i b)"
  by (auto simp: uncrossed_def spec_cancel_def)

end
