(* ===== verification/Level_List.thy ===== *)
theory Level_List
  imports Order_Spec
begin

text \<open>
  The doubly linked FIFO of one price level (\<^verbatim>\<open>priceLevel\<close>, \<^verbatim>\<open>lvNode\<close> of
  \<^verbatim>\<open>internal/matching/level_book.go\<close>, and their copies \<^verbatim>\<open>priceLevelHeap\<close>,
  \<^verbatim>\<open>lvNodeHeap\<close> of \<^verbatim>\<open>levell_book_heap.go\<close>) over an explicit store: nodes and levels are
  addressed by numbers, and a pointer is an address option. A node keeps its order by value: the
  callers pass an order of their own to each call, so the book is its only owner.
\<close>

subsection \<open>The store\<close>

record lvNode =
  prv :: "nat option"
  nxt :: "nat option"
  order :: "Order option"
  lv :: "nat option"
  side :: uint8

record priceLevel =
  price :: int
  head :: "nat option"
  tail :: "nat option"
  lsize :: int

record store =
  nodes :: "nat \<Rightarrow> lvNode"
  levels :: "nat \<Rightarrow> priceLevel"
  nextNode :: nat
  nextLevel :: nat

definition nil_node :: lvNode where
  "nil_node = \<lparr>prv = None, nxt = None, order = None, lv = None, side = 0\<rparr>"

definition empty_store :: store where
  "empty_store = \<lparr>nodes = (\<lambda>_. nil_node),
     levels = (\<lambda>_. \<lparr>price = 0, head = None, tail = None, lsize = 0\<rparr>), nextNode = 0, nextLevel = 0\<rparr>"

definition upd_node :: "nat \<Rightarrow> (lvNode \<Rightarrow> lvNode) \<Rightarrow> ('a) store_scheme \<Rightarrow> ('a) store_scheme" where
  "upd_node n f s = s\<lparr>nodes := (nodes s)(n := f (nodes s n))\<rparr>"

definition upd_level :: "nat \<Rightarrow> (priceLevel \<Rightarrow> priceLevel) \<Rightarrow> ('a) store_scheme \<Rightarrow> ('a) store_scheme" where
  "upd_level l f s = s\<lparr>levels := (levels s)(l := f (levels s l))\<rparr>"

text \<open>Allocation: \<open>&priceLevel{price: p}\<close> and \<open>&lvNode{order: a, lv: l, side: sd}\<close>.\<close>

definition new_level :: "int \<Rightarrow> 'a store_scheme \<Rightarrow> nat \<times> 'a store_scheme" where
  "new_level p s =
     (nextLevel s,
      s\<lparr>levels := (levels s)(nextLevel s := \<lparr>price = p, head = None, tail = None, lsize = 0\<rparr>),
        nextLevel := nextLevel s + 1\<rparr>)"

definition new_node :: "Order \<Rightarrow> nat \<Rightarrow> uint8 \<Rightarrow> 'a store_scheme \<Rightarrow> nat \<times> 'a store_scheme" where
  "new_node a l sd s =
     (nextNode s,
      s\<lparr>nodes := (nodes s)(nextNode s :=
          \<lparr>prv = None, nxt = None, order = Some a, lv = Some l, side = sd\<rparr>),
        nextNode := nextNode s + 1\<rparr>)"

subsection \<open>Operations of a level\<close>

definition pushBack :: "nat \<Rightarrow> nat \<Rightarrow> 'a store_scheme \<Rightarrow> 'a store_scheme" where
  "pushBack l n s =
     (let s1 = upd_node n (\<lambda>x. x\<lparr>prv := tail (levels s l), nxt := None\<rparr>) s;
          s2 = (case tail (levels s1 l) of
                  Some t \<Rightarrow> upd_node t (\<lambda>x. x\<lparr>nxt := Some n\<rparr>) s1
                | None \<Rightarrow> upd_level l (\<lambda>x. x\<lparr>head := Some n\<rparr>) s1);
          s3 = upd_level l (\<lambda>x. x\<lparr>tail := Some n\<rparr>) s2
      in upd_level l (\<lambda>x. x\<lparr>lsize := lsize x + 1\<rparr>) s3)"

definition remove_node :: "nat \<Rightarrow> nat \<Rightarrow> 'a store_scheme \<Rightarrow> 'a store_scheme" where
  "remove_node l n s =
     (let s1 = (case prv (nodes s n) of
                  Some p \<Rightarrow> upd_node p (\<lambda>x. x\<lparr>nxt := nxt (nodes s n)\<rparr>) s
                | None \<Rightarrow> upd_level l (\<lambda>x. x\<lparr>head := nxt (nodes s n)\<rparr>) s);
          s2 = (case nxt (nodes s1 n) of
                  Some q \<Rightarrow> upd_node q (\<lambda>x. x\<lparr>prv := prv (nodes s1 n)\<rparr>) s1
                | None \<Rightarrow> upd_level l (\<lambda>x. x\<lparr>tail := prv (nodes s1 n)\<rparr>) s1);
          s3 = upd_node n (\<lambda>x. x\<lparr>prv := None, nxt := None\<rparr>) s2
      in upd_level l (\<lambda>x. x\<lparr>lsize := lsize x - 1\<rparr>) s3)"

definition level_empty :: "nat \<Rightarrow> 'a store_scheme \<Rightarrow> bool" where
  "level_empty l s \<longleftrightarrow> lsize (levels s l) = 0"

subsection \<open>The chain of a level\<close>

text \<open>\<open>dseg N p xs q\<close>: the nodes \<open>xs\<close> are linked in both directions, from \<open>p\<close> on the left to \<open>q\<close>.\<close>

fun dseg :: "(nat \<Rightarrow> lvNode) \<Rightarrow> nat option \<Rightarrow> nat list \<Rightarrow> nat option \<Rightarrow> bool" where
  "dseg N p [] q = True"
| "dseg N p (x # xs) q =
     (prv (N x) = p \<and> nxt (N x) = first_or xs q \<and> dseg N (Some x) xs q)"

lemma dseg_append:
  "dseg N p (xs @ ys) q \<longleftrightarrow> dseg N p xs (first_or ys q) \<and> dseg N (last_or p xs) ys q"
  by (induction xs arbitrary: p) (auto simp: first_or_append last_or_Cons)

lemma dseg_cong:
  "(\<And>x. x \<in> set xs \<Longrightarrow> prv (N x) = prv (M x) \<and> nxt (N x) = nxt (M x)) \<Longrightarrow>
     dseg N p xs q = dseg M p xs q"
  by (induction xs arbitrary: p) auto

lemma dseg_upd [simp]: "n \<notin> set xs \<Longrightarrow> dseg (N(n := x)) p xs q = dseg N p xs q"
  by (rule dseg_cong) auto

definition level_chain :: "(nat \<Rightarrow> lvNode) \<Rightarrow> priceLevel \<Rightarrow> nat list \<Rightarrow> bool" where
  "level_chain N L xs \<longleftrightarrow>
     dseg N None xs None \<and> distinct xs \<and> head L = first_or xs None \<and> tail L = last_or None xs \<and>
     lsize L = int (length xs)"

lemma level_chain_new [simp]:
  "level_chain N \<lparr>price = p, head = None, tail = None, lsize = 0\<rparr> []"
  by (simp add: level_chain_def)

lemma level_chain_cong:
  "level_chain N L xs \<Longrightarrow>
     (\<And>x. x \<in> set xs \<Longrightarrow> prv (N x) = prv (M x) \<and> nxt (N x) = nxt (M x)) \<Longrightarrow>
     head L' = head L \<Longrightarrow> tail L' = tail L \<Longrightarrow> lsize L' = lsize L \<Longrightarrow> level_chain M L' xs"
  using dseg_cong[of xs N M None None] by (simp add: level_chain_def)

lemma level_chain_empty: "level_chain N L xs \<Longrightarrow> lsize L = 0 \<longleftrightarrow> xs = []"
  by (simp add: level_chain_def)

lemma level_chain_head: "level_chain N L (x # xs) \<Longrightarrow> head L = Some x"
  by (simp add: level_chain_def)

text \<open>\<open>pushBack\<close> appends to the chain and touches no order.\<close>

lemma pushBack_chain:
  assumes "level_chain (nodes s) (levels s l) xs" and "n \<notin> set xs"
  shows "level_chain (nodes (pushBack l n s)) (levels (pushBack l n s) l) (xs @ [n])"
proof (cases xs rule: rev_cases)
  case Nil
  then show ?thesis using assms
    by (simp add: level_chain_def pushBack_def upd_node_def upd_level_def Let_def)
next
  case (snoc ys t)
  have d: "dseg (nodes s) None (ys @ [t]) None" "distinct (ys @ [t])"
    "tail (levels s l) = Some t" "head (levels s l) = first_or (ys @ [t]) None"
    "lsize (levels s l) = int (length ys) + 1"
    using assms snoc by (simp_all add: level_chain_def)
  let ?N = "nodes (pushBack l n s)"
  have N: "?N = (nodes s)(n := (nodes s n)\<lparr>prv := Some t, nxt := None\<rparr>,
    t := (nodes s t)\<lparr>nxt := Some n\<rparr>)"
    using assms(2) snoc d(3) by (auto simp: pushBack_def upd_node_def upd_level_def Let_def)
  have nt: "n \<noteq> t" "n \<notin> set ys" "t \<notin> set ys" using assms(2) snoc d(2) by auto
  have "dseg ?N None (ys @ [t, n]) None"
    using d(1) nt dseg_cong[of ys ?N "nodes s" None "Some t"] by (auto simp: N dseg_append)
  then show ?thesis
    using d nt snoc assms(2)
    by (simp add: level_chain_def pushBack_def upd_node_def upd_level_def Let_def first_or_append
        last_or_append last_or_Cons)
qed

lemma pushBack_frame:
  shows "m \<noteq> l \<Longrightarrow> levels (pushBack l n s) m = levels s m"
    and "order (nodes (pushBack l n s) x) = order (nodes s x)"
    and "lv (nodes (pushBack l n s) x) = lv (nodes s x)"
    and "side (nodes (pushBack l n s) x) = side (nodes s x)"
    and "price (levels (pushBack l n s) m) = price (levels s m)"
    and "x \<noteq> n \<Longrightarrow> Some x \<noteq> tail (levels s l) \<Longrightarrow> nodes (pushBack l n s) x = nodes s x"
    and "nextNode (pushBack l n s) = nextNode s" "nextLevel (pushBack l n s) = nextLevel s"
    and "store.more (pushBack l n s) = store.more s"
  by (auto simp: pushBack_def upd_node_def upd_level_def Let_def split: option.splits)

text \<open>\<open>remove\<close> cuts a node out of the middle of its chain.\<close>

lemma remove_chain:
  assumes "level_chain (nodes s) (levels s l) (xs @ n # ys)"
  shows "level_chain (nodes (remove_node l n s)) (levels (remove_node l n s) l) (xs @ ys)"
proof -
  have d: "dseg (nodes s) None xs (Some n)" "prv (nodes s n) = last_or None xs"
    "nxt (nodes s n) = first_or ys None" "dseg (nodes s) (Some n) ys None"
    "distinct (xs @ n # ys)" "head (levels s l) = first_or (xs @ n # ys) None"
    "tail (levels s l) = last_or None (xs @ n # ys)"
    "lsize (levels s l) = int (length xs + length ys) + 1"
    using assms by (simp_all add: level_chain_def dseg_append)
  let ?N = "nodes (remove_node l n s)"
  show ?thesis
  proof (cases xs rule: rev_cases)
    case x: Nil
    show ?thesis
    proof (cases ys)
      case Nil
      then show ?thesis using x d
        by (simp add: level_chain_def remove_node_def upd_node_def upd_level_def Let_def)
    next
      case (Cons q zs)
      have N: "?N = (nodes s)(q := (nodes s q)\<lparr>prv := None\<rparr>,
        n := (nodes s n)\<lparr>prv := None, nxt := None\<rparr>)"
        using d x Cons by (auto simp: remove_node_def upd_node_def upd_level_def Let_def)
      have "dseg ?N None ys None"
        using d x Cons by (simp add: N)
      then show ?thesis using d x Cons
        by (simp add: level_chain_def remove_node_def upd_node_def upd_level_def Let_def last_or_Cons)
    qed
  next
    case (snoc us p)
    show ?thesis
    proof (cases ys)
      case Nil
      have N: "?N = (nodes s)(p := (nodes s p)\<lparr>nxt := None\<rparr>,
        n := (nodes s n)\<lparr>prv := None, nxt := None\<rparr>)"
        using d snoc Nil by (auto simp: remove_node_def upd_node_def upd_level_def Let_def)
      have "dseg ?N None xs None"
        using d snoc Nil dseg_cong[of us ?N "nodes s" None "Some p"] by (auto simp: N dseg_append)
      then show ?thesis using d snoc Nil
        by (simp add: level_chain_def remove_node_def upd_node_def upd_level_def Let_def first_or_append)
    next
      case (Cons q zs)
      have N: "?N = (nodes s)(p := (nodes s p)\<lparr>nxt := Some q\<rparr>, q := (nodes s q)\<lparr>prv := Some p\<rparr>,
        n := (nodes s n)\<lparr>prv := None, nxt := None\<rparr>)"
        using d snoc Cons by (auto simp: remove_node_def upd_node_def upd_level_def Let_def)
      have "dseg ?N None us (Some p)"
        using d snoc Cons dseg_cong[of us ?N "nodes s" None "Some p"] by (auto simp: N dseg_append)
      moreover have "dseg ?N (Some q) zs None"
        using d snoc Cons dseg_cong[of zs ?N "nodes s" "Some q" None] by (auto simp: N)
      ultimately have "dseg ?N None (us @ [p] @ q # zs) None"
        using d snoc Cons by (auto simp: N dseg_append)
      then show ?thesis using d snoc Cons
        by (simp add: level_chain_def remove_node_def upd_node_def upd_level_def Let_def
            first_or_append last_or_append last_or_Cons)
    qed
  qed
qed

lemma remove_frame:
  shows "m \<noteq> l \<Longrightarrow> levels (remove_node l n s) m = levels s m"
    and "order (nodes (remove_node l n s) x) = order (nodes s x)"
    and "lv (nodes (remove_node l n s) x) = lv (nodes s x)"
    and "side (nodes (remove_node l n s) x) = side (nodes s x)"
    and "price (levels (remove_node l n s) m) = price (levels s m)"
    and "x \<noteq> n \<Longrightarrow> Some x \<noteq> prv (nodes s n) \<Longrightarrow> Some x \<noteq> nxt (nodes s n) \<Longrightarrow>
      nodes (remove_node l n s) x = nodes s x"
    and "nextNode (remove_node l n s) = nextNode s" "nextLevel (remove_node l n s) = nextLevel s"
    and "store.more (remove_node l n s) = store.more s"
  by (auto simp: remove_node_def upd_node_def upd_level_def Let_def split: option.splits)

subsection \<open>A level holding a queue of orders\<close>

definition level_ok :: "'a store_scheme \<Rightarrow> nat \<Rightarrow> int \<Rightarrow> uint8 \<Rightarrow> nat list \<Rightarrow> Order list \<Rightarrow> bool" where
  "level_ok s l p sd xs os \<longleftrightarrow>
     l < nextLevel s \<and> price (levels s l) = p \<and> level_chain (nodes s) (levels s l) xs \<and>
     (\<forall>n \<in> set xs. n < nextNode s \<and> lv (nodes s n) = Some l \<and> side (nodes s n) = sd) \<and>
     map (\<lambda>n. order (nodes s n)) xs = map Some os"

lemma level_ok_length: "level_ok s l p sd xs os \<Longrightarrow> length xs = length os"
  unfolding level_ok_def by (metis length_map)

lemma level_ok_empty: "level_ok s l p sd xs os \<Longrightarrow> level_empty l s \<longleftrightarrow> os = []"
  using level_ok_length[of s l p sd xs os] level_chain_empty[of "nodes s" "levels s l" xs]
  by (auto simp: level_ok_def level_empty_def)

lemma level_ok_node:
  "level_ok s l p sd xs os \<Longrightarrow> n \<in> set xs \<Longrightarrow>
     n < nextNode s \<and> lv (nodes s n) = Some l \<and> side (nodes s n) = sd \<and>
     (\<exists>a \<in> set os. order (nodes s n) = Some a)"
  unfolding level_ok_def by (metis (no_types, lifting) image_iff list.set_map)

lemma level_ok_order:
  "level_ok s l p sd xs os \<Longrightarrow> a \<in> set os \<Longrightarrow> \<exists>n \<in> set xs. order (nodes s n) = Some a"
  unfolding level_ok_def by (metis (no_types, lifting) image_iff list.set_map)

text \<open>
  A change \<open>confined\<close> to the level \<open>l\<close> touches no other level and only nodes of \<open>l\<close>, free nodes
  (without an order) and fresh ones.
\<close>

definition confined :: "nat \<Rightarrow> 'a store_scheme \<Rightarrow> 'a store_scheme \<Rightarrow> bool" where
  "confined l s s' \<longleftrightarrow>
     (\<forall>m. m \<noteq> l \<and> m < nextLevel s \<longrightarrow> levels s' m = levels s m) \<and>
     (\<forall>x. x < nextNode s \<and> order (nodes s x) \<noteq> None \<and> lv (nodes s x) \<noteq> Some l \<longrightarrow>
        nodes s' x = nodes s x) \<and>
     nextNode s \<le> nextNode s' \<and> nextLevel s \<le> nextLevel s'"

lemma level_ok_confined:
  assumes "level_ok s m p sd xs os" and "confined l s s'" and "m \<noteq> l"
  shows "level_ok s' m p sd xs os"
proof -
  have same: "nodes s' n = nodes s n" if "n \<in> set xs" for n
    using level_ok_node[OF assms(1) that] assms(2,3) by (auto simp: confined_def)
  have lvl: "levels s' m = levels s m" using assms by (simp add: confined_def level_ok_def)
  have "level_chain (nodes s') (levels s' m) xs"
    using assms(1) same lvl
    by (auto simp: level_ok_def intro: level_chain_cong[of "nodes s" "levels s m"])
  moreover have "map (\<lambda>n. order (nodes s' n)) xs = map (\<lambda>n. order (nodes s n)) xs"
    using same by simp
  ultimately show ?thesis
    using assms same lvl unfolding level_ok_def confined_def by fastforce
qed

lemma level_ok_push:
  assumes "level_ok s l p sd xs os" and "n \<notin> set xs" and "n < nextNode s"
    and "lv (nodes s n) = Some l" and "side (nodes s n) = sd" and "order (nodes s n) = Some a"
  shows "level_ok (pushBack l n s) l p sd (xs @ [n]) (os @ [a])"
  using assms pushBack_chain[of s l xs n] by (simp add: level_ok_def pushBack_frame)

lemma pushBack_confined:
  assumes "level_ok s l p sd xs os" and "lv (nodes s n) = Some l"
  shows "confined l s (pushBack l n s)"
proof -
  have "lv (nodes s t) = Some l" if "tail (levels s l) = Some t" for t
  proof -
    have "t \<in> set xs" using assms(1) that
      by (auto simp: level_ok_def level_chain_def last_or_def split: if_splits)
    then show ?thesis using level_ok_node[OF assms(1)] by blast
  qed
  then have "nodes (pushBack l n s) x = nodes s x" if "lv (nodes s x) \<noteq> Some l" for x
    using that assms(2) by (intro pushBack_frame(6)) auto
  then show ?thesis by (simp add: confined_def pushBack_frame)
qed

lemma level_ok_remove:
  assumes "level_ok s l p sd (xs @ n # ys) (os @ a # os')" and "length os = length xs"
  shows "level_ok (remove_node l n s) l p sd (xs @ ys) (os @ os')"
  using assms remove_chain[of s l xs n ys] by (auto simp: level_ok_def remove_frame)

lemma chain_neighbour:
  "dseg N p xs q \<Longrightarrow> n \<in> set xs \<Longrightarrow> prv (N n) = Some m \<Longrightarrow> p = None \<Longrightarrow> m \<in> set xs"
  "dseg N p xs q \<Longrightarrow> n \<in> set xs \<Longrightarrow> nxt (N n) = Some m \<Longrightarrow> q = None \<Longrightarrow> m \<in> set xs"
proof -
  assume d: "dseg N p xs q" and n: "n \<in> set xs"
  obtain us vs where xs: "xs = us @ n # vs" using n by (meson split_list)
  have *: "prv (N n) = last_or p us" "nxt (N n) = first_or vs q" using d xs by (simp_all add: dseg_append)
  show "prv (N n) = Some m \<Longrightarrow> p = None \<Longrightarrow> m \<in> set xs"
    using * xs by (auto simp: last_or_def split: if_splits)
  show "nxt (N n) = Some m \<Longrightarrow> q = None \<Longrightarrow> m \<in> set xs"
    using * xs by (cases vs) auto
qed

lemma remove_confined:
  assumes "level_ok s l p sd xs os" and "n \<in> set xs"
  shows "confined l s (remove_node l n s)"
proof -
  have d: "dseg (nodes s) None xs None" using assms(1) by (simp add: level_ok_def level_chain_def)
  have "lv (nodes s m) = Some l" if "prv (nodes s n) = Some m \<or> nxt (nodes s n) = Some m \<or> m = n" for m
    using chain_neighbour[OF d assms(2)] that level_ok_node[OF assms(1)] assms(2) by blast
  then have "nodes (remove_node l n s) x = nodes s x" if "lv (nodes s x) \<noteq> Some l" for x
    using that by (intro remove_frame(6)) metis+
  then show ?thesis by (simp add: confined_def remove_frame)
qed

lemma level_ok_set_order:
  assumes "level_ok s l p sd (n # xs) (a # os)"
  shows "level_ok (upd_node n (\<lambda>x. x\<lparr>order := Some a'\<rparr>) s) l p sd (n # xs) (a' # os)"
proof -
  let ?N = "(nodes s)(n := nodes s n\<lparr>order := Some a'\<rparr>)"
  have c: "level_chain (nodes s) (levels s l) (n # xs)" using assms by (simp add: level_ok_def)
  have "level_chain ?N (levels s l) (n # xs)"
    by (rule level_chain_cong[OF c]) simp_all
  moreover have nx: "n \<notin> set xs" using c by (simp add: level_chain_def)
  moreover have "map (\<lambda>m. order (?N m)) xs = map Some os"
  proof -
    have "map (\<lambda>m. order (?N m)) xs = map (\<lambda>m. order (nodes s m)) xs"
      using nx by (intro map_cong) auto
    also have "\<dots> = map Some os" using assms by (simp add: level_ok_def)
    finally show ?thesis .
  qed
  ultimately show ?thesis using assms by (simp add: level_ok_def upd_node_def)
qed

lemma confined_upd_node:
  "lv (nodes s n) = Some l \<or> order (nodes s n) = None \<Longrightarrow> confined l s (upd_node n f s)"
  by (auto simp: confined_def upd_node_def)

text \<open>What lies outside the store's four fields does not matter to a level.\<close>

lemma level_ok_same:
  assumes "level_ok s l p sd xs os" and "levels s' l = levels s l"
    and "\<And>n. n \<in> set xs \<Longrightarrow> nodes s' n = nodes s n"
    and "nextNode s \<le> nextNode s'" and "nextLevel s \<le> nextLevel s'"
  shows "level_ok s' l p sd xs os"
proof -
  have "level_chain (nodes s) (levels s l) xs" using assms(1) by (simp add: level_ok_def)
  then have "level_chain (nodes s') (levels s l) xs"
    by (rule level_chain_cong) (simp_all add: assms(3))
  moreover have "map (\<lambda>n. order (nodes s' n)) xs = map (\<lambda>n. order (nodes s n)) xs"
    by (intro map_cong) (simp_all add: assms(3))
  ultimately show ?thesis using assms unfolding level_ok_def by auto
qed

end
