(* ===== verification/Go_Heap.thy ===== *)
theory Go_Heap
  imports Go_Prelude
begin

text \<open>
  The price heaps of \<^verbatim>\<open>internal/matching/heap_price.go\<close> and the operations of Go's
  \<^verbatim>\<open>container/heap\<close> that the order book applies to them. An implementation of
  \<^verbatim>\<open>heap.Interface\<close> is a record of its five methods; the heap algorithms take such a record,
  as the library takes the interface.
\<close>

subsection \<open>heap.Interface and the library's algorithms\<close>

record ('h, 'a) heap_interface =
  hLen :: "'h \<Rightarrow> nat"
  hLess :: "'h \<Rightarrow> nat \<Rightarrow> nat \<Rightarrow> bool"
  hSwap :: "'h \<Rightarrow> nat \<Rightarrow> nat \<Rightarrow> 'h"
  hPush :: "'h \<Rightarrow> 'a \<Rightarrow> 'h"
  hPop :: "'h \<Rightarrow> ('a \<times> 'h) go"

function heap_up :: "('h, 'a) heap_interface \<Rightarrow> 'h \<Rightarrow> nat \<Rightarrow> 'h" where
  "heap_up I h j =
     (let i = (j - 1) div 2
      in if i = j \<or> \<not> hLess I h j i then h else heap_up I (hSwap I h i j) i)"
  by pat_completeness auto
termination
  by (relation "measure (\<lambda>(I, h, j). j)") auto

function heap_down :: "('h, 'a) heap_interface \<Rightarrow> 'h \<Rightarrow> nat \<Rightarrow> nat \<Rightarrow> 'h" where
  "heap_down I h i n =
     (let j1 = 2 * i + 1
      in if n \<le> j1 then h
         else let j = (if j1 + 1 < n \<and> hLess I h (j1 + 1) j1 then j1 + 1 else j1)
              in if \<not> hLess I h j i then h else heap_down I (hSwap I h i j) j n)"
  by pat_completeness auto
termination
  by (relation "measure (\<lambda>(I, h, i, n). n - i)") (auto split: if_splits)

declare heap_up.simps [simp del] heap_down.simps [simp del]

definition heap_Push :: "('h, 'a) heap_interface \<Rightarrow> 'h \<Rightarrow> 'a \<Rightarrow> 'h" where
  "heap_Push I h x = (let h' = hPush I h x in heap_up I h' (hLen I h' - 1))"

definition heap_Pop :: "('h, 'a) heap_interface \<Rightarrow> 'h \<Rightarrow> ('a \<times> 'h) go" where
  "heap_Pop I h =
     (if hLen I h = 0 then Panic
      else let n = hLen I h - 1
           in hPop I (heap_down I (hSwap I h 0 n) 0 n))"

fun heap_Init_from :: "('h, 'a) heap_interface \<Rightarrow> 'h \<Rightarrow> nat \<Rightarrow> nat \<Rightarrow> 'h" where
  "heap_Init_from I h n 0 = h"
| "heap_Init_from I h n (Suc i) = heap_Init_from I (heap_down I h i n) n i"

definition heap_Init :: "('h, 'a) heap_interface \<Rightarrow> 'h \<Rightarrow> 'h" where
  "heap_Init I h = heap_Init_from I h (hLen I h) (hLen I h div 2)"

subsection \<open>The two price heaps\<close>

type_synonym minPriceHeap = "int list"
type_synonym maxPriceHeap = "int list"

definition minPriceHeap_Len :: "minPriceHeap \<Rightarrow> nat" where
  "minPriceHeap_Len m = length m"

definition minPriceHeap_Less :: "minPriceHeap \<Rightarrow> nat \<Rightarrow> nat \<Rightarrow> bool" where
  "minPriceHeap_Less m i j \<longleftrightarrow> m ! i < m ! j"

definition minPriceHeap_Swap :: "minPriceHeap \<Rightarrow> nat \<Rightarrow> nat \<Rightarrow> minPriceHeap" where
  "minPriceHeap_Swap m i j = m[i := m ! j, j := m ! i]"

definition minPriceHeap_Push :: "minPriceHeap \<Rightarrow> int \<Rightarrow> minPriceHeap" where
  "minPriceHeap_Push m x = m @ [x]"

definition minPriceHeap_Pop :: "minPriceHeap \<Rightarrow> (int \<times> minPriceHeap) go" where
  "minPriceHeap_Pop m =
     (if m = [] then Panic
      else let n = length m in Ret (m ! (n - 1), take (n - 1) m))"

definition maxPriceHeap_Len :: "maxPriceHeap \<Rightarrow> nat" where
  "maxPriceHeap_Len m = length m"

definition maxPriceHeap_Less :: "maxPriceHeap \<Rightarrow> nat \<Rightarrow> nat \<Rightarrow> bool" where
  "maxPriceHeap_Less m i j \<longleftrightarrow> m ! i > m ! j"

definition maxPriceHeap_Swap :: "maxPriceHeap \<Rightarrow> nat \<Rightarrow> nat \<Rightarrow> maxPriceHeap" where
  "maxPriceHeap_Swap m i j = m[i := m ! j, j := m ! i]"

definition maxPriceHeap_Push :: "maxPriceHeap \<Rightarrow> int \<Rightarrow> maxPriceHeap" where
  "maxPriceHeap_Push m x = m @ [x]"

definition maxPriceHeap_Pop :: "maxPriceHeap \<Rightarrow> (int \<times> maxPriceHeap) go" where
  "maxPriceHeap_Pop m =
     (if m = [] then Panic
      else let n = length m in Ret (m ! (n - 1), take (n - 1) m))"

definition minH :: "(minPriceHeap, int) heap_interface" where
  "minH = \<lparr>hLen = minPriceHeap_Len, hLess = minPriceHeap_Less, hSwap = minPriceHeap_Swap,
           hPush = minPriceHeap_Push, hPop = minPriceHeap_Pop\<rparr>"

definition maxH :: "(maxPriceHeap, int) heap_interface" where
  "maxH = \<lparr>hLen = maxPriceHeap_Len, hLess = maxPriceHeap_Less, hSwap = maxPriceHeap_Swap,
           hPush = maxPriceHeap_Push, hPop = maxPriceHeap_Pop\<rparr>"

subsection \<open>What the heap algorithms guarantee\<close>

text \<open>The parent of a position in the implicit tree.\<close>

definition parent :: "nat \<Rightarrow> nat" where
  "parent k = (k - 1) div 2"

lemma parent_less: "0 < k \<Longrightarrow> parent k < k"
  unfolding parent_def by presburger

lemma parent_le: "parent k \<le> k"
  unfolding parent_def by presburger

lemma parent_fix: "parent k = k \<longleftrightarrow> k = 0"
  unfolding parent_def by presburger

lemma parent_child: "0 < k \<Longrightarrow> parent k = i \<longleftrightarrow> k = 2 * i + 1 \<or> k = 2 * i + 2"
  unfolding parent_def by presburger

lemma parent_bound: "k < n \<Longrightarrow> parent k < n"
  using parent_le [of k] by simp

definition is_heap :: "('a \<Rightarrow> 'a \<Rightarrow> bool) \<Rightarrow> 'a list \<Rightarrow> bool" where
  "is_heap lt h \<longleftrightarrow> (\<forall>k. 0 < k \<and> k < length h \<longrightarrow> \<not> lt (h ! k) (h ! parent k))"

text \<open>
  The contract of an array heap: its methods read and permute a list, and its order is a
  strict total order. The laws of \<open>heap_Push\<close> and \<open>heap_Pop\<close> are proved once, here.
\<close>

locale array_heap =
  fixes I :: "('a list, 'a) heap_interface"
    and lt :: "'a \<Rightarrow> 'a \<Rightarrow> bool"
  assumes Len: "hLen I h = length h"
    and Less: "hLess I h i j \<longleftrightarrow> lt (h ! i) (h ! j)"
    and Swap: "hSwap I h i j = h[i := h ! j, j := h ! i]"
    and Push: "hPush I h x = h @ [x]"
    and Pop: "h \<noteq> [] \<Longrightarrow> hPop I h = Ret (last h, butlast h)"
    and lt_irrefl: "\<not> lt x x"
    and lt_trans: "lt x y \<Longrightarrow> lt y z \<Longrightarrow> lt x z"
    and lt_total: "lt x y \<or> x = y \<or> lt y x"
begin

lemma not_lt_trans: "\<not> lt x y \<Longrightarrow> \<not> lt y z \<Longrightarrow> \<not> lt x z"
  using lt_trans lt_total lt_irrefl by metis

lemma lt_not_lt: "lt x y \<Longrightarrow> \<not> lt y x"
  using lt_trans lt_irrefl by blast

lemma heap_up_eq:
  "heap_up I h j =
     (if parent j = j \<or> \<not> lt (h ! j) (h ! parent j) then h
      else heap_up I (h[parent j := h ! j, j := h ! parent j]) (parent j))"
  by (subst heap_up.simps) (simp only: Let_def Less Swap parent_def)

lemma length_up: "length (heap_up I h j) = length h"
proof (induction j arbitrary: h rule: less_induct)
  case (less j)
  then show ?case
    by (subst heap_up_eq) (simp add: parent_fix parent_less)
qed

lemma mset_up: "j < length h \<Longrightarrow> mset (heap_up I h j) = mset h"
proof (induction j arbitrary: h rule: less_induct)
  case (less j)
  then show ?case
    by (subst heap_up_eq) (simp add: parent_fix parent_less mset_list_swap parent_bound)
qed

text \<open>
  \<open>up_inv h j\<close>: the heap order holds except between \<open>j\<close> and its parent, and the children of
  \<open>j\<close> are already ordered with respect to that parent.
\<close>

definition up_inv :: "'a list \<Rightarrow> nat \<Rightarrow> bool" where
  "up_inv h j \<longleftrightarrow>
     (\<forall>k. 0 < k \<and> k < length h \<and> k \<noteq> j \<longrightarrow> \<not> lt (h ! k) (h ! parent k)) \<and>
     (\<forall>k. 0 < j \<and> k < length h \<and> 0 < k \<and> parent k = j \<longrightarrow> \<not> lt (h ! k) (h ! parent j))"

lemma up_invD1: "up_inv h j \<Longrightarrow> 0 < k \<Longrightarrow> k < length h \<Longrightarrow> k \<noteq> j \<Longrightarrow> \<not> lt (h ! k) (h ! parent k)"
  by (simp add: up_inv_def)

lemma up_invD2:
  "up_inv h j \<Longrightarrow> 0 < j \<Longrightarrow> 0 < k \<Longrightarrow> k < length h \<Longrightarrow> parent k = j \<Longrightarrow> \<not> lt (h ! k) (h ! parent j)"
  by (simp add: up_inv_def)

lemma up_inv_step:
  assumes inv: "up_inv h j" and j: "j < length h" "0 < j" and ij: "i = parent j"
    and l: "lt (h ! j) (h ! i)"
  shows "up_inv (h[i := h ! j, j := h ! i]) i"
proof -
  let ?h = "h[i := h ! j, j := h ! i]"
  have i: "i < j" "i < length h" using j ij parent_less parent_bound by auto
  have nth: "?h ! k = (if k = j then h ! i else if k = i then h ! j else h ! k)" for k
    using j i by (simp add: nth_list_update)
  have A: "\<not> lt (?h ! k) (?h ! parent k)" if k: "0 < k" "k < length h" "k \<noteq> i" for k
  proof -
    have pk: "k \<noteq> j \<Longrightarrow> \<not> lt (h ! k) (h ! parent k)" using inv k(1,2) by (rule up_invD1)
    consider (a) "k = j" | (b) "k \<noteq> j" "parent k = j" | (c) "k \<noteq> j" "parent k = i"
      | (d) "k \<noteq> j" "parent k \<noteq> j" "parent k \<noteq> i" by blast
    then show ?thesis
    proof cases
      case a
      then show ?thesis using lt_not_lt[OF l] i by (simp add: nth ij[symmetric])
    next
      case b
      then show ?thesis using up_invD2[OF inv j(2) k(1,2)] k by (simp add: nth ij[symmetric])
    next
      case c
      then have "\<not> lt (h ! k) (h ! j)" using pk l lt_trans by metis
      then show ?thesis using c k i by (simp add: nth)
    next
      case d
      then show ?thesis using pk k by (simp add: nth)
    qed
  qed
  have B: "\<not> lt (?h ! k) (?h ! parent i)"
    if k: "0 < i" "k < length h" "0 < k" "parent k = i" for k
  proof -
    have ki: "k \<noteq> i" using k parent_less[of k] by auto
    have p: "parent i < i" using k(1) by (rule parent_less)
    have top: "\<not> lt (h ! i) (h ! parent i)"
      using up_invD1[OF inv k(1)] i by simp
    show ?thesis
    proof (cases "k = j")
      case True
      then show ?thesis using top p i by (simp add: nth)
    next
      case False
      then have "\<not> lt (h ! k) (h ! i)" using up_invD1[OF inv k(3,2)] k by simp
      then have "\<not> lt (h ! k) (h ! parent i)" using top by (rule not_lt_trans)
      then show ?thesis using False p i ki by (simp add: nth)
    qed
  qed
  show ?thesis unfolding up_inv_def using A B by simp
qed

lemma is_heap_up: "j < length h \<Longrightarrow> up_inv h j \<Longrightarrow> is_heap lt (heap_up I h j)"
proof (induction j arbitrary: h rule: less_induct)
  case (less j)
  show ?case
  proof (cases "parent j = j \<or> \<not> lt (h ! j) (h ! parent j)")
    case True
    then have "\<not> lt (h ! j) (h ! parent j)" using lt_irrefl by auto
    then have "is_heap lt h" using less.prems(2) by (auto simp: is_heap_def up_inv_def)
    then show ?thesis using True by (subst heap_up_eq) simp
  next
    case False
    then have j0: "0 < j" using parent_fix by auto
    have "up_inv (h[parent j := h ! j, j := h ! parent j]) (parent j)"
      using up_inv_step[OF less.prems(2,1) j0 refl] False by simp
    then have "is_heap lt (heap_up I (h[parent j := h ! j, j := h ! parent j]) (parent j))"
      using less.IH[OF parent_less[OF j0]] less.prems(1) parent_bound by simp
    then show ?thesis using False by (subst heap_up_eq) simp
  qed
qed

lemma heap_Push_length: "length (heap_Push I h x) = Suc (length h)"
  by (simp add: heap_Push_def Push Len length_up Let_def)

lemma heap_Push_mset: "mset (heap_Push I h x) = add_mset x (mset h)"
  by (simp add: heap_Push_def Push Len mset_up Let_def)

lemma heap_Push_set: "set (heap_Push I h x) = insert x (set h)"
  by (metis heap_Push_mset set_mset_add_mset_insert set_mset_mset)

lemma heap_Push_is_heap:
  assumes "is_heap lt h" shows "is_heap lt (heap_Push I h x)"
proof -
  have "up_inv (h @ [x]) (length h)"
    unfolding up_inv_def
  proof (intro conjI allI impI)
    fix k assume k: "0 < k \<and> k < length (h @ [x]) \<and> k \<noteq> length h"
    then have "parent k < length h" using parent_bound[of k] by simp
    then show "\<not> lt ((h @ [x]) ! k) ((h @ [x]) ! parent k)"
      using k assms by (simp add: is_heap_def nth_append)
  next
    fix k assume k: "0 < length h \<and> k < length (h @ [x]) \<and> 0 < k \<and> parent k = length h"
    then show "\<not> lt ((h @ [x]) ! k) ((h @ [x]) ! parent (length h))"
      using parent_less[of k] by simp
  qed
  then show ?thesis by (simp add: heap_Push_def Push Len Let_def is_heap_up)
qed

text \<open>The child that \<open>heap_down\<close> compares with its parent: the smaller of the two.\<close>

definition min_child :: "'a list \<Rightarrow> nat \<Rightarrow> nat \<Rightarrow> nat" where
  "min_child h i n =
     (if 2 * i + 2 < n \<and> lt (h ! (2 * i + 2)) (h ! (2 * i + 1)) then 2 * i + 2 else 2 * i + 1)"

lemma min_child_bounds:
  "2 * i + 1 < n \<Longrightarrow> i < min_child h i n \<and> min_child h i n < n \<and> 0 < min_child h i n"
  by (simp add: min_child_def)

lemma parent_min_child: "parent (min_child h i n) = i"
  by (simp add: min_child_def parent_child)

lemma min_child_least:
  assumes "0 < k" "k < n" "parent k = i"
  shows "\<not> lt (h ! k) (h ! min_child h i n)"
proof -
  have k: "k = 2 * i + 1 \<or> k = 2 * i + 2" using assms parent_child by blast
  then show ?thesis using assms lt_irrefl lt_not_lt by (auto simp: min_child_def)
qed

lemma heap_down_eq:
  "heap_down I h i n =
     (if n \<le> 2 * i + 1 \<or> \<not> lt (h ! min_child h i n) (h ! i) then h
      else heap_down I (h[i := h ! min_child h i n, min_child h i n := h ! i]) (min_child h i n) n)"
  by (subst heap_down.simps) (simp add: Let_def Less Swap min_child_def)

lemma heap_down_frame:
  "n \<le> length h \<Longrightarrow> length (heap_down I h i n) = length h \<and> mset (heap_down I h i n) = mset h \<and>
     (\<forall>k. n \<le> k \<longrightarrow> heap_down I h i n ! k = h ! k)"
proof (induction "n - i" arbitrary: h i rule: less_induct)
  case less
  let ?j = "min_child h i n"
  show ?case
  proof (cases "n \<le> 2 * i + 1 \<or> \<not> lt (h ! ?j) (h ! i)")
    case True
    then show ?thesis by (subst (1 2 3) heap_down_eq) simp
  next
    case False
    then have j: "i < ?j" "?j < n" using min_child_bounds[of i n h] by auto
    let ?h = "h[i := h ! ?j, ?j := h ! i]"
    have "length (heap_down I ?h ?j n) = length ?h \<and> mset (heap_down I ?h ?j n) = mset ?h \<and>
       (\<forall>k. n \<le> k \<longrightarrow> heap_down I ?h ?j n ! k = ?h ! k)"
      using j less.prems by (intro less.hyps) auto
    moreover have "mset ?h = mset h"
      using j less.prems by (simp add: mset_list_swap)
    moreover have "heap_down I h i n = heap_down I ?h ?j n"
      using False by (subst heap_down_eq) simp
    ultimately show ?thesis using j by simp
  qed
qed

definition heap_upto :: "'a list \<Rightarrow> nat \<Rightarrow> bool" where
  "heap_upto h n \<longleftrightarrow> (\<forall>k. 0 < k \<and> k < n \<longrightarrow> \<not> lt (h ! k) (h ! parent k))"

text \<open>
  \<open>down_inv h i n\<close>: the first \<open>n\<close> positions are heap ordered except between \<open>i\<close> and its
  children, which are already ordered with respect to the parent of \<open>i\<close>.
\<close>

definition down_inv :: "'a list \<Rightarrow> nat \<Rightarrow> nat \<Rightarrow> bool" where
  "down_inv h i n \<longleftrightarrow>
     (\<forall>k. 0 < k \<and> k < n \<and> parent k \<noteq> i \<longrightarrow> \<not> lt (h ! k) (h ! parent k)) \<and>
     (\<forall>k. 0 < i \<and> k < n \<and> 0 < k \<and> parent k = i \<longrightarrow> \<not> lt (h ! k) (h ! parent i))"

lemma down_invD1:
  "down_inv h i n \<Longrightarrow> 0 < k \<Longrightarrow> k < n \<Longrightarrow> parent k \<noteq> i \<Longrightarrow> \<not> lt (h ! k) (h ! parent k)"
  by (simp add: down_inv_def)

lemma down_invD2:
  "down_inv h i n \<Longrightarrow> 0 < i \<Longrightarrow> 0 < k \<Longrightarrow> k < n \<Longrightarrow> parent k = i \<Longrightarrow> \<not> lt (h ! k) (h ! parent i)"
  by (simp add: down_inv_def)

lemma down_inv_step:
  assumes inv: "down_inv h i n" and n: "n \<le> length h" "2 * i + 1 < n"
    and jj: "j = min_child h i n" and l: "lt (h ! j) (h ! i)"
  shows "down_inv (h[i := h ! j, j := h ! i]) j n"
proof -
  let ?h = "h[i := h ! j, j := h ! i]"
  have j: "i < j" "j < n" "0 < j" "parent j = i"
    using min_child_bounds[OF n(2)] parent_min_child jj by auto
  have nth: "?h ! k = (if k = j then h ! i else if k = i then h ! j else h ! k)" for k
    using j n by (simp add: nth_list_update)
  have A: "\<not> lt (?h ! k) (?h ! parent k)" if k: "0 < k" "k < n" "parent k \<noteq> j" for k
  proof -
    consider (a) "k = j" | (b) "k \<noteq> j" "parent k = i"
      | (c) "k = i" "parent k \<noteq> i" | (d) "k \<noteq> j" "k \<noteq> i" "parent k \<noteq> i" by blast
    then show ?thesis
    proof cases
      case a
      then show ?thesis using lt_not_lt[OF l] j by (simp add: nth)
    next
      case b
      then have "\<not> lt (h ! k) (h ! j)" using min_child_least[OF k(1,2) b(2)] jj by simp
      moreover have "k \<noteq> i" using b parent_less[OF k(1)] by auto
      ultimately show ?thesis using b j by (simp add: nth)
    next
      case c
      then have "\<not> lt (h ! j) (h ! parent i)" using down_invD2[OF inv _ j(3,2,4)] k by simp
      then show ?thesis using c k j by (simp add: nth)
    next
      case d
      then have "\<not> lt (h ! k) (h ! parent k)" using down_invD1[OF inv k(1,2)] by simp
      then show ?thesis using d k by (simp add: nth)
    qed
  qed
  have B: "\<not> lt (?h ! k) (?h ! parent j)" if k: "k < n" "0 < k" "parent k = j" for k
  proof -
    have "k \<noteq> j" "k \<noteq> i" using k parent_less[OF k(2)] j by auto
    moreover have "\<not> lt (h ! k) (h ! j)" using down_invD1[OF inv k(2,1)] k j by simp
    ultimately show ?thesis using j by (simp add: nth)
  qed
  show ?thesis unfolding down_inv_def using A B by blast
qed

lemma heap_upto_down:
  "n \<le> length h \<Longrightarrow> down_inv h i n \<Longrightarrow> heap_upto (heap_down I h i n) n"
proof (induction "n - i" arbitrary: h i rule: less_induct)
  case less
  let ?j = "min_child h i n"
  show ?case
  proof (cases "n \<le> 2 * i + 1 \<or> \<not> lt (h ! ?j) (h ! i)")
    case True
    have "\<not> lt (h ! k) (h ! parent k)" if k: "0 < k" "k < n" for k
    proof (cases "parent k = i")
      case False
      then show ?thesis using down_invD1[OF less.prems(2) k] by simp
    next
      case p: True
      then have "2 * i + 1 < n" using k parent_child[of k i] by auto
      then have "\<not> lt (h ! ?j) (h ! i)" using True by simp
      with min_child_least[OF k p, of h] have "\<not> lt (h ! k) (h ! i)" by (rule not_lt_trans)
      then show ?thesis using p by simp
    qed
    then have "heap_upto h n" by (simp add: heap_upto_def)
    then show ?thesis using True by (subst heap_down_eq) simp
  next
    case False
    then have j: "i < ?j" "?j < n" and n: "2 * i + 1 < n" using min_child_bounds[of i n h] by auto
    let ?h = "h[i := h ! ?j, ?j := h ! i]"
    have "down_inv ?h ?j n"
      using down_inv_step[OF less.prems(2,1) n refl] False by simp
    then have "heap_upto (heap_down I ?h ?j n) n"
      using j less.prems by (intro less.hyps) auto
    then show ?thesis using False by (subst heap_down_eq) simp
  qed
qed

lemma heap_Pop_Ret:
  assumes "h \<noteq> []" and "is_heap lt h"
  obtains h' where "heap_Pop I h = Ret (hd h, h')"
    and "mset h = add_mset (hd h) (mset h')" and "is_heap lt h'"
proof -
  let ?n = "length h - 1"
  let ?s = "h[0 := h ! ?n, ?n := h ! 0]"
  let ?d = "heap_down I ?s 0 ?n"
  have len: "length h = Suc ?n" using assms(1) by (cases h) auto
  have ms: "mset ?s = mset h" using assms(1) by (intro mset_list_swap) auto
  have fr: "length ?d = length h" "mset ?d = mset h" "?d ! ?n = h ! 0"
    using heap_down_frame[of ?n ?s 0] ms len by (auto simp: nth_list_update)
  have ne: "?d \<noteq> []" using fr(1) len by (metis list.size(3) nat.distinct(1))
  have "down_inv ?s 0 ?n"
    unfolding down_inv_def
  proof (intro conjI allI impI)
    fix k assume k: "0 < k \<and> k < ?n \<and> parent k \<noteq> 0"
    then have "\<not> lt (h ! k) (h ! parent k)" using assms(2) by (auto simp: is_heap_def)
    then show "\<not> lt (?s ! k) (?s ! parent k)"
      using k len parent_bound[of k ?n] by (simp add: nth_list_update)
  qed simp
  then have up: "heap_upto ?d ?n" using heap_upto_down[of ?n ?s 0] by simp
  have bl: "butlast ?d = take ?n ?d" using fr by (simp add: butlast_conv_take)
  have l: "last ?d = hd h"
    using ne fr assms(1) by (simp add: last_conv_nth hd_conv_nth)
  have "heap_Pop I h = Ret (hd h, butlast ?d)"
    using ne l assms(1) by (simp add: heap_Pop_def Len Swap Pop Let_def)
  moreover have "mset h = add_mset (hd h) (mset (butlast ?d))"
    using fr(2) l ne by (metis append_butlast_last_id mset.simps(2) mset_append
        add_mset_add_single mset.simps(1))
  moreover have "is_heap lt (butlast ?d)"
    using up fr parent_bound unfolding bl is_heap_def heap_upto_def by auto
  ultimately show ?thesis by (rule that)
qed

lemma is_heap_hd_least:
  assumes "is_heap lt h" and "k < length h"
  shows "\<not> lt (h ! k) (h ! 0)"
  using assms(2)
proof (induction k rule: less_induct)
  case (less k)
  show ?case
  proof (cases "k = 0")
    case True then show ?thesis using lt_irrefl by simp
  next
    case False
    then have "\<not> lt (h ! k) (h ! parent k)" using assms(1) less.prems by (simp add: is_heap_def)
    moreover have "\<not> lt (h ! parent k) (h ! 0)"
      using False less parent_less parent_bound by blast
    ultimately show ?thesis by (rule not_lt_trans)
  qed
qed

lemma is_heap_least: "is_heap lt h \<Longrightarrow> x \<in> set h \<Longrightarrow> \<not> lt x (h ! 0)"
  using is_heap_hd_least by (metis in_set_conv_nth)

lemma is_heap_Nil: "is_heap lt []"
  by (simp add: is_heap_def)

lemma heap_Init_Nil: "heap_Init I [] = []"
  by (simp add: heap_Init_def Len)

end

text \<open>Both price heaps meet the contract: the ask heap under \<open><\<close>, the bid heap under \<open>>\<close>.\<close>

interpretation askHeap: array_heap minH "(<) :: int \<Rightarrow> int \<Rightarrow> bool"
  by unfold_locales
    (auto simp: minH_def minPriceHeap_Len_def minPriceHeap_Less_def minPriceHeap_Swap_def
      minPriceHeap_Push_def minPriceHeap_Pop_def last_conv_nth butlast_conv_take Let_def)

interpretation bidHeap: array_heap maxH "(>) :: int \<Rightarrow> int \<Rightarrow> bool"
  by unfold_locales
    (auto simp: maxH_def maxPriceHeap_Len_def maxPriceHeap_Less_def maxPriceHeap_Swap_def
      maxPriceHeap_Push_def maxPriceHeap_Pop_def last_conv_nth butlast_conv_take Let_def)

end
