(* ===== verification/Heap_Book.thy ===== *)
theory Heap_Book
  imports Level_List Go_Heap
begin

text \<open>
  \<^verbatim>\<open>internal/matching/levell_book_heap.go\<close>: the order book the engine runs. Price levels
  sit in two maps, the best prices in two heaps that are cleaned lazily, and list nodes are
  recycled through a pool (a stack of free addresses here: which free node \<open>Get\<close> hands out does
  not matter to any property). \<open>emit\<close> callbacks act on a state of the caller's choice.
\<close>

subsection \<open>The book\<close>

type_synonym lvNodeHeap = lvNode
type_synonym priceLevelHeap = priceLevel

record LevelOrderBookHeap = store +
  hAsks :: "int \<rightharpoonup> nat"
  hBids :: "int \<rightharpoonup> nat"
  hByID :: "uint64 \<rightharpoonup> nat"
  askH :: minPriceHeap
  bidH :: maxPriceHeap
  lvNodePool :: "nat list"

definition NewLevelOrderHeapBook :: LevelOrderBookHeap where
  "NewLevelOrderHeapBook =
     store.extend empty_store
       \<lparr>hAsks = (\<lambda>_. None), hBids = (\<lambda>_. None), hByID = (\<lambda>_. None),
        askH = heap_Init minH [], bidH = heap_Init maxH [], lvNodePool = []\<rparr>"

text \<open>The list operations of this file, written as there; they are those of the level book.\<close>

definition heap_pushBack :: "nat \<Rightarrow> nat \<Rightarrow> LevelOrderBookHeap \<Rightarrow> LevelOrderBookHeap" where
  "heap_pushBack l n s =
     (let s1 = upd_node n (\<lambda>x. x\<lparr>prv := tail (levels s l), nxt := None\<rparr>) s;
          s2 = (case tail (levels s1 l) of
                  Some t \<Rightarrow> upd_node t (\<lambda>x. x\<lparr>nxt := Some n\<rparr>) s1
                | None \<Rightarrow> upd_level l (\<lambda>x. x\<lparr>head := Some n\<rparr>) s1);
          s3 = upd_level l (\<lambda>x. x\<lparr>tail := Some n\<rparr>) s2
      in upd_level l (\<lambda>x. x\<lparr>lsize := lsize x + 1\<rparr>) s3)"

definition heap_remove :: "nat \<Rightarrow> nat \<Rightarrow> LevelOrderBookHeap \<Rightarrow> LevelOrderBookHeap" where
  "heap_remove l n s =
     (let s1 = (case prv (nodes s n) of
                  Some p \<Rightarrow> upd_node p (\<lambda>x. x\<lparr>nxt := nxt (nodes s n)\<rparr>) s
                | None \<Rightarrow> upd_level l (\<lambda>x. x\<lparr>head := nxt (nodes s n)\<rparr>) s);
          s2 = (case nxt (nodes s1 n) of
                  Some q \<Rightarrow> upd_node q (\<lambda>x. x\<lparr>prv := prv (nodes s1 n)\<rparr>) s1
                | None \<Rightarrow> upd_level l (\<lambda>x. x\<lparr>tail := prv (nodes s1 n)\<rparr>) s1);
          s3 = upd_node n (\<lambda>x. x\<lparr>prv := None, nxt := None\<rparr>) s2
      in upd_level l (\<lambda>x. x\<lparr>lsize := lsize x - 1\<rparr>) s3)"

definition heap_level_empty :: "nat \<Rightarrow> LevelOrderBookHeap \<Rightarrow> bool" where
  "heap_level_empty l s \<longleftrightarrow> lsize (levels s l) = 0"

lemma heap_list_ops [simp]:
  "heap_pushBack = pushBack" "heap_remove = remove_node" "heap_level_empty = level_empty"
  by (simp_all add: fun_eq_iff heap_pushBack_def pushBack_def heap_remove_def remove_node_def
      heap_level_empty_def level_empty_def)

definition getNode :: "Order \<Rightarrow> nat \<Rightarrow> uint8 \<Rightarrow> LevelOrderBookHeap \<Rightarrow> nat \<times> LevelOrderBookHeap" where
  "getNode a l sd b =
     (let (n, b1) = (case lvNodePool b of
                       n # ns \<Rightarrow> (n, b\<lparr>lvNodePool := ns\<rparr>)
                     | [] \<Rightarrow> (nextNode b, b\<lparr>nodes := (nodes b)(nextNode b := nil_node),
                                           nextNode := nextNode b + 1\<rparr>))
      in (n, upd_node n (\<lambda>x. x\<lparr>prv := None, nxt := None, order := Some a, lv := Some l,
                              side := sd\<rparr>) b1))"

definition putNode :: "nat \<Rightarrow> LevelOrderBookHeap \<Rightarrow> LevelOrderBookHeap" where
  "putNode n b =
     (let b1 = upd_node n (\<lambda>x. x\<lparr>prv := None, nxt := None, order := None, lv := None,
                                side := 0\<rparr>) b
      in b1\<lparr>lvNodePool := n # lvNodePool b1\<rparr>)"

subsection \<open>Resting and cancelling\<close>

definition Heap_Add :: "LevelOrderBookHeap \<Rightarrow> Order option \<Rightarrow> LevelOrderBookHeap" where
  "Heap_Add b p =
     (case p of
        None \<Rightarrow> b
      | Some a \<Rightarrow>
          if Qty a \<le> 0 then b
          else if hByID b (ID a) \<noteq> None then b
          else if Side a = Sell then
            (let (l, b1) = (case hAsks b (Price a) of
                              Some l \<Rightarrow> (l, b)
                            | None \<Rightarrow>
                                let (l, b0) = new_level (Price a) b
                                in (l, b0\<lparr>hAsks := (hAsks b0)(Price a \<mapsto> l),
                                         askH := heap_Push minH (askH b0) (Price a)\<rparr>));
                 (n, b2) = getNode a l Sell b1;
                 b3 = heap_pushBack l n b2
             in b3\<lparr>hByID := (hByID b3)(ID a \<mapsto> n)\<rparr>)
          else if Side a = Buy then
            (let (l, b1) = (case hBids b (Price a) of
                              Some l \<Rightarrow> (l, b)
                            | None \<Rightarrow>
                                let (l, b0) = new_level (Price a) b
                                in (l, b0\<lparr>hBids := (hBids b0)(Price a \<mapsto> l),
                                         bidH := heap_Push maxH (bidH b0) (Price a)\<rparr>));
                 (n, b2) = getNode a l Buy b1;
                 b3 = heap_pushBack l n b2
             in b3\<lparr>hByID := (hByID b3)(ID a \<mapsto> n)\<rparr>)
          else b)"

text \<open>
  As written, the node is returned to the pool, which clears its side, before its side decides
  from which map an emptied level is deleted.
\<close>

definition Heap_Cancel :: "LevelOrderBookHeap \<Rightarrow> uint64 \<Rightarrow> (bool \<times> LevelOrderBookHeap) go" where
  "Heap_Cancel b i =
     (case hByID b i of
        None \<Rightarrow> Ret (False, b)
      | Some n \<Rightarrow>
          andThen (deref (lv (nodes b n))) (\<lambda>l.
            let b1 = heap_remove l n b;
                b2 = b1\<lparr>hByID := (hByID b1)(i := None)\<rparr>;
                b3 = putNode n b2;
                b4 = (if heap_level_empty l b3 then
                        if side (nodes b3 n) = Sell
                        then b3\<lparr>hAsks := (hAsks b3)(price (levels b3 l) := None)\<rparr>
                        else b3\<lparr>hBids := (hBids b3)(price (levels b3 l) := None)\<rparr>
                      else b3)
            in Ret (True, b4)))"

subsection \<open>Best prices\<close>

text \<open>Each turn of these loops pops one price, so the heap's length bounds the turns.\<close>

fun bestAsk_loop :: "nat \<Rightarrow> LevelOrderBookHeap \<Rightarrow> (int \<times> bool \<times> LevelOrderBookHeap) go" where
  "bestAsk_loop 0 b = Hang"
| "bestAsk_loop (Suc k) b =
     (if hLen minH (askH b) > 0 then
        let p = askH b ! 0
        in case hAsks b p of
             Some l \<Rightarrow>
               if \<not> heap_level_empty l b then Ret (p, True, b)
               else andThen (heap_Pop minH (askH b)) (\<lambda>(_, h). bestAsk_loop k (b\<lparr>askH := h\<rparr>))
           | None \<Rightarrow> andThen (heap_Pop minH (askH b)) (\<lambda>(_, h). bestAsk_loop k (b\<lparr>askH := h\<rparr>))
      else Ret (0, False, b))"

definition bestAskPrice :: "LevelOrderBookHeap \<Rightarrow> (int \<times> bool \<times> LevelOrderBookHeap) go" where
  "bestAskPrice b = bestAsk_loop (Suc (length (askH b))) b"

fun bestBid_loop :: "nat \<Rightarrow> LevelOrderBookHeap \<Rightarrow> (int \<times> bool \<times> LevelOrderBookHeap) go" where
  "bestBid_loop 0 b = Hang"
| "bestBid_loop (Suc k) b =
     (if hLen maxH (bidH b) > 0 then
        let p = bidH b ! 0
        in case hBids b p of
             Some l \<Rightarrow>
               if \<not> heap_level_empty l b then Ret (p, True, b)
               else andThen (heap_Pop maxH (bidH b)) (\<lambda>(_, h). bestBid_loop k (b\<lparr>bidH := h\<rparr>))
           | None \<Rightarrow> andThen (heap_Pop maxH (bidH b)) (\<lambda>(_, h). bestBid_loop k (b\<lparr>bidH := h\<rparr>))
      else Ret (0, False, b))"

definition bestBidPrice :: "LevelOrderBookHeap \<Rightarrow> (int \<times> bool \<times> LevelOrderBookHeap) go" where
  "bestBidPrice b = bestBid_loop (Suc (length (bidH b))) b"

definition Heap_BestAsk :: "LevelOrderBookHeap \<Rightarrow> (int \<times> bool \<times> LevelOrderBookHeap) go" where
  "Heap_BestAsk b = bestAskPrice b"

definition Heap_BestBid :: "LevelOrderBookHeap \<Rightarrow> (int \<times> bool \<times> LevelOrderBookHeap) go" where
  "Heap_BestBid b = bestBidPrice b"

subsection \<open>Matching\<close>

text \<open>
  The inner loop of the four matching functions: eat the level \<open>l\<close> from its head. Every turn
  fills the taker or removes a maker and lowers the taker's quantity, which bounds the fuel.
\<close>

fun eat_level :: "nat \<Rightarrow> nat \<Rightarrow> (Trade \<Rightarrow> 'e \<Rightarrow> 'e) \<Rightarrow> LevelOrderBookHeap \<Rightarrow> Order \<Rightarrow> 'e \<Rightarrow>
    (LevelOrderBookHeap \<times> Order \<times> 'e) go" where
  "eat_level 0 l emit b taker e = Hang"
| "eat_level (Suc k) l emit b taker e =
     (if Qty taker > 0 \<and> \<not> heap_level_empty l b then
        andThen (deref (head (levels b l))) (\<lambda>mn.
        andThen (deref (order (nodes b mn))) (\<lambda>maker.
          let exec = min64 (Qty taker) (Qty maker);
              e' = emit \<lparr>TakerID = ID taker, MakerID = ID maker, TradePrice = price (levels b l),
                         TradeQty = exec\<rparr> e;
              taker' = taker\<lparr>Qty := Qty taker - exec\<rparr>;
              maker' = maker\<lparr>Qty := Qty maker - exec\<rparr>;
              b1 = upd_node mn (\<lambda>x. x\<lparr>order := Some maker'\<rparr>) b;
              b2 = (if Qty maker' = 0 then
                      (let b3 = heap_remove l mn b1;
                           b4 = b3\<lparr>hByID := (hByID b3)(ID maker' := None)\<rparr>
                       in putNode mn b4)
                    else b1)
          in eat_level k l emit b2 taker' e'))
      else Ret (b, taker, e))"

definition fuel_for :: "Order \<Rightarrow> nat" where
  "fuel_for t = Suc (nat (Qty t))"

fun matchBuyEmit_loop :: "nat \<Rightarrow> (Trade \<Rightarrow> 'e \<Rightarrow> 'e) \<Rightarrow> LevelOrderBookHeap \<Rightarrow> Order \<Rightarrow> 'e \<Rightarrow>
    (LevelOrderBookHeap \<times> Order \<times> 'e) go" where
  "matchBuyEmit_loop 0 emit b taker e = Hang"
| "matchBuyEmit_loop (Suc k) emit b taker e =
     (if Qty taker > 0 then
        andThen (bestAskPrice b) (\<lambda>(bestP, ok, b).
          if \<not> ok \<or> bestP > Price taker then Ret (b, taker, e)
          else case hAsks b bestP of
                 None \<Rightarrow> matchBuyEmit_loop k emit b taker e
               | Some l \<Rightarrow>
                   if heap_level_empty l b then matchBuyEmit_loop k emit b taker e
                   else andThen (eat_level (fuel_for taker) l emit b taker e) (\<lambda>(b, taker, e).
                     let b' = (if heap_level_empty l b
                               then b\<lparr>hAsks := (hAsks b)(price (levels b l) := None)\<rparr> else b)
                     in matchBuyEmit_loop k emit b' taker e))
      else Ret (b, taker, e))"

definition matchBuyEmit :: "LevelOrderBookHeap \<Rightarrow> Order \<Rightarrow> (Trade \<Rightarrow> 'e \<Rightarrow> 'e) \<Rightarrow> 'e \<Rightarrow>
    (int \<times> LevelOrderBookHeap \<times> Order \<times> 'e) go" where
  "matchBuyEmit b taker emit e =
     andThen (matchBuyEmit_loop (fuel_for taker) emit b taker e)
       (\<lambda>(b, taker, e). Ret (Qty taker, b, taker, e))"

fun matchSellEmit_loop :: "nat \<Rightarrow> (Trade \<Rightarrow> 'e \<Rightarrow> 'e) \<Rightarrow> LevelOrderBookHeap \<Rightarrow> Order \<Rightarrow> 'e \<Rightarrow>
    (LevelOrderBookHeap \<times> Order \<times> 'e) go" where
  "matchSellEmit_loop 0 emit b taker e = Hang"
| "matchSellEmit_loop (Suc k) emit b taker e =
     (if Qty taker > 0 then
        andThen (bestBidPrice b) (\<lambda>(bestP, ok, b).
          if \<not> ok \<or> bestP < Price taker then Ret (b, taker, e)
          else case hBids b bestP of
                 None \<Rightarrow> matchSellEmit_loop k emit b taker e
               | Some l \<Rightarrow>
                   if heap_level_empty l b then matchSellEmit_loop k emit b taker e
                   else andThen (eat_level (fuel_for taker) l emit b taker e) (\<lambda>(b, taker, e).
                     let b' = (if heap_level_empty l b
                               then b\<lparr>hBids := (hBids b)(price (levels b l) := None)\<rparr> else b)
                     in matchSellEmit_loop k emit b' taker e))
      else Ret (b, taker, e))"

definition matchSellEmit :: "LevelOrderBookHeap \<Rightarrow> Order \<Rightarrow> (Trade \<Rightarrow> 'e \<Rightarrow> 'e) \<Rightarrow> 'e \<Rightarrow>
    (int \<times> LevelOrderBookHeap \<times> Order \<times> 'e) go" where
  "matchSellEmit b taker emit e =
     andThen (matchSellEmit_loop (fuel_for taker) emit b taker e)
       (\<lambda>(b, taker, e). Ret (Qty taker, b, taker, e))"

definition MatchLimitEmit :: "LevelOrderBookHeap \<Rightarrow> Order option \<Rightarrow> (Trade \<Rightarrow> 'e \<Rightarrow> 'e) option \<Rightarrow> 'e \<Rightarrow>
    (int \<times> LevelOrderBookHeap \<times> Order option \<times> 'e) go" where
  "MatchLimitEmit b p emit e =
     (case p of
        None \<Rightarrow> Ret (0, b, p, e)
      | Some taker \<Rightarrow>
          if Qty taker \<le> 0 then Ret (0, b, p, e)
          else
            let f = (case emit of None \<Rightarrow> (\<lambda>_ e. e) | Some f \<Rightarrow> f)
            in if Side taker = Buy then
                 andThen (matchBuyEmit b taker f e) (\<lambda>(r, b, t, e). Ret (r, b, Some t, e))
               else if Side taker = Sell then
                 andThen (matchSellEmit b taker f e) (\<lambda>(r, b, t, e). Ret (r, b, Some t, e))
               else Ret (Qty taker, b, p, e))"

definition SubmitLimitBuff :: "LevelOrderBookHeap \<Rightarrow> Order option \<Rightarrow> Trade list \<Rightarrow>
    (Trade list \<times> LevelOrderBookHeap) go" where
  "SubmitLimitBuff b taker buf =
     andThen (MatchLimitEmit b taker (Some (\<lambda>t buf. buf @ [t])) (take 0 buf))
       (\<lambda>(_, b, _, buf). Ret (buf, b))"

definition Heap_SubmitLimit :: "LevelOrderBookHeap \<Rightarrow> Order option \<Rightarrow>
    (Trade list \<times> LevelOrderBookHeap) go" where
  "Heap_SubmitLimit b p = andThen (SubmitLimitBuff b p []) (\<lambda>(_, b). Ret ([], b))"

text \<open>The two unexported variants that collect a slice and rest the remainder themselves.\<close>

fun matchBuy_loop :: "nat \<Rightarrow> LevelOrderBookHeap \<Rightarrow> Order \<Rightarrow> Trade list \<Rightarrow>
    (LevelOrderBookHeap \<times> Order \<times> Trade list) go" where
  "matchBuy_loop 0 b taker trades = Hang"
| "matchBuy_loop (Suc k) b taker trades =
     (if Qty taker > 0 then
        andThen (bestAskPrice b) (\<lambda>(bestP, ok, b).
          if \<not> ok \<or> bestP > Price taker then Ret (b, taker, trades)
          else andThen (deref (hAsks b bestP)) (\<lambda>l.
            andThen (eat_level (fuel_for taker) l (\<lambda>t ts. ts @ [t]) b taker trades)
              (\<lambda>(b, taker, trades).
                let b' = (if heap_level_empty l b
                          then b\<lparr>hAsks := (hAsks b)(price (levels b l) := None)\<rparr> else b)
                in matchBuy_loop k b' taker trades)))
      else Ret (b, taker, trades))"

definition Heap_matchBuy :: "LevelOrderBookHeap \<Rightarrow> Order \<Rightarrow> Trade list \<Rightarrow>
    (Trade list \<times> LevelOrderBookHeap) go" where
  "Heap_matchBuy b taker trades =
     andThen (matchBuy_loop (fuel_for taker) b taker trades) (\<lambda>(b, taker, trades).
       Ret (trades, if Qty taker > 0 then Heap_Add b (Some taker) else b))"

fun matchSell_loop :: "nat \<Rightarrow> LevelOrderBookHeap \<Rightarrow> Order \<Rightarrow> Trade list \<Rightarrow>
    (LevelOrderBookHeap \<times> Order \<times> Trade list) go" where
  "matchSell_loop 0 b taker trades = Hang"
| "matchSell_loop (Suc k) b taker trades =
     (if Qty taker > 0 then
        andThen (bestBidPrice b) (\<lambda>(bestP, ok, b).
          if \<not> ok \<or> bestP < Price taker then Ret (b, taker, trades)
          else case hBids b bestP of
                 None \<Rightarrow> matchSell_loop k b taker trades
               | Some l \<Rightarrow>
                   if heap_level_empty l b then matchSell_loop k b taker trades
                   else andThen (eat_level (fuel_for taker) l (\<lambda>t ts. ts @ [t]) b taker trades)
                     (\<lambda>(b, taker, trades).
                       let b' = (if heap_level_empty l b
                                 then b\<lparr>hBids := (hBids b)(price (levels b l) := None)\<rparr> else b)
                       in matchSell_loop k b' taker trades))
      else Ret (b, taker, trades))"

definition Heap_matchSell :: "LevelOrderBookHeap \<Rightarrow> Order \<Rightarrow> Trade list \<Rightarrow>
    (Trade list \<times> LevelOrderBookHeap) go" where
  "Heap_matchSell b taker trades =
     andThen (matchSell_loop (fuel_for taker) b taker trades) (\<lambda>(b, taker, trades).
       Ret (trades, if Qty taker > 0 then Heap_Add b (Some taker) else b))"

end
