(* ===== verification/Heap_Refine.thy ===== *)
theory Heap_Refine
  imports Heap_Book
begin

text \<open>
  The heap book refines the price-time specification: a relation between the pointer structure
  and two sorted lists of orders, kept by every operation.
\<close>

subsection \<open>One side of the book\<close>

text \<open>
  \<open>side_rel C sd E s M xs\<close>: the levels of the map \<open>M\<close>, with the chains \<open>C\<close>, hold exactly the
  orders \<open>xs\<close>, by price and in queue order; only the prices of \<open>E\<close> may have an empty level.
\<close>

definition at_price :: "int \<Rightarrow> Order list \<Rightarrow> Order list" where
  "at_price p xs = filter (\<lambda>x. Price x = p) xs"

lemma at_price_simps [simp]:
  "at_price p [] = []"
  "at_price p (x # xs) = (if Price x = p then x # at_price p xs else at_price p xs)"
  "at_price p (xs @ ys) = at_price p xs @ at_price p ys"
  by (simp_all add: at_price_def)

lemma set_at_price [simp]: "set (at_price p xs) = {x \<in> set xs. Price x = p}"
  by (simp add: at_price_def)

definition side_rel :: "(nat \<Rightarrow> nat list) \<Rightarrow> uint8 \<Rightarrow> int set \<Rightarrow> 'a store_scheme \<Rightarrow> (int \<rightharpoonup> nat) \<Rightarrow>
    Order list \<Rightarrow> bool" where
  "side_rel C sd E s M xs \<longleftrightarrow>
     (\<forall>p. case M p of
            None \<Rightarrow> at_price p xs = []
          | Some l \<Rightarrow> level_ok s l p sd (C l) (at_price p xs) \<and> (at_price p xs = [] \<longrightarrow> p \<in> E))"

lemma side_rel_None: "side_rel C sd E s M xs \<Longrightarrow> M p = None \<Longrightarrow> at_price p xs = []"
  unfolding side_rel_def by (drule spec[of _ p]) simp

lemma side_rel_Some:
  "side_rel C sd E s M xs \<Longrightarrow> M p = Some l \<Longrightarrow>
     level_ok s l p sd (C l) (at_price p xs) \<and> (at_price p xs = [] \<longrightarrow> p \<in> E)"
  unfolding side_rel_def by (drule spec[of _ p]) simp

lemma side_relI:
  assumes "\<And>p. M p = None \<Longrightarrow> at_price p xs = []"
    and "\<And>p l. M p = Some l \<Longrightarrow> level_ok s l p sd (C l) (at_price p xs)"
    and "\<And>p l. M p = Some l \<Longrightarrow> at_price p xs = [] \<Longrightarrow> p \<in> E"
  shows "side_rel C sd E s M xs"
  using assms by (simp add: side_rel_def split: option.splits)

lemma side_rel_inj:
  assumes "side_rel C sd E s M xs" and "M p = Some l" and "M q = Some l"
  shows "p = q"
  using side_rel_Some[OF assms(1,2)] side_rel_Some[OF assms(1,3)] by (simp add: level_ok_def)

lemma side_rel_level:
  assumes "side_rel C sd E s M xs" and "x \<in> set xs"
  obtains l where "M (Price x) = Some l" and "x \<in> set (at_price (Price x) xs)"
proof -
  have x: "x \<in> set (at_price (Price x) xs)" using assms(2) by simp
  then have "M (Price x) \<noteq> None" using side_rel_None[OF assms(1)] by fastforce
  then show ?thesis using that x by blast
qed

text \<open>A change confined to one level keeps the levels of the other prices.\<close>

lemma side_rel_confined:
  assumes r: "side_rel C sd E s M xs" and c: "confined l s s'"
    and "\<And>p. M p \<noteq> Some l" and "\<And>m. m \<noteq> l \<Longrightarrow> C' m = C m"
  shows "side_rel C' sd E s' M xs"
proof (rule side_relI)
  fix p m assume m: "M p = Some m"
  then have "m \<noteq> l" using assms(3) by blast
  then show "level_ok s' m p sd (C' m) (at_price p xs)"
    using side_rel_Some[OF r m] level_ok_confined[OF _ c] assms(4) by simp
qed (use side_rel_None[OF r] side_rel_Some[OF r] in blast)+

text \<open>A change of the level at price \<open>p\<close>, whose queue becomes \<open>os\<close>.\<close>

lemma side_rel_change:
  assumes r: "side_rel C sd E s M xs" and c: "confined l s s'" and M: "M' = M(p := Some l)"
    and fresh: "M p = Some l \<or> (\<forall>q. M q \<noteq> Some l)"
    and C: "\<And>m. m \<noteq> l \<Longrightarrow> C' m = C m"
    and l: "level_ok s' l p sd (C' l) (at_price p ys)"
    and ys: "\<And>q. q \<noteq> p \<Longrightarrow> at_price q ys = at_price q xs"
  shows "side_rel C' sd (insert p E) s' M' ys"
proof (rule side_relI)
  fix q assume "M' q = None"
  then show "at_price q ys = []"
    using side_rel_None[OF r, of q] ys M by (cases "q = p") auto
next
  fix q m assume m: "M' q = Some m"
  show "level_ok s' m q sd (C' m) (at_price q ys)"
  proof (cases "q = p")
    case True
    then show ?thesis using l m M by simp
  next
    case False
    then have Mq: "M q = Some m" using m M by simp
    then have "m \<noteq> l" using False fresh side_rel_inj[OF r] by blast
    then show ?thesis
      using side_rel_Some[OF r Mq] level_ok_confined[OF _ c] C ys[OF False] by simp
  qed
next
  fix q m assume m: "M' q = Some m" "at_price q ys = []"
  then show "q \<in> insert p E"
    using side_rel_Some[OF r, of q m] ys[of q] M by (cases "q = p") auto
qed

lemma side_rel_delete:
  assumes "side_rel C sd E s M xs" and "at_price p xs = []"
  shows "side_rel C sd (E - {p}) s (M(p := None)) xs"
  using assms side_rel_None[OF assms(1)] side_rel_Some[OF assms(1)]
  by (intro side_relI) (auto split: if_splits)

lemma side_rel_drop_empty:
  assumes "side_rel C sd E s M xs" and "at_price p xs \<noteq> []"
  shows "side_rel C sd (E - {p}) s M xs"
  using side_rel_None[OF assms(1)] side_rel_Some[OF assms(1)] assms(2)
  by (intro side_relI) auto

subsection \<open>Both sides, the index and the pool\<close>

definition live :: "(nat \<Rightarrow> nat list) \<Rightarrow> (int \<rightharpoonup> nat) \<Rightarrow> (int \<rightharpoonup> nat) \<Rightarrow> nat set" where
  "live C M M' = (\<Union>l \<in> ran M \<union> ran M'. set (C l))"

lemma live_delete:
  assumes "C l = []" and "M p = Some l" shows "live C (M(p := None)) M' = live C M M'"
proof -
  have "ran M \<subseteq> insert l (ran (M(p := None)))"
  proof
    fix k assume "k \<in> ran M"
    then obtain q where "M q = Some k" by (auto simp: ran_def)
    then show "k \<in> insert l (ran (M(p := None)))" using assms(2)
      by (cases "q = p") (auto intro: ranI)
  qed
  moreover have "ran (M(p := None)) \<subseteq> ran M" by (auto simp: ran_def split: if_splits)
  ultimately show ?thesis using assms(1) unfolding live_def by fastforce
qed

definition index_ok :: "LevelOrderBookHeap \<Rightarrow> nat set \<Rightarrow> bool" where
  "index_ok b L \<longleftrightarrow>
     (\<forall>i n. hByID b i = Some n \<longleftrightarrow> n \<in> L \<and> map_option ID (order (nodes b n)) = Some i)"

definition pool_ok :: "LevelOrderBookHeap \<Rightarrow> bool" where
  "pool_ok b \<longleftrightarrow> distinct (lvNodePool b) \<and>
     (\<forall>n \<in> set (lvNodePool b). n < nextNode b \<and> order (nodes b n) = None)"

text \<open>
  The relation for a near side (\<open>M\<close>, \<open>xs\<close>) and a far side; it is symmetric, so that each
  operation is treated once and used for asks and bids.
\<close>

definition sides_rel :: "(nat \<Rightarrow> nat list) \<Rightarrow> LevelOrderBookHeap \<Rightarrow>
    uint8 \<Rightarrow> int set \<Rightarrow> (int \<rightharpoonup> nat) \<Rightarrow> Order list \<Rightarrow>
    uint8 \<Rightarrow> int set \<Rightarrow> (int \<rightharpoonup> nat) \<Rightarrow> Order list \<Rightarrow> bool" where
  "sides_rel C b sd E M xs sd' E' M' ys \<longleftrightarrow>
     side_rel C sd E b M xs \<and> side_rel C sd' E' b M' ys \<and>
     (\<forall>p q l. M p = Some l \<longrightarrow> M' q \<noteq> Some l) \<and>
     index_ok b (live C M M') \<and> pool_ok b \<and> distinct (map ID (xs @ ys))"

lemma live_sym: "live C M M' = live C M' M"
  by (simp add: live_def Un_commute)

lemma sides_rel_sym:
  "sides_rel C b sd E M xs sd' E' M' ys \<longleftrightarrow> sides_rel C b sd' E' M' ys sd E M xs"
  by (auto simp: sides_rel_def live_sym[of C M M'])

lemma sides_relD:
  assumes "sides_rel C b sd E M xs sd' E' M' ys"
  shows "side_rel C sd E b M xs" "side_rel C sd' E' b M' ys"
    "M p = Some l \<Longrightarrow> M' q \<noteq> Some l" "M' q = Some l \<Longrightarrow> M p \<noteq> Some l"
    "index_ok b (live C M M')" "pool_ok b" "distinct (map ID (xs @ ys))"
  using assms by (auto simp: sides_rel_def)

text \<open>A live node belongs to exactly one level and holds an order of the book.\<close>

lemma live_node:
  assumes "sides_rel C b sd E M xs sd' E' M' ys" and "n \<in> live C M M'"
  obtains p l a where "M p = Some l" "n \<in> set (C l)" "order (nodes b n) = Some a" "a \<in> set xs"
      "Price a = p" "lv (nodes b n) = Some l" "n < nextNode b" "side (nodes b n) = sd"
  | p l a where "M' p = Some l" "n \<in> set (C l)" "order (nodes b n) = Some a" "a \<in> set ys"
      "Price a = p" "lv (nodes b n) = Some l" "n < nextNode b" "side (nodes b n) = sd'"
proof -
  obtain l where l: "l \<in> ran M \<union> ran M'" and n: "n \<in> set (C l)"
    using assms(2) by (auto simp: live_def)
  from l show ?thesis
  proof
    assume "l \<in> ran M"
    then obtain p where p: "M p = Some l" by (auto simp: ran_def)
    have "level_ok b l p sd (C l) (at_price p xs)"
      using side_rel_Some[OF sides_relD(1)[OF assms(1)] p] by blast
    from level_ok_node[OF this n] show ?thesis using that(1) p n by auto
  next
    assume "l \<in> ran M'"
    then obtain p where p: "M' p = Some l" by (auto simp: ran_def)
    have "level_ok b l p sd' (C l) (at_price p ys)"
      using side_rel_Some[OF sides_relD(2)[OF assms(1)] p] by blast
    from level_ok_node[OF this n] show ?thesis using that(2) p n by auto
  qed
qed

lemma index_ids:
  assumes "sides_rel C b sd E M xs sd' E' M' ys"
  shows "hByID b i \<noteq> None \<longleftrightarrow> i \<in> ID ` set xs \<union> ID ` set ys"
proof
  assume "hByID b i \<noteq> None"
  then obtain n where n: "n \<in> live C M M'" "map_option ID (order (nodes b n)) = Some i"
    using sides_relD(5)[OF assms] by (auto simp: index_ok_def)
  from assms n(1) show "i \<in> ID ` set xs \<union> ID ` set ys"
    by (rule live_node) (use n(2) in auto)
next
  have A: "\<exists>n l. n \<in> set (C l) \<and> l \<in> ran N \<and> order (nodes b n) = Some a"
    if r: "side_rel C s F b N zs" and a: "a \<in> set zs" for s F N zs a
  proof -
    obtain l where l: "N (Price a) = Some l" "a \<in> set (at_price (Price a) zs)"
      using side_rel_level[OF r a] by blast
    then obtain n where "n \<in> set (C l)" "order (nodes b n) = Some a"
      using side_rel_Some[OF r l(1)] level_ok_order by blast
    then show ?thesis using l(1) by (auto simp: ran_def)
  qed
  assume "i \<in> ID ` set xs \<union> ID ` set ys"
  then obtain n l a where "n \<in> set (C l)" "l \<in> ran M \<union> ran M'" "order (nodes b n) = Some a" "ID a = i"
    using A[OF sides_relD(1)[OF assms]] A[OF sides_relD(2)[OF assms]] by blast
  then have "hByID b i = Some n"
    using sides_relD(5)[OF assms] by (auto simp: index_ok_def live_def)
  then show "hByID b i \<noteq> None" by simp
qed

text \<open>Fields the relation does not read.\<close>

lemma sides_rel_fields [simp]:
  "sides_rel C (b\<lparr>askH := h\<rparr>) sd E M xs sd' E' M' ys = sides_rel C b sd E M xs sd' E' M' ys"
  "sides_rel C (b\<lparr>bidH := h\<rparr>) sd E M xs sd' E' M' ys = sides_rel C b sd E M xs sd' E' M' ys"
  "sides_rel C (b\<lparr>hAsks := K\<rparr>) sd E M xs sd' E' M' ys = sides_rel C b sd E M xs sd' E' M' ys"
  "sides_rel C (b\<lparr>hBids := K\<rparr>) sd E M xs sd' E' M' ys = sides_rel C b sd E M xs sd' E' M' ys"
  by (simp_all add: sides_rel_def side_rel_def level_ok_def index_ok_def pool_ok_def
      cong: option.case_cong)

subsection \<open>A maker is partly filled\<close>

lemma sides_set_order:
  assumes R: "sides_rel C b sd E M (m # zs) sd' E' M' ys" and l: "M (Price m) = Some l"
    and C: "C l = n # ns" and m': "m' = m\<lparr>Qty := k\<rparr>"
  shows "sides_rel C (upd_node n (\<lambda>x. x\<lparr>order := Some m'\<rparr>) b) sd (insert (Price m) E) M (m' # zs)
    sd' E' M' ys"
proof -
  let ?b = "upd_node n (\<lambda>x. x\<lparr>order := Some m'\<rparr>) b"
  have lok: "level_ok b l (Price m) sd (n # ns) (m # at_price (Price m) zs)"
    using side_rel_Some[OF sides_relD(1)[OF R] l] C by simp
  then have ord: "order (nodes b n) = Some m" and lv: "lv (nodes b n) = Some l"
    by (simp_all add: level_ok_def)
  have con: "confined l b ?b" using lv by (intro confined_upd_node) simp
  have l': "level_ok ?b l (Price m) sd (C l) (at_price (Price m) (m' # zs))"
    using level_ok_set_order[OF lok, of m'] m' C by simp
  have near: "side_rel C sd (insert (Price m) E) ?b M (m' # zs)"
    by (rule side_rel_change[where C' = C and p = "Price m" and l = l, OF sides_relD(1)[OF R] con])
      (use l l' m' in auto)
  have far: "side_rel C sd' E' ?b M' ys"
    by (rule side_rel_confined[OF sides_relD(2)[OF R] con]) (use sides_relD(3)[OF R l] in auto)
  have ids: "map_option ID (order (nodes ?b x)) = map_option ID (order (nodes b x))" for x
    using ord m' by (simp add: upd_node_def)
  have idx: "index_ok ?b (live C M M')"
    using sides_relD(5)[OF R] by (simp only: index_ok_def ids) (simp add: upd_node_def)
  have pl: "pool_ok ?b"
    using sides_relD(6)[OF R] ord by (auto simp: pool_ok_def upd_node_def)
  show ?thesis
    using near far idx pl R m' unfolding sides_rel_def by auto
qed

subsection \<open>A node leaves the book\<close>

definition unlink :: "nat \<Rightarrow> nat \<Rightarrow> uint64 \<Rightarrow> LevelOrderBookHeap \<Rightarrow> LevelOrderBookHeap" where
  "unlink l n i b = putNode n ((remove_node l n b)\<lparr>hByID := (hByID b)(i := None)\<rparr>)"

lemma remove_node_fields [simp]:
  "hByID (remove_node l n b) = hByID b" "lvNodePool (remove_node l n b) = lvNodePool b"
  "hAsks (remove_node l n b) = hAsks b" "hBids (remove_node l n b) = hBids b"
  "askH (remove_node l n b) = askH b" "bidH (remove_node l n b) = bidH b"
  by (simp_all add: remove_node_def upd_node_def upd_level_def Let_def split: option.splits)

lemma clear_node: "x\<lparr>prv := None, nxt := None, order := None, lv := None, side := 0\<rparr> = nil_node"
  by (cases x) (simp add: nil_node_def)

lemma unlink_fields [simp]:
  "hByID (unlink l n i b) = (hByID b)(i := None)" "lvNodePool (unlink l n i b) = n # lvNodePool b"
  "hAsks (unlink l n i b) = hAsks b" "hBids (unlink l n i b) = hBids b"
  "askH (unlink l n i b) = askH b" "bidH (unlink l n i b) = bidH b"
  "levels (unlink l n i b) = levels (remove_node l n b)"
  "nodes (unlink l n i b) = (nodes (remove_node l n b))(n := nil_node)"
  "nextNode (unlink l n i b) = nextNode b" "nextLevel (unlink l n i b) = nextLevel b"
  by (simp_all add: unlink_def putNode_def upd_node_def Let_def remove_frame clear_node)

lemma map_Some_split:
  assumes "map f (us @ n # vs) = map Some os"
  obtains os1 a os2 where "os = os1 @ a # os2" "length os1 = length us" "f n = Some a"
proof -
  have len: "length us < length os" using assms by (metis add_Suc_right length_append length_map
    less_add_Suc1 list.size(4))
  have "os = take (length us) os @ os ! length us # drop (Suc (length us)) os"
    using len by (rule id_take_nth_drop)
  moreover have "f n = Some (os ! length us)"
    using arg_cong[OF assms, of "\<lambda>xs. xs ! length us"] len by (simp add: nth_append)
  ultimately show ?thesis using that len by (metis length_take less_imp_le_nat min.absorb2)
qed

lemma sides_unlink:
  assumes R: "sides_rel C b sd E M xs sd' E' M' ys" and l: "M p = Some l" and n: "n \<in> set (C l)"
    and m: "order (nodes b n) = Some m" and C': "C' = C(l := filter (\<lambda>x. x \<noteq> n) (C l))"
  shows "sides_rel C' (unlink l n (ID m) b) sd (insert p E) M (filter (\<lambda>x. ID x \<noteq> ID m) xs)
    sd' E' M' ys"
proof -
  let ?b = "unlink l n (ID m) b"
  let ?zs = "filter (\<lambda>x. ID x \<noteq> ID m) xs"
  have lok: "level_ok b l p sd (C l) (at_price p xs)"
    using side_rel_Some[OF sides_relD(1)[OF R] l] by blast
  have lv: "lv (nodes b n) = Some l" "n < nextNode b" using level_ok_node[OF lok n] by auto
  obtain us vs where C: "C l = us @ n # vs" using n by (meson split_list)
  have nd: "n \<notin> set us" "n \<notin> set vs" using lok C by (auto simp: level_ok_def level_chain_def)
  have "map (\<lambda>n. order (nodes b n)) (us @ n # vs) = map Some (at_price p xs)"
    using lok C unfolding level_ok_def by metis
  then obtain os1 a os2 where os: "at_price p xs = os1 @ a # os2" "length os1 = length us"
      "order (nodes b n) = Some a"
    using map_Some_split[of "\<lambda>n. order (nodes b n)" us n vs "at_price p xs"] by metis
  then have am: "a = m" using m by simp
  have dx: "distinct (map ID xs)" using sides_relD(7)[OF R] by simp
  have mx: "m \<in> set xs" "Price m = p"
  proof -
    have "m \<in> set (at_price p xs)" using os(1) am by simp
    then show "m \<in> set xs" "Price m = p" by simp_all
  qed
  have flt: "at_price q ?zs = filter (\<lambda>x. ID x \<noteq> ID m) (at_price q xs)" for q
    by (simp add: at_price_def conj_commute)
  have "distinct (map ID (os1 @ m # os2))"
    using dx os(1) am unfolding at_price_def by (metis distinct_map_filter)
  then have atp: "at_price p ?zs = os1 @ os2"
    using filter_removed[of os1 m os2] flt[of p] os(1) am by simp
  have atq: "at_price q ?zs = at_price q xs" if "q \<noteq> p" for q
  proof -
    have "ID m \<notin> ID ` set (at_price q xs)"
    proof
      assume "ID m \<in> ID ` set (at_price q xs)"
      then obtain x where "x \<in> set xs" "Price x = q" "ID x = ID m" by auto
      then have "x = m" using dx mx(1) by (metis distinct_map inj_onD)
      then show False using \<open>Price x = q\<close> mx(2) that by simp
    qed
    from filter_absent[OF this] show ?thesis by (simp only: flt)
  qed
  have "level_ok (remove_node l n b) l p sd (us @ vs) (os1 @ os2)"
    using level_ok_remove[of b l p sd us n vs os1 a os2] lok C os by simp
  then have "level_ok ?b l p sd (us @ vs) (os1 @ os2)"
    using nd by (elim level_ok_same) (auto simp: remove_frame)
  moreover have "filter (\<lambda>x. x \<noteq> n) us = us" "filter (\<lambda>x. x \<noteq> n) vs = vs"
    using nd by (auto simp: filter_id_conv)
  then have "C' l = us @ vs" using C C' by simp
  ultimately have lok': "level_ok ?b l p sd (C' l) (at_price p ?zs)" using atp by simp
  have con: "confined l b ?b"
    using remove_confined[OF lok n] lv by (auto simp: confined_def)
  have near: "side_rel C' sd (insert p E) ?b M ?zs"
    by (rule side_rel_change[where C' = C' and p = p and l = l, OF sides_relD(1)[OF R] con])
      (use l lok' C' atq in auto)
  have far: "side_rel C' sd' E' ?b M' ys"
    by (rule side_rel_confined[OF sides_relD(2)[OF R] con])
      (use sides_relD(3)[OF R l] C' in auto)
  have lv_live: "live C' M M' = live C M M' - {n}"
  proof -
    have only: "k = l" if "k \<in> ran M \<union> ran M'" "n \<in> set (C k)" for k
    proof -
      have "lv (nodes b n) = Some k"
        using that side_rel_Some[OF sides_relD(1)[OF R]] side_rel_Some[OF sides_relD(2)[OF R]]
          level_ok_node by (fastforce simp: ran_def)
      then show ?thesis using lv by simp
    qed
    show ?thesis using only C' by (fastforce simp: live_def split: if_splits)
  qed
  have ord: "order (nodes ?b x) = (if x = n then None else order (nodes b x))" for x
    by (simp add: remove_frame nil_node_def)
  have nl: "n \<in> live C M M'" using l n by (auto simp: live_def ran_def)
  have uniq: "k = n" if "k \<in> live C M M'" "map_option ID (order (nodes b k)) = Some (ID m)" for k
  proof -
    have "hByID b (ID m) = Some k" "hByID b (ID m) = Some n"
      using sides_relD(5)[OF R] that nl m unfolding index_ok_def by auto
    then show ?thesis by simp
  qed
  have idx: "index_ok ?b (live C' M M')"
    unfolding index_ok_def
  proof (intro allI)
    fix i k
    have old: "hByID b i = Some k \<longleftrightarrow> k \<in> live C M M' \<and> map_option ID (order (nodes b k)) = Some i"
      using sides_relD(5)[OF R] by (simp add: index_ok_def)
    show "hByID ?b i = Some k \<longleftrightarrow>
        k \<in> live C' M M' \<and> map_option ID (order (nodes ?b k)) = Some i"
    proof (cases "k = n")
      case True
      then show ?thesis using old m unfolding lv_live ord by auto
    next
      case False
      then show ?thesis using old uniq[of k] unfolding lv_live ord by (cases "i = ID m") auto
    qed
  qed
  have pl: "pool_ok ?b"
    using sides_relD(6)[OF R] m lv(2) unfolding pool_ok_def ord by auto
  have "distinct (map ID (?zs @ ys))" using sides_relD(7)[OF R] by (auto simp: distinct_map_filter)
  then show ?thesis using near far idx pl sides_relD(3)[OF R] unfolding sides_rel_def by blast
qed

subsection \<open>An order joins the book\<close>

lemma sides_new_level:
  assumes R: "sides_rel C b sd E M xs sd' E' M' ys" and p: "M p = None"
    and nl: "new_level p b = (l, b0)"
  shows "sides_rel (C(l := [])) b0 sd (insert p E) (M(p \<mapsto> l)) xs sd' E' M' ys"
    and "hByID b0 = hByID b"
proof -
  have l: "l = nextLevel b" and b0: "b0 = b\<lparr>levels := (levels b)(l :=
      \<lparr>price = p, head = None, tail = None, size = 0\<rparr>), nextLevel := l + 1\<rparr>"
    using nl by (auto simp: new_level_def)
  have old: "k < nextLevel b" if "M q = Some k \<or> M' q = Some k" for q k
    using that side_rel_Some[OF sides_relD(1)[OF R]] side_rel_Some[OF sides_relD(2)[OF R]]
    by (auto simp: level_ok_def)
  have no: "M q \<noteq> Some l" "M' q \<noteq> Some l" for q using old[of q l] l by auto
  have e: "at_price p xs = []" by (rule side_rel_None[OF sides_relD(1)[OF R] p])
  have con: "confined l b b0" using l by (auto simp: confined_def b0)
  have lok: "level_ok b0 l p sd ((C(l := [])) l) (at_price p xs)"
    by (simp add: level_ok_def b0 e)
  have near: "side_rel (C(l := [])) sd (insert p E) b0 (M(p \<mapsto> l)) xs"
    by (rule side_rel_change[where C' = "C(l := [])" and p = p and l = l, OF sides_relD(1)[OF R] con])
      (use lok no in auto)
  have far: "side_rel (C(l := [])) sd' E' b0 M' ys"
    by (rule side_rel_confined[OF sides_relD(2)[OF R] con]) (use no in auto)
  have "ran (M(p \<mapsto> l)) = insert l (ran M)" using p by (rule ran_map_upd)
  moreover have "l \<notin> ran M" "l \<notin> ran M'" using no by (auto simp: ran_def)
  ultimately have "live (C(l := [])) (M(p \<mapsto> l)) M' = live C M M'"
    by (auto simp: live_def split: if_splits)
  then have "index_ok b0 (live (C(l := [])) (M(p \<mapsto> l)) M')"
    using sides_relD(5)[OF R] by (simp add: index_ok_def b0)
  moreover have "pool_ok b0" using sides_relD(6)[OF R] by (simp add: pool_ok_def b0)
  ultimately show "sides_rel (C(l := [])) b0 sd (insert p E) (M(p \<mapsto> l)) xs sd' E' M' ys"
    using near far no sides_relD(3,7)[OF R] by (auto simp: sides_rel_def)
  show "hByID b0 = hByID b" by (simp add: b0)
qed

lemma getNode_props:
  assumes "pool_ok b" and "getNode a l sd b = (n, b2)"
  shows "n < nextNode b2" and "order (nodes b n) = None \<or> nextNode b \<le> n"
    and "nodes b2 n = \<lparr>prv = None, nxt = None, order = Some a, lv = Some l, side = sd\<rparr>"
    and "x \<noteq> n \<Longrightarrow> nodes b2 x = nodes b x"
    and "nextNode b \<le> nextNode b2" and "levels b2 = levels b" and "nextLevel b2 = nextLevel b"
    and "hByID b2 = hByID b" and "pool_ok b2"
    and "hAsks b2 = hAsks b" "hBids b2 = hBids b" "askH b2 = askH b" "bidH b2 = bidH b"
  using assms
  by (auto simp: getNode_def upd_node_def pool_ok_def nil_node_def split: list.splits)

lemma sides_push:
  assumes R: "sides_rel C b sd E M xs sd' E' M' ys" and l: "M (Price a) = Some l"
    and id: "ID a \<notin> ID ` set xs \<union> ID ` set ys" and g: "getNode a l sd b = (n, b2)"
    and zs: "\<And>q. at_price q zs = (if q = Price a then at_price q xs @ [a] else at_price q xs)"
      "mset zs = add_mset a (mset xs)"
    and b': "b' = (pushBack l n b2)\<lparr>hByID := (hByID (pushBack l n b2))(ID a \<mapsto> n)\<rparr>"
  shows "sides_rel (C(l := C l @ [n])) b' sd (E - {Price a}) M zs sd' E' M' ys"
proof -
  let ?C = "C(l := C l @ [n])"
  note gp = getNode_props[OF sides_relD(6)[OF R] g]
  have nl: "n \<notin> live C M M'"
  proof
    assume "n \<in> live C M M'"
    from R this show False by (rule live_node) (use gp(2) in auto)
  qed
  have lok: "level_ok b l (Price a) sd (C l) (at_price (Price a) xs)"
    using side_rel_Some[OF sides_relD(1)[OF R] l] by blast
  have nC: "n \<notin> set (C l)" using nl l by (auto simp: live_def ran_def)
  have keep: "nodes b2 x = nodes b x" if "x < nextNode b" "order (nodes b x) \<noteq> None" for x
    using that gp(2) by (intro gp(4)) auto
  then have con1: "confined l b b2" using gp by (simp add: confined_def)
  have lok2: "level_ok b2 l (Price a) sd (C l) (at_price (Price a) xs)"
  proof (rule level_ok_same[OF lok])
    fix x assume "x \<in> set (C l)"
    then show "nodes b2 x = nodes b x" using nC by (intro gp(4)) auto
  qed (use gp in simp_all)
  have con2: "confined l b2 (pushBack l n b2)" using gp(3) by (intro pushBack_confined[OF lok2]) simp
  have "confined l b (pushBack l n b2)"
  proof -
    have "nodes (pushBack l n b2) x = nodes b x"
      if "x < nextNode b" "order (nodes b x) \<noteq> None" "lv (nodes b x) \<noteq> Some l" for x
      using keep[OF that(1,2)] con2 that gp(5) by (auto simp: confined_def)
    then show ?thesis using gp by (auto simp: confined_def pushBack_frame)
  qed
  then have con: "confined l b b'" by (simp add: confined_def b')
  have "level_ok (pushBack l n b2) l (Price a) sd (C l @ [n]) (at_price (Price a) xs @ [a])"
    using level_ok_push[OF lok2 nC] gp by simp
  then have lok': "level_ok b' l (Price a) sd (?C l) (at_price (Price a) zs)"
    using zs(1) by (simp add: level_ok_def b')
  have "side_rel ?C sd (insert (Price a) E) b' M zs"
    by (rule side_rel_change[where C' = ?C and p = "Price a" and l = l, OF sides_relD(1)[OF R] con])
      (use l lok' zs in auto)
  then have "side_rel ?C sd (insert (Price a) E - {Price a}) b' M zs"
    by (rule side_rel_drop_empty) (simp add: zs(1))
  then have near: "side_rel ?C sd (E - {Price a}) b' M zs" by simp
  have far: "side_rel ?C sd' E' b' M' ys"
    by (rule side_rel_confined[OF sides_relD(2)[OF R] con]) (use sides_relD(3)[OF R l] in auto)
  have lv': "live ?C M M' = insert n (live C M M')"
    using l by (auto simp: live_def ran_def split: if_splits)
  have ord: "order (nodes b' x) = (if x = n then Some a else order (nodes b x))" for x
    using gp(3,4) by (simp add: b' pushBack_frame)
  have noid: "hByID b (ID a) = None" using index_ids[OF R, of "ID a"] id by blast
  have hb: "hByID b' = (hByID b)(ID a \<mapsto> n)"
    using gp(8) by (simp add: b' pushBack_def upd_node_def upd_level_def Let_def split: option.splits)
  have idx: "index_ok b' (live ?C M M')"
    unfolding index_ok_def
  proof (intro allI)
    fix i k
    have old: "hByID b i = Some k \<longleftrightarrow> k \<in> live C M M' \<and> map_option ID (order (nodes b k)) = Some i"
      for i k using sides_relD(5)[OF R] by (simp add: index_ok_def)
    show "hByID b' i = Some k \<longleftrightarrow>
        k \<in> live ?C M M' \<and> map_option ID (order (nodes b' k)) = Some i"
    proof (cases "k = n")
      case True
      then show ?thesis using old[of i n] nl unfolding lv' ord hb by auto
    next
      case False
      then show ?thesis using old[of i k] old[of "ID a" k] noid unfolding lv' ord hb
        by (cases "i = ID a") auto
    qed
  qed
  have "order (nodes b2 n) \<noteq> None" using gp(3) by simp
  then have "n \<notin> set (lvNodePool b2)" using gp(9) by (auto simp: pool_ok_def)
  moreover have "lvNodePool b' = lvNodePool b2" "nextNode b' = nextNode b2"
    by (simp_all add: b' pushBack_def upd_node_def upd_level_def Let_def split: option.splits)
  ultimately have pl: "pool_ok b'"
    using gp(9) gp(4) unfolding pool_ok_def ord by (metis (no_types, lifting))
  have "mset (map ID (zs @ ys)) = mset (ID a # map ID (xs @ ys))" using zs(2) by simp
  moreover have "distinct (ID a # map ID (xs @ ys))" using sides_relD(7)[OF R] id by auto
  ultimately have "distinct (map ID (zs @ ys))" using mset_eq_imp_distinct_iff by metis
  then show ?thesis using near far idx pl sides_relD(3)[OF R] unfolding sides_rel_def by blast
qed

subsection \<open>The inner loop eats the queue of a level\<close>

lemma side_rel_mono:
  assumes "side_rel C sd E b M xs" and "E \<subseteq> F" shows "side_rel C sd F b M xs"
  using side_rel_None[OF assms(1)] side_rel_Some[OF assms(1)] assms(2) by (intro side_relI) auto

lemma sides_rel_mono:
  "sides_rel C b sd E M xs sd' E' M' ys \<Longrightarrow> E \<subseteq> F \<Longrightarrow> sides_rel C b sd F M xs sd' E' M' ys"
  unfolding sides_rel_def using side_rel_mono by blast

lemma sides_level:
  assumes "sides_rel C b sd E M xs sd' E' M' ys" and "M p = Some l"
  shows "level_empty l b \<longleftrightarrow> at_price p xs = []" and "price (levels b l) = p"
proof -
  have "level_ok b l p sd (C l) (at_price p xs)"
    using side_rel_Some[OF sides_relD(1)[OF assms(1)] assms(2)] by blast
  then show "level_empty l b \<longleftrightarrow> at_price p xs = []" "price (levels b l) = p"
    by (rule level_ok_empty, simp add: level_ok_def)
qed

lemma sides_delete:
  assumes R: "sides_rel C b sd E M xs sd' E' M' ys" and l: "M p = Some l" and e: "at_price p xs = []"
  shows "sides_rel C b sd (E - {p}) (M(p := None)) xs sd' E' M' ys"
proof -
  have "C l = []"
    using level_ok_length[OF conjunct1[OF side_rel_Some[OF sides_relD(1)[OF R] l]]] e by simp
  then have "live C (M(p := None)) M' = live C M M'" using live_delete l by metis
  moreover have "side_rel C sd (E - {p}) b (M(p := None)) xs"
    using side_rel_delete[OF sides_relD(1)[OF R] e] .
  moreover have "(M(p := None)) q = Some k \<Longrightarrow> M' q' \<noteq> Some k" for q q' k
    using sides_relD(3)[OF R] by (cases "q = p") auto
  ultimately show ?thesis
    using sides_relD(2,5,6,7)[OF R] unfolding sides_rel_def by metis
qed

lemma sides_drop_empty:
  assumes R: "sides_rel C b sd E M xs sd' E' M' ys" and "at_price p xs \<noteq> []"
  shows "sides_rel C b sd (E - {p}) M xs sd' E' M' ys"
  using R side_rel_drop_empty[OF sides_relD(1)[OF R] assms(2)] unfolding sides_rel_def by metis

lemma upd_node_fields [simp]:
  "hByID (upd_node n f b) = hByID b" "lvNodePool (upd_node n f b) = lvNodePool b"
  "hAsks (upd_node n f b) = hAsks b" "hBids (upd_node n f b) = hBids b"
  "askH (upd_node n f b) = askH b" "bidH (upd_node n f b) = bidH b"
  "levels (upd_node n f b) = levels b"
  by (simp_all add: upd_node_def)

definition same_maps :: "LevelOrderBookHeap \<Rightarrow> LevelOrderBookHeap \<Rightarrow> bool" where
  "same_maps b b' \<longleftrightarrow> hAsks b' = hAsks b \<and> hBids b' = hBids b \<and> askH b' = askH b \<and> bidH b' = bidH b"

text \<open>One turn of the loop, on the head of a level.\<close>

lemma eat_level_turn:
  assumes R: "sides_rel C b sd E M (m # zs) sd' E' M' ys" and l: "M (Price m) = Some l"
    and E: "Price m \<in> E" and q: "0 < Qty t"
    and x: "x = min (Qty t) (Qty m)" and t': "t' = t\<lparr>Qty := Qty t - x\<rparr>"
    and m': "m' = m\<lparr>Qty := Qty m - x\<rparr>"
    and e': "e' = emit \<lparr>TakerID = ID t, MakerID = ID m, TradePrice = Price m, TradeQty = x\<rparr> e"
  obtains C' b' where "eat_level (Suc k) l emit b t e = eat_level k l emit b' t' e'"
    and "sides_rel C' b' sd E M (if Qty m' = 0 then zs else m' # zs) sd' E' M' ys"
    and "same_maps b b'"
proof -
  have lok: "level_ok b l (Price m) sd (C l) (m # at_price (Price m) zs)"
    using side_rel_Some[OF sides_relD(1)[OF R] l] by simp
  then obtain n ns where C: "C l = n # ns" using level_ok_length by (cases "C l") force+
  have hd: "head (levels b l) = Some n" and ord: "order (nodes b n) = Some m"
    and pr: "price (levels b l) = Price m"
    using lok C by (simp_all add: level_ok_def level_chain_def)
  have ne: "\<not> level_empty l b" using sides_level(1)[OF R l] by simp
  let ?b1 = "upd_node n (\<lambda>x. x\<lparr>order := Some m'\<rparr>) b"
  let ?b2 = "if Qty m' = 0 then unlink l n (ID m) ?b1 else ?b1"
  have step: "eat_level (Suc k) l emit b t e = eat_level k l emit ?b2 t' e'"
    using q ne hd ord pr by (simp add: Let_def min64_min x t' m' e' unlink_def)
  have R1: "sides_rel C ?b1 sd E M (m' # zs) sd' E' M' ys"
    using sides_set_order[OF R l C m'] E by (simp add: insert_absorb)
  have same: "same_maps b ?b2" by (simp add: same_maps_def)
  show ?thesis
  proof (cases "Qty m' = 0")
    case False
    then show ?thesis using that[of ?b1 C] step same R1 by simp
  next
    case True
    let ?C = "C(l := filter (\<lambda>y. y \<noteq> n) (C l))"
    have "order (nodes ?b1 n) = Some m'" by (simp add: upd_node_def)
    moreover have "n \<in> set (C l)" using C by simp
    ultimately have
      "sides_rel ?C (unlink l n (ID m') ?b1) sd (insert (Price m) E) M
        (filter (\<lambda>y. ID y \<noteq> ID m') (m' # zs)) sd' E' M' ys"
      using sides_unlink[OF R1 l _ _ refl] by blast
    moreover have "ID m \<notin> ID ` set zs" using sides_relD(7)[OF R] by auto
    then have "filter (\<lambda>y. ID y \<noteq> ID m') (m' # zs) = zs" by (simp add: m' filter_absent)
    ultimately have "sides_rel ?C (unlink l n (ID m) ?b1) sd E M zs sd' E' M' ys"
      using E by (simp add: m' insert_absorb)
    then show ?thesis using that[of ?b2 ?C] step same True by simp
  qed
qed

lemma eat_level_done:
  "Qty t \<le> 0 \<or> level_empty l b \<Longrightarrow> eat_level (Suc k) l emit b t e = Ret (b, t, e)"
  by auto

lemma eat_level_eat:
  assumes "sides_rel C b sd E M (os @ rest) sd' E' M' ys" and "M p = Some l" and "p \<in> E"
    and "\<forall>m \<in> set os. Price m = p \<and> 0 < Qty m" and "at_price p rest = []"
    and "eat (\<lambda>_. True) (ID t) (Qty t) os = (ts, r, ms)" and "nat (Qty t) < k"
  shows "\<exists>C' b'. eat_level k l emit b t e = Ret (b', t\<lparr>Qty := r\<rparr>, fold emit ts e) \<and>
    sides_rel C' b' sd E M (ms @ rest) sd' E' M' ys \<and> same_maps b b'"
  using assms
proof (induction os arbitrary: C b t e k ts r ms)
  case Nil
  obtain k' where k: "k = Suc k'" using Nil.prems(7) by (cases k) auto
  have "level_empty l b" using sides_level(1)[OF Nil.prems(1,2)] Nil.prems(5) by simp
  then show ?case using Nil.prems k by (auto simp: same_maps_def)
next
  case (Cons m os)
  obtain k' where k: "k = Suc k'" using Cons.prems(7) by (cases k) auto
  have m: "Price m = p" "0 < Qty m" using Cons.prems(4) by auto
  show ?case
  proof (cases "Qty t \<le> 0")
    case True
    then have "ts = []" "r = Qty t" "ms = m # os" using Cons.prems(6) by auto
    then show ?thesis using Cons.prems(1) eat_level_done True unfolding k
      by (intro exI[of _ C] exI[of _ b]) (simp add: same_maps_def)
  next
    case False
    let ?x = "min (Qty t) (Qty m)"
    let ?t = "t\<lparr>Qty := Qty t - ?x\<rparr>"
    let ?m = "m\<lparr>Qty := Qty m - ?x\<rparr>"
    let ?tr = "\<lparr>TakerID = ID t, MakerID = ID m, TradePrice = Price m, TradeQty = ?x\<rparr>"
    obtain C1 b1 where st: "eat_level (Suc k') l emit b t e = eat_level k' l emit b1 ?t (emit ?tr e)"
      "sides_rel C1 b1 sd E M (if Qty ?m = 0 then os @ rest else ?m # os @ rest) sd' E' M' ys"
      "same_maps b b1"
      using eat_level_turn[of C b sd E M m "os @ rest" sd' E' M' ys l t ?x ?t ?m _ emit e k']
        Cons.prems(1,2,3) m False by (metis append_Cons linorder_not_le)
    show ?thesis
    proof (cases "Qty m \<le> Qty t")
      case True
      obtain us r' ms' where e: "eat (\<lambda>_. True) (ID t) (Qty t - ?x) os = (us, r', ms')"
        by (cases "eat (\<lambda>_. True) (ID t) (Qty t - ?x) os") auto
      have res: "ts = ?tr # us" "r = r'" "ms = ms'" using Cons.prems(6) False True e by auto
      have R1: "sides_rel C1 b1 sd E M (os @ rest) sd' E' M' ys" using st(2) True by simp
      have "nat (Qty ?t) < k'" using Cons.prems(7) k True m(2) by auto
      from Cons.IH[OF R1 Cons.prems(2,3) _ Cons.prems(5) _ this, of us r' ms' "emit ?tr e"]
      show ?thesis using Cons.prems(4) e st(1,3) res unfolding k by (auto simp: same_maps_def)
    next
      case f: False
      then have res: "ts = [?tr]" "r = 0" "ms = ?m # os" using Cons.prems(6) False by (auto simp: Let_def)
      obtain k2 where k2: "k' = Suc k2" using Cons.prems(7) k False by (cases k') auto
      have "eat_level k' l emit b1 ?t (emit ?tr e) = Ret (b1, ?t, emit ?tr e)"
        using f unfolding k2 by (intro eat_level_done) simp
      then show ?thesis using st res f unfolding k
        by (intro exI[of _ C1] exI[of _ b1]) simp
    qed
  qed
qed

subsection \<open>Best prices\<close>

definition askHeap_ok :: "LevelOrderBookHeap \<Rightarrow> bool" where
  "askHeap_ok b \<longleftrightarrow> is_heap (<) (askH b) \<and> dom (hAsks b) \<subseteq> set (askH b)"

definition bidHeap_ok :: "LevelOrderBookHeap \<Rightarrow> bool" where
  "bidHeap_ok b \<longleftrightarrow> is_heap (>) (bidH b) \<and> dom (hBids b) \<subseteq> set (bidH b)"

lemma askHeap_ok_pop:
  assumes ok: "askHeap_ok b" and ne: "askH b \<noteq> []" and stale: "hAsks b (askH b ! 0) = None"
  obtains h where "heap_Pop minH (askH b) = Ret (askH b ! 0, h)" and "askHeap_ok (b\<lparr>askH := h\<rparr>)"
    and "length (askH b) = Suc (length h)"
proof -
  have "is_heap (<) (askH b)" using ok by (simp add: askHeap_ok_def)
  then obtain h where h: "heap_Pop minH (askH b) = Ret (hd (askH b), h)"
    "mset (askH b) = add_mset (hd (askH b)) (mset h)" "is_heap (<) h"
    using askHeap.heap_Pop_Ret[OF ne] by blast
  have hd: "hd (askH b) = askH b ! 0" using ne by (rule hd_conv_nth)
  have "set (askH b) = insert (askH b ! 0) (set h)"
    using h(2) hd by (metis set_mset_add_mset_insert set_mset_mset)
  moreover have "askH b ! 0 \<notin> dom (hAsks b)" using stale by (simp add: domIff)
  ultimately have "dom (hAsks b) \<subseteq> set h"
    using ok unfolding askHeap_ok_def by (metis subset_insert)
  moreover have "length (askH b) = Suc (length h)"
    using arg_cong[OF h(2), of size] by simp
  ultimately show ?thesis using that[of h] h hd by (simp add: askHeap_ok_def)
qed

lemma ask_best:
  assumes R: "sides_rel C b Sell {} (hAsks b) A sd' E' M' ys" and so: "side_ok Sell (\<le>) A"
    and ok: "askHeap_ok b" and "hAsks b p = Some l" and p: "p = askH b ! 0"
  obtains m zs where "A = m # zs" and "Price m = p" and "\<not> level_empty l b"
proof -
  have ne: "at_price p A \<noteq> []"
    using side_rel_Some[OF sides_relD(1)[OF R] assms(4)] by auto
  then obtain x where "x \<in> set (at_price p A)" by (metis list.set_intros(1) neq_Nil_conv)
  then have x: "x \<in> set A" "Price x = p" by simp_all
  then obtain m zs where A: "A = m # zs" by (cases A) auto
  have "Price m \<in> dom (hAsks b)"
    using side_rel_level[OF sides_relD(1)[OF R], of m] A by auto
  then have "\<not> Price m < p"
    using ok askHeap.is_heap_least[of "askH b" "Price m"] unfolding askHeap_ok_def p by blast
  moreover have "Price m \<le> p" using so x A by (auto simp: side_ok_Cons)
  ultimately show ?thesis using that[OF A] sides_level(1)[OF R assms(4)] ne by simp
qed

lemma bestAsk_loop_min:
  assumes "sides_rel C b Sell {} (hAsks b) A sd' E' M' ys" and "side_ok Sell (\<le>) A"
    and "askHeap_ok b" and "length (askH b) < k"
  shows "\<exists>h. bestAsk_loop k b =
      Ret (case A of [] \<Rightarrow> (0, False, b\<lparr>askH := h\<rparr>) | m # _ \<Rightarrow> (Price m, True, b\<lparr>askH := h\<rparr>)) \<and>
    askHeap_ok (b\<lparr>askH := h\<rparr>)"
  using assms
proof (induction k arbitrary: b)
  case (Suc k)
  show ?case
  proof (cases "askH b = []")
    case True
    then have dn: "dom (hAsks b) = {}" using Suc.prems(3) by (simp add: askHeap_ok_def)
    have "A = []"
    proof (cases A)
      case (Cons m zs)
      then obtain l where "hAsks b (Price m) = Some l"
        using side_rel_level[OF sides_relD(1)[OF Suc.prems(1)], of m] by auto
      then show ?thesis using dn by auto
    qed
    then show ?thesis using True Suc.prems(3) by (intro exI[of _ "askH b"]) (simp add: askHeap.Len askHeap_ok_def)
  next
    case ne: False
    let ?p = "askH b ! 0"
    show ?thesis
    proof (cases "hAsks b ?p")
      case None
      obtain h where h: "heap_Pop minH (askH b) = Ret (?p, h)" "askHeap_ok (b\<lparr>askH := h\<rparr>)"
        "length (askH b) = Suc (length h)"
        using askHeap_ok_pop[OF Suc.prems(3) ne None] by blast
      have step: "bestAsk_loop (Suc k) b = bestAsk_loop k (b\<lparr>askH := h\<rparr>)"
        using ne None h(1) by (simp add: askHeap.Len Let_def)
      obtain ha where "bestAsk_loop k (b\<lparr>askH := h\<rparr>) = Ret (case A of
            [] \<Rightarrow> (0, False, b\<lparr>askH := h, askH := ha\<rparr>)
          | m # _ \<Rightarrow> (Price m, True, b\<lparr>askH := h, askH := ha\<rparr>))" "askHeap_ok (b\<lparr>askH := ha\<rparr>)"
        using Suc.IH[of "b\<lparr>askH := h\<rparr>"] Suc.prems h by auto
      then show ?thesis unfolding step by (intro exI[of _ ha]) (cases A; simp)
    next
      case (Some l)
      obtain m zs where "A = m # zs" "Price m = ?p" "\<not> level_empty l b"
        using ask_best[OF Suc.prems(1,2,3) Some refl] by blast
      then show ?thesis using ne Some Suc.prems(3)
        by (intro exI[of _ "askH b"]) (simp add: askHeap.Len Let_def)
    qed
  qed
qed simp

lemma bestAskPrice_min:
  assumes "sides_rel C b Sell {} (hAsks b) A sd' E' M' ys" and "side_ok Sell (\<le>) A"
    and "askHeap_ok b"
  obtains h where "bestAskPrice b =
      Ret (case A of [] \<Rightarrow> (0, False, b\<lparr>askH := h\<rparr>) | m # _ \<Rightarrow> (Price m, True, b\<lparr>askH := h\<rparr>))"
    and "askHeap_ok (b\<lparr>askH := h\<rparr>)"
  using bestAsk_loop_min[OF assms, of "Suc (length (askH b))"] unfolding bestAskPrice_def by auto

lemma bidHeap_ok_pop:
  assumes ok: "bidHeap_ok b" and ne: "bidH b \<noteq> []" and stale: "hBids b (bidH b ! 0) = None"
  obtains h where "heap_Pop maxH (bidH b) = Ret (bidH b ! 0, h)" and "bidHeap_ok (b\<lparr>bidH := h\<rparr>)"
    and "length (bidH b) = Suc (length h)"
proof -
  have "is_heap (>) (bidH b)" using ok by (simp add: bidHeap_ok_def)
  then obtain h where h: "heap_Pop maxH (bidH b) = Ret (hd (bidH b), h)"
    "mset (bidH b) = add_mset (hd (bidH b)) (mset h)" "is_heap (>) h"
    using bidHeap.heap_Pop_Ret[OF ne] by blast
  have hd: "hd (bidH b) = bidH b ! 0" using ne by (rule hd_conv_nth)
  have "set (bidH b) = insert (bidH b ! 0) (set h)"
    using h(2) hd by (metis set_mset_add_mset_insert set_mset_mset)
  moreover have "bidH b ! 0 \<notin> dom (hBids b)" using stale by (simp add: domIff)
  ultimately have "dom (hBids b) \<subseteq> set h"
    using ok unfolding bidHeap_ok_def by (metis subset_insert)
  moreover have "length (bidH b) = Suc (length h)"
    using arg_cong[OF h(2), of size] by simp
  ultimately show ?thesis using that[of h] h hd by (simp add: bidHeap_ok_def)
qed

lemma bid_best:
  assumes R: "sides_rel C b Buy {} (hBids b) A sd' E' M' ys" and so: "side_ok Buy (\<ge>) A"
    and ok: "bidHeap_ok b" and "hBids b p = Some l" and p: "p = bidH b ! 0"
  obtains m zs where "A = m # zs" and "Price m = p" and "\<not> level_empty l b"
proof -
  have ne: "at_price p A \<noteq> []"
    using side_rel_Some[OF sides_relD(1)[OF R] assms(4)] by auto
  then obtain x where "x \<in> set (at_price p A)" by (metis list.set_intros(1) neq_Nil_conv)
  then have x: "x \<in> set A" "Price x = p" by simp_all
  then obtain m zs where A: "A = m # zs" by (cases A) auto
  have "Price m \<in> dom (hBids b)"
    using side_rel_level[OF sides_relD(1)[OF R], of m] A by auto
  then have "\<not> p < Price m"
    using ok bidHeap.is_heap_least[of "bidH b" "Price m"] unfolding bidHeap_ok_def p by blast
  moreover have "p \<le> Price m" using so x A by (auto simp: side_ok_Cons)
  ultimately show ?thesis using that[OF A] sides_level(1)[OF R assms(4)] ne by simp
qed

lemma bestBid_loop_max:
  assumes "sides_rel C b Buy {} (hBids b) A sd' E' M' ys" and "side_ok Buy (\<ge>) A"
    and "bidHeap_ok b" and "length (bidH b) < k"
  shows "\<exists>h. bestBid_loop k b =
      Ret (case A of [] \<Rightarrow> (0, False, b\<lparr>bidH := h\<rparr>) | m # _ \<Rightarrow> (Price m, True, b\<lparr>bidH := h\<rparr>)) \<and>
    bidHeap_ok (b\<lparr>bidH := h\<rparr>)"
  using assms
proof (induction k arbitrary: b)
  case (Suc k)
  show ?case
  proof (cases "bidH b = []")
    case True
    then have dn: "dom (hBids b) = {}" using Suc.prems(3) by (simp add: bidHeap_ok_def)
    have "A = []"
    proof (cases A)
      case (Cons m zs)
      then obtain l where "hBids b (Price m) = Some l"
        using side_rel_level[OF sides_relD(1)[OF Suc.prems(1)], of m] by auto
      then show ?thesis using dn by auto
    qed
    then show ?thesis using True Suc.prems(3) by (intro exI[of _ "bidH b"]) (simp add: bidHeap.Len bidHeap_ok_def)
  next
    case ne: False
    let ?p = "bidH b ! 0"
    show ?thesis
    proof (cases "hBids b ?p")
      case None
      obtain h where h: "heap_Pop maxH (bidH b) = Ret (?p, h)" "bidHeap_ok (b\<lparr>bidH := h\<rparr>)"
        "length (bidH b) = Suc (length h)"
        using bidHeap_ok_pop[OF Suc.prems(3) ne None] by blast
      have step: "bestBid_loop (Suc k) b = bestBid_loop k (b\<lparr>bidH := h\<rparr>)"
        using ne None h(1) by (simp add: bidHeap.Len Let_def)
      obtain ha where "bestBid_loop k (b\<lparr>bidH := h\<rparr>) = Ret (case A of
            [] \<Rightarrow> (0, False, b\<lparr>bidH := h, bidH := ha\<rparr>)
          | m # _ \<Rightarrow> (Price m, True, b\<lparr>bidH := h, bidH := ha\<rparr>))" "bidHeap_ok (b\<lparr>bidH := ha\<rparr>)"
        using Suc.IH[of "b\<lparr>bidH := h\<rparr>"] Suc.prems h by auto
      then show ?thesis unfolding step by (intro exI[of _ ha]) (cases A; simp)
    next
      case (Some l)
      obtain m zs where "A = m # zs" "Price m = ?p" "\<not> level_empty l b"
        using bid_best[OF Suc.prems(1,2,3) Some refl] by blast
      then show ?thesis using ne Some Suc.prems(3)
        by (intro exI[of _ "bidH b"]) (simp add: bidHeap.Len Let_def)
    qed
  qed
qed simp

lemma bestBidPrice_max:
  assumes "sides_rel C b Buy {} (hBids b) A sd' E' M' ys" and "side_ok Buy (\<ge>) A"
    and "bidHeap_ok b"
  obtains h where "bestBidPrice b =
      Ret (case A of [] \<Rightarrow> (0, False, b\<lparr>bidH := h\<rparr>) | m # _ \<Rightarrow> (Price m, True, b\<lparr>bidH := h\<rparr>))"
    and "bidHeap_ok (b\<lparr>bidH := h\<rparr>)"
  using bestBid_loop_max[OF assms, of "Suc (length (bidH b))"] unfolding bestBidPrice_def by auto

text \<open>The taker eats the asks, best price first, as the specification does.\<close>

lemma buy_loop_eat:
  assumes "sides_rel C b Sell {} (hAsks b) A sd' E' M' ys" and "side_ok Sell (\<le>) A"
    and "askHeap_ok b" and "eat (\<lambda>p. p \<le> Price t) (ID t) (Qty t) A = (ts, r, ms)"
    and "nat (Qty t) < k"
  shows "\<exists>C' b'. matchBuyEmit_loop k emit b t e = Ret (b', t\<lparr>Qty := r\<rparr>, fold emit ts e) \<and>
    sides_rel C' b' Sell {} (hAsks b') ms sd' E' M' ys \<and> askHeap_ok b' \<and>
    hBids b' = hBids b \<and> bidH b' = bidH b"
  using assms
proof (induction k arbitrary: C b A t e ts r ms)
  case (Suc k)
  show ?case
  proof (cases "Qty t \<le> 0")
    case True
    then have "ts = []" "r = Qty t" "ms = A" using Suc.prems(4) by (cases A; simp)+
    then show ?thesis using Suc.prems True by auto
  next
    case q: False
    obtain h where best: "bestAskPrice b = Ret (case A of [] \<Rightarrow> (0, False, b\<lparr>askH := h\<rparr>)
        | m # _ \<Rightarrow> (Price m, True, b\<lparr>askH := h\<rparr>))" and hok: "askHeap_ok (b\<lparr>askH := h\<rparr>)"
      using bestAskPrice_min[OF Suc.prems(1-3)] by blast
    let ?b = "b\<lparr>askH := h\<rparr>"
    have R: "sides_rel C ?b Sell {} (hAsks ?b) A sd' E' M' ys" using Suc.prems(1) by simp
    show ?thesis
    proof (cases "\<exists>m zs. A = m # zs \<and> Price m \<le> Price t")
      case False
      then have "ts = []" "r = Qty t" "ms = A" using Suc.prems(4) by (cases A; force)+
      moreover have "matchBuyEmit_loop (Suc k) emit b t e = Ret (?b, t, e)"
        using best q False by (cases A) auto
      ultimately show ?thesis using R hok by auto
    next
      case True
      then obtain m zs where A: "A = m # zs" and pr: "Price m \<le> Price t" by blast
      let ?p = "Price m"
      let ?os = "at_price ?p A"
      let ?rest = "filter (\<lambda>x. Price x \<noteq> ?p) A"
      obtain l where l: "hAsks b ?p = Some l"
        using side_rel_level[OF sides_relD(1)[OF R], of m] A by auto
      have ne: "?os \<noteq> []" using A by simp
      have nl: "\<not> level_empty l ?b" using sides_level(1)[OF R] l ne by simp
      have split: "A = ?os @ ?rest"
        using askOrder.sorted_split[of A ?p] Suc.prems(2) A
        by (auto simp: side_ok_def sorted_side_def at_price_def)
      have rest0: "at_price ?p ?rest = []" by (simp add: at_price_def)
      have pos: "\<forall>x \<in> set A. 0 < Qty x" using Suc.prems(2) by (simp add: side_ok_def)
      obtain us r1 ms1 where e1: "eat (\<lambda>_. True) (ID t) (Qty t) ?os = (us, r1, ms1)"
        by (cases "eat (\<lambda>_. True) (ID t) (Qty t) ?os") auto
      have tot: "eat (\<lambda>p. p \<le> Price t) (ID t) (Qty t) A =
          (if ms1 = [] then (let (us', r', ms') = eat (\<lambda>p. p \<le> Price t) (ID t) r1 ?rest
             in (us @ us', r', ms')) else (us, r1, ms1 @ ?rest))"
        by (subst split, subst eat_append) (use pr e1 in auto)
      have R0: "sides_rel C ?b Sell {?p} (hAsks ?b) (?os @ ?rest) sd' E' M' ys"
        using sides_rel_mono[OF R] split by (metis empty_subsetI)
      have "\<exists>C' b'. eat_level (fuel_for t) l emit ?b t e = Ret (b', t\<lparr>Qty := r1\<rparr>, fold emit us e) \<and>
        sides_rel C' b' Sell {?p} (hAsks ?b) (ms1 @ ?rest) sd' E' M' ys \<and> same_maps ?b b'"
        by (rule eat_level_eat[OF R0 _ _ _ rest0 e1]) (use l pos q in \<open>auto simp: fuel_for_def\<close>)
      then obtain C1 b1 where in1: "eat_level (fuel_for t) l emit ?b t e =
          Ret (b1, t\<lparr>Qty := r1\<rparr>, fold emit us e)"
        and R1: "sides_rel C1 b1 Sell {?p} (hAsks ?b) (ms1 @ ?rest) sd' E' M' ys"
        and same: "same_maps ?b b1" by blast
      have hA: "hAsks b1 = hAsks b" "askH b1 = h" "hBids b1 = hBids b" "bidH b1 = bidH b"
        using same by (simp_all add: same_maps_def)
      have at1: "at_price ?p (ms1 @ ?rest) = ms1"
      proof -
        have "Price ` set ms1 \<subseteq> Price ` set ?os" using eat_prices[OF e1] pos by auto
        then have "at_price ?p ms1 = ms1" by (fastforce simp: at_price_def filter_id_conv)
        then show ?thesis using rest0 by simp
      qed
      have l': "hAsks ?b ?p = Some l" using l by simp
      have lvl: "level_empty l b1 \<longleftrightarrow> ms1 = []" "price (levels b1 l) = ?p"
        using sides_level[OF R1 l'] unfolding at1 .
      let ?b2 = "if level_empty l b1 then b1\<lparr>hAsks := (hAsks b1)(?p := None)\<rparr> else b1"
      have step: "matchBuyEmit_loop (Suc k) emit b t e =
          matchBuyEmit_loop k emit ?b2 (t\<lparr>Qty := r1\<rparr>) (fold emit us e)"
        using q best A pr l nl in1 lvl(2) by (simp add: Let_def)
      have ok2: "askHeap_ok ?b2"
        using hok hA by (auto simp: askHeap_ok_def)
      show ?thesis
      proof (cases "ms1 = []")
        case True
        have "at_price ?p (ms1 @ ?rest) = []" unfolding at1 by (rule True)
        from sides_delete[OF R1 l' this]
        have "sides_rel C1 b1 Sell ({?p} - {?p}) ((hAsks ?b)(?p := None)) ([] @ ?rest) sd' E' M' ys"
          unfolding True .
        then have R2: "sides_rel C1 ?b2 Sell {} (hAsks ?b2) ?rest sd' E' M' ys"
          using lvl True hA by simp
        have r1: "r1 < Qty t"
        proof -
          obtain x xs where os: "?os = x # xs" using ne by (cases ?os) auto
          have ps: "\<forall>y \<in> set (x # xs). 0 < Qty y" unfolding os[symmetric] using pos by simp
          show ?thesis by (rule eat_progress[OF e1[unfolded os] ps]) (use q in simp_all)
        qed
        have so2: "side_ok Sell (\<le>) ?rest"
          using Suc.prems(2) by (auto simp: side_ok_def sorted_side_def sorted_wrt_filter)
        obtain us' where e2: "eat (\<lambda>p. p \<le> Price (t\<lparr>Qty := r1\<rparr>)) (ID (t\<lparr>Qty := r1\<rparr>))
            (Qty (t\<lparr>Qty := r1\<rparr>)) ?rest = (us', r, ms)" and ts: "ts = us @ us'"
          using Suc.prems(4) tot True by (auto split: prod.splits)
        have "nat (Qty (t\<lparr>Qty := r1\<rparr>)) < k" using Suc.prems(5) r1 q by simp
        from Suc.IH[OF R2 so2 ok2 e2 this, of "fold emit us e"]
        show ?thesis using step ts hA lvl True by auto
      next
        case False
        have "r1 = 0"
          using eat_rest[OF e1] eat_rest_nonneg[OF e1] q False by (cases ms1) force+
        obtain k' where k: "k = Suc k'" using Suc.prems(5) q by (cases k) auto
        have "sides_rel C1 b1 Sell ({?p} - {?p}) (hAsks ?b) (ms1 @ ?rest) sd' E' M' ys"
          by (rule sides_drop_empty[OF R1]) (simp only: at1 False not_False_eq_True)
        then have R2: "sides_rel C1 b1 Sell {} (hAsks b) (ms1 @ ?rest) sd' E' M' ys" by simp
        have "matchBuyEmit_loop k emit ?b2 (t\<lparr>Qty := r1\<rparr>) (fold emit us e) =
            Ret (b1, t\<lparr>Qty := r1\<rparr>, fold emit us e)"
          using \<open>r1 = 0\<close> lvl False k by simp
        moreover have "ts = us" "r = r1" "ms = ms1 @ ?rest" using Suc.prems(4) tot False by auto
        ultimately show ?thesis using step R2 hA ok2 lvl False
          by (intro exI[of _ C1] exI[of _ b1]) simp
      qed
    qed
  qed
qed simp

text \<open>The taker eats the bids, best price first, as the specification does.\<close>

lemma sell_loop_eat:
  assumes "sides_rel C b Buy {} (hBids b) A sd' E' M' ys" and "side_ok Buy (\<ge>) A"
    and "bidHeap_ok b" and "eat (\<lambda>p. Price t \<le> p) (ID t) (Qty t) A = (ts, r, ms)"
    and "nat (Qty t) < k"
  shows "\<exists>C' b'. matchSellEmit_loop k emit b t e = Ret (b', t\<lparr>Qty := r\<rparr>, fold emit ts e) \<and>
    sides_rel C' b' Buy {} (hBids b') ms sd' E' M' ys \<and> bidHeap_ok b' \<and>
    hAsks b' = hAsks b \<and> askH b' = askH b"
  using assms
proof (induction k arbitrary: C b A t e ts r ms)
  case (Suc k)
  show ?case
  proof (cases "Qty t \<le> 0")
    case True
    then have "ts = []" "r = Qty t" "ms = A" using Suc.prems(4) by (cases A; simp)+
    then show ?thesis using Suc.prems True by auto
  next
    case q: False
    obtain h where best: "bestBidPrice b = Ret (case A of [] \<Rightarrow> (0, False, b\<lparr>bidH := h\<rparr>)
        | m # _ \<Rightarrow> (Price m, True, b\<lparr>bidH := h\<rparr>))" and hok: "bidHeap_ok (b\<lparr>bidH := h\<rparr>)"
      using bestBidPrice_max[OF Suc.prems(1-3)] by blast
    let ?b = "b\<lparr>bidH := h\<rparr>"
    have R: "sides_rel C ?b Buy {} (hBids ?b) A sd' E' M' ys" using Suc.prems(1) by simp
    show ?thesis
    proof (cases "\<exists>m zs. A = m # zs \<and> Price t \<le> Price m")
      case False
      then have "ts = []" "r = Qty t" "ms = A" using Suc.prems(4) by (cases A; force)+
      moreover have "matchSellEmit_loop (Suc k) emit b t e = Ret (?b, t, e)"
        using best q False by (cases A) auto
      ultimately show ?thesis using R hok by auto
    next
      case True
      then obtain m zs where A: "A = m # zs" and pr: "Price t \<le> Price m" by blast
      let ?p = "Price m"
      let ?os = "at_price ?p A"
      let ?rest = "filter (\<lambda>x. Price x \<noteq> ?p) A"
      obtain l where l: "hBids b ?p = Some l"
        using side_rel_level[OF sides_relD(1)[OF R], of m] A by auto
      have ne: "?os \<noteq> []" using A by simp
      have nl: "\<not> level_empty l ?b" using sides_level(1)[OF R] l ne by simp
      have split: "A = ?os @ ?rest"
        using bidOrder.sorted_split[of A ?p] Suc.prems(2) A
        by (auto simp: side_ok_def sorted_side_def at_price_def)
      have rest0: "at_price ?p ?rest = []" by (simp add: at_price_def)
      have pos: "\<forall>x \<in> set A. 0 < Qty x" using Suc.prems(2) by (simp add: side_ok_def)
      obtain us r1 ms1 where e1: "eat (\<lambda>_. True) (ID t) (Qty t) ?os = (us, r1, ms1)"
        by (cases "eat (\<lambda>_. True) (ID t) (Qty t) ?os") auto
      have tot: "eat (\<lambda>p. Price t \<le> p) (ID t) (Qty t) A =
          (if ms1 = [] then (let (us', r', ms') = eat (\<lambda>p. Price t \<le> p) (ID t) r1 ?rest
             in (us @ us', r', ms')) else (us, r1, ms1 @ ?rest))"
        by (subst split, subst eat_append) (use pr e1 in auto)
      have R0: "sides_rel C ?b Buy {?p} (hBids ?b) (?os @ ?rest) sd' E' M' ys"
        using sides_rel_mono[OF R] split by (metis empty_subsetI)
      have "\<exists>C' b'. eat_level (fuel_for t) l emit ?b t e = Ret (b', t\<lparr>Qty := r1\<rparr>, fold emit us e) \<and>
        sides_rel C' b' Buy {?p} (hBids ?b) (ms1 @ ?rest) sd' E' M' ys \<and> same_maps ?b b'"
        by (rule eat_level_eat[OF R0 _ _ _ rest0 e1]) (use l pos q in \<open>auto simp: fuel_for_def\<close>)
      then obtain C1 b1 where in1: "eat_level (fuel_for t) l emit ?b t e =
          Ret (b1, t\<lparr>Qty := r1\<rparr>, fold emit us e)"
        and R1: "sides_rel C1 b1 Buy {?p} (hBids ?b) (ms1 @ ?rest) sd' E' M' ys"
        and same: "same_maps ?b b1" by blast
      have hA: "hBids b1 = hBids b" "bidH b1 = h" "hAsks b1 = hAsks b" "askH b1 = askH b"
        using same by (simp_all add: same_maps_def)
      have at1: "at_price ?p (ms1 @ ?rest) = ms1"
      proof -
        have "Price ` set ms1 \<subseteq> Price ` set ?os" using eat_prices[OF e1] pos by auto
        then have "at_price ?p ms1 = ms1" by (fastforce simp: at_price_def filter_id_conv)
        then show ?thesis using rest0 by simp
      qed
      have l': "hBids ?b ?p = Some l" using l by simp
      have lvl: "level_empty l b1 \<longleftrightarrow> ms1 = []" "price (levels b1 l) = ?p"
        using sides_level[OF R1 l'] unfolding at1 .
      let ?b2 = "if level_empty l b1 then b1\<lparr>hBids := (hBids b1)(?p := None)\<rparr> else b1"
      have step: "matchSellEmit_loop (Suc k) emit b t e =
          matchSellEmit_loop k emit ?b2 (t\<lparr>Qty := r1\<rparr>) (fold emit us e)"
        using q best A pr l nl in1 lvl(2) by (simp add: Let_def)
      have ok2: "bidHeap_ok ?b2"
        using hok hA by (auto simp: bidHeap_ok_def)
      show ?thesis
      proof (cases "ms1 = []")
        case True
        have "at_price ?p (ms1 @ ?rest) = []" unfolding at1 by (rule True)
        from sides_delete[OF R1 l' this]
        have "sides_rel C1 b1 Buy ({?p} - {?p}) ((hBids ?b)(?p := None)) ([] @ ?rest) sd' E' M' ys"
          unfolding True .
        then have R2: "sides_rel C1 ?b2 Buy {} (hBids ?b2) ?rest sd' E' M' ys"
          using lvl True hA by simp
        have r1: "r1 < Qty t"
        proof -
          obtain x xs where os: "?os = x # xs" using ne by (cases ?os) auto
          have ps: "\<forall>y \<in> set (x # xs). 0 < Qty y" unfolding os[symmetric] using pos by simp
          show ?thesis by (rule eat_progress[OF e1[unfolded os] ps]) (use q in simp_all)
        qed
        have so2: "side_ok Buy (\<ge>) ?rest"
          using Suc.prems(2) by (auto simp: side_ok_def sorted_side_def sorted_wrt_filter)
        obtain us' where e2: "eat (\<lambda>p. Price (t\<lparr>Qty := r1\<rparr>) \<le> p) (ID (t\<lparr>Qty := r1\<rparr>))
            (Qty (t\<lparr>Qty := r1\<rparr>)) ?rest = (us', r, ms)" and ts: "ts = us @ us'"
          using Suc.prems(4) tot True by (auto split: prod.splits)
        have "nat (Qty (t\<lparr>Qty := r1\<rparr>)) < k" using Suc.prems(5) r1 q by simp
        from Suc.IH[OF R2 so2 ok2 e2 this, of "fold emit us e"]
        show ?thesis using step ts hA lvl True by auto
      next
        case False
        have "r1 = 0"
          using eat_rest[OF e1] eat_rest_nonneg[OF e1] q False by (cases ms1) force+
        obtain k' where k: "k = Suc k'" using Suc.prems(5) q by (cases k) auto
        have "sides_rel C1 b1 Buy ({?p} - {?p}) (hBids ?b) (ms1 @ ?rest) sd' E' M' ys"
          by (rule sides_drop_empty[OF R1]) (simp only: at1 False not_False_eq_True)
        then have R2: "sides_rel C1 b1 Buy {} (hBids b) (ms1 @ ?rest) sd' E' M' ys" by simp
        have "matchSellEmit_loop k emit ?b2 (t\<lparr>Qty := r1\<rparr>) (fold emit us e) =
            Ret (b1, t\<lparr>Qty := r1\<rparr>, fold emit us e)"
          using \<open>r1 = 0\<close> lvl False k by simp
        moreover have "ts = us" "r = r1" "ms = ms1 @ ?rest" using Suc.prems(4) tot False by auto
        ultimately show ?thesis using step R2 hA ok2 lvl False
          by (intro exI[of _ C1] exI[of _ b1]) simp
      qed
    qed
  qed
qed simp

subsection \<open>The whole book\<close>

definition book_rel :: "LevelOrderBookHeap \<Rightarrow> abook \<Rightarrow> bool" where
  "book_rel b ab \<longleftrightarrow> book_ok ab \<and> askHeap_ok b \<and> bidHeap_ok b \<and>
     (\<exists>C. sides_rel C b Sell {} (hAsks b) (aAsks ab) Buy {} (hBids b) (aBids ab))"

lemma book_relE:
  assumes "book_rel b ab"
  obtains C where "sides_rel C b Sell {} (hAsks b) (aAsks ab) Buy {} (hBids b) (aBids ab)"
    and "book_ok ab" and "askHeap_ok b" and "bidHeap_ok b"
    and "side_ok Sell (\<le>) (aAsks ab)" and "side_ok Buy (\<ge>) (aBids ab)"
  using assms by (auto simp: book_rel_def book_ok_def)

lemma book_relI:
  assumes "book_ok ab" and "askHeap_ok b" and "bidHeap_ok b"
    and "sides_rel C b Sell {} (hAsks b) (aAsks ab) Buy {} (hBids b) (aBids ab)"
  shows "book_rel b ab"
  using assms by (auto simp: book_rel_def)

lemma new_book_rel: "book_rel NewLevelOrderHeapBook empty_abook"
  by (rule book_relI[where C = "\<lambda>_. []"])
    (auto simp: NewLevelOrderHeapBook_def store.extend_def empty_store_def empty_abook_def
      askHeap_ok_def bidHeap_ok_def askHeap.heap_Init_Nil bidHeap.heap_Init_Nil
      askHeap.is_heap_Nil bidHeap.is_heap_Nil sides_rel_def side_rel_def index_ok_def live_def
      pool_ok_def book_ok_def)

lemma book_rel_ids: "book_rel b ab \<Longrightarrow> hByID b i \<noteq> None \<longleftrightarrow> i \<in> book_ids ab"
  by (elim book_relE) (simp only: index_ids book_ids_def)

lemma push_fields [simp]:
  "hAsks (pushBack l n b) = hAsks b" "hBids (pushBack l n b) = hBids b"
  "askH (pushBack l n b) = askH b" "bidH (pushBack l n b) = bidH b"
  by (simp_all add: pushBack_def upd_node_def upd_level_def Let_def split: option.splits)

lemma ids_upd [simp]:
  "sides_rel C (b\<lparr>hByID := X, askH := h\<rparr>) sd E M xs sd' E' M' ys =
   sides_rel C (b\<lparr>hByID := X\<rparr>) sd E M xs sd' E' M' ys"
  by (simp add: sides_rel_def side_rel_def level_ok_def index_ok_def pool_ok_def
      cong: option.case_cong)

text \<open>\<open>Add\<close> on the ask side: find or create the level, then push.\<close>

lemma heap_add_sell:
  assumes R: "book_rel b ab" and q: "0 < Qty a" and new: "ID a \<notin> book_ids ab" and sd: "Side a = Sell"
  shows "book_rel (Heap_Add b (Some a)) (ab\<lparr>aAsks := place (\<le>) a (aAsks ab)\<rparr>)"
proof -
  from R obtain C where S: "sides_rel C b Sell {} (hAsks b) (aAsks ab) Buy {} (hBids b) (aBids ab)"
    and ok: "book_ok ab" and ah: "askHeap_ok b" and bh: "bidHeap_ok b"
    and so: "side_ok Sell (\<le>) (aAsks ab)" by (rule book_relE)
  let ?p = "Price a"
  have noid: "hByID b (ID a) = None" using book_rel_ids[OF R, of "ID a"] new by simp
  have zs: "at_price r (place (\<le>) a (aAsks ab)) =
      (if r = ?p then at_price r (aAsks ab) @ [a] else at_price r (aAsks ab))" for r
    using askOrder.filter_place[of "aAsks ab" r a] so by (simp add: at_price_def side_ok_def)
  obtain l b1 C1 where lv: "(case hAsks b ?p of Some l \<Rightarrow> (l, b)
      | None \<Rightarrow> let (l, b0) = new_level ?p b
                in (l, b0\<lparr>hAsks := (hAsks b0)(?p \<mapsto> l), askH := heap_Push minH (askH b0) ?p\<rparr>)) = (l, b1)"
    and l: "hAsks b1 ?p = Some l"
    and S1: "sides_rel C1 b1 Sell {?p} (hAsks b1) (aAsks ab) Buy {} (hBids b1) (aBids ab)"
    and h1: "askHeap_ok b1" "bidHeap_ok b1"
  proof (cases "hAsks b ?p")
    case (Some l)
    then show ?thesis using that[of l b C] S ah bh sides_rel_mono[OF S, of "{?p}"] by simp
  next
    case None
    obtain l b0 where nl: "new_level ?p b = (l, b0)" by fastforce
    have f: "hAsks b0 = hAsks b" "hBids b0 = hBids b" "askH b0 = askH b" "bidH b0 = bidH b"
      using nl by (auto simp: new_level_def)
    let ?b = "b0\<lparr>hAsks := (hAsks b0)(?p \<mapsto> l), askH := heap_Push minH (askH b0) ?p\<rparr>"
    have "sides_rel (C(l := [])) ?b Sell {?p} (hAsks ?b) (aAsks ab) Buy {} (hBids ?b) (aBids ab)"
      using sides_new_level(1)[OF S None nl] f by simp
    moreover have "askHeap_ok ?b" using ah f
      by (auto simp: askHeap_ok_def askHeap.heap_Push_set askHeap.heap_Push_is_heap)
    moreover have "bidHeap_ok ?b" using bh f by (simp add: bidHeap_ok_def)
    ultimately show ?thesis using that[of l ?b] None nl by simp
  qed
  obtain n b2 where g: "getNode a l Sell b1 = (n, b2)" by fastforce
  let ?b3 = "(pushBack l n b2)\<lparr>hByID := (hByID (pushBack l n b2))(ID a \<mapsto> n)\<rparr>"
  have add: "Heap_Add b (Some a) = ?b3"
    using q noid sd by (simp add: Heap_Add_def lv g) (simp add: Let_def)
  note gp = getNode_props[OF sides_relD(6)[OF S1] g]
  have "ID a \<notin> ID ` set (aAsks ab) \<union> ID ` set (aBids ab)" using new by (simp add: book_ids_def)
  from sides_push[OF S1 l this g zs mset_place refl]
  have "sides_rel (C1(l := C1 l @ [n])) ?b3 Sell {} (hAsks ?b3) (place (\<le>) a (aAsks ab))
      Buy {} (hBids ?b3) (aBids ab)" using gp by simp
  moreover have "askHeap_ok ?b3" "bidHeap_ok ?b3"
    using h1 gp by (simp_all add: askHeap_ok_def bidHeap_ok_def)
  ultimately show ?thesis
    unfolding add using book_ok_place(1)[OF ok q new sd] by (intro book_relI) simp_all
qed

text \<open>\<open>Add\<close> on the bid side: find or create the level, then push.\<close>

lemma heap_add_buy:
  assumes R: "book_rel b ab" and q: "0 < Qty a" and new: "ID a \<notin> book_ids ab" and sd: "Side a = Buy"
  shows "book_rel (Heap_Add b (Some a)) (ab\<lparr>aBids := place (\<ge>) a (aBids ab)\<rparr>)"
proof -
  from R obtain C where "sides_rel C b Sell {} (hAsks b) (aAsks ab) Buy {} (hBids b) (aBids ab)"
    and ok: "book_ok ab" and bh: "askHeap_ok b" and ah: "bidHeap_ok b"
    and so: "side_ok Buy (\<ge>) (aBids ab)" by (rule book_relE)
  then have S: "sides_rel C b Buy {} (hBids b) (aBids ab) Sell {} (hAsks b) (aAsks ab)"
    by (simp only: sides_rel_sym[of C b Buy])
  let ?p = "Price a"
  have noid: "hByID b (ID a) = None" using book_rel_ids[OF R, of "ID a"] new by simp
  have zs: "at_price r (place (\<ge>) a (aBids ab)) =
      (if r = ?p then at_price r (aBids ab) @ [a] else at_price r (aBids ab))" for r
    using bidOrder.filter_place[of "aBids ab" r a] so by (simp add: at_price_def side_ok_def)
  obtain l b1 C1 where lv: "(case hBids b ?p of Some l \<Rightarrow> (l, b)
      | None \<Rightarrow> let (l, b0) = new_level ?p b
                in (l, b0\<lparr>hBids := (hBids b0)(?p \<mapsto> l), bidH := heap_Push maxH (bidH b0) ?p\<rparr>)) = (l, b1)"
    and l: "hBids b1 ?p = Some l"
    and S1: "sides_rel C1 b1 Buy {?p} (hBids b1) (aBids ab) Sell {} (hAsks b1) (aAsks ab)"
    and h1: "bidHeap_ok b1" "askHeap_ok b1"
  proof (cases "hBids b ?p")
    case (Some l)
    then show ?thesis using that[of l b C] S ah bh sides_rel_mono[OF S, of "{?p}"] by simp
  next
    case None
    obtain l b0 where nl: "new_level ?p b = (l, b0)" by fastforce
    have f: "hBids b0 = hBids b" "hAsks b0 = hAsks b" "bidH b0 = bidH b" "askH b0 = askH b"
      using nl by (auto simp: new_level_def)
    let ?b = "b0\<lparr>hBids := (hBids b0)(?p \<mapsto> l), bidH := heap_Push maxH (bidH b0) ?p\<rparr>"
    have "sides_rel (C(l := [])) ?b Buy {?p} (hBids ?b) (aBids ab) Sell {} (hAsks ?b) (aAsks ab)"
      using sides_new_level(1)[OF S None nl] f by simp
    moreover have "bidHeap_ok ?b" using ah f
      by (auto simp: bidHeap_ok_def bidHeap.heap_Push_set bidHeap.heap_Push_is_heap)
    moreover have "askHeap_ok ?b" using bh f by (simp add: askHeap_ok_def)
    ultimately show ?thesis using that[of l ?b] None nl by simp
  qed
  obtain n b2 where g: "getNode a l Buy b1 = (n, b2)" by fastforce
  let ?b3 = "(pushBack l n b2)\<lparr>hByID := (hByID (pushBack l n b2))(ID a \<mapsto> n)\<rparr>"
  have add: "Heap_Add b (Some a) = ?b3"
    using q noid sd by (simp add: Heap_Add_def lv g) (simp add: Let_def)
  note gp = getNode_props[OF sides_relD(6)[OF S1] g]
  have "ID a \<notin> ID ` set (aBids ab) \<union> ID ` set (aAsks ab)" using new by (auto simp: book_ids_def)
  from sides_push[OF S1 l this g zs mset_place refl]
  have "sides_rel (C1(l := C1 l @ [n])) ?b3 Buy {} (hBids ?b3) (place (\<ge>) a (aBids ab))
      Sell {} (hAsks ?b3) (aAsks ab)" using gp by simp
  moreover have "bidHeap_ok ?b3" "askHeap_ok ?b3"
    using h1 gp by (simp_all add: bidHeap_ok_def askHeap_ok_def)
  ultimately show ?thesis
    unfolding add using book_ok_place(2)[OF ok q new sd]
    by (intro book_relI) (simp_all add: sides_rel_sym[of _ _ Buy])
qed

lemma heap_add_refines:
  assumes "book_rel b ab" shows "book_rel (Heap_Add b (Some a)) (spec_add a ab)"
proof (cases "0 < Qty a \<and> ID a \<notin> book_ids ab \<and> (Side a = Sell \<or> Side a = Buy)")
  case True
  then show ?thesis using heap_add_sell[OF assms] heap_add_buy[OF assms] by (auto simp: spec_add_def)
next
  case False
  then have "Heap_Add b (Some a) = b"
    using book_rel_ids[OF assms, of "ID a"] by (auto simp: Heap_Add_def)
  then show ?thesis using assms False by (auto simp: spec_add_def)
qed

subsection \<open>Cancelling\<close>

text \<open>
  What \<open>Cancel\<close> leaves behind: the order is gone from the relation, and if it was the last of its
  level then its price may have an empty level until the level is deleted.
\<close>

lemma sides_cancel:
  assumes R: "sides_rel C b sd {} M xs sd' E' M' ys" and i: "hByID b i = Some n"
    and l: "M p = Some l" "n \<in> set (C l)" and a: "order (nodes b n) = Some a"
  obtains C' where "ID a = i"
    and "sides_rel C' (unlink l n i b) sd {p} M (filter (\<lambda>x. ID x \<noteq> i) xs) sd' E' M' ys"
    and "level_empty l (unlink l n i b) \<longleftrightarrow> at_price p (filter (\<lambda>x. ID x \<noteq> i) xs) = []"
    and "price (levels (unlink l n i b) l) = p"
proof -
  have id: "ID a = i"
    using sides_relD(5)[OF R] i a unfolding index_ok_def by (metis option.map(2) option.inject)
  have S: "sides_rel (C(l := filter (\<lambda>x. x \<noteq> n) (C l))) (unlink l n i b) sd {p} M
      (filter (\<lambda>x. ID x \<noteq> i) xs) sd' E' M' ys"
    using sides_unlink[OF R l a refl] unfolding id by simp
  show ?thesis by (rule that[OF id S sides_level[OF S l(1)]])
qed

lemma Heap_Cancel_unlink:
  assumes "hByID b i = Some n" and "lv (nodes b n) = Some l"
  shows "Heap_Cancel b i = Ret (True,
    let b3 = unlink l n i b
    in if level_empty l b3 then b3\<lparr>hBids := (hBids b3)(price (levels b3 l) := None)\<rparr> else b3)"
proof -
  have "side (nodes (unlink l n i b) n) = 0" by (simp add: nil_node_def)
  then show ?thesis using assms by (simp add: Heap_Cancel_def unlink_def Let_def)
qed

text \<open>
  A cancel is harmless unless it takes the last order of an ask level: the node's side is read
  after the node was cleared, so the level that is deleted is always a bid level.
\<close>

definition cancel_safe :: "uint64 \<Rightarrow> abook \<Rightarrow> bool" where
  "cancel_safe i ab \<longleftrightarrow> (\<forall>a \<in> set (aAsks ab). ID a = i \<longrightarrow>
     (\<exists>c \<in> set (aAsks ab). ID c \<noteq> i \<and> Price c = Price a))"

lemma spec_cancel_absent: "i \<notin> book_ids ab \<Longrightarrow> spec_cancel i ab = ab"
  by (simp add: spec_cancel_def book_ids_def filter_absent)

lemma heap_cancel_refines:
  assumes R: "book_rel b ab" and safe: "cancel_safe i ab"
  obtains b' where "Heap_Cancel b i = Ret (i \<in> book_ids ab, b')"
    and "book_rel b' (spec_cancel i ab)"
proof (cases "hByID b i")
  case None
  then have "i \<notin> book_ids ab" using book_rel_ids[OF R, of i] by simp
  then show ?thesis using that[of b] None R by (simp add: Heap_Cancel_def spec_cancel_absent)
next
  case (Some n)
  have ids: "i \<in> book_ids ab" using Some book_rel_ids[OF R, of i] by simp
  from R obtain C where S: "sides_rel C b Sell {} (hAsks b) (aAsks ab) Buy {} (hBids b) (aBids ab)"
    and ok: "book_ok ab" and ah: "askHeap_ok b" and bh: "bidHeap_ok b" by (rule book_relE)
  have ok': "book_ok (spec_cancel i ab)" using ok by (rule spec_cancel_ok)
  have d: "distinct (map ID (aAsks ab @ aBids ab))" using ok by (simp add: book_ok_def)
  have "n \<in> live C (hAsks b) (hBids b)" using sides_relD(5)[OF S] Some by (auto simp: index_ok_def)
  from S this show ?thesis
  proof (rule live_node)
    fix p l a
    assume l: "hAsks b p = Some l" "n \<in> set (C l)" and a: "order (nodes b n) = Some a"
      "a \<in> set (aAsks ab)" "Price a = p" and lv: "lv (nodes b n) = Some l"
    let ?u = "unlink l n i b"
    let ?A = "filter (\<lambda>x. ID x \<noteq> i) (aAsks ab)"
    obtain C' where id: "ID a = i"
      and S': "sides_rel C' ?u Sell {p} (hAsks b) ?A Buy {} (hBids b) (aBids ab)"
      and e: "level_empty l ?u \<longleftrightarrow> at_price p ?A = []"
      using sides_cancel[OF S Some l a(1)] by blast
    have ne: "at_price p ?A \<noteq> []"
      using safe a id unfolding cancel_safe_def at_price_def by (auto simp: filter_empty_conv)
    have "sides_rel C' ?u Sell ({p} - {p}) (hAsks b) ?A Buy {} (hBids b) (aBids ab)"
      by (rule sides_drop_empty[OF S' ne])
    moreover have "i \<notin> ID ` set (aBids ab)" using d a(2) id by auto
    ultimately have "book_rel ?u (spec_cancel i ab)"
      using ok' ah bh by (intro book_relI[where C = C'])
        (simp_all add: askHeap_ok_def bidHeap_ok_def spec_cancel_def filter_absent)
    then show ?thesis using that[of ?u] Heap_Cancel_unlink[OF Some lv] e ne ids by simp
  next
    fix p l a
    assume l: "hBids b p = Some l" "n \<in> set (C l)" and a: "order (nodes b n) = Some a"
      "a \<in> set (aBids ab)" "Price a = p" and lv: "lv (nodes b n) = Some l"
    let ?u = "unlink l n i b"
    let ?B = "filter (\<lambda>x. ID x \<noteq> i) (aBids ab)"
    obtain C' where id: "ID a = i"
      and S': "sides_rel C' ?u Buy {p} (hBids b) ?B Sell {} (hAsks b) (aAsks ab)"
      and e: "level_empty l ?u \<longleftrightarrow> at_price p ?B = []" and pr: "price (levels ?u l) = p"
      using sides_cancel[OF S[unfolded sides_rel_sym[of C b Sell]] Some l a(1)] by blast
    have noA: "i \<notin> ID ` set (aAsks ab)" using d a(2) id by auto
    let ?b = "if level_empty l ?u then ?u\<lparr>hBids := (hBids ?u)(p := None)\<rparr> else ?u"
    have "sides_rel C' ?b Buy ({p} - {p}) (hBids ?b) ?B Sell {} (hAsks b) (aAsks ab)"
    proof (cases "at_price p ?B = []")
      case True
      then show ?thesis using sides_delete[OF S' l(1) True] e by simp
    next
      case False
      then show ?thesis using sides_drop_empty[OF S' False] e by simp
    qed
    moreover have "hAsks ?b = hAsks b" by simp
    ultimately have "sides_rel C' ?b Buy {} (hBids ?b) ?B Sell {} (hAsks ?b) (aAsks ab)"
      by (simp only: Diff_cancel)
    then have "sides_rel C' ?b Sell {} (hAsks ?b) (aAsks ab) Buy {} (hBids ?b) ?B"
      by (rule iffD1[OF sides_rel_sym])
    moreover have "askHeap_ok ?b" "bidHeap_ok ?b"
      using ah bh by (auto simp: askHeap_ok_def bidHeap_ok_def)
    ultimately have "book_rel ?b (spec_cancel i ab)"
      using ok' noA by (intro book_relI[where C = C']) (simp_all add: spec_cancel_def filter_absent)
    then show ?thesis using that[of ?b] Heap_Cancel_unlink[OF Some lv] ids pr by (simp add: Let_def)
  qed
qed

subsection \<open>Matching a limit order\<close>

lemma fold_snoc: "fold (\<lambda>t ts. ts @ [t]) us ts = ts @ us"
  by (induction us arbitrary: ts) simp_all

lemma heap_match_refines:
  assumes R: "book_rel b ab" and m: "spec_match t ab = (ts, r, ab')"
  obtains b' t' where "MatchLimitEmit b (Some t) (Some emit) e = Ret (r, b', Some t', fold emit ts e)"
    and "book_rel b' ab'" and "0 < Qty t \<Longrightarrow> t' = t\<lparr>Qty := r\<rparr>"
proof -
  from R obtain C where S: "sides_rel C b Sell {} (hAsks b) (aAsks ab) Buy {} (hBids b) (aBids ab)"
    and ok: "book_ok ab" and ah: "askHeap_ok b" and bh: "bidHeap_ok b"
    and so: "side_ok Sell (\<le>) (aAsks ab)" "side_ok Buy (\<ge>) (aBids ab)" by (rule book_relE)
  have ok': "book_ok ab'" using spec_match_ok(1)[OF m ok] .
  have fuel: "nat (Qty t) < fuel_for t" by (simp add: fuel_for_def)
  consider "Qty t \<le> 0" | "0 < Qty t" "Side t = Buy" | "0 < Qty t" "Side t = Sell"
    | "0 < Qty t" "Side t \<noteq> Buy" "Side t \<noteq> Sell" by linarith
  then show ?thesis
  proof cases
    case 1
    then show ?thesis using that[of b t] m R by (auto simp: MatchLimitEmit_def spec_match_def)
  next
    case 2
    then obtain ms where e: "eat (\<lambda>p. p \<le> Price t) (ID t) (Qty t) (aAsks ab) = (ts, r, ms)"
      and ab': "ab' = ab\<lparr>aAsks := ms\<rparr>" using m by (auto simp: spec_match_def split: prod.splits)
    obtain C' b' where b': "matchBuyEmit_loop (fuel_for t) emit b t e =
        Ret (b', t\<lparr>Qty := r\<rparr>, fold emit ts e)"
      and S': "sides_rel C' b' Sell {} (hAsks b') ms Buy {} (hBids b) (aBids ab)"
      and h': "askHeap_ok b'" "hBids b' = hBids b" "bidH b' = bidH b"
      using buy_loop_eat[OF S so(1) ah e fuel, of emit e] by blast
    have "book_rel b' ab'"
      using ok' S' h' bh by (intro book_relI[where C = C']) (simp_all add: ab' bidHeap_ok_def)
    then show ?thesis using that[of b' "t\<lparr>Qty := r\<rparr>"] 2 b'
      by (simp add: MatchLimitEmit_def matchBuyEmit_def)
  next
    case 3
    then obtain ms where e: "eat (\<lambda>p. Price t \<le> p) (ID t) (Qty t) (aBids ab) = (ts, r, ms)"
      and ab': "ab' = ab\<lparr>aBids := ms\<rparr>" using m by (auto simp: spec_match_def split: prod.splits)
    obtain C' b' where b': "matchSellEmit_loop (fuel_for t) emit b t e =
        Ret (b', t\<lparr>Qty := r\<rparr>, fold emit ts e)"
      and S': "sides_rel C' b' Buy {} (hBids b') ms Sell {} (hAsks b) (aAsks ab)"
      and h': "bidHeap_ok b'" "hAsks b' = hAsks b" "askH b' = askH b"
      using sell_loop_eat[OF S[unfolded sides_rel_sym[of C b Sell]] so(2) bh e fuel, of emit e]
      by blast
    have "book_rel b' ab'"
      using ok' S' h' ah
      by (intro book_relI[where C = C']) (simp_all add: ab' askHeap_ok_def sides_rel_sym[of C' b' Sell])
    then show ?thesis using that[of b' "t\<lparr>Qty := r\<rparr>"] 3 b'
      by (simp add: MatchLimitEmit_def matchSellEmit_def)
  next
    case 4
    then show ?thesis using that[of b t] m R by (auto simp: MatchLimitEmit_def spec_match_def)
  qed
qed

text \<open>The slice variants are the emitting ones with the slice as state.\<close>

lemma bestAsk_loop_live:
  "bestAsk_loop k b = Ret (p, True, b') \<Longrightarrow> \<exists>l. hAsks b' p = Some l \<and> \<not> level_empty l b'"
  by (induction k arbitrary: b)
    (auto simp: Let_def andThen_eq_Ret split: if_splits option.splits)

lemma matchBuy_loop_emit:
  "matchBuy_loop k b t ts = matchBuyEmit_loop k (\<lambda>t ts. ts @ [t]) b t ts"
proof (induction k arbitrary: b t ts)
  case (Suc k)
  show ?case
  proof (cases "bestAskPrice b")
    case (Ret x)
    obtain p ok b1 where x: "x = (p, ok, b1)" by (cases x) auto
    have "ok \<Longrightarrow> \<exists>l. hAsks b1 p = Some l \<and> \<not> level_empty l b1"
    proof (rule bestAsk_loop_live)
      assume ok
      then show "bestAsk_loop (Suc (length (askH b))) b = Ret (p, True, b1)"
        using Ret x by (simp add: bestAskPrice_def del: bestAsk_loop.simps)
    qed
    then show ?thesis using Ret x Suc.IH by auto
  qed simp_all
qed simp

lemma matchSell_loop_emit:
  "matchSell_loop k b t ts = matchSellEmit_loop k (\<lambda>t ts. ts @ [t]) b t ts"
proof (induction k arbitrary: b t ts)
  case (Suc k)
  have "matchSell_loop k = matchSellEmit_loop k (\<lambda>t ts. ts @ [t])" by (intro ext) (rule Suc.IH)
  then show ?case by (simp only: matchSell_loop.simps matchSellEmit_loop.simps)
qed simp

end
