(* ===== verification/Naive_Book.thy ===== *)
theory Naive_Book
  imports Order_Spec
begin

text \<open>
  \<^verbatim>\<open>internal/matching/book_naive.go\<close> and \<^verbatim>\<open>internal/matching/match.go\<close>: the book as two
  sorted slices with a position index. Every slot of a slice holds an order between two calls
  (an insertion overwrites the \<open>nil\<close> it appends, a removal cuts the slot it clears), so a slice
  is an \<open>Order list\<close>; inside an insertion the slots are options.
\<close>

subsection \<open>The book and its operations\<close>

record orderPos =
  posSide :: uint8
  posIndex :: nat

record NaiveOrderBook =
  bids :: "Order list"
  asks :: "Order list"
  pos :: "uint64 \<rightharpoonup> orderPos"

definition NewNaiveOrderBook :: NaiveOrderBook where
  "NewNaiveOrderBook = \<lparr>bids = [], asks = [], pos = (\<lambda>_. None)\<rparr>"

definition Naive_BestBid :: "NaiveOrderBook \<Rightarrow> Order option" where
  "Naive_BestBid n = (if length (bids n) \<le> 0 then None else Some (bids n ! 0))"

definition Naive_BestAsk :: "NaiveOrderBook \<Rightarrow> Order option" where
  "Naive_BestAsk n = (if length (asks n) \<le> 0 then None else Some (asks n ! 0))"

definition BidLen :: "NaiveOrderBook \<Rightarrow> nat" where "BidLen b = length (bids b)"
definition AskLen :: "NaiveOrderBook \<Rightarrow> nat" where "AskLen b = length (asks b)"

text \<open>\<open>copy(s[d:], s[f:])\<close> on one slice, overlapping regions included.\<close>

definition copy_within :: "'a list \<Rightarrow> nat \<Rightarrow> nat \<Rightarrow> 'a list" where
  "copy_within s d f =
     (let n = min (length s - d) (length s - f) in take d s @ take n (drop f s) @ drop (d + n) s)"

function bid_search :: "Order list \<Rightarrow> int \<Rightarrow> nat \<Rightarrow> nat \<Rightarrow> nat \<times> nat" where
  "bid_search s p lo hi =
     (if lo < hi then
        let mid = (lo + hi) div 2
        in if Price (s ! mid) > p then bid_search s p (mid + 1) hi
           else if Price (s ! mid) < p then bid_search s p lo mid
           else bid_search s p (mid + 1) hi
      else (lo, hi))"
  by pat_completeness auto
termination by (relation "measure (\<lambda>(s, p, lo, hi). hi - lo)") auto

function ask_search :: "Order list \<Rightarrow> int \<Rightarrow> nat \<Rightarrow> nat \<Rightarrow> nat \<times> nat" where
  "ask_search s p lo hi =
     (if lo < hi then
        let mid = (lo + hi) div 2
        in if Price (s ! mid) < p then ask_search s p (mid + 1) hi
           else if Price (s ! mid) > p then ask_search s p lo mid
           else ask_search s p (mid + 1) hi
      else (lo, hi))"
  by pat_completeness auto
termination by (relation "measure (\<lambda>(s, p, lo, hi). hi - lo)") auto

declare bid_search.simps [simp del] ask_search.simps [simp del]

text \<open>
  The loop that is meant to renumber the shifted orders, as written: it runs while \<open>i < hi\<close>, and
  its body is guarded by the slot being \<open>nil\<close>, whose \<open>ID\<close> it then reads.
\<close>

fun renumber :: "uint8 \<Rightarrow> Order option list \<Rightarrow> nat list \<Rightarrow> (uint64 \<rightharpoonup> orderPos) \<Rightarrow>
    (uint64 \<rightharpoonup> orderPos) go" where
  "renumber sd s [] ps = Ret ps"
| "renumber sd s (i # is) ps =
     (if s ! i = None then
        andThen (deref (s ! i)) (\<lambda>x. renumber sd s is (ps(ID x \<mapsto> \<lparr>posSide = sd, posIndex = i\<rparr>)))
      else renumber sd s is ps)"

definition insertBid :: "NaiveOrderBook \<Rightarrow> Order \<Rightarrow> NaiveOrderBook go" where
  "insertBid n a =
     (let (lo, hi) = bid_search (bids n) (Price a) 0 (length (bids n));
          s1 = map Some (bids n) @ [None];
          s2 = copy_within s1 (lo + 1) lo;
          s3 = s2[lo := Some a]
      in andThen (renumber Buy s3 [lo..<hi] (pos n)) (\<lambda>ps.
           Ret (n\<lparr>bids := map the s3, pos := ps(ID a \<mapsto> \<lparr>posSide = Buy, posIndex = lo\<rparr>)\<rparr>)))"

definition insertAsk :: "NaiveOrderBook \<Rightarrow> Order \<Rightarrow> NaiveOrderBook go" where
  "insertAsk b a =
     (let (lo, hi) = ask_search (asks b) (Price a) 0 (length (asks b));
          s1 = map Some (asks b) @ [None];
          s2 = copy_within s1 (lo + 1) lo;
          s3 = s2[lo := Some a]
      in andThen (renumber Sell s3 [lo..<hi] (pos b)) (\<lambda>ps.
           Ret (b\<lparr>asks := map the s3, pos := ps(ID a \<mapsto> \<lparr>posSide = Sell, posIndex = lo\<rparr>)\<rparr>)))"

text \<open>\<open>None\<close> as the order is the \<open>nil\<close> pointer; the flag is \<open>err != nil\<close>.\<close>

definition Naive_Add :: "NaiveOrderBook \<Rightarrow> Order option \<Rightarrow> (bool \<times> NaiveOrderBook) go" where
  "Naive_Add b p =
     (case p of
        None \<Rightarrow> Ret (True, b)
      | Some a \<Rightarrow>
          if Qty a \<le> 0 then Ret (True, b)
          else if Side a = Buy then andThen (insertBid b a) (\<lambda>b'. Ret (False, b'))
          else andThen (insertAsk b a) (\<lambda>b'. Ret (False, b')))"

definition popBestAsk :: "NaiveOrderBook \<Rightarrow> Order option \<times> NaiveOrderBook" where
  "popBestAsk b =
     (if length (asks b) = 0 then (None, b)
      else (Some (asks b ! 0),
            b\<lparr>asks := take (length (asks b) - 1) (copy_within (asks b) 0 1)\<rparr>))"

definition popBestBid :: "NaiveOrderBook \<Rightarrow> Order option \<times> NaiveOrderBook" where
  "popBestBid b =
     (if length (bids b) = 0 then (None, b)
      else (Some (bids b ! 0),
            b\<lparr>bids := take (length (bids b) - 1) (copy_within (bids b) 0 1)\<rparr>))"

definition removeAtOrderPtr :: "Order list \<Rightarrow> nat \<Rightarrow> Order list go" where
  "removeAtOrderPtr s i =
     (if length s < i + 1 then Panic
      else Ret (take (length s - 1) (copy_within s i (i + 1))))"

fun index_of :: "uint64 \<Rightarrow> Order list \<Rightarrow> nat \<Rightarrow> nat option" where
  "index_of i [] k = None"
| "index_of i (x # xs) k = (if ID x = i then Some k else index_of i xs (k + 1))"

definition Naive_Cancel :: "NaiveOrderBook \<Rightarrow> uint64 \<Rightarrow> (bool \<times> NaiveOrderBook) go" where
  "Naive_Cancel b i =
     (case index_of i (bids b) 0 of
        Some k \<Rightarrow> andThen (removeAtOrderPtr (bids b) k) (\<lambda>s. Ret (True, b\<lparr>bids := s\<rparr>))
      | None \<Rightarrow>
          (case index_of i (asks b) 0 of
             Some k \<Rightarrow> andThen (removeAtOrderPtr (asks b) k) (\<lambda>s. Ret (True, b\<lparr>asks := s\<rparr>))
           | None \<Rightarrow> Ret (False, b)))"

fun set_positions :: "uint8 \<Rightarrow> Order list \<Rightarrow> nat list \<Rightarrow> (uint64 \<rightharpoonup> orderPos) \<Rightarrow> (uint64 \<rightharpoonup> orderPos)"
where
  "set_positions sd s [] ps = ps"
| "set_positions sd s (i # is) ps =
     set_positions sd s is (ps(ID (s ! i) \<mapsto> \<lparr>posSide = sd, posIndex = i\<rparr>))"

definition Naive_Cancel2 :: "NaiveOrderBook \<Rightarrow> uint64 \<Rightarrow> (bool \<times> NaiveOrderBook) go" where
  "Naive_Cancel2 b i =
     (case pos b i of
        None \<Rightarrow> Ret (False, b)
      | Some p \<Rightarrow>
          let k = posIndex p
          in andThen
            (if posSide p = Buy then
               andThen (removeAtOrderPtr (bids b) k) (\<lambda>s.
                 Ret (b\<lparr>bids := s, pos := set_positions Buy s [k..<length s] (pos b)\<rparr>))
             else if posSide p = Sell then
               andThen (removeAtOrderPtr (asks b) k) (\<lambda>s.
                 Ret (b\<lparr>asks := s, pos := set_positions Sell s [k..<length s] (pos b)\<rparr>))
             else Ret b)
            (\<lambda>b'. Ret (True, b'\<lparr>pos := (pos b')(i := None)\<rparr>)))"

subsection \<open>Matching\<close>

lemma length_copy_within: "length (copy_within s 0 1) = length s"
  by (simp add: copy_within_def)

lemma copy_within_tail: "take (length s - 1) (copy_within s 0 1) = tl s"
  by (cases s) (simp_all add: copy_within_def)

lemma popBestAsk_eq: "snd (popBestAsk b) = b\<lparr>asks := tl (asks b)\<rparr>"
  using copy_within_tail[of "asks b"] by (cases "asks b") (simp_all add: popBestAsk_def)

lemma popBestBid_eq: "snd (popBestBid b) = b\<lparr>bids := tl (bids b)\<rparr>"
  using copy_within_tail[of "bids b"] by (cases "bids b") (simp_all add: popBestBid_def)

function naive_buy_loop :: "NaiveOrderBook \<Rightarrow> Order \<Rightarrow> Trade list \<Rightarrow> NaiveOrderBook \<times> Order \<times> Trade list"
where
  "naive_buy_loop b taker trades =
     (if Qty taker > 0 \<and> length (asks b) > 0 then
        let maker = asks b ! 0
        in if Price maker > Price taker then (b, taker, trades)
           else let execQty = min64 (Qty taker) (Qty maker);
                    trades' = trades @ [\<lparr>TakerID = ID taker, MakerID = ID maker,
                                         TradePrice = Price maker, TradeQty = execQty\<rparr>];
                    taker' = taker\<lparr>Qty := Qty taker - execQty\<rparr>;
                    maker' = maker\<lparr>Qty := Qty maker - execQty\<rparr>;
                    b1 = b\<lparr>asks := (asks b)[0 := maker']\<rparr>;
                    b2 = (if Qty maker' = 0 then snd (popBestAsk b1) else b1)
                in naive_buy_loop b2 taker' trades'
      else (b, taker, trades))"
  by pat_completeness auto
termination
  by (relation "measure (\<lambda>(b, t, ts). length (asks b) + (if 0 < Qty t then 1 else 0))")
    (auto simp: popBestAsk_eq min64_def split: if_splits)

function naive_sell_loop :: "NaiveOrderBook \<Rightarrow> Order \<Rightarrow> Trade list \<Rightarrow> NaiveOrderBook \<times> Order \<times> Trade list"
where
  "naive_sell_loop b taker trades =
     (if Qty taker > 0 \<and> length (bids b) > 0 then
        let maker = bids b ! 0
        in if Price maker < Price taker then (b, taker, trades)
           else let execQty = min64 (Qty taker) (Qty maker);
                    trades' = trades @ [\<lparr>TakerID = ID taker, MakerID = ID maker,
                                         TradePrice = Price maker, TradeQty = execQty\<rparr>];
                    taker' = taker\<lparr>Qty := Qty taker - execQty\<rparr>;
                    maker' = maker\<lparr>Qty := Qty maker - execQty\<rparr>;
                    b1 = b\<lparr>bids := (bids b)[0 := maker']\<rparr>;
                    b2 = (if Qty maker' = 0 then snd (popBestBid b1) else b1)
                in naive_sell_loop b2 taker' trades'
      else (b, taker, trades))"
  by pat_completeness auto
termination
  by (relation "measure (\<lambda>(b, t, ts). length (bids b) + (if 0 < Qty t then 1 else 0))")
    (auto simp: popBestBid_eq min64_def split: if_splits)

declare naive_buy_loop.simps [simp del] naive_sell_loop.simps [simp del]

definition Naive_matchBuy :: "NaiveOrderBook \<Rightarrow> Order \<Rightarrow> (Trade list \<times> NaiveOrderBook) go" where
  "Naive_matchBuy b taker =
     (let (b', taker', trades) = naive_buy_loop b taker []
      in if Qty taker' > 0 then andThen (Naive_Add b' (Some taker')) (\<lambda>(_, b''). Ret (trades, b''))
         else Ret (trades, b'))"

definition Naive_matchSell :: "NaiveOrderBook \<Rightarrow> Order \<Rightarrow> (Trade list \<times> NaiveOrderBook) go" where
  "Naive_matchSell b taker =
     (let (b', taker', trades) = naive_sell_loop b taker []
      in if Qty taker' > 0 then andThen (Naive_Add b' (Some taker')) (\<lambda>(_, b''). Ret (trades, b''))
         else Ret (trades, b'))"

definition Naive_SubmitLimit :: "NaiveOrderBook \<Rightarrow> Order option \<Rightarrow> (Trade list \<times> NaiveOrderBook) go"
where
  "Naive_SubmitLimit b p =
     (case p of
        None \<Rightarrow> Ret ([], b)
      | Some taker \<Rightarrow>
          if Qty taker \<le> 0 then Ret ([], b)
          else if Side taker = Buy then Naive_matchBuy b taker
          else if Side taker = Sell then Naive_matchSell b taker
          else Ret ([], b))"

subsection \<open>Insertion\<close>

lemma bid_search_eq:
  assumes "sorted_side (\<ge>) s" and "hi \<le> length s"
    and "lo \<le> length (takeWhile (\<lambda>x. p \<le> Price x) s)"
    and "length (takeWhile (\<lambda>x. p \<le> Price x) s) \<le> hi"
  shows "bid_search s p lo hi =
    (length (takeWhile (\<lambda>x. p \<le> Price x) s), length (takeWhile (\<lambda>x. p \<le> Price x) s))"
  using assms
proof (induction s p lo hi rule: bid_search.induct)
  case (1 s p lo hi)
  let ?k = "length (takeWhile (\<lambda>x. p \<le> Price x) s)"
  show ?case
  proof (cases "lo < hi")
    case False
    then show ?thesis using "1.prems" by (subst bid_search.simps) simp
  next
    case True
    let ?mid = "(lo + hi) div 2"
    have m: "lo \<le> ?mid" "?mid < hi" using True by auto
    have pos: "p \<le> Price (s ! ?mid) \<longleftrightarrow> ?mid < ?k"
      using bidOrder.sorted_position[OF "1.prems"(1)] m "1.prems"(2) by simp
    consider "Price (s ! ?mid) > p" | "Price (s ! ?mid) < p" | "Price (s ! ?mid) = p" by linarith
    then show ?thesis
    proof cases
      case 1
      then show ?thesis using "1.IH"(1)[OF True refl] "1.prems" pos True
        by (subst bid_search.simps) (simp add: Let_def)
    next
      case 2
      then show ?thesis using "1.IH"(2)[OF True refl] "1.prems" pos True m
        by (subst bid_search.simps) (simp add: Let_def)
    next
      case 3
      then show ?thesis using "1.IH"(3)[OF True refl] "1.prems" pos True
        by (subst bid_search.simps) (simp add: Let_def)
    qed
  qed
qed

lemma ask_search_eq:
  assumes "sorted_side (\<le>) s" and "hi \<le> length s"
    and "lo \<le> length (takeWhile (\<lambda>x. Price x \<le> p) s)"
    and "length (takeWhile (\<lambda>x. Price x \<le> p) s) \<le> hi"
  shows "ask_search s p lo hi =
    (length (takeWhile (\<lambda>x. Price x \<le> p) s), length (takeWhile (\<lambda>x. Price x \<le> p) s))"
  using assms
proof (induction s p lo hi rule: ask_search.induct)
  case (1 s p lo hi)
  let ?k = "length (takeWhile (\<lambda>x. Price x \<le> p) s)"
  show ?case
  proof (cases "lo < hi")
    case False
    then show ?thesis using "1.prems" by (subst ask_search.simps) simp
  next
    case True
    let ?mid = "(lo + hi) div 2"
    have m: "lo \<le> ?mid" "?mid < hi" using True by auto
    have pos: "Price (s ! ?mid) \<le> p \<longleftrightarrow> ?mid < ?k"
      using askOrder.sorted_position[OF "1.prems"(1)] m "1.prems"(2) by simp
    consider "Price (s ! ?mid) < p" | "Price (s ! ?mid) > p" | "Price (s ! ?mid) = p" by linarith
    then show ?thesis
    proof cases
      case 1
      then show ?thesis using "1.IH"(1)[OF True refl] "1.prems" pos True
        by (subst ask_search.simps) (simp add: Let_def)
    next
      case 2
      then show ?thesis using "1.IH"(2)[OF True refl] "1.prems" pos True m
        by (subst ask_search.simps) (simp add: Let_def)
    next
      case 3
      then show ?thesis using "1.IH"(3)[OF True refl] "1.prems" pos True
        by (subst ask_search.simps) (simp add: Let_def)
    qed
  qed
qed

text \<open>Shifting the tail right by one and writing the free slot is an insertion.\<close>

lemma shift_insert:
  assumes "k \<le> length xs"
  shows "(copy_within (map Some xs @ [None]) (Suc k) k)[k := Some a] =
    map Some (take k xs @ a # drop k xs)"
proof -
  obtain us vs where xs: "xs = us @ vs" and k: "k = length us"
    using assms by (metis append_take_drop_id length_take min.absorb2)
  have e: "copy_within (map Some xs @ [None]) (Suc k) k =
    take (Suc k) (map Some xs @ [None]) @ map Some vs"
    by (simp add: copy_within_def xs k)
  show ?thesis
    unfolding e using xs k by (cases vs) (simp_all add: list_update_append)
qed

lemma place_take_drop:
  "place le a xs = take (length (takeWhile (\<lambda>x. le (Price x) (Price a)) xs)) xs @ a #
     drop (length (takeWhile (\<lambda>x. le (Price x) (Price a)) xs)) xs"
  by (simp add: place_def takeWhile_eq_take[symmetric] dropWhile_eq_drop[symmetric])

lemma insertBid_place:
  assumes "sorted_side (\<ge>) (bids n)"
  shows "insertBid n a = Ret (n\<lparr>bids := place (\<ge>) a (bids n),
    pos := (pos n)(ID a \<mapsto> \<lparr>posSide = Buy,
      posIndex = length (takeWhile (\<lambda>x. Price a \<le> Price x) (bids n))\<rparr>)\<rparr>)"
  using assms
  by (simp add: insertBid_def bid_search_eq length_takeWhile_le shift_insert place_take_drop Let_def
      comp_def del: map_append)

lemma insertAsk_place:
  assumes "sorted_side (\<le>) (asks n)"
  shows "insertAsk n a = Ret (n\<lparr>asks := place (\<le>) a (asks n),
    pos := (pos n)(ID a \<mapsto> \<lparr>posSide = Sell,
      posIndex = length (takeWhile (\<lambda>x. Price x \<le> Price a) (asks n))\<rparr>)\<rparr>)"
  using assms
  by (simp add: insertAsk_def ask_search_eq length_takeWhile_le shift_insert place_take_drop Let_def
      comp_def del: map_append)

subsection \<open>Refinement of the specification\<close>

definition naive_abs :: "NaiveOrderBook \<Rightarrow> abook" where
  "naive_abs b = \<lparr>aAsks = asks b, aBids = bids b\<rparr>"

lemma naive_abs_simps [simp]:
  "aAsks (naive_abs b) = asks b" "aBids (naive_abs b) = bids b"
  by (simp_all add: naive_abs_def)

lemma naive_add_refines:
  assumes "book_ok (naive_abs b)" and "0 < Qty a" and "Side a = Buy \<or> Side a = Sell"
    and "ID a \<notin> book_ids (naive_abs b)"
  obtains b' where "Naive_Add b (Some a) = Ret (False, b')"
    and "naive_abs b' = spec_add a (naive_abs b)"
  using assms insertBid_place[of b a] insertAsk_place[of b a]
  by (auto simp: Naive_Add_def book_ok_def side_ok_def spec_add_def naive_abs_def)

lemma naive_buy_loop_eat:
  "\<forall>m \<in> set (asks b). 0 < Qty m \<Longrightarrow>
   eat (\<lambda>p. p \<le> Price t) (ID t) (Qty t) (asks b) = (ts, r, ms) \<Longrightarrow>
   naive_buy_loop b t acc = (b\<lparr>asks := ms\<rparr>, t\<lparr>Qty := r\<rparr>, acc @ ts)"
proof (induction "asks b" arbitrary: b t acc ts r ms)
  case Nil
  then show ?case by (subst naive_buy_loop.simps) auto
next
  case (Cons m l)
  note as = Cons.hyps(2)[symmetric]
  show ?case
  proof (cases "Qty t \<le> 0 \<or> Price t < Price m")
    case True
    then show ?thesis using Cons.prems as by (subst naive_buy_loop.simps) auto
  next
    case False
    let ?x = "min (Qty t) (Qty m)"
    let ?t = "t\<lparr>Qty := Qty t - ?x\<rparr>"
    let ?T = "\<lparr>TakerID = ID t, MakerID = ID m, TradePrice = Price m, TradeQty = ?x\<rparr>"
    show ?thesis
    proof (cases "Qty m \<le> Qty t")
      case True
      obtain us r' ms' where e: "eat (\<lambda>p. p \<le> Price t) (ID t) (Qty t - ?x) l = (us, r', ms')"
        by (cases "eat (\<lambda>p. p \<le> Price t) (ID t) (Qty t - ?x) l") auto
      have res: "ts = ?T # us" "r = r'" "ms = ms'" using Cons.prems(2) False True e as by auto
      have "naive_buy_loop b t acc = naive_buy_loop (b\<lparr>asks := l\<rparr>) ?t (acc @ [?T])"
        using False True as
        by (subst naive_buy_loop.simps) (simp add: Let_def min64_min popBestAsk_eq min_absorb2)
      also have "\<dots> = (b\<lparr>asks := ms\<rparr>, t\<lparr>Qty := r\<rparr>, acc @ ts)"
        using Cons.hyps(1)[of "b\<lparr>asks := l\<rparr>" ?t us r' ms' "acc @ [?T]"] e Cons.prems(1) as res by simp
      finally show ?thesis .
    next
      case qm: False
      have "naive_buy_loop b t acc =
        naive_buy_loop (b\<lparr>asks := m\<lparr>Qty := Qty m - ?x\<rparr> # l\<rparr>) ?t (acc @ [?T])"
        using False qm as by (subst naive_buy_loop.simps) (simp add: Let_def min64_min min_absorb1)
      then show ?thesis using Cons.prems(2) False qm as
        by (subst (asm) (2) naive_buy_loop.simps) (auto simp: Let_def)
    qed
  qed
qed

lemma naive_sell_loop_eat:
  "\<forall>m \<in> set (bids b). 0 < Qty m \<Longrightarrow>
   eat (\<lambda>p. Price t \<le> p) (ID t) (Qty t) (bids b) = (ts, r, ms) \<Longrightarrow>
   naive_sell_loop b t acc = (b\<lparr>bids := ms\<rparr>, t\<lparr>Qty := r\<rparr>, acc @ ts)"
proof (induction "bids b" arbitrary: b t acc ts r ms)
  case Nil
  then show ?case by (subst naive_sell_loop.simps) auto
next
  case (Cons m l)
  note as = Cons.hyps(2)[symmetric]
  show ?case
  proof (cases "Qty t \<le> 0 \<or> Price m < Price t")
    case True
    then show ?thesis using Cons.prems as by (subst naive_sell_loop.simps) auto
  next
    case False
    let ?x = "min (Qty t) (Qty m)"
    let ?t = "t\<lparr>Qty := Qty t - ?x\<rparr>"
    let ?T = "\<lparr>TakerID = ID t, MakerID = ID m, TradePrice = Price m, TradeQty = ?x\<rparr>"
    show ?thesis
    proof (cases "Qty m \<le> Qty t")
      case True
      obtain us r' ms' where e: "eat (\<lambda>p. Price t \<le> p) (ID t) (Qty t - ?x) l = (us, r', ms')"
        by (cases "eat (\<lambda>p. Price t \<le> p) (ID t) (Qty t - ?x) l") auto
      have res: "ts = ?T # us" "r = r'" "ms = ms'" using Cons.prems(2) False True e as by auto
      have "naive_sell_loop b t acc = naive_sell_loop (b\<lparr>bids := l\<rparr>) ?t (acc @ [?T])"
        using False True as
        by (subst naive_sell_loop.simps) (simp add: Let_def min64_min popBestBid_eq min_absorb2)
      also have "\<dots> = (b\<lparr>bids := ms\<rparr>, t\<lparr>Qty := r\<rparr>, acc @ ts)"
        using Cons.hyps(1)[of "b\<lparr>bids := l\<rparr>" ?t us r' ms' "acc @ [?T]"] e Cons.prems(1) as res by simp
      finally show ?thesis .
    next
      case qm: False
      have "naive_sell_loop b t acc =
        naive_sell_loop (b\<lparr>bids := m\<lparr>Qty := Qty m - ?x\<rparr> # l\<rparr>) ?t (acc @ [?T])"
        using False qm as by (subst naive_sell_loop.simps) (simp add: Let_def min64_min min_absorb1)
      then show ?thesis using Cons.prems(2) False qm as
        by (subst (asm) (2) naive_sell_loop.simps) (auto simp: Let_def)
    qed
  qed
qed

lemma naive_match_refines:
  assumes ok: "book_ok (naive_abs b)" and "0 < Qty t" and fresh: "ID t \<notin> book_ids (naive_abs b)"
    and sd: "Side t = Buy \<or> Side t = Sell"
  obtains b' where "Naive_SubmitLimit b (Some t) = Ret (fst (spec_submit t (naive_abs b)), b')"
    and "naive_abs b' = snd (spec_submit t (naive_abs b))"
proof -
  obtain ts r c where m: "spec_match t (naive_abs b) = (ts, r, c)" by (metis prod_cases3)
  note mok = spec_match_ok[OF m ok]
  let ?t = "t\<lparr>Qty := r\<rparr>"
  have pos: "\<forall>m \<in> set (asks b). 0 < Qty m" "\<forall>m \<in> set (bids b). 0 < Qty m"
    using ok by (simp_all add: book_ok_def side_ok_def)
  have step: "\<exists>b1. naive_abs b1 = c \<and> Naive_SubmitLimit b (Some t) =
    (if 0 < r then andThen (Naive_Add b1 (Some ?t)) (\<lambda>(_, b''). Ret (ts, b'')) else Ret (ts, b1))"
  proof (cases "Side t = Buy")
    case True
    obtain ms where e: "eat (\<lambda>p. p \<le> Price t) (ID t) (Qty t) (asks b) = (ts, r, ms)"
      and c: "c = naive_abs b\<lparr>aAsks := ms\<rparr>"
      using m True assms(2) by (auto simp: spec_match_def split: prod.splits)
    show ?thesis using True assms(2) naive_buy_loop_eat[OF pos(1) e, of "[]"] c
      by (intro exI[of _ "b\<lparr>asks := ms\<rparr>"])
        (simp add: Naive_SubmitLimit_def Naive_matchBuy_def naive_abs_def)
  next
    case False
    then have s: "Side t = Sell" using sd by blast
    obtain ms where e: "eat (\<lambda>p. Price t \<le> p) (ID t) (Qty t) (bids b) = (ts, r, ms)"
      and c: "c = naive_abs b\<lparr>aBids := ms\<rparr>"
      using m s assms(2) by (auto simp: spec_match_def split: prod.splits)
    show ?thesis using s assms(2) naive_sell_loop_eat[OF pos(2) e, of "[]"] c
      by (intro exI[of _ "b\<lparr>bids := ms\<rparr>"])
        (simp add: Naive_SubmitLimit_def Naive_matchSell_def naive_abs_def)
  qed
  then obtain b1 where b1: "naive_abs b1 = c" "Naive_SubmitLimit b (Some t) =
    (if 0 < r then andThen (Naive_Add b1 (Some ?t)) (\<lambda>(_, b''). Ret (ts, b'')) else Ret (ts, b1))"
    by blast
  have sub: "spec_submit t (naive_abs b) = (ts, spec_add ?t c)"
    using m sd by (auto simp: spec_submit_def)
  show ?thesis
  proof (cases "0 < r")
    case True
    obtain b' where "Naive_Add b1 (Some ?t) = Ret (False, b')" "naive_abs b' = spec_add ?t c"
      using naive_add_refines[of b1 ?t] True mok fresh sd b1(1) by auto
    then show ?thesis using that sub b1(2) True by simp
  next
    case False
    then show ?thesis using that sub b1 by (simp add: spec_add_def)
  qed
qed

lemma index_of_None: "index_of i xs k = None \<longleftrightarrow> i \<notin> ID ` set xs"
  by (induction xs arbitrary: k) auto

lemma index_of_Some:
  "index_of i xs k = Some j \<Longrightarrow>
     \<exists>us x vs. xs = us @ x # vs \<and> j = k + length us \<and> ID x = i \<and> i \<notin> ID ` set us"
proof (induction xs arbitrary: k)
  case (Cons y ys)
  show ?case
  proof (cases "ID y = i")
    case True
    then show ?thesis using Cons.prems by (intro exI[of _ "[]"]) simp
  next
    case False
    then have "index_of i ys (k + 1) = Some j" using Cons.prems by simp
    from Cons.IH[OF this] obtain us x vs where
      "ys = us @ x # vs" "j = k + 1 + length us" "ID x = i" "i \<notin> ID ` set us" by blast
    then show ?thesis using False by (intro exI[of _ "y # us"]) auto
  qed
qed simp

lemma removeAt_Ret: "removeAtOrderPtr (us @ x # vs) (length us) = Ret (us @ vs)"
  by (simp add: removeAtOrderPtr_def copy_within_def)

lemma naive_cancel_refines:
  assumes ok: "book_ok (naive_abs b)"
  obtains b' where "Naive_Cancel b i = Ret (i \<in> book_ids (naive_abs b), b')"
    and "naive_abs b' = spec_cancel i (naive_abs b)"
proof -
  have d: "distinct (map ID (asks b @ bids b))" using ok by (simp add: book_ok_def)
  show ?thesis
  proof (cases "index_of i (bids b) 0")
    case (Some k)
    then obtain us x vs where b: "bids b = us @ x # vs" "k = length us" "ID x = i"
      using index_of_Some by fastforce
    have "i \<notin> ID ` set (asks b)" using d b by auto
    then have "naive_abs (b\<lparr>bids := us @ vs\<rparr>) = spec_cancel i (naive_abs b)"
      using filter_removed[of us x vs] d b filter_absent[of i "asks b"]
      by (simp add: spec_cancel_def naive_abs_def)
    then show ?thesis using that[of "b\<lparr>bids := us @ vs\<rparr>"] Some b removeAt_Ret[of us x vs]
      by (simp add: Naive_Cancel_def book_ids_def)
  next
    case nb: None
    then have ib: "i \<notin> ID ` set (bids b)" by (simp add: index_of_None)
    show ?thesis
    proof (cases "index_of i (asks b) 0")
      case (Some k)
      then obtain us x vs where b: "asks b = us @ x # vs" "k = length us" "ID x = i"
        using index_of_Some by fastforce
      have du: "distinct (map ID (us @ x # vs))" using d b(1) by (metis distinct_append map_append)
      have "naive_abs (b\<lparr>asks := us @ vs\<rparr>) = spec_cancel i (naive_abs b)"
        using filter_removed[OF du] b filter_absent[OF ib]
        by (simp only: spec_cancel_def naive_abs_simps) (simp add: naive_abs_def)
      then show ?thesis using that[of "b\<lparr>asks := us @ vs\<rparr>"] Some nb b removeAt_Ret[of us x vs]
        by (simp add: Naive_Cancel_def book_ids_def)
    next
      case None
      then have ia: "i \<notin> ID ` set (asks b)" by (simp add: index_of_None)
      have "Naive_Cancel b i = Ret (i \<in> book_ids (naive_abs b), b)"
        using nb None ia ib by (simp add: Naive_Cancel_def book_ids_def)
      moreover have "naive_abs b = spec_cancel i (naive_abs b)"
        using filter_absent[OF ia] filter_absent[OF ib] by (simp add: spec_cancel_def naive_abs_def)
      ultimately show ?thesis by (rule that)
    qed
  qed
qed

end
