(* ===== verification/Engine_Types.thy ===== *)
theory Engine_Types
  imports Order_Spec
begin

text \<open>
  \<^verbatim>\<open>internal/engine/types.go\<close> and the little-endian record formats of
  \<^verbatim>\<open>cmd_wal_codec.go\<close> (67 bytes) and \<^verbatim>\<open>event_outbox_codec.go\<close> (68 bytes).
  A buffer handed to \<open>Encode\<close> is the list of all the bytes of its capacity. The interfaces
  \<open>CmdCodec\<close> and \<open>EvCodec\<close> of \<^verbatim>\<open>interfaces.go\<close> are locales, interpreted here on the
  binary codecs.
\<close>

subsection \<open>Commands and events\<close>

type_synonym CmdType = uint8
type_synonym EventType = uint8

definition CmdSubmitLimit :: CmdType where "CmdSubmitLimit = 1"
definition CmdCancel :: CmdType where "CmdCancel = 2"

record Command =
  cType :: CmdType
  cReqID :: uint64
  cClientTs :: int
  cOrderID :: uint64
  cUserID :: uint64
  cSide :: uint8
  cPrice :: int
  cQty :: int
  cCancelOrderID :: uint64

definition empty_Command :: Command where
  "empty_Command = \<lparr>cType = 0, cReqID = 0, cClientTs = 0, cOrderID = 0, cUserID = 0, cSide = 0,
     cPrice = 0, cQty = 0, cCancelOrderID = 0\<rparr>"

definition EvAccepted :: EventType where "EvAccepted = 1"
definition EvRejected :: EventType where "EvRejected = 2"
definition EvAdded :: EventType where "EvAdded = 3"
definition EvCancelled :: EventType where "EvCancelled = 4"
definition EvTrade :: EventType where "EvTrade = 5"
definition EvCmdEnd :: EventType where "EvCmdEnd = 250"

record Event =
  eType :: EventType
  eSeq :: uint64
  eReqID :: uint64
  eIdx :: uint16
  eOrderID :: uint64
  eUserID :: uint64
  eMakerOrderID :: uint64
  eTakerOrderID :: uint64
  ePrice :: int
  eQty :: int
  eReason :: string

definition empty_Event :: Event where
  "empty_Event = \<lparr>eType = 0, eSeq = 0, eReqID = 0, eIdx = 0, eOrderID = 0, eUserID = 0,
     eMakerOrderID = 0, eTakerOrderID = 0, ePrice = 0, eQty = 0, eReason = ''''\<rparr>"

definition ErrEngineBusy :: goerror where "ErrEngineBusy = ''engine busy: mailbox full''"
definition ErrUnknownSym :: goerror where "ErrUnknownSym = ''unknown symbol''"
definition ErrBadCommand :: goerror where "ErrBadCommand = ''bad command''"

subsection \<open>encoding/binary, little endian\<close>

unbundle bit_operations_syntax

definition put_bytes :: "bytes \<Rightarrow> nat \<Rightarrow> bytes \<Rightarrow> bytes" where
  "put_bytes dst off bs = take off dst @ bs @ drop (off + length bs) dst"

definition PutUint8 :: "bytes \<Rightarrow> nat \<Rightarrow> uint8 \<Rightarrow> bytes" where
  "PutUint8 dst off x = put_bytes dst off [x]"

definition le16 :: "uint16 \<Rightarrow> bytes" where
  "le16 v = [ucast v, ucast (drop_bit 8 v)]"

definition le32 :: "uint32 \<Rightarrow> bytes" where
  "le32 v = [ucast v, ucast (drop_bit 8 v), ucast (drop_bit 16 v), ucast (drop_bit 24 v)]"

definition le64 :: "uint64 \<Rightarrow> bytes" where
  "le64 v = [ucast v, ucast (drop_bit 8 v), ucast (drop_bit 16 v), ucast (drop_bit 24 v),
     ucast (drop_bit 32 v), ucast (drop_bit 40 v), ucast (drop_bit 48 v), ucast (drop_bit 56 v)]"

definition PutUint16 :: "bytes \<Rightarrow> nat \<Rightarrow> uint16 \<Rightarrow> bytes" where
  "PutUint16 dst off v = put_bytes dst off (le16 v)"

definition PutUint64 :: "bytes \<Rightarrow> nat \<Rightarrow> uint64 \<Rightarrow> bytes" where
  "PutUint64 dst off v = put_bytes dst off (le64 v)"

definition Uint16 :: "bytes \<Rightarrow> nat \<Rightarrow> uint16" where
  "Uint16 b off = ucast (b ! off) OR push_bit 8 (ucast (b ! (off + 1)))"

definition Uint32 :: "bytes \<Rightarrow> nat \<Rightarrow> uint32" where
  "Uint32 b off = ucast (b ! off) OR push_bit 8 (ucast (b ! (off + 1)))
     OR push_bit 16 (ucast (b ! (off + 2))) OR push_bit 24 (ucast (b ! (off + 3)))"

definition Uint64 :: "bytes \<Rightarrow> nat \<Rightarrow> uint64" where
  "Uint64 b off = ucast (b ! off) OR push_bit 8 (ucast (b ! (off + 1)))
     OR push_bit 16 (ucast (b ! (off + 2))) OR push_bit 24 (ucast (b ! (off + 3)))
     OR push_bit 32 (ucast (b ! (off + 4))) OR push_bit 40 (ucast (b ! (off + 5)))
     OR push_bit 48 (ucast (b ! (off + 6))) OR push_bit 56 (ucast (b ! (off + 7)))"

lemma le_length [simp]: "length (le16 u) = 2" "length (le32 v) = 4" "length (le64 w) = 8"
  by (simp_all add: le16_def le32_def le64_def)

text \<open>Byte \<open>k\<close> of a word carries its bits \<open>8 k\<close> to \<open>8 k + 7\<close>.\<close>

lemma bit_byte:
  fixes v :: "'a::len word"
  shows "n < LENGTH('a) \<Longrightarrow>
    bit (push_bit k (ucast (ucast (drop_bit k v) :: uint8)) :: 'a word) n \<longleftrightarrow>
      k \<le> n \<and> n < k + 8 \<and> bit v n"
  by (auto simp: bit_simps)

lemma bit_byte0:
  fixes v :: "'a::len word"
  shows "n < LENGTH('a) \<Longrightarrow> bit (ucast (ucast v :: uint8) :: 'a word) n \<longleftrightarrow> n < 8 \<and> bit v n"
  by (auto simp: bit_simps)

lemma join16: "ucast (ucast v :: uint8) OR push_bit 8 (ucast (ucast (drop_bit 8 v) :: uint8)) = (v :: uint16)"
  (is "?w = v")
proof (rule bit_word_eqI)
  fix n assume "n < LENGTH(16)"
  then show "bit ?w n \<longleftrightarrow> bit v n"
    by (cases "bit v n") (simp_all add: bit_or_iff bit_byte bit_byte0, linarith)
qed

lemma join32:
  "ucast (ucast v :: uint8) OR push_bit 8 (ucast (ucast (drop_bit 8 v) :: uint8))
     OR push_bit 16 (ucast (ucast (drop_bit 16 v) :: uint8))
     OR push_bit 24 (ucast (ucast (drop_bit 24 v) :: uint8)) = (v :: uint32)" (is "?w = v")
proof (rule bit_word_eqI)
  fix n assume "n < LENGTH(32)"
  then show "bit ?w n \<longleftrightarrow> bit v n"
    by (cases "bit v n") (simp_all add: bit_or_iff bit_byte bit_byte0, linarith)
qed

lemma join64:
  "ucast (ucast v :: uint8) OR push_bit 8 (ucast (ucast (drop_bit 8 v) :: uint8))
     OR push_bit 16 (ucast (ucast (drop_bit 16 v) :: uint8))
     OR push_bit 24 (ucast (ucast (drop_bit 24 v) :: uint8))
     OR push_bit 32 (ucast (ucast (drop_bit 32 v) :: uint8))
     OR push_bit 40 (ucast (ucast (drop_bit 40 v) :: uint8))
     OR push_bit 48 (ucast (ucast (drop_bit 48 v) :: uint8))
     OR push_bit 56 (ucast (ucast (drop_bit 56 v) :: uint8)) = (v :: uint64)" (is "?w = v")
proof (rule bit_word_eqI)
  fix n assume "n < LENGTH(64)"
  then show "bit ?w n \<longleftrightarrow> bit v n"
    by (cases "bit v n") (simp_all add: bit_or_iff bit_byte bit_byte0, linarith)
qed

lemma Uint16_le16: "off = length xs \<Longrightarrow> Uint16 (xs @ le16 v @ ys) off = v"
  by (simp add: Uint16_def le16_def nth_append join16)

lemma Uint32_le32: "off = length xs \<Longrightarrow> Uint32 (xs @ le32 v @ ys) off = v"
  by (simp add: Uint32_def le32_def nth_append join32)

lemma Uint64_le64: "off = length xs \<Longrightarrow> Uint64 (xs @ le64 v @ ys) off = v"
  by (simp add: Uint64_def le64_def nth_append join64)

text \<open>Go's conversions \<open>uint64(x)\<close> and \<open>int64(x)\<close>.\<close>

definition u64_of :: "int \<Rightarrow> uint64" where "u64_of x = word_of_int x"
definition i64_of :: "uint64 \<Rightarrow> int" where "i64_of w = sint w"

lemma i64_u64: "is_i64 x \<Longrightarrow> i64_of (u64_of x) = x"
  by (simp add: is_i64_def i64_of_def u64_of_def sint_sbintrunc' signed_take_bit_int_eq_self)

end
