(* ===== verification/Wal.thy ===== *)
theory Wal
  imports Engine_Types
begin

text \<open>
  The write-ahead log of \<^verbatim>\<open>pkg/wal\<close> (\<^verbatim>\<open>wal.go\<close>, \<^verbatim>\<open>reader.go\<close>): records of
  a length, a CRC and a payload, appended through a buffered writer and read back until the end
  or the first bad record. A file is the list of its bytes; \<open>bufio.Writer\<close> and \<open>io.ReadFull\<close> are
  modelled as the code uses them.
\<close>

unbundle bit_operations_syntax

subsection \<open>hash/crc32 (IEEE)\<close>

fun crc_bits :: "nat \<Rightarrow> uint32 \<Rightarrow> uint32" where
  "crc_bits 0 c = c"
| "crc_bits (Suc k) c =
     crc_bits k (if bit c 0 then drop_bit 1 c XOR 0xEDB88320 else drop_bit 1 c)"

definition crc_byte :: "uint32 \<Rightarrow> uint8 \<Rightarrow> uint32" where
  "crc_byte c x = crc_bits 8 (c XOR ucast x)"

definition ChecksumIEEE :: "bytes \<Rightarrow> uint32" where
  "ChecksumIEEE p = NOT (fold (\<lambda>x c. crc_byte c x) p (NOT 0))"

subsection \<open>Errors and files\<close>

definition headerSize :: nat where "headerSize = 8"
definition DefaultMaxPayload :: nat where "DefaultMaxPayload = 4 * 1024 * 1024"

definition io_EOF :: goerror where "io_EOF = ''EOF''"
definition io_ErrUnexpectedEOF :: goerror where "io_ErrUnexpectedEOF = ''unexpected EOF''"
definition ErrNoSpace :: goerror where "ErrNoSpace = ''no space left on device''"
definition ErrNotExist :: goerror where "ErrNotExist = ''file does not exist''"
definition ErrCorruptHeader :: goerror where "ErrCorruptHeader = ''wal: corrupt header''"
definition ErrCorruptPayload :: goerror where "ErrCorruptPayload = ''wal: corrupt payload''"
definition ErrChecksumMismatch :: goerror where "ErrChecksumMismatch = ''wal: checksum mismatch''"
definition ErrPayloadTooLarge :: goerror where "ErrPayloadTooLarge = ''wal: payload too large''"

lemmas io_errors = io_EOF_def io_ErrUnexpectedEOF_def ErrNoSpace_def ErrNotExist_def
  ErrCorruptHeader_def ErrCorruptPayload_def ErrChecksumMismatch_def ErrPayloadTooLarge_def

lemma io_errors_distinct [simp]:
  "io_EOF \<noteq> io_ErrUnexpectedEOF" "io_ErrUnexpectedEOF \<noteq> io_EOF"
  by (simp_all add: io_errors)

subsection \<open>Writer\<close>

text \<open>
  \<open>space\<close> bounds the bytes the device still takes (\<open>None\<close>: no bound); a write that does not fit
  is cut short and fails. The error of a \<open>bufio.Writer\<close> is sticky.
\<close>

record Writer =
  content :: bytes
  space :: "nat option"
  wbuf :: bytes
  wcap :: nat
  werr :: bool
  woff :: int

definition OpenWrite :: "bytes \<Rightarrow> nat option \<Rightarrow> int \<Rightarrow> Writer" where
  "OpenWrite file sp buffSize =
     \<lparr>content = file, space = sp, wbuf = [],
      wcap = (if buffSize \<le> 0 then 1024 * 1024 else nat buffSize), werr = False,
      woff = int (length file)\<rparr>"

text \<open>Writing to the file: the number of bytes that fit.\<close>

definition fits :: "Writer \<Rightarrow> bytes \<Rightarrow> nat" where
  "fits w p = (case space w of None \<Rightarrow> length p | Some s \<Rightarrow> min (length p) s)"

definition file_write :: "bytes \<Rightarrow> Writer \<Rightarrow> Writer" where
  "file_write p w =
     w\<lparr>content := content w @ take (fits w p) p,
       space := map_option (\<lambda>s. s - fits w p) (space w),
       werr := werr w \<or> fits w p < length p\<rparr>"

definition bufio_Flush :: "Writer \<Rightarrow> Writer" where
  "bufio_Flush w =
     (if werr w \<or> wbuf w = [] then w
      else (file_write (wbuf w) w)\<lparr>wbuf := drop (fits w (wbuf w)) (wbuf w)\<rparr>)"

definition bufio_Write :: "bytes \<Rightarrow> Writer \<Rightarrow> Writer" where
  "bufio_Write p w =
     (if werr w then w
      else if length p \<le> wcap w - length (wbuf w) then w\<lparr>wbuf := wbuf w @ p\<rparr>
      else if wbuf w = [] then file_write p w
      else let n = wcap w - length (wbuf w);
               w1 = bufio_Flush (w\<lparr>wbuf := wbuf w @ take n p\<rparr>);
               q = drop n p
           in if werr w1 then w1
              else if length q \<le> wcap w1 then w1\<lparr>wbuf := q\<rparr>
              else file_write q w1)"

definition Append :: "bytes \<Rightarrow> Writer \<Rightarrow> goerror option \<times> Writer" where
  "Append payload w =
     (let hrd = le32 (of_nat (length payload)) @ le32 (ChecksumIEEE payload);
          w1 = bufio_Write hrd w
      in if werr w1 then (Some ErrCorruptHeader, w1)
         else let w2 = bufio_Write payload w1
              in if werr w2 then (Some ErrCorruptPayload, w2)
                 else (None, w2\<lparr>woff := woff w2 + int (headerSize + length payload)\<rparr>))"

text \<open>\<open>Flush\<close> and \<open>Close\<close>; \<open>f.Sync\<close> and \<open>f.Close\<close> do not change the bytes.\<close>

definition Flush :: "Writer \<Rightarrow> goerror option \<times> Writer" where
  "Flush w = (let w1 = bufio_Flush w in (if werr w1 then Some ErrNoSpace else None, w1))"

definition Close :: "Writer \<Rightarrow> goerror option \<times> Writer" where
  "Close w = (let w1 = bufio_Flush w in (if werr w1 then Some ErrNoSpace else None, w1))"

subsection \<open>Replay\<close>

text \<open>\<open>io.ReadFull\<close> of \<open>n\<close> bytes from what is left of the file.\<close>

definition ReadFull :: "nat \<Rightarrow> bytes \<Rightarrow> goerror + (bytes \<times> bytes)" where
  "ReadFull n rest =
     (if n \<le> length rest then Inr (take n rest, drop n rest)
      else if rest = [] then Inl io_EOF else Inl io_ErrUnexpectedEOF)"

lemma ReadFull_length:
  "ReadFull n rest = Inr (p, rest') \<Longrightarrow> length rest = n + length rest' \<and> length p = n"
  by (auto simp: ReadFull_def split: if_splits)

record ReplayOptions =
  MaxPayload :: int
  AllowTruncatedTail :: bool

record ReplayStats =
  Records :: nat
  BytesRead :: int
  LastGoodOffset :: int
  TruncatedTail :: bool

definition empty_stats :: ReplayStats where
  "empty_stats = \<lparr>Records = 0, BytesRead = 0, LastGoodOffset = 0, TruncatedTail = False\<rparr>"

function replay_loop :: "nat \<Rightarrow> bool \<Rightarrow> (bytes \<Rightarrow> 's \<Rightarrow> goerror option \<times> 's) \<Rightarrow> bytes \<Rightarrow> int \<Rightarrow>
    ReplayStats \<Rightarrow> 's \<Rightarrow> ReplayStats \<times> goerror option \<times> 's" where
  "replay_loop maxPayload allowTail onRecord rest off st s =
     (case ReadFull headerSize rest of
        Inl e \<Rightarrow>
          if e = io_EOF then (st, None, s)
          else if e = io_ErrUnexpectedEOF then
            if allowTail then (st\<lparr>TruncatedTail := True\<rparr>, None, s)
            else (st\<lparr>TruncatedTail := True\<rparr>, Some ErrCorruptHeader, s)
          else (st, Some e, s)
      | Inr (hdr, rest1) \<Rightarrow>
          let ln = unat (Uint32 hdr 0); crc = Uint32 hdr 4
          in if ln > maxPayload then (st, Some ErrPayloadTooLarge, s)
             else case ReadFull ln rest1 of
               Inl e \<Rightarrow>
                 if e = io_ErrUnexpectedEOF then
                   if allowTail then (st\<lparr>TruncatedTail := True\<rparr>, None, s)
                   else (st\<lparr>TruncatedTail := True\<rparr>, Some ErrCorruptPayload, s)
                 else (st, Some e, s)
             | Inr (payload, rest2) \<Rightarrow>
                 if ChecksumIEEE payload \<noteq> crc then (st, Some ErrChecksumMismatch, s)
                 else let off = off + int (headerSize + ln);
                          st = st\<lparr>BytesRead := off\<rparr>;
                          (err, s) = onRecord payload s
                      in case err of
                           Some e \<Rightarrow> (st, Some e, s)
                         | None \<Rightarrow> replay_loop maxPayload allowTail onRecord rest2 off
                             (st\<lparr>Records := Records st + 1, LastGoodOffset := off\<rparr>) s)"
  by pat_completeness auto
termination
  by (relation "measure (\<lambda>(m, a, f, rest, off, st, s). length rest)")
    (auto simp: headerSize_def dest!: ReadFull_length sym[of "Inr _"])

declare replay_loop.simps [simp del]

text \<open>\<open>None\<close> is a file that does not exist.\<close>

definition max_payload :: "int \<Rightarrow> nat" where
  "max_payload m = (if m \<le> 0 then DefaultMaxPayload else nat m)"

definition Replay :: "bytes option \<Rightarrow> ReplayOptions \<Rightarrow> (bytes \<Rightarrow> 's \<Rightarrow> goerror option \<times> 's) \<Rightarrow> 's \<Rightarrow>
    ReplayStats \<times> goerror option \<times> 's" where
  "Replay file opts onRecord s =
     (case file of
        None \<Rightarrow> (empty_stats, None, s)
      | Some f \<Rightarrow> replay_loop (max_payload (MaxPayload opts)) (AllowTruncatedTail opts) onRecord f 0
          empty_stats s)"

definition TruncateTo :: "bytes option \<Rightarrow> int \<Rightarrow> goerror option \<times> bytes option" where
  "TruncateTo file offset =
     (if offset < 0 then (Some ''wal: negative truncate offset'', file)
      else case file of
        None \<Rightarrow> (None, None)
      | Some f \<Rightarrow> if offset \<ge> int (length f) then (None, Some f)
                  else (None, Some (take (nat offset) f)))"

subsection \<open>Reader\<close>

record Reader =
  unread :: bytes
  roff :: int
  rmaxPayload :: nat
  allowTail :: bool
  truncatedTail :: bool
  lastGoodOffset :: int

record ReaderOptions =
  rMaxPayload :: int
  rAllowTruncatedTail :: bool

text \<open>As written: the reader does not take \<open>AllowTruncatedTail\<close> from its options.\<close>

definition OpenReader :: "bytes option \<Rightarrow> int \<Rightarrow> ReaderOptions \<Rightarrow> goerror + Reader" where
  "OpenReader file offset opts =
     (case file of
        None \<Rightarrow> Inl ErrNotExist
      | Some f \<Rightarrow> Inr \<lparr>unread = (if offset > 0 then drop (nat offset) f else f), roff = offset,
                        rmaxPayload = max_payload (rMaxPayload opts), allowTail = False,
                        truncatedTail = False, lastGoodOffset = offset\<rparr>)"

definition Reader_Next :: "Reader \<Rightarrow> (goerror + bytes) \<times> int \<times> Reader" where
  "Reader_Next r =
     (case ReadFull headerSize (unread r) of
        Inl e \<Rightarrow>
          if e = io_EOF then (Inl io_EOF, roff r, r)
          else if e = io_ErrUnexpectedEOF then
            (let r1 = r\<lparr>truncatedTail := True, unread := []\<rparr>
             in if allowTail r then (Inl io_EOF, roff r, r1) else (Inl ErrCorruptHeader, roff r, r1))
          else (Inl e, roff r, r)
      | Inr (hdr, rest1) \<Rightarrow>
          let ln = unat (Uint32 hdr 0); crc = Uint32 hdr 4; r1 = r\<lparr>unread := rest1\<rparr>
          in if ln > rmaxPayload r then (Inl ErrPayloadTooLarge, roff r, r1)
             else case ReadFull ln rest1 of
               Inl e \<Rightarrow>
                 if e = io_ErrUnexpectedEOF then
                   (let r2 = r\<lparr>truncatedTail := True, unread := []\<rparr>
                    in if allowTail r then (Inl io_EOF, roff r, r2)
                       else (Inl ErrCorruptPayload, roff r, r2))
                 else (Inl e, roff r, r1)
             | Inr (payload, rest2) \<Rightarrow>
                 let r2 = r\<lparr>unread := rest2\<rparr>
                 in if ChecksumIEEE payload \<noteq> crc then (Inl ErrChecksumMismatch, roff r, r2)
                    else let off = roff r + int (headerSize + ln)
                         in (Inr payload, off, r2\<lparr>roff := off, lastGoodOffset := off\<rparr>))"

subsection \<open>What the writer leaves in the file\<close>

definition record_of :: "bytes \<Rightarrow> bytes" where
  "record_of p = le32 (of_nat (length p)) @ le32 (ChecksumIEEE p) @ p"

definition log_of :: "bytes list \<Rightarrow> bytes" where
  "log_of ps = concat (map record_of ps)"

lemma log_of_simps [simp]:
  "log_of [] = []" "log_of (p # ps) = record_of p @ log_of ps" "log_of (ps @ qs) = log_of ps @ log_of qs"
  by (simp_all add: log_of_def)

lemma length_record_of [simp]: "length (record_of p) = 8 + length p"
  by (simp add: record_of_def)

text \<open>The bytes the writer has taken: those in the file and those still buffered.\<close>

definition taken :: "Writer \<Rightarrow> bytes" where
  "taken w = content w @ wbuf w"

definition extends :: "bytes \<Rightarrow> bytes \<Rightarrow> bool" where
  "extends a b \<longleftrightarrow> (\<exists>c. b = a @ c)"

lemma extends_refl [simp]: "extends a a"
  by (simp add: extends_def)

lemma extends_append [simp]: "extends a (a @ b)"
  by (simp add: extends_def)

lemma extends_trans: "extends a b \<Longrightarrow> extends b c \<Longrightarrow> extends a c"
  by (auto simp: extends_def)

lemma fits_le: "fits w p \<le> length p"
  by (simp add: fits_def split: option.split)

lemma bufio_Flush_frame:
  "extends (content w) (content (bufio_Flush w))" "taken (bufio_Flush w) = taken w"
  "wcap (bufio_Flush w) = wcap w" "woff (bufio_Flush w) = woff w"
  "\<not> werr (bufio_Flush w) \<Longrightarrow> wbuf (bufio_Flush w) = [] \<and> \<not> werr w"
  using fits_le[of w "wbuf w"]
  by (auto simp: bufio_Flush_def file_write_def taken_def extends_def split: if_splits)

lemma bufio_Write_ok:
  assumes "\<not> werr (bufio_Write p w)"
  shows "taken (bufio_Write p w) = taken w @ p" "\<not> werr w"
proof -
  have full: "taken (file_write q v) = taken v @ q" if "\<not> werr (file_write q v)" "wbuf v = []" for q v
    using that fits_le[of v q] by (auto simp: file_write_def taken_def)
  let ?n = "wcap w - length (wbuf w)"
  let ?w1 = "bufio_Flush (w\<lparr>wbuf := wbuf w @ take ?n p\<rparr>)"
  show nw: "\<not> werr w" using assms by (auto simp: bufio_Write_def)
  show "taken (bufio_Write p w) = taken w @ p"
  proof (cases "length p \<le> ?n \<or> wbuf w = []")
    case True
    then show ?thesis using nw assms full[of p w]
      by (auto simp: bufio_Write_def taken_def split: if_splits)
  next
    case False
    then have eq: "bufio_Write p w = (if werr ?w1 then ?w1
        else if length (drop ?n p) \<le> wcap ?w1 then ?w1\<lparr>wbuf := drop ?n p\<rparr> else file_write (drop ?n p) ?w1)"
      using nw by (simp add: bufio_Write_def Let_def)
    then have ok: "\<not> werr ?w1" using assms by auto
    have e: "wbuf ?w1 = []" "taken ?w1 = taken w @ take ?n p"
      using bufio_Flush_frame(5)[OF ok] bufio_Flush_frame(2)[of "w\<lparr>wbuf := wbuf w @ take ?n p\<rparr>"]
      by (auto simp: taken_def)
    then have c: "content ?w1 = taken w @ take ?n p" by (simp add: taken_def)
    show ?thesis
    proof (cases "length (drop ?n p) \<le> wcap ?w1")
      case True
      then have "bufio_Write p w = ?w1\<lparr>wbuf := drop ?n p\<rparr>" using eq ok by simp
      then show ?thesis using c by (simp add: taken_def)
    next
      case False
      then have f: "bufio_Write p w = file_write (drop ?n p) ?w1" using eq ok by simp
      then show ?thesis using full[of "drop ?n p" ?w1] assms e(1) e(2) by simp
    qed
  qed
qed

lemma bufio_Write_prefix:
  "extends (content w) (content (bufio_Write p w))"
  "extends (content (bufio_Write p w)) (taken w @ p)"
proof -
  let ?n = "wcap w - length (wbuf w)"
  let ?v = "w\<lparr>wbuf := wbuf w @ take ?n p\<rparr>"
  let ?w1 = "bufio_Flush ?v"
  have fw: "extends (content v) (content (file_write q v))"
    "wbuf v = [] \<Longrightarrow> extends (content (file_write q v)) (taken v @ q)" for q v
  proof -
    show "extends (content v) (content (file_write q v))" by (simp add: file_write_def)
    show "wbuf v = [] \<Longrightarrow> extends (content (file_write q v)) (taken v @ q)"
      unfolding extends_def taken_def file_write_def
      by (intro exI[of _ "drop (fits v q) q"]) simp
  qed
  have w1: "extends (content w) (content ?w1)" using bufio_Flush_frame(1)[of ?v] by simp
  have t1: "taken ?w1 = taken w @ take ?n p" using bufio_Flush_frame(2)[of ?v] by (simp add: taken_def)
  have c1: "extends (content ?w1) (taken w @ p)"
  proof -
    have "taken w @ p = content ?w1 @ wbuf ?w1 @ drop ?n p"
      using arg_cong[OF t1, of "\<lambda>x. x @ drop ?n p"] by (simp add: taken_def)
    then show ?thesis by (auto simp: extends_def)
  qed
  have eq: "bufio_Write p w = (if werr ?w1 then ?w1 else if length (drop ?n p) \<le> wcap ?w1
      then ?w1\<lparr>wbuf := drop ?n p\<rparr> else file_write (drop ?n p) ?w1)"
    if "\<not> werr w" "\<not> length p \<le> ?n" "wbuf w \<noteq> []"
    using that by (simp add: bufio_Write_def Let_def)
  show "extends (content w) (content (bufio_Write p w))"
    using eq w1 fw(1)[of w p] extends_trans[OF w1 fw(1)[of ?w1 "drop ?n p"]]
    by (cases "werr w \<or> length p \<le> ?n \<or> wbuf w = []") (auto simp: bufio_Write_def split: if_splits)
  have direct: "extends (content (file_write (drop ?n p) ?w1)) (taken w @ p)" if "\<not> werr ?w1"
  proof -
    have "wbuf ?w1 = []" using bufio_Flush_frame(5)[OF that] by blast
    from fw(2)[OF this, of "drop ?n p"] show ?thesis unfolding t1 by simp
  qed
  have tw: "extends (content w) (taken w @ p)" by (simp add: taken_def)
  show "extends (content (bufio_Write p w)) (taken w @ p)"
    using eq c1 direct tw fw(2)[of w p]
    by (cases "werr w \<or> length p \<le> ?n \<or> wbuf w = []") (auto simp: bufio_Write_def split: if_splits)
qed

lemma Append_ok:
  assumes "Append p w = (None, w')"
  shows "taken w' = taken w @ record_of p" and "\<not> werr w'"
    and "woff w' = woff w + int (length (record_of p))"
proof -
  let ?h = "le32 (of_nat (length p)) @ le32 (ChecksumIEEE p)"
  let ?w1 = "bufio_Write ?h w"
  let ?w2 = "bufio_Write p ?w1"
  have ok: "\<not> werr ?w1" "\<not> werr ?w2" and w': "w' = ?w2\<lparr>woff := woff ?w2 + int (8 + length p)\<rparr>"
    using assms by (auto simp: Append_def Let_def headerSize_def split: if_splits)
  show "taken w' = taken w @ record_of p"
    using bufio_Write_ok(1)[OF ok(2)] bufio_Write_ok(1)[OF ok(1)]
    by (simp add: w' record_of_def) (simp add: taken_def)
  show "\<not> werr w'" using ok by (simp add: w')
  have "woff (bufio_Write q v) = woff v" for q v
    by (auto simp: bufio_Write_def Let_def bufio_Flush_frame(4) file_write_def)
  then show "woff w' = woff w + int (length (record_of p))" by (simp add: w')
qed

text \<open>Whatever fails, the file keeps what it had and holds a prefix of the record stream.\<close>

lemma Append_prefix:
  assumes "Append p w = (err, w')"
  shows "extends (content w) (content w')" and "extends (content w') (taken w @ record_of p)"
proof -
  let ?h = "le32 (of_nat (length p)) @ le32 (ChecksumIEEE p)"
  let ?w1 = "bufio_Write ?h w"
  let ?w2 = "bufio_Write p ?w1"
  have r: "taken w @ record_of p = (taken w @ ?h) @ p" by (simp add: record_of_def)
  have w': "content w' = (if werr ?w1 then content ?w1 else content ?w2)"
    using assms by (auto simp: Append_def Let_def split: if_splits)
  show "extends (content w) (content w')"
    using w' bufio_Write_prefix(1)[of w ?h] bufio_Write_prefix(1)[of ?w1 p] extends_trans
    by (auto split: if_splits)
  show "extends (content w') (taken w @ record_of p)"
  proof (cases "werr ?w1")
    case True
    then show ?thesis using w' bufio_Write_prefix(2)[of ?h w] extends_trans unfolding r
      by (metis extends_append)
  next
    case False
    then show ?thesis using w' bufio_Write_prefix(2)[of p ?w1] bufio_Write_ok(1)[OF False]
      unfolding r by simp
  qed
qed

subsection \<open>Reading records back\<close>

text \<open>Payload lengths a record can carry: the header field is 32 bits wide.\<close>

definition fits_in :: "nat \<Rightarrow> bytes \<Rightarrow> bool" where
  "fits_in m p \<longleftrightarrow> length p \<le> m \<and> length p < 2 ^ 32"

lemma ReadFull_append: "ReadFull (length xs) (xs @ ys) = Inr (xs, ys)"
  by (simp add: ReadFull_def)

lemma ReadFull_header:
  "ReadFull 8 (record_of p @ rest) =
     Inr (le32 (of_nat (length p)) @ le32 (ChecksumIEEE p), p @ rest)"
proof -
  let ?h = "le32 (of_nat (length p)) @ le32 (ChecksumIEEE p)"
  have h: "length ?h = 8" by simp
  have r: "record_of p @ rest = ?h @ (p @ rest)" by (simp add: record_of_def)
  show ?thesis unfolding r h[symmetric] by (rule ReadFull_append)
qed

lemma header_fields:
  assumes "length p < 2 ^ 32"
  shows "unat (Uint32 (le32 (of_nat (length p)) @ le32 c) 0) = length p"
proof -
  have "Uint32 (le32 (of_nat (length p)) @ le32 c) 0 = of_nat (length p)"
    using Uint32_le32[of 0 "[]" "of_nat (length p)" "le32 c"] by simp
  then show "unat (Uint32 (le32 (of_nat (length p)) @ le32 c) 0) = length p"
    using assms by (simp add: unat_of_nat)
qed

lemma header_crc: "Uint32 (le32 l @ le32 c) 4 = c"
  using Uint32_le32[of 4 "le32 l" c "[]"] by simp

lemma replay_loop_record:
  assumes "fits_in m p"
  shows "replay_loop m a f (record_of p @ rest) off st s =
     (let off' = off + int (length (record_of p)); st' = st\<lparr>BytesRead := off'\<rparr>
      in case f p s of
           (Some e, s') \<Rightarrow> (st', Some e, s')
         | (None, s') \<Rightarrow> replay_loop m a f rest off'
             (st'\<lparr>Records := Records st' + 1, LastGoodOffset := off'\<rparr>) s')"
  using assms
  by (subst replay_loop.simps)
    (simp add: ReadFull_header header_fields header_crc ReadFull_append fits_in_def headerSize_def Let_def
      split: prod.split option.split)

lemma replay_loop_end: "replay_loop m a f [] off st s = (st, None, s)"
  by (subst replay_loop.simps) (simp add: ReadFull_def headerSize_def)

text \<open>A whole log is replayed record by record; \<open>run_records\<close> is the callback's own fold.\<close>

fun run_records :: "(bytes \<Rightarrow> 's \<Rightarrow> goerror option \<times> 's) \<Rightarrow> bytes list \<Rightarrow> 's \<Rightarrow> goerror option \<times> 's" where
  "run_records f [] s = (None, s)"
| "run_records f (p # ps) s =
     (case f p s of (Some e, s') \<Rightarrow> (Some e, s') | (None, s') \<Rightarrow> run_records f ps s')"

definition after_records :: "bytes list \<Rightarrow> int \<Rightarrow> ReplayStats \<Rightarrow> ReplayStats" where
  "after_records ps off st =
     (if ps = [] then st
      else st\<lparr>Records := Records st + length ps, BytesRead := off + int (length (log_of ps)),
             LastGoodOffset := off + int (length (log_of ps))\<rparr>)"

lemma after_records_Cons:
  "after_records ps (off + int (length (record_of p)))
     (st\<lparr>BytesRead := off + int (length (record_of p)), Records := Records st + 1,
        LastGoodOffset := off + int (length (record_of p))\<rparr>) = after_records (p # ps) off st"
  by (cases st) (simp add: after_records_def add.assoc)

lemma replay_loop_log:
  "\<forall>p \<in> set ps. fits_in m p \<Longrightarrow> run_records f ps s = (None, s') \<Longrightarrow>
   replay_loop m a f (log_of ps @ rest) off st s =
     replay_loop m a f rest (off + int (length (log_of ps))) (after_records ps off st) s'"
proof (induction ps arbitrary: off st s)
  case Nil
  then show ?case by (simp add: after_records_def)
next
  case (Cons p ps)
  obtain s1 where f: "f p s = (None, s1)" and run: "run_records f ps s1 = (None, s')"
    using Cons.prems(2) by (auto split: prod.splits option.splits)
  let ?off = "off + int (length (record_of p))"
  have "replay_loop m a f (log_of (p # ps) @ rest) off st s =
    replay_loop m a f (log_of ps @ rest) ?off
      (st\<lparr>BytesRead := ?off, Records := Records st + 1, LastGoodOffset := ?off\<rparr>) s1"
    using Cons.prems(1) f by (simp add: replay_loop_record[of m p] Let_def)
  also have "\<dots> = replay_loop m a f rest (?off + int (length (log_of ps)))
      (after_records (p # ps) off st) s'"
    by (subst Cons.IH[OF _ run]) (use Cons.prems(1) after_records_Cons in auto)
  finally show ?case by (simp add: add.assoc)
qed

text \<open>
  The last record may be torn by a crash. A torn header or a payload cut in the middle is
  recognised; a payload of which nothing was written is reported as a plain end of file.
\<close>

lemma replay_loop_torn:
  assumes "fits_in m q" and "k < length (record_of q)"
  shows "replay_loop m a f (take k (record_of q)) off st s =
    (if k = 0 then (st, None, s)
     else if k = 8 then (st, Some io_EOF, s)
     else if a then (st\<lparr>TruncatedTail := True\<rparr>, None, s)
     else (st\<lparr>TruncatedTail := True\<rparr>, Some (if k < 8 then ErrCorruptHeader else ErrCorruptPayload), s))"
proof (cases "k < 8")
  case True
  then have "length (take k (record_of q)) = k" "record_of q \<noteq> []" by (auto simp: record_of_def le32_def)
  then show ?thesis using True
    by (subst replay_loop.simps) (auto simp: ReadFull_def headerSize_def)
next
  case False
  let ?h = "le32 (of_nat (length q)) @ le32 (ChecksumIEEE q)"
  have "take k (record_of q) = ?h @ take (k - 8) q"
    using False by (simp add: record_of_def take_append)
  then have t: "take k (record_of q) = ?h @ take (k - 8) q" .
  have r1: "ReadFull 8 (?h @ take (k - 8) q) = Inr (?h, take (k - 8) q)"
    using ReadFull_append[of ?h "take (k - 8) q"] by simp
  have r3: "ReadFull 8 ?h = Inr (?h, [])" using ReadFull_append[of ?h "[]"] by simp
  have "k - 8 < length q" using assms(2) False by simp
  then have r2: "ReadFull (length q) (take (k - 8) q) =
      (if k = 8 then Inl io_EOF else Inl io_ErrUnexpectedEOF)"
    and r4: "k = 8 \<Longrightarrow> ReadFull (length q) [] = Inl io_EOF"
    using False by (auto simp: ReadFull_def)
  show ?thesis
    using False assms(1) header_fields[of q] header_crc
    by (subst replay_loop.simps) (simp add: t r1 r2 r3 r4 fits_in_def Let_def headerSize_def
      del: append_assoc)
qed

lemma Reader_Next_record:
  assumes "fits_in (rmaxPayload r) p" and "unread r = record_of p @ rest"
  shows "Reader_Next r = (Inr p, roff r + int (length (record_of p)),
    r\<lparr>unread := rest, roff := roff r + int (length (record_of p)),
      lastGoodOffset := roff r + int (length (record_of p))\<rparr>)"
  using assms
  by (simp add: Reader_Next_def ReadFull_header header_fields header_crc ReadFull_append fits_in_def
      headerSize_def Let_def)

lemma Reader_Next_end: "unread r = [] \<Longrightarrow> Reader_Next r = (Inl io_EOF, roff r, r)"
  by (simp add: Reader_Next_def ReadFull_def headerSize_def)

lemma Reader_Next_torn:
  assumes "fits_in (rmaxPayload r) q" and "unread r = take k (record_of q)"
    and "0 < k" "k < length (record_of q)"
  shows "\<exists>r'. Reader_Next r =
    (Inl (if k = 8 \<or> allowTail r then io_EOF else if k < 8 then ErrCorruptHeader else ErrCorruptPayload),
     roff r, r')"
proof (cases "k < 8")
  case True
  have l: "length (unread r) = k" using assms by simp
  then have "unread r \<noteq> []" using assms(3) by auto
  then show ?thesis using True l by (simp add: Reader_Next_def ReadFull_def headerSize_def Let_def)
next
  case False
  let ?h = "le32 (of_nat (length q)) @ le32 (ChecksumIEEE q)"
  have t: "unread r = ?h @ take (k - 8) q"
    using False assms(2) by (simp add: record_of_def take_append)
  have r1: "ReadFull 8 (?h @ take (k - 8) q) = Inr (?h, take (k - 8) q)"
    using ReadFull_append[of ?h "take (k - 8) q"] by simp
  have r3: "ReadFull 8 ?h = Inr (?h, [])" using ReadFull_append[of ?h "[]"] by simp
  have "k - 8 < length q" using assms(4) False by simp
  then have r2: "ReadFull (length q) (take (k - 8) q) =
      (if k = 8 then Inl io_EOF else Inl io_ErrUnexpectedEOF)"
    and r4: "k = 8 \<Longrightarrow> ReadFull (length q) [] = Inl io_EOF"
    using False by (auto simp: ReadFull_def)
  show ?thesis
    using False assms(1) header_fields[of q] header_crc
    by (simp add: Reader_Next_def t r1 r2 r3 r4 fits_in_def Let_def headerSize_def
      del: append_assoc)
qed

end
