(* ===== verification/Codecs.thy ===== *)
theory Codecs
  imports Engine_Types
begin

text \<open>
  \<^verbatim>\<open>internal/engine/cmd_wal_codec.go\<close> and \<^verbatim>\<open>event_outbox_codec.go\<close>: the
  fixed-width records of the command log and of the event outbox, and the interfaces
  \<open>CmdCodec\<close>, \<open>EvCodec\<close> of \<^verbatim>\<open>interfaces.go\<close>.
\<close>

subsection \<open>The command record\<close>

definition cmdWalVersion :: uint8 where "cmdWalVersion = 1"
definition cmdRecordLen :: nat where "cmdRecordLen = 67"

definition ErrBadCmdRecordLen :: goerror where "ErrBadCmdRecordLen = ''wal cmd: bad record length''"
definition ErrBadCmdVersion :: goerror where "ErrBadCmdVersion = ''wal cmd: bad version''"
definition ErrBadCmdType :: goerror where "ErrBadCmdType = ''wal cmd: bad cmd type''"

text \<open>A buffer that is large enough is reused with its old contents, else a zeroed one is made.\<close>

definition record_buffer :: "nat \<Rightarrow> bytes \<Rightarrow> bytes" where
  "record_buffer n dst = (if length dst < n then replicate n 0 else take n dst)"

definition BinaryCMDCode_Encode :: "bytes \<Rightarrow> uint64 \<Rightarrow> Command \<Rightarrow> goerror + bytes" where
  "BinaryCMDCode_Encode dst cmdSeq cmd =
     (let d0 = record_buffer cmdRecordLen dst;
          d1 = PutUint8 d0 0 cmdWalVersion;
          d2 = PutUint8 d1 1 (cType cmd);
          d3 = PutUint64 d2 2 cmdSeq;
          d4 = PutUint64 d3 10 (cReqID cmd);
          d5 = PutUint64 d4 18 (u64_of (cClientTs cmd));
          d6 = PutUint64 d5 26 (cOrderID cmd);
          d7 = PutUint64 d6 34 (cUserID cmd);
          d8 = PutUint8 d7 42 (cSide cmd);
          d9 = PutUint64 d8 43 (u64_of (cPrice cmd));
          d10 = PutUint64 d9 51 (u64_of (cQty cmd));
          cancelID = (if cType cmd = CmdCancel then cCancelOrderID cmd else 0)
      in Inr (PutUint64 d10 59 cancelID))"

definition BinaryCMDCode_Decode :: "bytes \<Rightarrow> goerror + (uint64 \<times> Command)" where
  "BinaryCMDCode_Decode payload =
     (if length payload \<noteq> cmdRecordLen then Inl ErrBadCmdRecordLen
      else if payload ! 0 \<noteq> cmdWalVersion then Inl ErrBadCmdVersion
      else let ct = payload ! 1
           in if ct \<noteq> CmdSubmitLimit \<and> ct \<noteq> CmdCancel then Inl ErrBadCmdType
              else Inr (Uint64 payload 2,
                \<lparr>cType = ct, cReqID = Uint64 payload 10, cClientTs = i64_of (Uint64 payload 18),
                 cOrderID = Uint64 payload 26, cUserID = Uint64 payload 34, cSide = payload ! 42,
                 cPrice = i64_of (Uint64 payload 43), cQty = i64_of (Uint64 payload 51),
                 cCancelOrderID = Uint64 payload 59\<rparr>))"

subsection \<open>The event record\<close>

definition evWalVersion :: uint8 where "evWalVersion = 1"
definition evRecordLen :: nat where "evRecordLen = 68"

definition ErrBadEvRecordLen :: goerror where "ErrBadEvRecordLen = ''outbox: bad record length''"
definition ErrBadEvVersion :: goerror where "ErrBadEvVersion = ''outbox: bad version''"

definition EvCmdCodec_Encode :: "bytes \<Rightarrow> Event \<Rightarrow> goerror + bytes" where
  "EvCmdCodec_Encode dst ev =
     (let d0 = record_buffer evRecordLen dst;
          d1 = PutUint8 d0 0 evWalVersion;
          d2 = PutUint8 d1 1 (eType ev);
          d3 = PutUint64 d2 2 (eSeq ev);
          d4 = PutUint16 d3 10 (eIdx ev);
          d5 = PutUint64 d4 12 (eReqID ev);
          d6 = PutUint64 d5 20 (eOrderID ev);
          d7 = PutUint64 d6 28 (eUserID ev);
          d8 = PutUint64 d7 36 (eMakerOrderID ev);
          d9 = PutUint64 d8 44 (eTakerOrderID ev);
          d10 = PutUint64 d9 52 (u64_of (ePrice ev))
      in Inr (PutUint64 d10 60 (u64_of (eQty ev))))"

definition EvCmdCodec_Decode :: "bytes \<Rightarrow> goerror + Event" where
  "EvCmdCodec_Decode payload =
     (if length payload \<noteq> evRecordLen then Inl ErrBadEvRecordLen
      else if payload ! 0 \<noteq> evWalVersion then Inl ErrBadEvVersion
      else Inr \<lparr>eType = payload ! 1, eSeq = Uint64 payload 2, eReqID = Uint64 payload 12,
                eIdx = Uint16 payload 10, eOrderID = Uint64 payload 20, eUserID = Uint64 payload 28,
                eMakerOrderID = Uint64 payload 36, eTakerOrderID = Uint64 payload 44,
                ePrice = i64_of (Uint64 payload 52), eQty = i64_of (Uint64 payload 60),
                eReason = ''''\<rparr>)"

subsection \<open>Layout\<close>

lemma put_bytes_next:
  "off = length pre \<Longrightarrow> length bs \<le> length rest \<Longrightarrow>
     put_bytes (pre @ rest) off bs = (pre @ bs) @ drop (length bs) rest"
  by (simp add: put_bytes_def)

lemma Put_next:
  "off = length pre \<Longrightarrow> 1 \<le> length rest \<Longrightarrow> PutUint8 (pre @ rest) off x = (pre @ [x]) @ drop 1 rest"
  "off = length pre \<Longrightarrow> 2 \<le> length rest \<Longrightarrow> PutUint16 (pre @ rest) off y = (pre @ le16 y) @ drop 2 rest"
  "off = length pre \<Longrightarrow> 8 \<le> length rest \<Longrightarrow> PutUint64 (pre @ rest) off z = (pre @ le64 z) @ drop 8 rest"
  using put_bytes_next[of off pre "[x]"] put_bytes_next[of off pre "le16 y"]
    put_bytes_next[of off pre "le64 z"]
  by (simp_all add: PutUint8_def PutUint16_def PutUint64_def)

lemma record_buffer_length [simp]: "length (record_buffer n dst) = n"
  by (simp add: record_buffer_def)

lemma cmd_layout:
  "BinaryCMDCode_Encode dst s c = Inr
     ([1, cType c] @ le64 s @ le64 (cReqID c) @ le64 (u64_of (cClientTs c)) @ le64 (cOrderID c) @
      le64 (cUserID c) @ [cSide c] @ le64 (u64_of (cPrice c)) @ le64 (u64_of (cQty c)) @
      le64 (if cType c = CmdCancel then cCancelOrderID c else 0))"
proof -
  obtain d where d: "record_buffer cmdRecordLen dst = [] @ d" "length d = 67"
    by (simp add: cmdRecordLen_def)
  show ?thesis
    unfolding BinaryCMDCode_Encode_def d(1) Let_def
    by (simp only: Put_next length_append le_length list.size d(2) length_drop add_0 add_0_right
        drop_drop, simp add: cmdWalVersion_def d(2))
qed

lemma ev_layout:
  "EvCmdCodec_Encode dst e = Inr
     ([1, eType e] @ le64 (eSeq e) @ le16 (eIdx e) @ le64 (eReqID e) @ le64 (eOrderID e) @
      le64 (eUserID e) @ le64 (eMakerOrderID e) @ le64 (eTakerOrderID e) @
      le64 (u64_of (ePrice e)) @ le64 (u64_of (eQty e)))"
proof -
  obtain d where d: "record_buffer evRecordLen dst = [] @ d" "length d = 68"
    by (simp add: evRecordLen_def)
  show ?thesis
    unfolding EvCmdCodec_Encode_def d(1) Let_def
    by (simp only: Put_next length_append le_length list.size d(2) length_drop add_0 add_0_right
        drop_drop, simp add: evWalVersion_def d(2))
qed

text \<open>Reading a field skips the fields before it.\<close>

lemma Uint_skip:
  "length xs \<le> off \<Longrightarrow> Uint64 (xs @ ys) off = Uint64 ys (off - length xs)"
  "length xs \<le> off \<Longrightarrow> Uint16 (xs @ ys) off = Uint16 ys (off - length xs)"
  "length xs \<le> off \<Longrightarrow> Uint32 (xs @ ys) off = Uint32 ys (off - length xs)"
  by (simp_all add: Uint64_def Uint16_def Uint32_def nth_append Suc_diff_le)

lemma Uint_head:
  "Uint64 (le64 v @ ys) 0 = v" "Uint16 (le16 u @ ys) 0 = u" "Uint32 (le32 w @ ys) 0 = w"
  "Uint64 (le64 v) 0 = v"
  using Uint64_le64[of 0 "[]" v ys] Uint16_le16[of 0 "[]" u ys] Uint32_le32[of 0 "[]" w ys]
    Uint64_le64[of 0 "[]" v "[]"] by simp_all

lemma nth_skip: "length xs \<le> off \<Longrightarrow> (xs @ ys) ! off = ys ! (off - length xs)"
  by (simp add: nth_append)

lemma nth_first: "([y] @ ys) ! 0 = y"
  by simp

lemmas read_fields = Uint_skip Uint_head nth_skip nth_first le_length length_Cons list.size

lemma cmd_decode_layout:
  assumes t: "t = CmdSubmitLimit \<or> t = CmdCancel"
    and p: "p = [1, t] @ le64 s @ le64 r @ le64 ts @ le64 ord @ le64 u @ [sd] @ le64 pr @ le64 q @ le64 x"
  shows "BinaryCMDCode_Decode p =
     Inr (s, \<lparr>cType = t, cReqID = r, cClientTs = i64_of ts, cOrderID = ord, cUserID = u, cSide = sd,
             cPrice = i64_of pr, cQty = i64_of q, cCancelOrderID = x\<rparr>)"
proof -
  have hd: "length p = 67" "p ! 0 = 1" "p ! Suc 0 = t" by (simp_all add: p)
  have "Uint64 p 2 = s" "Uint64 p 10 = r" "Uint64 p 18 = ts" "Uint64 p 26 = ord" "Uint64 p 34 = u"
    "p ! 42 = sd" "Uint64 p 43 = pr" "Uint64 p 51 = q" "Uint64 p 59 = x"
    unfolding p by (simp_all add: read_fields del: append_Cons append_Nil)
  then show ?thesis using t hd
    by (auto simp: BinaryCMDCode_Decode_def cmdRecordLen_def cmdWalVersion_def)
qed

lemma ev_decode_layout:
  assumes p: "p = [1, t] @ le64 s @ le16 i @ le64 r @ le64 ord @ le64 u @ le64 mk @ le64 tk @
      le64 pr @ le64 q"
  shows "EvCmdCodec_Decode p =
     Inr \<lparr>eType = t, eSeq = s, eReqID = r, eIdx = i, eOrderID = ord, eUserID = u, eMakerOrderID = mk,
          eTakerOrderID = tk, ePrice = i64_of pr, eQty = i64_of q, eReason = ''''\<rparr>"
proof -
  have hd: "length p = 68" "p ! 0 = 1" "p ! Suc 0 = t" by (simp_all add: p)
  have "Uint64 p 2 = s" "Uint16 p 10 = i" "Uint64 p 12 = r" "Uint64 p 20 = ord" "Uint64 p 28 = u"
    "Uint64 p 36 = mk" "Uint64 p 44 = tk" "Uint64 p 52 = pr" "Uint64 p 60 = q"
    unfolding p by (simp_all add: read_fields del: append_Cons append_Nil)
  then show ?thesis using hd by (simp add: EvCmdCodec_Decode_def evRecordLen_def evWalVersion_def)
qed

subsection \<open>The codec interfaces\<close>

text \<open>
  What the log relies on: for the commands a codec accepts, decoding an encoded record gives the
  sequence number and the command back, up to the fields the record does not keep.
\<close>

locale cmd_codec =
  fixes Encode :: "bytes \<Rightarrow> uint64 \<Rightarrow> Command \<Rightarrow> goerror + bytes"
    and Decode :: "bytes \<Rightarrow> goerror + (uint64 \<times> Command)"
    and accepts :: "Command \<Rightarrow> bool"
    and keeps :: "Command \<Rightarrow> Command"
  assumes round: "accepts c \<Longrightarrow> \<exists>p. Encode dst s c = Inr p \<and> Decode p = Inr (s, keeps c)"
begin

definition payload :: "bytes \<Rightarrow> uint64 \<times> Command \<Rightarrow> bytes" where
  "payload dst sc = (case Encode dst (fst sc) (snd sc) of Inr p \<Rightarrow> p | Inl _ \<Rightarrow> [])"

lemma Decode_payload: "accepts (snd sc) \<Longrightarrow> Decode (payload dst sc) = Inr (fst sc, keeps (snd sc))"
  using round[of "snd sc" dst "fst sc"] by (auto simp: payload_def)

lemma decode_log:
  "\<forall>sc \<in> set cs. accepts (snd sc) \<Longrightarrow>
     map Decode (map (payload dst) cs) = map (\<lambda>sc. Inr (fst sc, keeps (snd sc))) cs"
  by (simp add: Decode_payload)

end

locale ev_codec =
  fixes Encode :: "bytes \<Rightarrow> Event \<Rightarrow> goerror + bytes"
    and Decode :: "bytes \<Rightarrow> goerror + Event"
    and accepts :: "Event \<Rightarrow> bool"
    and keeps :: "Event \<Rightarrow> Event"
  assumes round: "accepts e \<Longrightarrow> \<exists>p. Encode dst e = Inr p \<and> Decode p = Inr (keeps e)"
begin

definition ev_payload :: "bytes \<Rightarrow> Event \<Rightarrow> bytes" where
  "ev_payload dst e = (case Encode dst e of Inr p \<Rightarrow> p | Inl _ \<Rightarrow> [])"

lemma Decode_payload: "accepts e \<Longrightarrow> Decode (ev_payload dst e) = Inr (keeps e)"
  using round[of e dst] by (auto simp: ev_payload_def)

end

definition cmd_accepts :: "Command \<Rightarrow> bool" where
  "cmd_accepts c \<longleftrightarrow> (cType c = CmdSubmitLimit \<or> cType c = CmdCancel) \<and>
     is_i64 (cClientTs c) \<and> is_i64 (cPrice c) \<and> is_i64 (cQty c)"

text \<open>A record of another type than a cancel does not keep the cancelled order's id.\<close>

definition cmd_keeps :: "Command \<Rightarrow> Command" where
  "cmd_keeps c = c\<lparr>cCancelOrderID := (if cType c = CmdCancel then cCancelOrderID c else 0)\<rparr>"

definition ev_accepts :: "Event \<Rightarrow> bool" where
  "ev_accepts e \<longleftrightarrow> is_i64 (ePrice e) \<and> is_i64 (eQty e)"

definition ev_keeps :: "Event \<Rightarrow> Event" where
  "ev_keeps e = e\<lparr>eReason := ''''\<rparr>"

lemma cmd_round:
  assumes "cmd_accepts c"
  shows "\<exists>p. BinaryCMDCode_Encode dst s c = Inr p \<and> BinaryCMDCode_Decode p = Inr (s, cmd_keeps c)"
proof -
  have t: "cType c = CmdSubmitLimit \<or> cType c = CmdCancel" using assms by (simp add: cmd_accepts_def)
  show ?thesis
    unfolding cmd_layout
    by (intro exI conjI, rule refl, subst cmd_decode_layout[OF t refl], cases c)
      (use assms in \<open>simp add: cmd_accepts_def cmd_keeps_def i64_u64\<close>)
qed

lemma ev_round:
  assumes "ev_accepts e"
  shows "\<exists>p. EvCmdCodec_Encode dst e = Inr p \<and> EvCmdCodec_Decode p = Inr (ev_keeps e)"
  unfolding ev_layout
  by (intro exI conjI, rule refl, subst ev_decode_layout[OF refl], cases e)
    (use assms in \<open>simp add: ev_accepts_def ev_keeps_def i64_u64\<close>)

interpretation binCmd: cmd_codec BinaryCMDCode_Encode BinaryCMDCode_Decode cmd_accepts cmd_keeps
  by unfold_locales (rule cmd_round)

interpretation binEv: ev_codec EvCmdCodec_Encode EvCmdCodec_Decode ev_accepts ev_keeps
  by unfold_locales (rule ev_round)

end
