(* ===== verification/Outbox_Log.thy ===== *)
theory Outbox_Log
  imports Wal Codecs
begin

text \<open>
  \<^verbatim>\<open>internal/engine/outbox.go\<close> and \<^verbatim>\<open>outbox_publisher.go\<close>: the event outbox, a
  log whose commands end with an \<open>EvCmdEnd\<close> record, its repair at start-up, the publisher's cursor
  and the publisher's loop.
\<close>

subsection \<open>The outbox\<close>

text \<open>The interface \<open>Outbox\<close>, as the record of its methods.\<close>

record 'o Outbox =
  obAppend :: "Event \<Rightarrow> 'o \<Rightarrow> goerror option \<times> 'o"
  obAppendCmdEnd :: "uint64 \<Rightarrow> 'o \<Rightarrow> goerror option \<times> 'o"
  obFlush :: "'o \<Rightarrow> goerror option \<times> 'o"
  obClose :: "'o \<Rightarrow> goerror option \<times> 'o"

record EventOutbox =
  ow :: Writer
  binBuf :: bytes

definition OpenEventOutbox :: "bytes \<Rightarrow> nat option \<Rightarrow> int \<Rightarrow> EventOutbox" where
  "OpenEventOutbox file sp bufSize =
     \<lparr>ow = OpenWrite file sp bufSize, binBuf = replicate evRecordLen 0\<rparr>"

text \<open>The encoder's error is dropped: a failed encoding appends an empty payload.\<close>

definition EventOutbox_Append :: "(bytes \<Rightarrow> Event \<Rightarrow> goerror + bytes) \<Rightarrow> Event \<Rightarrow> EventOutbox \<Rightarrow>
    goerror option \<times> EventOutbox" where
  "EventOutbox_Append encode ev o1 =
     (let payload = (case encode (binBuf o1) ev of Inr p \<Rightarrow> p | Inl _ \<Rightarrow> []);
          (err, w) = Append payload (ow o1)
      in (err, o1\<lparr>ow := w\<rparr>))"

definition EventOutbox_AppendCmdEnd :: "(bytes \<Rightarrow> Event \<Rightarrow> goerror + bytes) \<Rightarrow> uint64 \<Rightarrow> EventOutbox \<Rightarrow>
    goerror option \<times> EventOutbox" where
  "EventOutbox_AppendCmdEnd encode seq o1 =
     EventOutbox_Append encode (empty_Event\<lparr>eType := EvCmdEnd, eSeq := seq, eIdx := 0\<rparr>) o1"

definition EventOutbox_Flush :: "EventOutbox \<Rightarrow> goerror option \<times> EventOutbox" where
  "EventOutbox_Flush o1 = (let (err, w) = Flush (ow o1) in (err, o1\<lparr>ow := w\<rparr>))"

definition EventOutbox_Close :: "EventOutbox \<Rightarrow> goerror option \<times> EventOutbox" where
  "EventOutbox_Close o1 = (let (err, w) = Close (ow o1) in (err, o1\<lparr>ow := w\<rparr>))"

definition event_outbox :: "(bytes \<Rightarrow> Event \<Rightarrow> goerror + bytes) \<Rightarrow> EventOutbox Outbox" where
  "event_outbox encode =
     \<lparr>obAppend = EventOutbox_Append encode, obAppendCmdEnd = EventOutbox_AppendCmdEnd encode,
      obFlush = EventOutbox_Flush, obClose = EventOutbox_Close\<rparr>"

subsection \<open>Scan and repair\<close>

lemma Reader_Next_shrinks:
  "Reader_Next r = (Inr p, off, r') \<Longrightarrow> length (unread r') < length (unread r)"
  by (auto simp: Reader_Next_def headerSize_def Let_def dest!: ReadFull_length
      split: sum.splits if_splits prod.splits)

function scan_loop :: "(bytes \<Rightarrow> goerror + Event) \<Rightarrow> Reader \<Rightarrow> uint64 \<Rightarrow> int \<Rightarrow>
    (goerror + uint64 \<times> int) \<times> Reader" where
  "scan_loop decode r seq off =
     (case Reader_Next r of
        (Inl e, _, r') \<Rightarrow> if e = io_EOF then (Inr (seq, off), r') else (Inl e, r')
      | (Inr p, nextOff, r') \<Rightarrow>
          (case decode p of
             Inl e \<Rightarrow> (Inl e, r')
           | Inr ev \<Rightarrow> if eType ev = EvCmdEnd then scan_loop decode r' (eSeq ev) nextOff
                       else scan_loop decode r' seq off))"
  by pat_completeness auto
termination
  by (relation "measure (\<lambda>(d, r, s, o'). length (unread r))")
    (auto dest: Reader_Next_shrinks Reader_Next_shrinks[OF sym])

declare scan_loop.simps [simp del]

definition ScanAndRepairOutbox :: "(bytes \<Rightarrow> goerror + Event) \<Rightarrow> bytes option \<Rightarrow>
    (goerror + uint64 \<times> int) \<times> bytes option" where
  "ScanAndRepairOutbox decode file =
     (case file of
        None \<Rightarrow> (Inr (0, 0), None)
      | Some f \<Rightarrow>
          (case OpenReader file 0 \<lparr>rMaxPayload = 0, rAllowTruncatedTail = True\<rparr> of
             Inl e \<Rightarrow> (Inl e, file)
           | Inr r \<Rightarrow>
               (case scan_loop decode r 0 0 of
                  (Inl e, r') \<Rightarrow> (Inl e, file)
                | (Inr (seq, off), r') \<Rightarrow>
                    let (err, f1) = (if truncatedTail r' then TruncateTo file (lastGoodOffset r')
                                     else (None, file))
                    in case err of
                         Some e \<Rightarrow> (Inl e, f1)
                       | None \<Rightarrow>
                           if off > 0 \<and> f1 \<noteq> None \<and> int (length (the f1)) > off then
                             (case TruncateTo f1 off of
                                (Some e, f2) \<Rightarrow> (Inl e, f2)
                              | (None, f2) \<Rightarrow> (Inr (seq, off), f2))
                           else (Inr (seq, off), f1))))"

subsection \<open>Names and the cursor file\<close>

definition safe_char :: "char \<Rightarrow> bool" where
  "safe_char r \<longleftrightarrow> (CHR ''0'' \<le> r \<and> r \<le> CHR ''9'') \<or> (CHR ''A'' \<le> r \<and> r \<le> CHR ''Z'') \<or>
     (CHR ''a'' \<le> r \<and> r \<le> CHR ''z'') \<or> r = CHR ''_'' \<or> r = CHR ''-''"

fun safeSym :: "string \<Rightarrow> string" where
  "safeSym [] = []"
| "safeSym (r # rs) = (if safe_char r then r else CHR ''_'') # safeSym rs"

fun cmdWalSym :: "string \<Rightarrow> string" where
  "cmdWalSym [] = []"
| "cmdWalSym (r # rs) = (if safe_char r then r else CHR ''_'') # cmdWalSym rs"

text \<open>\<open>join\<close> stands for \<open>filepath.Join\<close>.\<close>

definition cmdWalPath :: "(string \<Rightarrow> string \<Rightarrow> string) \<Rightarrow> string \<Rightarrow> string \<Rightarrow> string" where
  "cmdWalPath join dir symbol = join dir (cmdWalSym symbol @ ''.wal'')"

definition outboxCursorPath :: "(string \<Rightarrow> string \<Rightarrow> string) \<Rightarrow> string \<Rightarrow> string \<Rightarrow> string" where
  "outboxCursorPath join walDir symbol = join walDir (safeSym symbol @ ''.ev.cursor'')"

definition outboxWalPath :: "(string \<Rightarrow> string \<Rightarrow> string) \<Rightarrow> string \<Rightarrow> string \<Rightarrow> string" where
  "outboxWalPath join walDir symbol = join walDir (safeSym symbol @ ''.ev.wal'')"

definition loadCursor :: "bytes option \<Rightarrow> int" where
  "loadCursor file =
     (case file of None \<Rightarrow> 0 | Some b \<Rightarrow> if length b < 8 then 0 else i64_of (Uint64 (take 8 b) 0))"

text \<open>
  The cursor is written to a temporary file and renamed over the old one; \<open>write\<close> is the outcome
  of writing the temporary file.
\<close>

definition storeCursor :: "goerror option \<Rightarrow> (string \<rightharpoonup> bytes) \<Rightarrow> string \<Rightarrow> int \<Rightarrow>
    goerror option \<times> (string \<rightharpoonup> bytes)" where
  "storeCursor write fs path off =
     (let tmp = path @ ''.tmp''
      in case write of
           Some e \<Rightarrow> (Some e, fs)
         | None \<Rightarrow> (let fs1 = fs(tmp \<mapsto> le64 (u64_of off)) in (None, fs1(path := fs1 tmp, tmp := None))))"

subsection \<open>The repair finds the last command boundary\<close>

text \<open>The last \<open>EvCmdEnd\<close> of a list of records: its sequence number and the offset behind it.\<close>

fun boundary :: "(bytes \<Rightarrow> goerror + Event) \<Rightarrow> bytes list \<Rightarrow> int \<Rightarrow> uint64 \<Rightarrow> int \<Rightarrow> uint64 \<times> int" where
  "boundary d [] pos seq off = (seq, off)"
| "boundary d (p # ps) pos seq off =
     (let pos' = pos + int (length (record_of p))
      in case d p of
           Inr ev \<Rightarrow> if eType ev = EvCmdEnd then boundary d ps pos' (eSeq ev) pos'
                     else boundary d ps pos' seq off
         | Inl _ \<Rightarrow> boundary d ps pos' seq off)"

definition is_end :: "(bytes \<Rightarrow> goerror + Event) \<Rightarrow> bytes \<Rightarrow> bool" where
  "is_end d p \<longleftrightarrow> (\<exists>ev. d p = Inr ev \<and> eType ev = EvCmdEnd)"

lemma boundary_none:
  "\<forall>p \<in> set ps. \<not> is_end d p \<Longrightarrow> boundary d ps pos seq off = (seq, off)"
  by (induction ps arbitrary: pos) (auto simp: is_end_def Let_def split: sum.splits)

lemma boundary_last:
  assumes "d p = Inr ev" "eType ev = EvCmdEnd" and "\<forall>q \<in> set qs. \<not> is_end d q"
  shows "boundary d (ps @ p # qs) pos seq off = (eSeq ev, pos + int (length (log_of (ps @ [p]))))"
proof (induction ps arbitrary: pos seq off)
  case Nil
  then show ?case using assms by (simp add: boundary_none Let_def)
next
  case (Cons a ps)
  then show ?case by (simp add: Let_def add.assoc split: sum.split)
qed

text \<open>The reader behind the records \<open>ps\<close>, with \<open>rest\<close> to come.\<close>

definition after_read :: "Reader \<Rightarrow> bytes list \<Rightarrow> bytes \<Rightarrow> Reader" where
  "after_read r ps rest =
     (if ps = [] then r
      else r\<lparr>unread := rest, roff := roff r + int (length (log_of ps)),
             lastGoodOffset := roff r + int (length (log_of ps))\<rparr>)"

lemma after_read_fields [simp]:
  "rmaxPayload (after_read r ps rest) = rmaxPayload r" "allowTail (after_read r ps rest) = allowTail r"
  "truncatedTail (after_read r ps rest) = truncatedTail r"
  "unread r = log_of ps @ rest \<Longrightarrow> unread (after_read r ps rest) = rest"
  by (simp_all add: after_read_def)

lemma after_read_Cons:
  "after_read (r\<lparr>unread := log_of ps @ rest, roff := roff r + int (length (record_of p)),
      lastGoodOffset := roff r + int (length (record_of p))\<rparr>) ps rest = after_read r (p # ps) rest"
  by (cases r) (simp add: after_read_def add.assoc)

lemma scan_loop_log:
  assumes "\<forall>p \<in> set ps. fits_in (rmaxPayload r) p \<and> (\<exists>ev. d p = Inr ev)"
    and "unread r = log_of ps @ rest" and "boundary d ps (roff r) seq off = (seq', off')"
  shows "scan_loop d r seq off = scan_loop d (after_read r ps rest) seq' off'"
  using assms
proof (induction ps arbitrary: r seq off)
  case Nil
  then show ?case by (simp add: after_read_def)
next
  case (Cons p ps)
  obtain ev where ev: "d p = Inr ev" and fit: "fits_in (rmaxPayload r) p" using Cons.prems(1) by auto
  let ?pos = "roff r + int (length (record_of p))"
  let ?r = "r\<lparr>unread := log_of ps @ rest, roff := ?pos, lastGoodOffset := ?pos\<rparr>"
  have nx: "Reader_Next r = (Inr p, ?pos, ?r)"
    using Reader_Next_record[OF fit, of "log_of ps @ rest"] Cons.prems(2) by simp
  have step: "scan_loop d r seq off =
      (if eType ev = EvCmdEnd then scan_loop d ?r (eSeq ev) ?pos else scan_loop d ?r seq off)"
    using nx ev by (subst scan_loop.simps) simp
  have IH: "scan_loop d ?r s o' = scan_loop d (after_read r (p # ps) rest) seq' off'"
    if "boundary d ps ?pos s o' = (seq', off')" for s o'
    using Cons.IH[of ?r s o'] Cons.prems(1) that unfolding after_read_Cons by simp
  show ?case
  proof (cases "eType ev = EvCmdEnd")
    case True
    then have "boundary d ps ?pos (eSeq ev) ?pos = (seq', off')"
      using Cons.prems(3) ev by (simp add: Let_def)
    from IH[OF this] show ?thesis using step True by simp
  next
    case False
    then have "boundary d ps ?pos seq off = (seq', off')"
      using Cons.prems(3) ev by (simp add: Let_def)
    from IH[OF this] show ?thesis using step False by simp
  qed
qed

definition scan_fits :: "bytes list \<Rightarrow> bool" where
  "scan_fits ps \<longleftrightarrow> (\<forall>p \<in> set ps. fits_in DefaultMaxPayload p)"

definition scan_reader :: "bytes \<Rightarrow> Reader" where
  "scan_reader f = \<lparr>unread = f, roff = 0, rmaxPayload = DefaultMaxPayload, allowTail = False,
     truncatedTail = False, lastGoodOffset = 0\<rparr>"

lemma scan_reader_fields [simp]:
  "unread (scan_reader f) = f" "roff (scan_reader f) = 0" "allowTail (scan_reader f) = False"
  "rmaxPayload (scan_reader f) = DefaultMaxPayload" "truncatedTail (scan_reader f) = False"
  by (simp_all add: scan_reader_def)

lemma scan_open:
  "OpenReader (Some f) 0 \<lparr>rMaxPayload = 0, rAllowTruncatedTail = True\<rparr> = Inr (scan_reader f)"
  by (simp add: OpenReader_def max_payload_def scan_reader_def)

text \<open>A log without a torn record: everything behind the last boundary is cut off.\<close>

lemma repair_log:
  assumes "scan_fits ps" and "\<forall>p \<in> set ps. \<exists>ev. d p = Inr ev"
    and b: "boundary d ps 0 0 0 = (seq, off)"
  shows "ScanAndRepairOutbox d (Some (log_of ps)) = (Inr (seq, off),
    Some (if off > 0 \<and> off < int (length (log_of ps)) then take (nat off) (log_of ps) else log_of ps))"
proof -
  let ?r = "scan_reader (log_of ps)"
  let ?r' = "after_read ?r ps []"
  have "\<forall>p \<in> set ps. fits_in (rmaxPayload ?r) p \<and> (\<exists>ev. d p = Inr ev)"
    using assms(1,2) by (simp add: scan_fits_def)
  from scan_loop_log[OF this, of "[]" 0 0 seq off] b
  have "scan_loop d ?r 0 0 = scan_loop d ?r' seq off" by simp
  also have "\<dots> = (Inr (seq, off), ?r')"
    using Reader_Next_end[of ?r'] by (subst scan_loop.simps) simp
  finally show ?thesis
    unfolding ScanAndRepairOutbox_def option.case scan_open sum.case
    by (simp add: TruncateTo_def Let_def)
qed

text \<open>A torn last record: the reader does not tolerate it, whatever the options say.\<close>

lemma repair_torn:
  assumes "scan_fits (ps @ [q])" and "\<forall>p \<in> set ps. \<exists>ev. d p = Inr ev"
    and k: "0 < k" "k < length (record_of q)" "k \<noteq> 8"
    and f: "f = log_of ps @ take k (record_of q)"
  shows "ScanAndRepairOutbox d (Some f) =
    (Inl (if k < 8 then ErrCorruptHeader else ErrCorruptPayload), Some f)"
proof -
  let ?r = "scan_reader f"
  let ?r' = "after_read ?r ps (take k (record_of q))"
  let ?e = "if k < 8 then ErrCorruptHeader else ErrCorruptPayload"
  obtain seq off where b: "boundary d ps 0 0 0 = (seq, off)" by fastforce
  have "\<forall>p \<in> set ps. fits_in (rmaxPayload ?r) p \<and> (\<exists>ev. d p = Inr ev)"
    using assms(1,2) by (simp add: scan_fits_def)
  from scan_loop_log[OF this, of "take k (record_of q)" 0 0 seq off] f b
  have s: "scan_loop d ?r 0 0 = scan_loop d ?r' seq off" by simp
  have u: "unread ?r' = take k (record_of q)" "fits_in (rmaxPayload ?r') q" "\<not> allowTail ?r'"
    using f assms(1) by (auto simp: scan_fits_def)
  obtain r2 where "Reader_Next ?r' = (Inl ?e, roff ?r', r2)"
    using Reader_Next_torn[OF u(2,1) k(1,2)] k(3) u(3) by auto
  moreover have "?e \<noteq> io_EOF" by (simp add: io_errors)
  ultimately have "scan_loop d ?r' seq off = (Inl ?e, r2)"
    by (subst scan_loop.simps) simp
  then show ?thesis
    unfolding ScanAndRepairOutbox_def option.case scan_open sum.case s by simp
qed

subsection \<open>Names\<close>

lemma cmdWalSym_safeSym: "cmdWalSym s = safeSym s"
  by (induction s) auto

lemma safe_underscore: "safe_char (CHR ''_'')"
  by (simp add: safe_char_def)

lemma safeSym_safe: "c \<in> set (safeSym s) \<Longrightarrow> safe_char c"
  by (induction s) (auto simp: safe_underscore split: if_splits)

lemma safeSym_id: "(\<forall>c \<in> set s. safe_char c) \<Longrightarrow> safeSym s = s"
  by (induction s) auto

subsection \<open>The cursor\<close>

lemma cursor_round:
  assumes "is_i64 off" shows "loadCursor (snd (storeCursor None fs path off) path) = off"
  using assms Uint_head(4)[of "u64_of off"]
  by (auto simp: storeCursor_def loadCursor_def Let_def i64_u64)

subsection \<open>The publisher\<close>

text \<open>
  One turn of \<open>Run\<close>'s loop after the reader is open. The file at that moment is an argument: the
  actor appends to it between the turns. An open reader sees everything that is in the file; once
  closed, it only has what it had buffered, and reading further fails. The events published go to
  \<open>bus\<close>; \<open>wait\<close> is only a delay and leaves no trace. \<open>pub\<close> is the outcome of \<open>bus.Publish\<close>.
\<close>

record PubState =
  pReader :: Reader
  pClosed :: bool
  pOff :: int
  pCommittedOff :: int
  pCursor :: int
  bus :: "Event list"

definition ErrClosed :: goerror where "ErrClosed = ''file already closed''"

definition pub_next :: "bytes \<Rightarrow> PubState \<Rightarrow> (goerror + bytes) \<times> int \<times> Reader" where
  "pub_next file st =
     (let r = pReader st
      in if pClosed st then (if unread r = [] then (Inl ErrClosed, roff r, r) else Reader_Next r)
         else Reader_Next (r\<lparr>unread := drop (nat (roff r)) file\<rparr>))"

definition publisher_turn :: "(bytes \<Rightarrow> goerror + Event) \<Rightarrow> bytes \<Rightarrow> (Event \<Rightarrow> goerror option) \<Rightarrow>
    PubState \<Rightarrow> PubState" where
  "publisher_turn decode file pub st =
     (case pub_next file st of
        (Inl e, _, r) \<Rightarrow>
          let st1 = st\<lparr>pReader := r, pClosed := True\<rparr>
          in if e = io_EOF then st1 else st1\<lparr>pOff := pCommittedOff st\<rparr>
      | (Inr payload, nextOff, r) \<Rightarrow>
          let st1 = st\<lparr>pReader := r\<rparr>
          in case decode payload of
               Inl e \<Rightarrow> st1\<lparr>pOff := pCommittedOff st, pClosed := True\<rparr>
             | Inr ev \<Rightarrow>
                 if eType ev = EvCmdEnd then st1\<lparr>pCursor := pOff st\<rparr>
                 else case pub ev of
                        Some e \<Rightarrow> st1\<lparr>pClosed := True, pOff := pCommittedOff st\<rparr>
                      | None \<Rightarrow> st1\<lparr>pOff := nextOff, bus := bus st @ [ev]\<rparr>)"

text \<open>Before the loop: the cursor is cut back to the file's size and the reader opened there.\<close>

definition publisher_start :: "bytes \<Rightarrow> int \<Rightarrow> PubState" where
  "publisher_start file cursor =
     (let off = (if cursor > int (length file) then int (length file) else cursor)
      in \<lparr>pReader = \<lparr>unread = (if off > 0 then drop (nat off) file else file), roff = off,
                     rmaxPayload = DefaultMaxPayload, allowTail = False, truncatedTail = False,
                     lastGoodOffset = off\<rparr>,
          pClosed = False, pOff = off, pCommittedOff = off, pCursor = off, bus = []\<rparr>)"

fun publisher_run :: "(bytes \<Rightarrow> goerror + Event) \<Rightarrow> (Event \<Rightarrow> goerror option) \<Rightarrow> bytes list \<Rightarrow> PubState \<Rightarrow>
    PubState" where
  "publisher_run decode pub [] st = st"
| "publisher_run decode pub (f # fs) st = publisher_run decode pub fs (publisher_turn decode f pub st)"

text \<open>
  A reader that has met the end of the file is closed and never opened again: whatever is appended
  later, nothing more is published.
\<close>

lemma publisher_turn_stalled:
  assumes "pClosed st" and "unread (pReader st) = []"
  shows "bus (publisher_turn d f pub st) = bus st"
    and "pClosed (publisher_turn d f pub st)" and "unread (pReader (publisher_turn d f pub st)) = []"
    and "pCursor (publisher_turn d f pub st) = pCursor st"
  using assms by (simp_all add: publisher_turn_def pub_next_def Let_def)

lemma publisher_run_stalled:
  "pClosed st \<Longrightarrow> unread (pReader st) = [] \<Longrightarrow>
     bus (publisher_run d pub fs st) = bus st \<and> pCursor (publisher_run d pub fs st) = pCursor st"
  by (induction fs arbitrary: st) (simp_all add: publisher_turn_stalled)

lemma publisher_turn_end:
  assumes "\<not> pClosed st" and "drop (nat (roff (pReader st))) f = []"
  shows "pClosed (publisher_turn d f pub st)" and "unread (pReader (publisher_turn d f pub st)) = []"
    and "bus (publisher_turn d f pub st) = bus st"
    and "pCursor (publisher_turn d f pub st) = pCursor st"
  using assms by (simp_all add: publisher_turn_def pub_next_def Reader_Next_end Let_def)

text \<open>Until then every event of the log is published once, in order, and the end marks are not.\<close>

fun events_of :: "(bytes \<Rightarrow> goerror + Event) \<Rightarrow> bytes list \<Rightarrow> Event list" where
  "events_of d [] = []"
| "events_of d (p # ps) =
     (case d p of Inr ev \<Rightarrow> if eType ev = EvCmdEnd then events_of d ps else ev # events_of d ps
      | Inl _ \<Rightarrow> events_of d ps)"

definition pub_at :: "PubState \<Rightarrow> int \<Rightarrow> bool" where
  "pub_at st pos \<longleftrightarrow> \<not> pClosed st \<and> roff (pReader st) = pos \<and> rmaxPayload (pReader st) = DefaultMaxPayload"

lemma publisher_turn_record:
  assumes at: "pub_at st (int (length pre))" and fit: "fits_in DefaultMaxPayload p"
    and f: "f = pre @ record_of p @ rest" and ev: "d p = Inr ev" and pub: "pub ev = None"
  shows "pub_at (publisher_turn d f pub st) (int (length (pre @ record_of p)))"
    and "bus (publisher_turn d f pub st) = bus st @ (if eType ev = EvCmdEnd then [] else [ev])"
proof -
  let ?r = "(pReader st)\<lparr>unread := record_of p @ rest\<rparr>"
  have nx: "pub_next f st = Reader_Next ?r" using at f by (simp add: pub_at_def pub_next_def Let_def)
  have fit': "fits_in (rmaxPayload ?r) p" using at fit by (simp add: pub_at_def)
  have u: "unread ?r = record_of p @ rest" by simp
  note n = Reader_Next_record[OF fit' u]
  show "pub_at (publisher_turn d f pub st) (int (length (pre @ record_of p)))"
    "bus (publisher_turn d f pub st) = bus st @ (if eType ev = EvCmdEnd then [] else [ev])"
    using at ev pub by (simp_all add: publisher_turn_def nx n pub_at_def Let_def)
qed

lemma publisher_run_log:
  assumes "pub_at st (int (length pre))" and "scan_fits ps" and "\<forall>p \<in> set ps. \<exists>ev. d p = Inr ev"
    and "\<forall>ev. pub ev = None" and "f = pre @ log_of ps @ rest"
  shows "bus (publisher_run d pub (replicate (length ps) f) st) = bus st @ events_of d ps"
  using assms
proof (induction ps arbitrary: st pre)
  case (Cons p ps)
  obtain ev where ev: "d p = Inr ev" using Cons.prems(3) by auto
  have fit: "fits_in DefaultMaxPayload p" using Cons.prems(2) by (simp add: scan_fits_def)
  have f: "f = pre @ record_of p @ (log_of ps @ rest)" using Cons.prems(5) by simp
  note t = publisher_turn_record[where d = d and pub = pub and ev = ev, OF Cons.prems(1) fit f]
  have "bus (publisher_run d pub (replicate (length ps) f) (publisher_turn d f pub st)) =
      bus (publisher_turn d f pub st) @ events_of d ps"
    by (rule Cons.IH[of _ "pre @ record_of p"]) (use Cons.prems t ev f in \<open>simp_all add: scan_fits_def\<close>)
  then show ?case using t(2) ev Cons.prems(4)[rule_format, of ev] by simp
qed simp

end
