(* ===== verification/Engine_Actor.thy ===== *)
theory Engine_Actor
  imports Heap_Refine Naive_Book Outbox_Log
begin

text \<open>
  \<^verbatim>\<open>internal/engine\<close>: the interfaces \<open>OrderBook\<close> and \<open>Emitter\<close>
  (\<^verbatim>\<open>interfaces.go\<close>), the adapter of the heap book (\<^verbatim>\<open>HeapBookAdapter.go\<close>), the
  emitters (\<^verbatim>\<open>actor.go\<close>, \<^verbatim>\<open>replay_emitter.go\<close>), the actor's batch processing,
  the replay of the command log and the bus.
\<close>

subsection \<open>Emitters\<close>

record 'e Emitter =
  Accepted :: "uint64 \<Rightarrow> uint64 \<Rightarrow> uint64 \<Rightarrow> 'e \<Rightarrow> 'e"
  Rejected :: "uint64 \<Rightarrow> uint64 \<Rightarrow> uint64 \<Rightarrow> string \<Rightarrow> 'e \<Rightarrow> 'e"
  Added :: "uint64 \<Rightarrow> uint64 \<Rightarrow> uint64 \<Rightarrow> 'e \<Rightarrow> 'e"
  Cancelled :: "uint64 \<Rightarrow> uint64 \<Rightarrow> 'e \<Rightarrow> 'e"
  emitTrade :: "uint64 \<Rightarrow> uint64 \<Rightarrow> uint64 \<Rightarrow> int \<Rightarrow> int \<Rightarrow> 'e \<Rightarrow> 'e"

definition noopEmitter :: "'e Emitter" where
  "noopEmitter = \<lparr>Accepted = (\<lambda>_ _ _ e. e), Rejected = (\<lambda>_ _ _ _ e. e), Added = (\<lambda>_ _ _ e. e),
     Cancelled = (\<lambda>_ _ e. e), emitTrade = (\<lambda>_ _ _ _ _ e. e)\<rparr>"

text \<open>The state of an \<open>outboxEmitter\<close>: the outbox, the command's number, the event counter, the first error.\<close>

record 'o outboxEmitter =
  emOut :: 'o
  emSeq :: uint64
  emReq :: uint64
  emIdx :: uint16
  emErr :: "goerror option"

definition em_next :: "'o outboxEmitter \<Rightarrow> uint16 \<times> 'o outboxEmitter" where
  "em_next e = (emIdx e, e\<lparr>emIdx := emIdx e + 1\<rparr>)"

definition setErr :: "goerror option \<Rightarrow> 'o outboxEmitter \<Rightarrow> 'o outboxEmitter" where
  "setErr err e = (if emErr e = None \<and> err \<noteq> None then e\<lparr>emErr := err\<rparr> else e)"

definition em_append :: "'o Outbox \<Rightarrow> Event \<Rightarrow> 'o outboxEmitter \<Rightarrow> 'o outboxEmitter" where
  "em_append ob ev e =
     (let (i, e1) = em_next e;
          (err, o1) = obAppend ob (ev\<lparr>eSeq := emSeq e1, eIdx := i\<rparr>) (emOut e1)
      in setErr err (e1\<lparr>emOut := o1\<rparr>))"

definition out_Accepted :: "'o Outbox \<Rightarrow> uint64 \<Rightarrow> uint64 \<Rightarrow> uint64 \<Rightarrow> 'o outboxEmitter \<Rightarrow> 'o outboxEmitter" where
  "out_Accepted ob reqID orderID userID =
     em_append ob (empty_Event\<lparr>eType := EvAccepted, eReqID := reqID, eOrderID := orderID, eUserID := userID\<rparr>)"

definition out_Rejected :: "'o Outbox \<Rightarrow> uint64 \<Rightarrow> uint64 \<Rightarrow> uint64 \<Rightarrow> string \<Rightarrow> 'o outboxEmitter \<Rightarrow> 'o outboxEmitter" where
  "out_Rejected ob reqID orderID userID reason =
     em_append ob (empty_Event\<lparr>eType := EvRejected, eReqID := reqID, eOrderID := orderID, eUserID := userID\<rparr>)"

definition out_Added :: "'o Outbox \<Rightarrow> uint64 \<Rightarrow> uint64 \<Rightarrow> uint64 \<Rightarrow> 'o outboxEmitter \<Rightarrow> 'o outboxEmitter" where
  "out_Added ob reqID orderID userID =
     em_append ob (empty_Event\<lparr>eType := EvAdded, eReqID := reqID, eOrderID := orderID, eUserID := userID\<rparr>)"

definition out_Cancelled :: "'o Outbox \<Rightarrow> uint64 \<Rightarrow> uint64 \<Rightarrow> 'o outboxEmitter \<Rightarrow> 'o outboxEmitter" where
  "out_Cancelled ob reqID orderID =
     em_append ob (empty_Event\<lparr>eType := EvCancelled, eReqID := reqID, eOrderID := orderID\<rparr>)"

definition out_Trade :: "'o Outbox \<Rightarrow> uint64 \<Rightarrow> uint64 \<Rightarrow> uint64 \<Rightarrow> int \<Rightarrow> int \<Rightarrow> 'o outboxEmitter \<Rightarrow> 'o outboxEmitter" where
  "out_Trade ob reqID makerOrderID takerOrderID pr qty =
     em_append ob (empty_Event\<lparr>eType := EvTrade, eReqID := reqID, eMakerOrderID := makerOrderID,
       eTakerOrderID := takerOrderID, ePrice := pr, eQty := qty\<rparr>)"

definition outboxEmitter :: "'o Outbox \<Rightarrow> 'o outboxEmitter Emitter" where
  "outboxEmitter ob = \<lparr>Accepted = out_Accepted ob, Rejected = out_Rejected ob, Added = out_Added ob,
     Cancelled = out_Cancelled ob, emitTrade = out_Trade ob\<rparr>"

definition new_emitter :: "'o \<Rightarrow> uint64 \<Rightarrow> uint64 \<Rightarrow> 'o outboxEmitter" where
  "new_emitter o1 seq req = \<lparr>emOut = o1, emSeq = seq, emReq = req, emIdx = 0, emErr = None\<rparr>"

subsection \<open>The adapter of the heap book\<close>

record ('b, 'e) OrderBook =
  bkSubmitLimit :: "uint64 \<Rightarrow> uint64 \<Rightarrow> uint64 \<Rightarrow> uint8 \<Rightarrow> int \<Rightarrow> int \<Rightarrow> 'e Emitter \<Rightarrow> 'b \<Rightarrow> 'e \<Rightarrow> ('b \<times> 'e) go"
  bkCancel :: "uint64 \<Rightarrow> uint64 \<Rightarrow> 'e Emitter \<Rightarrow> 'b \<Rightarrow> 'e \<Rightarrow> (bool \<times> 'b \<times> 'e) go"

definition Adapter_SubmitLimit :: "uint64 \<Rightarrow> uint64 \<Rightarrow> uint64 \<Rightarrow> uint8 \<Rightarrow> int \<Rightarrow> int \<Rightarrow> 'e Emitter \<Rightarrow>
    LevelOrderBookHeap \<Rightarrow> 'e \<Rightarrow> (LevelOrderBookHeap \<times> 'e) go" where
  "Adapter_SubmitLimit reqId orderID userID sd pr qty emit b e =
     (let e1 = Accepted emit reqId orderID userID e;
          taker = \<lparr>ID = orderID, Side = sd, Price = pr, Qty = qty, UserID = userID\<rparr>
      in andThen (MatchLimitEmit b (Some taker)
             (Some (\<lambda>t. emitTrade emit reqId (MakerID t) (TakerID t) (TradePrice t) (TradeQty t))) e1)
           (\<lambda>(rest, b1, taker1, e2).
              if rest > 0 then
                andThen (deref taker1) (\<lambda>tk.
                  Ret (Heap_Add b1 (Some (tk\<lparr>Qty := rest\<rparr>)), Added emit reqId orderID userID e2))
              else Ret (b1, e2)))"

definition Adapter_Cancel :: "uint64 \<Rightarrow> uint64 \<Rightarrow> 'e Emitter \<Rightarrow> LevelOrderBookHeap \<Rightarrow> 'e \<Rightarrow>
    (bool \<times> LevelOrderBookHeap \<times> 'e) go" where
  "Adapter_Cancel reqId orderID emit b e =
     andThen (Heap_Cancel b orderID) (\<lambda>(ok, b1).
       Ret (ok, b1, if ok then Cancelled emit reqId orderID e
                    else Rejected emit reqId orderID 0 ''order not found'' e))"

definition HeapBookAdapter :: "(LevelOrderBookHeap, 'e) OrderBook" where
  "HeapBookAdapter = \<lparr>bkSubmitLimit = Adapter_SubmitLimit, bkCancel = Adapter_Cancel\<rparr>"

subsection \<open>The actor\<close>

record ActorConfig =
  MailboxSize :: int
  BatchMax :: int

record ('b, 'w, 'o) SymbolActor =
  aBook :: 'b
  aIn :: "Command list"
  aCfg :: ActorConfig
  aSeq :: uint64
  aMailboxFull :: uint64
  aWal :: "'w option"
  aOutbox :: "'o option"
  aNotify :: nat

text \<open>The write side of the command log as the actor sees it.\<close>

record 'w walWriter =
  wwAppend :: "bytes \<Rightarrow> 'w \<Rightarrow> goerror option \<times> 'w"
  wwFlush :: "'w \<Rightarrow> goerror option \<times> 'w"

definition NewSymbolActor :: "'b \<Rightarrow> ActorConfig \<Rightarrow> 'w option \<Rightarrow> 'o option \<Rightarrow> ('b, 'w, 'o) SymbolActor" where
  "NewSymbolActor book cfg w ob =
     (let cfg1 = (if MailboxSize cfg \<le> 0 then cfg\<lparr>MailboxSize := 4096\<rparr> else cfg);
          cfg2 = (if BatchMax cfg1 \<le> 0 then cfg1\<lparr>BatchMax := 258\<rparr> else cfg1)
      in \<lparr>aBook = book, aIn = [], aCfg = cfg2, aSeq = 0, aMailboxFull = 0, aWal = w, aOutbox = ob,
          aNotify = 0\<rparr>)"

definition TryEnqueue :: "Command \<Rightarrow> ('b, 'w, 'o) SymbolActor \<Rightarrow>
    goerror option \<times> ('b, 'w, 'o) SymbolActor" where
  "TryEnqueue cmd a =
     (if int (length (aIn a)) < MailboxSize (aCfg a) then (None, a\<lparr>aIn := aIn a @ [cmd]\<rparr>)
      else (Some ErrEngineBusy, a\<lparr>aMailboxFull := aMailboxFull a + 1\<rparr>))"

text \<open>One batch: the first command, then as many as are waiting, up to \<open>BatchMax\<close>.\<close>

definition take_batch :: "('b, 'w, 'o) SymbolActor \<Rightarrow> Command list \<times> ('b, 'w, 'o) SymbolActor" where
  "take_batch a = (let n = nat (BatchMax (aCfg a)) in (take n (aIn a), a\<lparr>aIn := drop n (aIn a)\<rparr>))"

text \<open>Phase 1: number the commands and log them; an error ends the actor.\<close>

fun log_batch :: "'w walWriter \<Rightarrow> (bytes \<Rightarrow> uint64 \<Rightarrow> Command \<Rightarrow> goerror + bytes) \<Rightarrow> Command list \<Rightarrow>
    uint64 \<Rightarrow> uint64 list \<Rightarrow> 'w \<Rightarrow> goerror option \<times> uint64 \<times> uint64 list \<times> 'w" where
  "log_batch W encode [] seq seqs w =
     (let (err, w1) = wwFlush W w in (err, seq, seqs, w1))"
| "log_batch W encode (c # cs) seq seqs w =
     (let cmdSeq = seq + 1;
          payload = (case encode (replicate cmdRecordLen 0) cmdSeq c of Inr p \<Rightarrow> p | Inl _ \<Rightarrow> []);
          (err, w1) = wwAppend W payload w
      in case err of
           Some e \<Rightarrow> (Some e, cmdSeq, seqs @ [cmdSeq], w1)
         | None \<Rightarrow> log_batch W encode cs cmdSeq (seqs @ [cmdSeq]) w1)"

text \<open>Without a log the commands are only numbered.\<close>

fun number_batch :: "Command list \<Rightarrow> uint64 \<Rightarrow> uint64 list \<Rightarrow> uint64 \<times> uint64 list" where
  "number_batch [] seq seqs = (seq, seqs)"
| "number_batch (c # cs) seq seqs = number_batch cs (seq + 1) (seqs @ [seq + 1])"

text \<open>
  Phase 2, one command. The flag says whether the loop goes on to the end mark: the two
  \<open>continue\<close>s after a rejected command skip it.
\<close>

definition apply_command :: "('b, 'e) OrderBook \<Rightarrow> 'e Emitter \<Rightarrow> Command \<Rightarrow> 'b \<Rightarrow> 'e \<Rightarrow>
    (bool \<times> 'b \<times> 'e) go" where
  "apply_command B emit cmd b e =
     (if cType cmd = CmdSubmitLimit then
        if cOrderID cmd = 0 \<or> cQty cmd \<le> 0 \<or> cPrice cmd \<le> 0 \<or> (cSide cmd \<noteq> Buy \<and> cSide cmd \<noteq> Sell)
        then Ret (False, b, Rejected emit (cReqID cmd) (cOrderID cmd) (cUserID cmd) ''bad submit'' e)
        else andThen (bkSubmitLimit B (cReqID cmd) (cOrderID cmd) (cUserID cmd) (cSide cmd)
               (cPrice cmd) (cQty cmd) emit b e) (\<lambda>(b1, e1). Ret (True, b1, e1))
      else if cType cmd = CmdCancel then
        if cCancelOrderID cmd = 0
        then Ret (False, b, Rejected emit (cReqID cmd) 0 0 ''bad cancel'' e)
        else andThen (bkCancel B (cReqID cmd) (cCancelOrderID cmd) emit b e) (\<lambda>(ok, b1, e1).
               Ret (True, b1, if ok then e1
                 else Rejected emit (cReqID cmd) (cCancelOrderID cmd) 0 ''order not found'' e1))
      else Ret (True, b, Rejected emit (cReqID cmd) (cOrderID cmd) (cUserID cmd) ''unknown cmd'' e))"

text \<open>
  The loop over a batch with an outbox. \<open>obEm\<close> is never assigned in the code, so the emitter's
  error is not looked at.
\<close>

fun apply_batch :: "('b, 'o outboxEmitter) OrderBook \<Rightarrow> 'o Outbox \<Rightarrow> (Command \<times> uint64) list \<Rightarrow>
    'b \<Rightarrow> 'o \<Rightarrow> (goerror option \<times> 'b \<times> 'o) go" where
  "apply_batch B ob [] b o1 = Ret (None, b, o1)"
| "apply_batch B ob ((cmd, seq) # cs) b o1 =
     andThen (apply_command B (outboxEmitter ob) cmd b (new_emitter o1 seq (cReqID cmd)))
       (\<lambda>(go_on, b1, e1).
          if \<not> go_on then apply_batch B ob cs b1 (emOut e1)
          else let (err, o2) = obAppendCmdEnd ob seq (emOut e1)
               in case err of
                    Some x \<Rightarrow> Ret (Some x, b1, o2)
                  | None \<Rightarrow> apply_batch B ob cs b1 o2)"

text \<open>Without an outbox the emitter does nothing.\<close>

fun apply_batch_silent :: "('b, 'o outboxEmitter) OrderBook \<Rightarrow> (Command \<times> uint64) list \<Rightarrow> 'b \<Rightarrow>
    'o outboxEmitter \<Rightarrow> 'b go" where
  "apply_batch_silent B [] b e = Ret b"
| "apply_batch_silent B ((cmd, seq) # cs) b e =
     andThen (apply_command B noopEmitter cmd b e) (\<lambda>(_, b1, e1). apply_batch_silent B cs b1 e1)"

text \<open>One round of \<open>Run\<close>; \<open>Inl\<close> is a return from \<open>Run\<close>.\<close>

definition actor_round :: "('b, 'o outboxEmitter) OrderBook \<Rightarrow> 'w walWriter \<Rightarrow> 'o Outbox \<Rightarrow>
    (bytes \<Rightarrow> uint64 \<Rightarrow> Command \<Rightarrow> goerror + bytes) \<Rightarrow> 'o outboxEmitter \<Rightarrow> ('b, 'w, 'o) SymbolActor \<Rightarrow>
    (goerror option \<times> ('b, 'w, 'o) SymbolActor) go" where
  "actor_round B W ob encode e0 a =
     (let (batch, a1) = take_batch a;
          (werr, seq, seqs, wal1) =
            (case aWal a1 of
               Some w \<Rightarrow> (let (err, seq, seqs, w1) = log_batch W encode batch (aSeq a1) [] w
                         in (err, seq, seqs, Some w1))
             | None \<Rightarrow> (let (seq, seqs) = number_batch batch (aSeq a1) [] in (None, seq, seqs, None)));
          a2 = a1\<lparr>aSeq := seq, aWal := wal1\<rparr>
      in case werr of
           Some x \<Rightarrow> Ret (Some x, a2)
         | None \<Rightarrow>
             (case aOutbox a2 of
                None \<Rightarrow> andThen (apply_batch_silent B (zip batch seqs) (aBook a2) e0)
                          (\<lambda>b. Ret (None, a2\<lparr>aBook := b\<rparr>))
              | Some o1 \<Rightarrow>
                  andThen (apply_batch B ob (zip batch seqs) (aBook a2) o1) (\<lambda>(err, b, o2).
                    case err of
                      Some x \<Rightarrow> Ret (Some x, a2\<lparr>aBook := b, aOutbox := Some o2\<rparr>)
                    | None \<Rightarrow>
                        let (ferr, o3) = obFlush ob o2
                        in case ferr of
                             Some x \<Rightarrow> Ret (Some x, a2\<lparr>aBook := b, aOutbox := Some o3\<rparr>)
                           | None \<Rightarrow> Ret (None, a2\<lparr>aBook := b, aOutbox := Some o3,
                                                aNotify := min 1 (aNotify a2 + 1)\<rparr>))))"

subsection \<open>Replaying the command log\<close>

definition applyCommandToBook :: "('b, 'e) OrderBook \<Rightarrow> Command \<Rightarrow> 'e Emitter \<Rightarrow> 'b \<Rightarrow> 'e \<Rightarrow> ('b \<times> 'e) go" where
  "applyCommandToBook B cmd emit b e =
     (if cType cmd = CmdSubmitLimit then
        bkSubmitLimit B (cReqID cmd) (cOrderID cmd) (cUserID cmd) (cSide cmd) (cPrice cmd) (cQty cmd)
          emit b e
      else if cType cmd = CmdCancel then
        andThen (bkCancel B (cReqID cmd) (cCancelOrderID cmd) emit b e) (\<lambda>(_, b1, e1). Ret (b1, e1))
      else Ret (b, e))"

text \<open>
  The callback of \<open>replayCmdWALAndFillOutbox\<close>; a panic of the book travels in the state.
  The state is the last sequence number, the book and the outbox.
\<close>

definition replay_record :: "('b, 'o outboxEmitter) OrderBook \<Rightarrow> 'o Outbox \<Rightarrow> uint64 \<Rightarrow>
    (bytes \<Rightarrow> goerror + uint64 \<times> Command) \<Rightarrow> 'o outboxEmitter \<Rightarrow> bytes \<Rightarrow>
    (uint64 \<times> 'b \<times> 'o option) go \<Rightarrow> goerror option \<times> (uint64 \<times> 'b \<times> 'o option) go" where
  "replay_record B ob lastCompleteSeq decode e0 payload st =
     (case st of
        Ret (lastSeq, b, out) \<Rightarrow>
          (case decode payload of
             Inl err \<Rightarrow> (Some err, st)
           | Inr (seq, cmd) \<Rightarrow>
               let lastSeq1 = (if seq > lastSeq then seq else lastSeq)
               in case (if seq \<le> lastCompleteSeq then None else out) of
                    None \<Rightarrow>
                      (None, andThen (applyCommandToBook B cmd noopEmitter b e0)
                               (\<lambda>(b1, _). Ret (lastSeq1, b1, out)))
                  | Some o1 \<Rightarrow>
                      (case applyCommandToBook B cmd (outboxEmitter ob) b
                              (new_emitter o1 seq (cReqID cmd)) of
                         Ret (b1, e1) \<Rightarrow>
                           (case emErr e1 of
                              Some x \<Rightarrow> (Some x, Ret (lastSeq1, b1, Some (emOut e1)))
                            | None \<Rightarrow>
                                let (err, o2) = obAppendCmdEnd ob seq (emOut e1)
                                in (err, Ret (lastSeq1, b1, Some o2)))
                       | Panic \<Rightarrow> (None, Panic)
                       | Hang \<Rightarrow> (None, Hang)))
      | Panic \<Rightarrow> (None, Panic)
      | Hang \<Rightarrow> (None, Hang))"

definition replayCmdWALAndFillOutbox :: "('b, 'o outboxEmitter) OrderBook \<Rightarrow> 'o Outbox \<Rightarrow>
    (bytes \<Rightarrow> goerror + uint64 \<times> Command) \<Rightarrow> 'o outboxEmitter \<Rightarrow> bytes option \<Rightarrow> 'b \<Rightarrow> 'o option \<Rightarrow> uint64 \<Rightarrow>
    goerror option \<times> (uint64 \<times> 'b \<times> 'o option) go" where
  "replayCmdWALAndFillOutbox B ob decode e0 cmdFile book out lastCompleteSeq =
     (let (_, err, st) = Replay cmdFile \<lparr>MaxPayload = 0, AllowTruncatedTail = True\<rparr>
            (replay_record B ob lastCompleteSeq decode e0) (Ret (0, book, out))
      in case err of
           Some e \<Rightarrow> (Some e, andThen st (\<lambda>(_, b, o1). Ret (0, b, o1)))
         | None \<Rightarrow> (None, st))"

subsection \<open>The bus\<close>

record ChanBus =
  ch :: "Event list"
  chCap :: int
  dropped :: uint64

definition NewChanBus :: "int \<Rightarrow> ChanBus" where
  "NewChanBus size1 = \<lparr>ch = [], chCap = (if size1 \<le> 0 then 65536 else size1), dropped = 0\<rparr>"

definition TryPublish :: "Event \<Rightarrow> ChanBus \<Rightarrow> bool \<times> ChanBus" where
  "TryPublish ev b =
     (if int (length (ch b)) < chCap b then (True, b\<lparr>ch := ch b @ [ev]\<rparr>)
      else (False, b\<lparr>dropped := dropped b + 1\<rparr>))"

end
