(* ===== verification/Engine_Laws.thy ===== *)
theory Engine_Laws
  imports Engine_Actor
begin

text \<open>
  What holds of the engine's parts: the adapter refines the specification and emits what it
  promises; the book does not depend on the emitter, so that a replay of the command log with the
  silent emitter rebuilds the book of the live run.
\<close>

subsection \<open>The adapter\<close>

lemma adapter_submit:
  assumes R: "book_rel b ab" and q: "0 < q" and sd: "sd = Buy \<or> sd = Sell"
    and t: "t = \<lparr>ID = i, Side = sd, Price = p, Qty = q, UserID = u\<rparr>"
    and m: "spec_match t ab = (ts, r, ab')"
  obtains b' where "Adapter_SubmitLimit rq i u sd p q em b e = Ret (b',
      let e1 = fold (\<lambda>x. emitTrade em rq (MakerID x) (TakerID x) (TradePrice x) (TradeQty x)) ts
                 (Accepted em rq i u e)
      in if r > 0 then Added em rq i u e1 else e1)"
    and "book_rel b' (snd (spec_submit t ab))" and "fst (spec_submit t ab) = ts"
proof -
  let ?em = "\<lambda>x. emitTrade em rq (MakerID x) (TakerID x) (TradePrice x) (TradeQty x)"
  let ?e1 = "fold ?em ts (Accepted em rq i u e)"
  have sub: "spec_submit t ab = (ts, spec_add (t\<lparr>Qty := r\<rparr>) ab')"
    using m sd t by (auto simp: spec_submit_def)
  obtain b1 t1 where b1: "MatchLimitEmit b (Some t) (Some ?em) (Accepted em rq i u e) =
      Ret (r, b1, Some t1, ?e1)" "book_rel b1 ab'" "0 < Qty t \<Longrightarrow> t1 = t\<lparr>Qty := r\<rparr>"
    using heap_match_refines[OF R m, of ?em "Accepted em rq i u e"] by blast
  have t1: "t1 = t\<lparr>Qty := r\<rparr>" using b1(3) q t by simp
  have A: "Adapter_SubmitLimit rq i u sd p q em b e =
      (if r > 0 then Ret (Heap_Add b1 (Some (t\<lparr>Qty := r\<rparr>)), Added em rq i u ?e1) else Ret (b1, ?e1))"
    using b1(1) by (simp add: Adapter_SubmitLimit_def t[symmetric] t1 Let_def)
  show ?thesis
  proof (cases "0 < r")
    case True
    have "book_rel (Heap_Add b1 (Some (t\<lparr>Qty := r\<rparr>))) (spec_add (t\<lparr>Qty := r\<rparr>) ab')"
      by (rule heap_add_refines[OF b1(2)])
    then show ?thesis using that A True sub by (simp add: Let_def)
  next
    case False
    then have "spec_add (t\<lparr>Qty := r\<rparr>) ab' = ab'" by (simp add: spec_add_def)
    then show ?thesis using that A False sub b1(2) by (simp add: Let_def)
  qed
qed

text \<open>An emitter that collects the trades.\<close>

definition trade_collector :: "Trade list Emitter" where
  "trade_collector = noopEmitter\<lparr>emitTrade := (\<lambda>_ mk tk p q ts.
     ts @ [\<lparr>TakerID = tk, MakerID = mk, TradePrice = p, TradeQty = q\<rparr>])\<rparr>"

lemma collector_fold:
  "fold (\<lambda>x. emitTrade trade_collector rq (MakerID x) (TakerID x) (TradePrice x) (TradeQty x)) ts acc =
     acc @ ts"
  by (induction ts arbitrary: acc) (simp_all add: trade_collector_def)

lemma collector_silent [simp]:
  "Accepted trade_collector rq i u ts = ts" "Added trade_collector rq i u ts = ts"
  by (simp_all add: trade_collector_def noopEmitter_def)

lemma collected:
  "(let e1 = fold (\<lambda>x. emitTrade trade_collector rq (MakerID x) (TakerID x) (TradePrice x) (TradeQty x)) ts
       (Accepted trade_collector rq i u [])
    in if r > 0 then Added trade_collector rq i u e1 else e1) = ts"
  by (simp add: collector_fold Let_def)

fun heap_run :: "Order list \<Rightarrow> LevelOrderBookHeap \<Rightarrow> (Trade list list \<times> LevelOrderBookHeap) go" where
  "heap_run [] b = Ret ([], b)"
| "heap_run (t # ts) b =
     andThen (Adapter_SubmitLimit 0 (ID t) (UserID t) (Side t) (Price t) (Qty t) trade_collector b [])
       (\<lambda>(b1, tr). andThen (heap_run ts b1) (\<lambda>(trs, b2). Ret (tr # trs, b2)))"

fun naive_run :: "Order list \<Rightarrow> NaiveOrderBook \<Rightarrow> (Trade list list \<times> NaiveOrderBook) go" where
  "naive_run [] n = Ret ([], n)"
| "naive_run (t # ts) n =
     andThen (Naive_SubmitLimit n (Some t))
       (\<lambda>(tr, n1). andThen (naive_run ts n1) (\<lambda>(trs, n2). Ret (tr # trs, n2)))"

lemma book_ids_submit: "book_ok ab \<Longrightarrow> book_ids (snd (spec_submit t ab)) \<subseteq> insert (ID t) (book_ids ab)"
proof -
  assume ok: "book_ok ab"
  obtain ts r c where m: "spec_match t ab = (ts, r, c)" by (metis prod_cases3)
  have "book_ids (spec_add (t\<lparr>Qty := r\<rparr>) c) \<subseteq> insert (ID t) (book_ids c)"
    by (auto simp: spec_add_def book_ids_def)
  then show ?thesis using spec_match_ok(2)[OF m ok] m by (auto simp: spec_submit_def)
qed

lemma runs_agree:
  assumes "book_rel b (naive_abs n)" and "\<forall>t \<in> set ts. 0 < Qty t \<and> (Side t = Buy \<or> Side t = Sell)"
    and "distinct (map ID ts)" and "ID ` set ts \<inter> book_ids (naive_abs n) = {}"
  shows "\<exists>trs b' n'. heap_run ts b = Ret (trs, b') \<and> naive_run ts n = Ret (trs, n') \<and>
    book_rel b' (naive_abs n')"
  using assms
proof (induction ts arbitrary: b n)
  case (Cons t ts)
  have ok: "book_ok (naive_abs n)" using Cons.prems(1) by (simp add: book_rel_def)
  have t: "0 < Qty t" "Side t = Buy \<or> Side t = Sell" "ID t \<notin> book_ids (naive_abs n)"
    using Cons.prems by auto
  let ?sub = "spec_submit t (naive_abs n)"
  obtain tr r c where m: "spec_match t (naive_abs n) = (tr, r, c)" by (metis prod_cases3)
  have eq: "t = \<lparr>ID = ID t, Side = Side t, Price = Price t, Qty = Qty t, UserID = UserID t\<rparr>" by simp
  obtain b1 where b1: "Adapter_SubmitLimit 0 (ID t) (UserID t) (Side t) (Price t) (Qty t)
      trade_collector b [] = Ret (b1, fst ?sub)" "book_rel b1 (snd ?sub)"
  proof (rule adapter_submit[OF Cons.prems(1) t(1,2) eq m])
    fix b'
    assume "Adapter_SubmitLimit 0 (ID t) (UserID t) (Side t) (Price t) (Qty t) trade_collector b [] =
      Ret (b', let e1 = fold (\<lambda>x. emitTrade trade_collector 0 (MakerID x) (TakerID x) (TradePrice x)
            (TradeQty x)) tr (Accepted trade_collector 0 (ID t) (UserID t) [])
          in if r > 0 then Added trade_collector 0 (ID t) (UserID t) e1 else e1)"
      and "book_rel b' (snd ?sub)" and "fst ?sub = tr"
    then show thesis using that unfolding collected by simp
  qed
  obtain n1 where n1: "Naive_SubmitLimit n (Some t) = Ret (fst ?sub, n1)" "naive_abs n1 = snd ?sub"
    using naive_match_refines[OF ok t(1,3,2)] by blast
  have "ID ` set ts \<inter> book_ids (naive_abs n1) = {}"
  proof -
    have "ID ` set ts \<inter> insert (ID t) (book_ids (naive_abs n)) = {}" using Cons.prems(3,4) by auto
    moreover have "book_ids (naive_abs n1) \<subseteq> insert (ID t) (book_ids (naive_abs n))"
      using book_ids_submit[OF ok, of t] by (simp only: n1(2))
    ultimately show ?thesis by (metis (no_types, lifting) disjoint_iff subsetD)
  qed
  then obtain trs b' n' where "heap_run ts b1 = Ret (trs, b')" "naive_run ts n1 = Ret (trs, n')"
    "book_rel b' (naive_abs n')"
    using Cons.IH[of b1 n1] Cons.prems b1(2) n1(2) by auto
  then show ?case using b1(1) n1(1) by simp
qed simp

subsection \<open>The book does not depend on the emitter\<close>

definition strip3 :: "('b \<times> 't \<times> 'e) go \<Rightarrow> ('b \<times> 't) go" where
  "strip3 = map_go (\<lambda>(b, t, _). (b, t))"

lemma strip3_simps [simp]:
  "strip3 (Ret (b, t, e)) = Ret (b, t)" "strip3 Panic = Panic" "strip3 Hang = Hang"
  by (simp_all add: strip3_def)

lemma strip3_andThen:
  assumes "strip3 m = strip3 m'" and "\<And>b t e e'. strip3 (g (b, t, e)) = strip3 (g' (b, t, e'))"
  shows "strip3 (andThen m g) = strip3 (andThen m' g')"
  using assms by (cases m; cases m') (auto simp: strip3_def split: prod.splits)

lemma strip3_andThen_same:
  "(\<And>x. strip3 (g x) = strip3 (g' x)) \<Longrightarrow> strip3 (andThen m g) = strip3 (andThen m g')"
  by (cases m) simp_all

lemma eat_level_strip: "strip3 (eat_level k l em b t e) = strip3 (eat_level k l em' b t e')"
proof (induction k arbitrary: b t e e')
  case (Suc k)
  show ?case
    by (cases "head (levels b l)"; cases "order (nodes b (the (head (levels b l))))")
      (simp_all add: Let_def Suc)
qed simp

lemma buy_loop_strip:
  "strip3 (matchBuyEmit_loop k em b t e) = strip3 (matchBuyEmit_loop k em' b t e')"
proof (induction k arbitrary: b t e e')
  case (Suc k)
  show ?case
  proof (cases "0 < Qty t")
    case True
    show ?thesis unfolding matchBuyEmit_loop.simps if_P[OF True]
    proof (rule strip3_andThen_same)
      fix x :: "int \<times> bool \<times> LevelOrderBookHeap"
      obtain p ok b1 where x: "x = (p, ok, b1)" by (cases x) auto
      show "strip3 (case x of (bestP, ok, b) \<Rightarrow> if \<not> ok \<or> bestP > Price t then Ret (b, t, e)
          else case hAsks b bestP of None \<Rightarrow> matchBuyEmit_loop k em b t e
            | Some l \<Rightarrow> if heap_level_empty l b then matchBuyEmit_loop k em b t e
               else andThen (eat_level (fuel_for t) l em b t e) (\<lambda>(b, taker, e).
                 let b' = (if heap_level_empty l b
                           then b\<lparr>hAsks := (hAsks b)(price (levels b l) := None)\<rparr> else b)
                 in matchBuyEmit_loop k em b' taker e)) =
        strip3 (case x of (bestP, ok, b) \<Rightarrow> if \<not> ok \<or> bestP > Price t then Ret (b, t, e')
          else case hAsks b bestP of None \<Rightarrow> matchBuyEmit_loop k em' b t e'
            | Some l \<Rightarrow> if heap_level_empty l b then matchBuyEmit_loop k em' b t e'
               else andThen (eat_level (fuel_for t) l em' b t e') (\<lambda>(b, taker, e).
                 let b' = (if heap_level_empty l b
                           then b\<lparr>hAsks := (hAsks b)(price (levels b l) := None)\<rparr> else b)
                 in matchBuyEmit_loop k em' b' taker e))"
        unfolding x by (auto simp: Suc Let_def split: option.split
            intro!: strip3_andThen[OF eat_level_strip])
    qed
  qed simp
qed simp

lemma sell_loop_strip:
  "strip3 (matchSellEmit_loop k em b t e) = strip3 (matchSellEmit_loop k em' b t e')"
proof (induction k arbitrary: b t e e')
  case (Suc k)
  show ?case
  proof (cases "0 < Qty t")
    case True
    show ?thesis unfolding matchSellEmit_loop.simps if_P[OF True]
    proof (rule strip3_andThen_same)
      fix x :: "int \<times> bool \<times> LevelOrderBookHeap"
      obtain p ok b1 where x: "x = (p, ok, b1)" by (cases x) auto
      show "strip3 (case x of (bestP, ok, b) \<Rightarrow> if \<not> ok \<or> bestP < Price t then Ret (b, t, e)
          else case hBids b bestP of None \<Rightarrow> matchSellEmit_loop k em b t e
            | Some l \<Rightarrow> if heap_level_empty l b then matchSellEmit_loop k em b t e
               else andThen (eat_level (fuel_for t) l em b t e) (\<lambda>(b, taker, e).
                 let b' = (if heap_level_empty l b
                           then b\<lparr>hBids := (hBids b)(price (levels b l) := None)\<rparr> else b)
                 in matchSellEmit_loop k em b' taker e)) =
        strip3 (case x of (bestP, ok, b) \<Rightarrow> if \<not> ok \<or> bestP < Price t then Ret (b, t, e')
          else case hBids b bestP of None \<Rightarrow> matchSellEmit_loop k em' b t e'
            | Some l \<Rightarrow> if heap_level_empty l b then matchSellEmit_loop k em' b t e'
               else andThen (eat_level (fuel_for t) l em' b t e') (\<lambda>(b, taker, e).
                 let b' = (if heap_level_empty l b
                           then b\<lparr>hBids := (hBids b)(price (levels b l) := None)\<rparr> else b)
                 in matchSellEmit_loop k em' b' taker e))"
        unfolding x by (auto simp: Suc Let_def split: option.split
            intro!: strip3_andThen[OF eat_level_strip])
    qed
  qed simp
qed simp

text \<open>The contract of an order book behind the interface: its state is independent of the emitter.\<close>

definition book_of :: "('b \<times> 'e) go \<Rightarrow> 'b go" where
  "book_of = map_go fst"

definition ok_book_of :: "(bool \<times> 'b \<times> 'e) go \<Rightarrow> (bool \<times> 'b) go" where
  "ok_book_of = map_go (\<lambda>(ok, b, _). (ok, b))"

lemma book_of_simps [simp]:
  "book_of (Ret x) = Ret (fst x)" "book_of Panic = Panic" "book_of Hang = Hang"
  "ok_book_of (Ret (k, b, e)) = Ret (k, b)" "ok_book_of Panic = Panic" "ok_book_of Hang = Hang"
  by (simp_all add: book_of_def ok_book_of_def)

lemma adapter_submit_silent:
  "book_of (Adapter_SubmitLimit rq i u sd p q em b e) =
   book_of (Adapter_SubmitLimit rq i u sd p q em' b e')"
proof -
  let ?t = "\<lparr>ID = i, Side = sd, Price = p, Qty = q, UserID = u\<rparr>"
  let ?f = "\<lambda>em t. emitTrade em rq (MakerID t) (TakerID t) (TradePrice t) (TradeQty t)"
  let ?after = "\<lambda>m. (case m of Ret (b1, t1) \<Rightarrow>
      Ret (if Qty t1 > 0 then Heap_Add b1 (Some (t1\<lparr>Qty := Qty t1\<rparr>)) else b1) | Panic \<Rightarrow> Panic | Hang \<Rightarrow> Hang)"
  have B: "book_of (Adapter_SubmitLimit rq i u Buy p q em b e) =
      ?after (strip3 (matchBuyEmit_loop (fuel_for (?t\<lparr>Side := Buy\<rparr>)) (?f em) b (?t\<lparr>Side := Buy\<rparr>)
        (Accepted em rq i u e)))" if "0 < q" for em and e
    using that by (cases "matchBuyEmit_loop (fuel_for (?t\<lparr>Side := Buy\<rparr>)) (?f em) b (?t\<lparr>Side := Buy\<rparr>)
        (Accepted em rq i u e)")
      (auto simp: Adapter_SubmitLimit_def MatchLimitEmit_def matchBuyEmit_def Let_def)
  have S: "book_of (Adapter_SubmitLimit rq i u Sell p q em b e) =
      ?after (strip3 (matchSellEmit_loop (fuel_for (?t\<lparr>Side := Sell\<rparr>)) (?f em) b (?t\<lparr>Side := Sell\<rparr>)
        (Accepted em rq i u e)))" if "0 < q" for em and e
    using that by (cases "matchSellEmit_loop (fuel_for (?t\<lparr>Side := Sell\<rparr>)) (?f em) b (?t\<lparr>Side := Sell\<rparr>)
        (Accepted em rq i u e)")
      (auto simp: Adapter_SubmitLimit_def MatchLimitEmit_def matchSellEmit_def Let_def)
  consider "q \<le> 0" | "0 < q" "sd = Buy" | "0 < q" "sd = Sell" | "0 < q" "sd \<noteq> Buy" "sd \<noteq> Sell" by linarith
  then show ?thesis
  proof cases
    case 2
    show ?thesis unfolding 2(2) B[OF 2(1)]
      by (simp only: buy_loop_strip[of _ "?f em" b _ "Accepted em rq i u e" "?f em'"
            "Accepted em' rq i u e'"])
  next
    case 3
    show ?thesis unfolding 3(2) S[OF 3(1)]
      by (simp only: sell_loop_strip[of _ "?f em" b _ "Accepted em rq i u e" "?f em'"
            "Accepted em' rq i u e'"])
  qed (simp_all add: Adapter_SubmitLimit_def MatchLimitEmit_def Let_def)
qed

lemma adapter_cancel_silent:
  "ok_book_of (Adapter_Cancel rq i em b e) = ok_book_of (Adapter_Cancel rq i em' b e')"
  by (cases "Heap_Cancel b i") (auto simp: Adapter_Cancel_def)

subsection \<open>Recovery from the command log\<close>

text \<open>The commands the actor lets through to the book.\<close>

definition valid_cmd :: "Command \<Rightarrow> bool" where
  "valid_cmd c \<longleftrightarrow>
     (cType c = CmdSubmitLimit \<and> cOrderID c \<noteq> 0 \<and> 0 < cQty c \<and> 0 < cPrice c \<and>
        (cSide c = Buy \<or> cSide c = Sell)) \<or>
     (cType c = CmdCancel \<and> cCancelOrderID c \<noteq> 0)"

lemma cmd_types [simp]: "CmdSubmitLimit \<noteq> CmdCancel" "CmdCancel \<noteq> CmdSubmitLimit"
  by (simp_all add: CmdSubmitLimit_def CmdCancel_def)

locale order_book =
  fixes B :: "('b, 'o outboxEmitter) OrderBook"
  assumes submit_silent: "book_of (bkSubmitLimit B rq i u sd p q em b e) =
      book_of (bkSubmitLimit B rq i u sd p q em' b e')"
    and cancel_silent: "ok_book_of (bkCancel B rq i em b e) = ok_book_of (bkCancel B rq i em' b e')"
begin

lemma apply_silent:
  "book_of (applyCommandToBook B c em b e) = book_of (applyCommandToBook B c em' b e')"
proof (cases "cType c = CmdCancel")
  case True
  then show ?thesis
    using cancel_silent[of "cReqID c" "cCancelOrderID c" em b e em' e']
    by (cases "bkCancel B (cReqID c) (cCancelOrderID c) em b e";
        cases "bkCancel B (cReqID c) (cCancelOrderID c) em' b e'")
      (auto simp: applyCommandToBook_def ok_book_of_def split: prod.splits)
next
  case False
  then show ?thesis using submit_silent by (simp add: applyCommandToBook_def)
qed

text \<open>What a sequence of commands does to the book.\<close>

fun book_run :: "'o outboxEmitter \<Rightarrow> Command list \<Rightarrow> 'b \<Rightarrow> 'b go" where
  "book_run e0 [] b = Ret b"
| "book_run e0 (c # cs) b =
     andThen (book_of (applyCommandToBook B c noopEmitter b e0)) (book_run e0 cs)"

lemma live_command:
  assumes "valid_cmd c" and "apply_command B em c b e = Ret (k, b1, e1)"
  shows "k" and "book_of (applyCommandToBook B c noopEmitter b e0) = Ret b1"
proof -
  have "k \<and> book_of (applyCommandToBook B c em b e) = Ret b1"
    using assms by (auto simp: apply_command_def applyCommandToBook_def valid_cmd_def andThen_eq_Ret
        split: if_splits)
  then show "k" "book_of (applyCommandToBook B c noopEmitter b e0) = Ret b1"
    using apply_silent by metis+
qed

lemma live_invalid:
  assumes "\<not> valid_cmd c" and "apply_command B em c b e = Ret (k, b1, e1)"
  shows "b1 = b"
  using assms by (auto simp: apply_command_def valid_cmd_def split: if_splits)

lemma live_batch:
  "apply_batch B ob cs b o1 = Ret (None, b', o2) \<Longrightarrow>
     book_run e0 (filter valid_cmd (map fst cs)) b = Ret b'"
proof (induction cs arbitrary: b o1)
  case (Cons x cs)
  obtain c s where x: "x = (c, s)" by (cases x)
  obtain k b1 e1 where c: "apply_command B (outboxEmitter ob) c b (new_emitter o1 s (cReqID c)) =
      Ret (k, b1, e1)"
    using Cons.prems by (auto simp: x andThen_eq_Ret)
  have rest: "\<exists>o3. apply_batch B ob cs b1 o3 = Ret (None, b', o2)"
    using Cons.prems c by (auto simp: x Let_def split: if_splits prod.splits option.splits)
  then have run: "book_run e0 (filter valid_cmd (map fst cs)) b1 = Ret b'" using Cons.IH by blast
  show ?case
  proof (cases "valid_cmd c")
    case True
    then show ?thesis using live_command(2)[OF True c, of e0] run by (simp add: x)
  next
    case False
    then show ?thesis using live_invalid[OF False c] run by (simp add: x)
  qed
qed simp

lemma replay_silent:
  assumes "list_all2 (\<lambda>p sc. decode p = Inr sc) ps scs" and "book_run e0 (map snd scs) b = Ret b'"
  shows "\<exists>n. run_records (replay_record B ob lc decode e0) ps (Ret (m, b, None)) =
    (None, Ret (n, b', None))"
  using assms
proof (induction ps scs arbitrary: b m rule: list_all2_induct)
  case Nil
  then show ?case by simp
next
  case (Cons p ps sc scs)
  obtain s c where sc: "sc = (s, c)" by (cases sc)
  obtain b1 where b1: "book_of (applyCommandToBook B c noopEmitter b e0) = Ret b1"
    "book_run e0 (map snd scs) b1 = Ret b'"
    using Cons.prems by (auto simp: sc andThen_eq_Ret)
  then obtain e1 where "applyCommandToBook B c noopEmitter b e0 = Ret (b1, e1)"
    by (cases "applyCommandToBook B c noopEmitter b e0") auto
  then show ?case using Cons.IH[OF b1(2)] Cons.hyps(1) by (simp add: replay_record_def sc Let_def)
qed

end

interpretation heapBook: order_book "HeapBookAdapter :: (LevelOrderBookHeap, 'o outboxEmitter) OrderBook"
  by unfold_locales (simp add: HeapBookAdapter_def adapter_submit_silent,
      simp add: HeapBookAdapter_def adapter_cancel_silent)

text \<open>The fields a record drops do not matter to the book.\<close>

lemma apply_keeps: "applyCommandToBook B (cmd_keeps c) em b e = applyCommandToBook B c em b e"
  by (simp add: applyCommandToBook_def cmd_keeps_def)

lemma book_run_keeps: "heapBook.book_run e0 (map cmd_keeps cs) b = heapBook.book_run e0 cs b"
  proof (induction cs arbitrary: b)
  case (Cons c cs)
  then have "heapBook.book_run e0 (map cmd_keeps cs) = heapBook.book_run e0 cs" by (rule ext)
  then show ?case by (simp add: apply_keeps)
qed simp

definition cmd_log :: "(uint64 \<times> Command) list \<Rightarrow> bytes list" where
  "cmd_log scs = map (binCmd.payload (replicate cmdRecordLen 0)) scs"

lemma cmd_log_fits: "p \<in> set (cmd_log scs) \<Longrightarrow> fits_in DefaultMaxPayload p"
  by (auto simp: cmd_log_def binCmd.payload_def cmd_layout fits_in_def DefaultMaxPayload_def)

lemma cmd_log_decodes:
  "\<forall>sc \<in> set scs. cmd_accepts (snd sc) \<Longrightarrow>
   list_all2 (\<lambda>p sc. BinaryCMDCode_Decode p = Inr sc) (cmd_log scs)
     (map (\<lambda>sc. (fst sc, cmd_keeps (snd sc))) scs)"
  by (induction scs) (auto simp: cmd_log_def binCmd.Decode_payload)

lemma log_replay:
  fixes e0 :: "'o outboxEmitter"
  assumes acc: "\<forall>sc \<in> set scs. cmd_accepts (snd sc)"
    and run: "heapBook.book_run e0 (map snd scs) b0 = Ret b1"
  shows "\<exists>n. replayCmdWALAndFillOutbox HeapBookAdapter ob' BinaryCMDCode_Decode e0
    (Some (log_of (cmd_log scs))) b0 None 0 = (None, Ret (n, b1, None))"
proof -
  have keys: "map snd (map (\<lambda>sc. (fst sc, cmd_keeps (snd sc))) scs) = map cmd_keeps (map snd scs)"
    by simp
  have run': "heapBook.book_run e0 (map snd (map (\<lambda>sc. (fst sc, cmd_keeps (snd sc))) scs)) b0 = Ret b1"
    unfolding keys book_run_keeps by (rule run)
  obtain n where r: "run_records (replay_record HeapBookAdapter ob' 0 BinaryCMDCode_Decode e0)
      (cmd_log scs) (Ret (0, b0, None)) = (None, Ret (n, b1, None))"
    using heapBook.replay_silent[OF cmd_log_decodes[OF acc] run'] by blast
  have fit: "\<forall>p \<in> set (cmd_log scs). fits_in DefaultMaxPayload p" using cmd_log_fits by blast
  from replay_loop_log[OF fit r, of True "[]"]
  show ?thesis
    by (simp add: replayCmdWALAndFillOutbox_def Replay_def max_payload_def replay_loop_end)
qed

end
