(* ===== verification/Go_Map.thy ===== *)
theory Go_Map
  imports Go_Prelude
begin

text \<open>
  A Go map the code ranges over is an association list: its order is the one in which \<open>range\<close>
  happens to visit it, and no lemma depends on where a new key goes.
\<close>

type_synonym ('k, 'v) gomap = "('k \<times> 'v) list"

definition map_get :: "('k, 'v) gomap \<Rightarrow> 'k \<Rightarrow> 'v option" where
  "map_get m k = map_of m k"

definition map_delete :: "('k, 'v) gomap \<Rightarrow> 'k \<Rightarrow> ('k, 'v) gomap" where
  "map_delete m k = filter (\<lambda>(k', _). k' \<noteq> k) m"

definition map_set :: "('k, 'v) gomap \<Rightarrow> 'k \<Rightarrow> 'v \<Rightarrow> ('k, 'v) gomap" where
  "map_set m k v = map_delete m k @ [(k, v)]"

lemma map_get_delete: "map_get (map_delete m k) k' = (if k' = k then None else map_get m k')"
  by (induction m) (auto simp: map_get_def map_delete_def)

lemma map_get_set: "map_get (map_set m k v) k' = (if k' = k then Some v else map_get m k')"
  using map_get_delete[of m k k']
  by (auto simp: map_set_def map_get_def map_add_def split: option.splits)

definition map_keys :: "('k, 'v) gomap \<Rightarrow> 'k list" where
  "map_keys m = map fst m"

lemma map_get_Nil [simp]: "map_get [] k = None"
  by (simp add: map_get_def)

lemma map_get_in: "distinct (map_keys m) \<Longrightarrow> (k, v) \<in> set m \<longleftrightarrow> map_get m k = Some v"
  by (simp add: map_get_def map_keys_def)

lemma map_keys_get: "k \<in> set (map_keys m) \<longleftrightarrow> map_get m k \<noteq> None"
  unfolding map_get_def map_keys_def by (metis domIff dom_map_of_conv_image_fst set_map)

lemma map_keys_delete: "map_keys (map_delete m k) = filter (\<lambda>k'. k' \<noteq> k) (map_keys m)"
  by (induction m) (auto simp: map_keys_def map_delete_def)

lemma map_keys_set: "map_keys (map_set m k v) = filter (\<lambda>k'. k' \<noteq> k) (map_keys m) @ [k]"
  using map_keys_delete[of m k] by (simp add: map_set_def map_keys_def)

lemma distinct_map_ops:
  "distinct (map_keys m) \<Longrightarrow> distinct (map_keys (map_delete m k))"
  "distinct (map_keys m) \<Longrightarrow> distinct (map_keys (map_set m k v))"
  by (simp_all add: map_keys_delete map_keys_set)

lemma map_get_filter:
  "distinct (map_keys m) \<Longrightarrow>
   map_get (filter (\<lambda>(k, v). P k v) m) k = (case map_get m k of None \<Rightarrow> None | Some v \<Rightarrow> if P k v then Some v else None)"
  by (induction m) (auto simp: map_get_def map_keys_def rev_image_eqI split: option.splits prod.splits)

lemma distinct_map_filter: "distinct (map_keys m) \<Longrightarrow> distinct (map_keys (filter P m))"
  by (induction m) (auto simp: map_keys_def)

end
