(* ===== verification/Level_Book.thy ===== *)
theory Level_Book
  imports Level_List Go_Map
begin

text \<open>
  \<^verbatim>\<open>internal/matching/level_book.go\<close>: the first book with price levels, which keeps the
  best price of each side in a field and recomputes it by scanning the level map.
\<close>

subsection \<open>The book\<close>

record LevelOrderBook = store +
  lAsks :: "(int, nat) gomap"
  lBids :: "(int, nat) gomap"
  lByID :: "uint64 \<rightharpoonup> nat"
  bestAsk :: int
  bestBid :: int
  hasAsk :: bool
  hasBid :: bool

definition NewLevelOrderBook :: LevelOrderBook where
  "NewLevelOrderBook =
     store.extend empty_store
       \<lparr>lAsks = [], lBids = [], lByID = (\<lambda>_. None), bestAsk = 0, bestBid = 0,
        hasAsk = False, hasBid = False\<rparr>"

definition Level_Add :: "LevelOrderBook \<Rightarrow> Order option \<Rightarrow> LevelOrderBook" where
  "Level_Add b p =
     (case p of
        None \<Rightarrow> b
      | Some a \<Rightarrow>
          if Qty a \<le> 0 then b
          else if lByID b (ID a) \<noteq> None then b
          else if Side a = Sell then
            (let (l, b1) = (case map_get (lAsks b) (Price a) of
                              Some l \<Rightarrow> (l, b)
                            | None \<Rightarrow> let (l, b0) = new_level (Price a) b
                                      in (l, b0\<lparr>lAsks := map_set (lAsks b0) (Price a) l\<rparr>));
                 (n, b2) = new_node a l Sell b1;
                 b3 = pushBack l n b2;
                 b4 = b3\<lparr>lByID := (lByID b3)(ID a \<mapsto> n)\<rparr>
             in if \<not> hasAsk b4 \<or> Price a < bestAsk b4
                then b4\<lparr>bestAsk := Price a, hasAsk := True\<rparr> else b4)
          else if Side a = Buy then
            (let (l, b1) = (case map_get (lBids b) (Price a) of
                              Some l \<Rightarrow> (l, b)
                            | None \<Rightarrow> let (l, b0) = new_level (Price a) b
                                      in (l, b0\<lparr>lBids := map_set (lBids b0) (Price a) l\<rparr>));
                 (n, b2) = new_node a l Buy b1;
                 b3 = pushBack l n b2;
                 b4 = b3\<lparr>lByID := (lByID b3)(ID a \<mapsto> n)\<rparr>
             in if \<not> hasBid b4 \<or> Price a > bestBid b4
                then b4\<lparr>bestBid := Price a, hasBid := True\<rparr> else b4)
          else b)"

text \<open>The scans for the best price: \<open>(best, first)\<close> are the loop's variables.\<close>

fun askScan :: "LevelOrderBook \<Rightarrow> (int, nat) gomap \<Rightarrow> int \<times> bool \<Rightarrow> int \<times> bool" where
  "askScan b [] acc = acc"
| "askScan b ((p, l) # m) (best, flag) =
     (if level_empty l b then askScan b m (best, flag)
      else if flag \<or> p < best then askScan b m (p, False)
      else askScan b m (best, flag))"

definition recomputeBestAsk :: "LevelOrderBook \<Rightarrow> LevelOrderBook" where
  "recomputeBestAsk b =
     (let (best, flag) = askScan b (lAsks b) (0, True)
      in if flag then b\<lparr>hasAsk := False, bestAsk := 0\<rparr> else b\<lparr>hasAsk := True, bestAsk := best\<rparr>)"

fun bidScan :: "LevelOrderBook \<Rightarrow> (int, nat) gomap \<Rightarrow> int \<times> bool \<Rightarrow> int \<times> bool" where
  "bidScan b [] acc = acc"
| "bidScan b ((p, l) # m) (best, first) =
     (if level_empty l b then bidScan b m (best, first)
      else if first \<or> p > best then bidScan b m (p, False)
      else bidScan b m (best, first))"

definition recomputeBestBid :: "LevelOrderBook \<Rightarrow> LevelOrderBook" where
  "recomputeBestBid b =
     (let (best, first) = bidScan b (lBids b) (0, True)
      in if first then b\<lparr>hasBid := False, bestBid := 0\<rparr> else b\<lparr>hasBid := True, bestBid := best\<rparr>)"

text \<open>\<open>Cancel\<close> as written: it unlinks the node and never deletes it from the index.\<close>

definition Level_Cancel :: "LevelOrderBook \<Rightarrow> uint64 \<Rightarrow> (bool \<times> LevelOrderBook) go" where
  "Level_Cancel b i =
     (case lByID b i of
        None \<Rightarrow> Ret (False, b)
      | Some n \<Rightarrow>
          andThen (deref (lv (nodes b n))) (\<lambda>l.
            let b1 = remove_node l n b
            in Ret (True,
                 if level_empty l b1 then
                   if side (nodes b1 n) = Sell then
                     (let b2 = b1\<lparr>lAsks := map_delete (lAsks b1) (price (levels b1 l))\<rparr>
                      in if hasAsk b2 \<and> price (levels b2 l) = bestAsk b2
                         then recomputeBestAsk b2 else b2)
                   else
                     (let b2 = b1\<lparr>lBids := map_delete (lBids b1) (price (levels b1 l))\<rparr>
                      in if hasBid b2 \<and> price (levels b2 l) = bestBid b2
                         then recomputeBestBid b2 else b2)
                 else b1)))"

definition Level_BestAsk :: "LevelOrderBook \<Rightarrow> int \<times> bool" where
  "Level_BestAsk b = (if \<not> hasAsk b then (0, False) else (bestAsk b, True))"

definition Level_BestBid :: "LevelOrderBook \<Rightarrow> int \<times> bool" where
  "Level_BestBid b = (if \<not> hasBid b then (0, False) else (bestBid b, True))"

subsection \<open>Matching\<close>

fun level_eat :: "nat \<Rightarrow> nat \<Rightarrow> LevelOrderBook \<Rightarrow> Order \<Rightarrow> Trade list \<Rightarrow>
    (LevelOrderBook \<times> Order \<times> Trade list) go" where
  "level_eat 0 l b taker trades = Hang"
| "level_eat (Suc k) l b taker trades =
     (if Qty taker > 0 \<and> \<not> level_empty l b then
        andThen (deref (head (levels b l))) (\<lambda>mn.
        andThen (deref (order (nodes b mn))) (\<lambda>maker.
          let exec = min64 (Qty taker) (Qty maker);
              trades' = trades @ [\<lparr>TakerID = ID taker, MakerID = ID maker,
                                   TradePrice = price (levels b l), TradeQty = exec\<rparr>];
              taker' = taker\<lparr>Qty := Qty taker - exec\<rparr>;
              maker' = maker\<lparr>Qty := Qty maker - exec\<rparr>;
              b1 = upd_node mn (\<lambda>x. x\<lparr>order := Some maker'\<rparr>) b;
              b2 = (if Qty maker' = 0 then
                      (let b3 = remove_node l mn b1
                       in b3\<lparr>lByID := (lByID b3)(ID maker' := None)\<rparr>)
                    else b1)
          in level_eat k l b2 taker' trades'))
      else Ret (b, taker, trades))"

definition level_fuel :: "Order \<Rightarrow> nat" where
  "level_fuel t = Suc (nat (Qty t))"

fun level_buy_loop :: "nat \<Rightarrow> LevelOrderBook \<Rightarrow> Order \<Rightarrow> Trade list \<Rightarrow>
    (LevelOrderBook \<times> Order \<times> Trade list) go" where
  "level_buy_loop 0 b taker trades = Hang"
| "level_buy_loop (Suc k) b taker trades =
     (if Qty taker > 0 then
        if \<not> hasAsk b then Ret (b, taker, trades)
        else if Price taker < bestAsk b then Ret (b, taker, trades)
        else case map_get (lAsks b) (bestAsk b) of
               None \<Rightarrow> level_buy_loop k (recomputeBestAsk b) taker trades
             | Some l \<Rightarrow>
                 if level_empty l b then level_buy_loop k (recomputeBestAsk b) taker trades
                 else andThen (level_eat (level_fuel taker) l b taker trades)
                   (\<lambda>(b, taker, trades).
                     let b' = (if level_empty l b
                               then recomputeBestAsk
                                 (b\<lparr>lAsks := map_delete (lAsks b) (price (levels b l))\<rparr>)
                               else b)
                     in level_buy_loop k b' taker trades)
      else Ret (b, taker, trades))"

fun level_sell_loop :: "nat \<Rightarrow> LevelOrderBook \<Rightarrow> Order \<Rightarrow> Trade list \<Rightarrow>
    (LevelOrderBook \<times> Order \<times> Trade list) go" where
  "level_sell_loop 0 b taker trades = Hang"
| "level_sell_loop (Suc k) b taker trades =
     (if Qty taker > 0 then
        if \<not> hasBid b then Ret (b, taker, trades)
        else if bestBid b < Price taker then Ret (b, taker, trades)
        else case map_get (lBids b) (bestBid b) of
               None \<Rightarrow> level_sell_loop k (recomputeBestBid b) taker trades
             | Some l \<Rightarrow>
                 if level_empty l b then level_sell_loop k (recomputeBestBid b) taker trades
                 else andThen (level_eat (level_fuel taker) l b taker trades)
                   (\<lambda>(b, taker, trades).
                     let b' = (if level_empty l b
                               then recomputeBestBid
                                 (b\<lparr>lBids := map_delete (lBids b) (price (levels b l))\<rparr>)
                               else b)
                     in level_sell_loop k b' taker trades)
      else Ret (b, taker, trades))"

text \<open>One more turn than the heap book needs, for a turn that only refreshes the best price.\<close>

definition Level_matchBuy :: "LevelOrderBook \<Rightarrow> Order \<Rightarrow> (Trade list \<times> LevelOrderBook) go" where
  "Level_matchBuy b taker =
     andThen (level_buy_loop (Suc (level_fuel taker)) b taker []) (\<lambda>(b, taker, trades).
       Ret (trades, if Qty taker > 0 then Level_Add b (Some taker) else b))"

definition Level_matchSell :: "LevelOrderBook \<Rightarrow> Order \<Rightarrow> (Trade list \<times> LevelOrderBook) go" where
  "Level_matchSell b taker =
     andThen (level_sell_loop (Suc (level_fuel taker)) b taker []) (\<lambda>(b, taker, trades).
       Ret (trades, if Qty taker > 0 then Level_Add b (Some taker) else b))"

definition Level_SubmitLimit :: "LevelOrderBook \<Rightarrow> Order option \<Rightarrow> (Trade list \<times> LevelOrderBook) go"
where
  "Level_SubmitLimit b p =
     (case p of
        None \<Rightarrow> Ret ([], b)
      | Some t \<Rightarrow>
          if Qty t \<le> 0 then Ret ([], b)
          else if Side t = Buy then Level_matchBuy b t
          else if Side t = Sell then Level_matchSell b t
          else Ret ([], b))"

subsection \<open>The scans find the best non-empty level\<close>

lemma askScan_least:
  "(\<forall>q. \<not> f \<longrightarrow> q \<in> S \<longrightarrow> best \<le> q) \<Longrightarrow> (\<not> f \<longrightarrow> best \<in> S) \<Longrightarrow> (f \<longrightarrow> S = {}) \<Longrightarrow>
   T = S \<union> {p. \<exists>l. (p, l) \<in> set m \<and> \<not> level_empty l b} \<Longrightarrow>
   askScan b m (best, f) = (best', f') \<Longrightarrow>
   (f' \<longleftrightarrow> T = {}) \<and> (\<not> f' \<longrightarrow> best' \<in> T \<and> (\<forall>q \<in> T. best' \<le> q))"
proof (induction b m "(best, f)" arbitrary: best f S rule: askScan.induct)
  case (1 b)
  then show ?case by auto
next
  case (2 b p l m best f)
  let ?U = "{p. \<exists>l. (p, l) \<in> set m \<and> \<not> level_empty l b}"
  show ?case
  proof (cases "level_empty l b")
    case True
    have "T = S \<union> ?U" using "2.prems"(4) True by auto
    then show ?thesis using "2.hyps"(1)[OF True, of S] "2.prems" True by simp
  next
    case e: False
    have T: "T = insert p S \<union> ?U" using "2.prems"(4) e by auto
    show ?thesis
    proof (cases "f \<or> p < best")
      case True
      have "\<forall>q. \<not> False \<longrightarrow> q \<in> insert p S \<longrightarrow> p \<le> q"
        using True "2.prems"(1,3) by force
      then show ?thesis
        by (rule "2.hyps"(2)[OF e True _ _ _ T]) (use "2.prems"(5) e True in simp_all)
    next
      case False
      have "\<forall>q. \<not> f \<longrightarrow> q \<in> insert p S \<longrightarrow> best \<le> q" using False "2.prems"(1) by auto
      then show ?thesis
        by (rule "2.hyps"(3)[OF e False _ _ _ T]) (use "2.prems"(2,3,5) e False in simp_all)
    qed
  qed
qed

definition ask_prices :: "LevelOrderBook \<Rightarrow> int set" where
  "ask_prices b = {p. \<exists>l. (p, l) \<in> set (lAsks b) \<and> \<not> level_empty l b}"

lemma recomputeBestAsk_least:
  "Level_BestAsk (recomputeBestAsk b) =
     (if ask_prices b = {} then (0, False) else (Min (ask_prices b), True))"
proof -
  obtain best f where s: "askScan b (lAsks b) (0, True) = (best, f)" by fastforce
  have fin: "finite (ask_prices b)"
    by (rule finite_subset[of _ "fst ` set (lAsks b)"]) (force simp: ask_prices_def)+
  have "(f \<longleftrightarrow> ask_prices b = {}) \<and>
      (\<not> f \<longrightarrow> best \<in> ask_prices b \<and> (\<forall>q \<in> ask_prices b. best \<le> q))"
    by (rule askScan_least[OF _ _ _ _ s, of "{}"]) (simp_all add: ask_prices_def)
  then show ?thesis using s fin
    by (auto simp: recomputeBestAsk_def Level_BestAsk_def intro!: Min_eqI[symmetric])
qed

subsection \<open>What a cancel leaves behind\<close>

lemma recompute_index [simp]:
  "lByID (recomputeBestAsk b) = lByID b" "lByID (recomputeBestBid b) = lByID b"
  by (simp_all add: recomputeBestAsk_def recomputeBestBid_def split: prod.split)

lemma remove_index [simp]: "lByID (remove_node l n b) = lByID b"
  by (simp add: remove_node_def upd_node_def upd_level_def Let_def split: option.splits)

lemma Level_Cancel_index:
  "Level_Cancel b i = Ret (r, b') \<Longrightarrow> lByID b' = lByID b"
  by (auto simp: Level_Cancel_def Let_def andThen_eq_Ret split: option.splits if_splits)

end
