(* ===== verification/Book_Properties.thy ===== *)
theory Book_Properties
  imports Engine_Laws Level_Book
begin

text \<open>
  What the order books of \<^verbatim>\<open>internal/matching\<close> do, stated on the code's definitions:
  each property is followed by a witness on a concrete book.
\<close>

subsection \<open>Concrete books\<close>

definition ask_1_at_100 :: Order where
  "ask_1_at_100 = \<lparr>ID = 1, Side = Sell, Price = 100, Qty = 5, UserID = 7\<rparr>"

definition ask_2_at_101 :: Order where
  "ask_2_at_101 = \<lparr>ID = 2, Side = Sell, Price = 101, Qty = 4, UserID = 8\<rparr>"

definition buy_7_at_101 :: Order where
  "buy_7_at_101 = \<lparr>ID = 3, Side = Buy, Price = 101, Qty = 7, UserID = 9\<rparr>"

definition two_asks :: LevelOrderBookHeap where
  "two_asks = Heap_Add (Heap_Add NewLevelOrderHeapBook (Some ask_2_at_101)) (Some ask_1_at_100)"

definition two_asks_spec :: abook where
  "two_asks_spec = \<lparr>aAsks = [ask_1_at_100, ask_2_at_101], aBids = []\<rparr>"

lemmas concrete = ask_1_at_100_def ask_2_at_101_def buy_7_at_101_def two_asks_spec_def

lemma two_asks_rel: "book_rel two_asks two_asks_spec"
proof -
  have "spec_add ask_1_at_100 (spec_add ask_2_at_101 empty_abook) = two_asks_spec"
    by (simp add: spec_add_def empty_abook_def book_ids_def place_def concrete)
  then show ?thesis
    using heap_add_refines[OF heap_add_refines[OF new_book_rel], of ask_2_at_101 ask_1_at_100]
    by (simp add: two_asks_def)
qed

lemma two_asks_match:
  "spec_match buy_7_at_101 two_asks_spec =
     ([\<lparr>TakerID = 3, MakerID = 1, TradePrice = 100, TradeQty = 5\<rparr>,
       \<lparr>TakerID = 3, MakerID = 2, TradePrice = 101, TradeQty = 2\<rparr>], 0,
      \<lparr>aAsks = [ask_2_at_101\<lparr>Qty := 2\<rparr>], aBids = []\<rparr>)"
  by (simp add: spec_match_def concrete Let_def)

subsection \<open>The heap book\<close>

text \<open>
  C1. On a book in relation with an abstract book, \<open>MatchLimitEmit\<close> returns (it neither panics
  nor runs out of fuel), calls the callback with the specification's trades in order, returns the
  open quantity and leaves a book in relation with the specification's.
\<close>

theorem match_limit_refines:
  assumes "book_rel b ab"
  shows "\<exists>b' t'. MatchLimitEmit b (Some t) (Some emit) e =
      Ret (fst (snd (spec_match t ab)), b', Some t', fold emit (fst (spec_match t ab)) e) \<and>
    book_rel b' (snd (snd (spec_match t ab)))"
proof -
  obtain ts r ab' where m: "spec_match t ab = (ts, r, ab')" by (metis prod_cases3)
  show ?thesis by (rule heap_match_refines[OF assms m, of emit e]) (auto simp: m)
qed

theorem match_limit_refines_witness:
  "\<exists>b' t'. MatchLimitEmit two_asks (Some buy_7_at_101) (Some (\<lambda>t ts. ts @ [t])) [] =
      Ret (0, b', Some t', [\<lparr>TakerID = 3, MakerID = 1, TradePrice = 100, TradeQty = 5\<rparr>,
                            \<lparr>TakerID = 3, MakerID = 2, TradePrice = 101, TradeQty = 2\<rparr>])"
  using match_limit_refines[OF two_asks_rel, of buy_7_at_101 "\<lambda>t ts. ts @ [t]" "[]"]
  by (auto simp: two_asks_match)

text \<open>\<open>Add\<close> rests the order behind the orders at its price or better, or ignores it.\<close>

theorem heap_add_rests:
  assumes "book_rel b ab"
  shows "book_rel (Heap_Add b (Some a)) (spec_add a ab)"
  by (rule heap_add_refines[OF assms])

theorem heap_add_rests_witness:
  "book_rel (Heap_Add two_asks (Some (buy_7_at_101\<lparr>Price := 99\<rparr>)))
     \<lparr>aAsks = [ask_1_at_100, ask_2_at_101], aBids = [buy_7_at_101\<lparr>Price := 99\<rparr>]\<rparr>"
  using heap_add_rests[OF two_asks_rel, of "buy_7_at_101\<lparr>Price := 99\<rparr>"]
  by (simp add: spec_add_def book_ids_def concrete)

text \<open>
  C2. \<open>Cancel\<close> reports whether the order rests and removes it, provided that it is not the last
  ask of its price.
\<close>

theorem heap_cancel_removes:
  assumes "book_rel b ab" and "cancel_safe i ab"
  shows "\<exists>b'. Heap_Cancel b i = Ret (i \<in> book_ids ab, b') \<and> book_rel b' (spec_cancel i ab)"
  by (rule heap_cancel_refines[OF assms]) blast

theorem heap_cancel_removes_witness:
  "\<exists>b'. Heap_Cancel (Heap_Add two_asks (Some (buy_7_at_101\<lparr>Price := 99\<rparr>))) 3 = Ret (True, b') \<and>
     book_rel b' two_asks_spec"
proof -
  let ?ab = "spec_add (buy_7_at_101\<lparr>Price := 99\<rparr>) two_asks_spec"
  have ab: "?ab = \<lparr>aAsks = [ask_1_at_100, ask_2_at_101], aBids = [buy_7_at_101\<lparr>Price := 99\<rparr>]\<rparr>"
    by (simp add: spec_add_def book_ids_def concrete)
  have R: "book_rel (Heap_Add two_asks (Some (buy_7_at_101\<lparr>Price := 99\<rparr>))) ?ab"
    by (rule heap_add_refines[OF two_asks_rel])
  have s: "cancel_safe 3 ?ab" unfolding ab by (simp add: cancel_safe_def concrete)
  have "spec_cancel 3 ?ab = two_asks_spec" "3 \<in> book_ids ?ab"
    unfolding ab by (simp_all add: spec_cancel_def book_ids_def concrete)
  then show ?thesis using heap_cancel_removes[OF R s] by simp
qed

text \<open>
  \<open>Cancel\<close> never removes a price from the ask side: \<open>putNode\<close> clears the node's side before
  it is compared with \<open>Sell\<close>, so an emptied ask level stays in the map.
\<close>

theorem heap_cancel_keeps_ask_levels:
  assumes "Heap_Cancel b i = Ret (r, b')"
  shows "hAsks b' = hAsks b"
  using assms by (auto simp: Heap_Cancel_def andThen_eq_Ret Let_def putNode_def heap_remove_def
      upd_node_def split: option.splits if_splits)

theorem heap_cancel_keeps_ask_levels_witness:
  "\<exists>b'. Heap_Cancel two_asks 9 = Ret (False, b') \<and> hAsks b' = hAsks two_asks"
proof -
  have "hByID two_asks 9 = None"
    using book_rel_ids[OF two_asks_rel, of 9] by (auto simp: book_ids_def concrete)
  then have c: "Heap_Cancel two_asks 9 = Ret (False, two_asks)" by (simp add: Heap_Cancel_def)
  from heap_cancel_keeps_ask_levels[OF c] show ?thesis using c by blast
qed






lemma new_fields [simp]:
  "nodes NewLevelOrderHeapBook = (\<lambda>_. nil_node)" "hBids NewLevelOrderHeapBook = Map.empty"
  "lvNodePool NewLevelOrderHeapBook = []" "hByID NewLevelOrderHeapBook = Map.empty"
  by (simp_all add: NewLevelOrderHeapBook_def empty_store_def store.defs)






lemma best_ask_rel:
  assumes "book_rel b ab"
  obtains b' where "Heap_BestAsk b =
      Ret (case aAsks ab of [] \<Rightarrow> (0, False, b') | m # _ \<Rightarrow> (Price m, True, b'))" and "book_rel b' ab"
proof -
  from assms obtain C where S: "sides_rel C b Sell {} (hAsks b) (aAsks ab) Buy {} (hBids b) (aBids ab)"
    and ok: "book_ok ab" and ah: "askHeap_ok b" and bh: "bidHeap_ok b"
    and so: "side_ok Sell (\<le>) (aAsks ab)" by (rule book_relE)
  obtain h where h: "bestAskPrice b = Ret (case aAsks ab of [] \<Rightarrow> (0, False, b\<lparr>askH := h\<rparr>)
        | m # _ \<Rightarrow> (Price m, True, b\<lparr>askH := h\<rparr>))" "askHeap_ok (b\<lparr>askH := h\<rparr>)"
    by (rule bestAskPrice_min[OF S so ah])
  have "book_rel (b\<lparr>askH := h\<rparr>) ab"
    using ok S h(2) bh by (intro book_relI[where C = C]) (simp_all add: bidHeap_ok_def)
  then show thesis using that h(1) by (simp add: Heap_BestAsk_def)
qed

lemma best_bid_rel:
  assumes "book_rel b ab"
  obtains b' where "Heap_BestBid b =
      Ret (case aBids ab of [] \<Rightarrow> (0, False, b') | m # _ \<Rightarrow> (Price m, True, b'))" and "book_rel b' ab"
proof -
  from assms obtain C where S: "sides_rel C b Sell {} (hAsks b) (aAsks ab) Buy {} (hBids b) (aBids ab)"
    and ok: "book_ok ab" and ah: "askHeap_ok b" and bh: "bidHeap_ok b"
    and so: "side_ok Buy (\<ge>) (aBids ab)" by (rule book_relE)
  obtain h where h: "bestBidPrice b = Ret (case aBids ab of [] \<Rightarrow> (0, False, b\<lparr>bidH := h\<rparr>)
        | m # _ \<Rightarrow> (Price m, True, b\<lparr>bidH := h\<rparr>))" "bidHeap_ok (b\<lparr>bidH := h\<rparr>)"
    by (rule bestBidPrice_max[OF S[unfolded sides_rel_sym[of C b Sell]] so bh])
  have "book_rel (b\<lparr>bidH := h\<rparr>) ab"
    using ok S h(2) ah by (intro book_relI[where C = C]) (simp_all add: askHeap_ok_def)
  then show thesis using that h(1) by (simp add: Heap_BestBid_def)
qed

text \<open>C4. \<open>BestAsk\<close> and \<open>BestBid\<close> return the best resting prices, or false on an empty side.\<close>

theorem heap_best_prices:
  assumes "book_rel b ab"
  shows "\<exists>b1 b2. book_rel b1 ab \<and> book_rel b2 ab \<and>
    Heap_BestAsk b = Ret (if aAsks ab = [] then (0, False, b1)
      else (Min (Price ` set (aAsks ab)), True, b1)) \<and>
    Heap_BestBid b = Ret (if aBids ab = [] then (0, False, b2)
      else (Max (Price ` set (aBids ab)), True, b2))"
proof -
  obtain b1 where b1: "book_rel b1 ab"
    "Heap_BestAsk b = Ret (case aAsks ab of [] \<Rightarrow> (0, False, b1) | m # _ \<Rightarrow> (Price m, True, b1))"
    by (rule best_ask_rel[OF assms])
  obtain b2 where b2: "book_rel b2 ab"
    "Heap_BestBid b = Ret (case aBids ab of [] \<Rightarrow> (0, False, b2) | m # _ \<Rightarrow> (Price m, True, b2))"
    by (rule best_bid_rel[OF assms])
  have so: "side_ok Sell (\<le>) (aAsks ab)" "side_ok Buy (\<ge>) (aBids ab)"
    using assms by (auto simp: book_rel_def book_ok_def)
  have "Min (Price ` set (m # ms)) = Price m" if "aAsks ab = m # ms" for m ms
    using so(1) that by (intro Min_eqI) (auto simp: side_ok_Cons)
  moreover have "Max (Price ` set (m # ms)) = Price m" if "aBids ab = m # ms" for m ms
    using so(2) that by (intro Max_eqI) (auto simp: side_ok_Cons)
  ultimately show ?thesis
    using b1 b2 by (intro exI[of _ b1] exI[of _ b2])
      (cases "aAsks ab"; cases "aBids ab"; simp del: set_simps image_insert)
qed

theorem heap_best_prices_witness:
  "\<exists>b1 b2. Heap_BestAsk two_asks = Ret (100, True, b1) \<and> Heap_BestBid two_asks = Ret (0, False, b2)"
  using heap_best_prices[OF two_asks_rel] by (auto simp: concrete)

text \<open>
  The trades of a limit order are positive, at resting prices it accepts, carry its identity,
  and with the open quantity add up to its quantity.
\<close>

theorem heap_trades:
  assumes "book_rel b ab" and "0 < Qty t" and "Side t = Buy \<or> Side t = Sell"
    and "MatchLimitEmit b (Some t) (Some (\<lambda>x xs. xs @ [x])) [] = Ret (r, b', t', ts)"
  shows "sum_list (map TradeQty ts) + r = Qty t \<and> 0 \<le> r \<and>
    (\<forall>x \<in> set ts. TakerID x = ID t \<and> 0 < TradeQty x \<and>
      (if Side t = Buy then TradePrice x \<le> Price t else Price t \<le> TradePrice x) \<and>
      (\<exists>m \<in> set (if Side t = Buy then aAsks ab else aBids ab).
         MakerID x = ID m \<and> TradePrice x = Price m \<and> TradeQty x \<le> Qty m))"
proof -
  obtain us q ab' where m: "spec_match t ab = (us, q, ab')" by (metis prod_cases3)
  have F: "fold (\<lambda>x xs. xs @ [x]) us acc = acc @ us" for us acc :: "Trade list"
    by (induction us arbitrary: acc) simp_all
  have eq: "ts = us" "r = q"
    by (rule heap_match_refines[OF assms(1) m, of "\<lambda>x xs. xs @ [x]" "[]"], use assms(4) F in simp)+
  have pos: "\<forall>m \<in> set (aAsks ab). 0 < Qty m" "\<forall>m \<in> set (aBids ab). 0 < Qty m"
    using assms(1) by (auto simp: book_rel_def book_ok_def side_ok_def)
  from assms(3) show ?thesis
  proof
    assume sd: "Side t = Buy"
    then obtain ms where e: "eat (\<lambda>p. p \<le> Price t) (ID t) (Qty t) (aAsks ab) = (ts, r, ms)"
      using m assms(2) eq by (auto simp: spec_match_def split: prod.splits)
    show ?thesis using eat_trades[OF e pos(1)] eat_quantity[OF e] eat_rest_nonneg[OF e] assms(2) sd
      by simp
  next
    assume sd: "Side t = Sell"
    then obtain ms where e: "eat (\<lambda>p. Price t \<le> p) (ID t) (Qty t) (aBids ab) = (ts, r, ms)"
      using m assms(2) eq by (auto simp: spec_match_def split: prod.splits)
    show ?thesis using eat_trades[OF e pos(2)] eat_quantity[OF e] eat_rest_nonneg[OF e] assms(2) sd
      by simp
  qed
qed

theorem heap_trades_witness:
  "\<exists>r b' t' ts. MatchLimitEmit two_asks (Some buy_7_at_101) (Some (\<lambda>x xs. xs @ [x])) [] =
     Ret (r, b', t', ts) \<and> sum_list (map TradeQty ts) + r = 7 \<and> ts \<noteq> []"
proof -
  obtain b' t' where M: "MatchLimitEmit two_asks (Some buy_7_at_101) (Some (\<lambda>x xs. xs @ [x])) [] =
      Ret (0, b', Some t', [\<lparr>TakerID = 3, MakerID = 1, TradePrice = 100, TradeQty = 5\<rparr>,
                            \<lparr>TakerID = 3, MakerID = 2, TradePrice = 101, TradeQty = 2\<rparr>])"
    by (rule heap_match_refines[OF two_asks_rel two_asks_match, of "\<lambda>x xs. xs @ [x]" "[]"]) auto
  from heap_trades[OF two_asks_rel _ _ M] M show ?thesis by (auto simp: concrete)
qed

text \<open>
  C5. The engine's adapter on the heap book: Accepted, the trades in order, Added if and only if
  quantity is left; the book is then the specification's after a limit order, and an uncrossed book
  stays uncrossed.
\<close>

theorem adapter_submits:
  assumes "book_rel b ab" and "0 < q" and "sd = Buy \<or> sd = Sell"
    and "t = \<lparr>ID = i, Side = sd, Price = p, Qty = q, UserID = u\<rparr>"
  shows "\<exists>b'. Adapter_SubmitLimit rq i u sd p q em b e = Ret (b',
      let e1 = fold (\<lambda>x. emitTrade em rq (MakerID x) (TakerID x) (TradePrice x) (TradeQty x))
                 (fst (spec_match t ab)) (Accepted em rq i u e)
      in if fst (snd (spec_match t ab)) > 0 then Added em rq i u e1 else e1) \<and>
    book_rel b' (snd (spec_submit t ab)) \<and> (uncrossed ab \<longrightarrow> uncrossed (snd (spec_submit t ab)))"
proof -
  obtain ts r ab' where m: "spec_match t ab = (ts, r, ab')" by (metis prod_cases3)
  have ok: "book_ok ab" using assms(1) by (simp add: book_rel_def)
  show ?thesis
    by (rule adapter_submit[OF assms m, of rq em e])
      (use m spec_submit_uncrossed[OF ok] in \<open>simp add: Let_def\<close>)
qed

theorem adapter_submits_witness:
  "\<exists>b'. Adapter_SubmitLimit 1 3 9 Buy 101 7 trade_collector two_asks [] = Ret (b',
      [\<lparr>TakerID = 3, MakerID = 1, TradePrice = 100, TradeQty = 5\<rparr>,
       \<lparr>TakerID = 3, MakerID = 2, TradePrice = 101, TradeQty = 2\<rparr>])"
  using adapter_submits[OF two_asks_rel _ _ buy_7_at_101_def, of 1 trade_collector "[]"]
  by (auto simp: two_asks_match trade_collector_def noopEmitter_def)

text \<open>
  C8. The production book and the naive reference book agree: any sequence of limit orders with
  fresh, distinct identities gives the same trades on both, order by order, without a panic.
\<close>

theorem heap_equals_naive:
  assumes "\<forall>t \<in> set ts. 0 < Qty t \<and> (Side t = Buy \<or> Side t = Sell)" and "distinct (map ID ts)"
  shows "\<exists>trs b' n'. heap_run ts NewLevelOrderHeapBook = Ret (trs, b') \<and>
    naive_run ts NewNaiveOrderBook = Ret (trs, n') \<and> book_rel b' (naive_abs n')"
proof -
  have e: "naive_abs NewNaiveOrderBook = empty_abook"
    by (simp add: naive_abs_def NewNaiveOrderBook_def empty_abook_def)
  have "book_rel NewLevelOrderHeapBook (naive_abs NewNaiveOrderBook)" using new_book_rel e by simp
  moreover have "ID ` set ts \<inter> book_ids (naive_abs NewNaiveOrderBook) = {}"
    unfolding e by (simp add: book_ids_def empty_abook_def)
  ultimately show ?thesis by (rule runs_agree[OF _ assms])
qed

theorem heap_equals_naive_witness:
  "\<exists>trs b' n'. heap_run [ask_2_at_101, ask_1_at_100, buy_7_at_101] NewLevelOrderHeapBook = Ret (trs, b') \<and>
    naive_run [ask_2_at_101, ask_1_at_100, buy_7_at_101] NewNaiveOrderBook = Ret (trs, n')"
  using heap_equals_naive[of "[ask_2_at_101, ask_1_at_100, buy_7_at_101]"] by (auto simp: concrete)

text \<open>
  \<open>SubmitLimit\<close> of the heap book returns no trades: it throws away the slice that
  \<open>SubmitLimitBuff\<close> filled, and neither rests what is left of the order.
\<close>

theorem heap_submit_drops:
  assumes "book_rel b ab" and "spec_match t ab = (ts, r, ab')"
  shows "\<exists>b'. SubmitLimitBuff b (Some t) buf = Ret (ts, b') \<and> Heap_SubmitLimit b (Some t) = Ret ([], b') \<and>
    book_rel b' ab'"
proof -
  have F: "fold (\<lambda>x xs. xs @ [x]) us acc = acc @ us" for us acc :: "Trade list"
    by (induction us arbitrary: acc) simp_all
  show ?thesis
    by (rule heap_match_refines[OF assms, of "\<lambda>x xs. xs @ [x]" "[]"])
      (simp add: SubmitLimitBuff_def Heap_SubmitLimit_def F)
qed

theorem heap_submit_drops_witness:
  "\<exists>b' ts. SubmitLimitBuff two_asks (Some buy_7_at_101) [] = Ret (ts, b') \<and> length ts = 2 \<and>
     Heap_SubmitLimit two_asks (Some buy_7_at_101) = Ret ([], b')"
  using heap_submit_drops[OF two_asks_rel two_asks_match, of "[]"] by auto

text \<open>
  C9. \<open>Push\<close> and \<open>Pop\<close> of the ask heap: pushing keeps the heap and adds the price, popping returns
  the least price and keeps the heap over the rest.
\<close>

theorem ask_heap_ops:
  assumes "is_heap (<) h" and "h \<noteq> []"
  shows "is_heap (<) (heap_Push minH h p) \<and> mset (heap_Push minH h p) = add_mset p (mset h) \<and>
    (\<exists>h'. heap_Pop minH h = Ret (Min (set h), h') \<and> is_heap (<) h' \<and>
       mset h = add_mset (Min (set h)) (mset h'))"
proof -
  obtain h' where pop: "heap_Pop minH h = Ret (hd h, h')" "mset h = add_mset (hd h) (mset h')"
    "is_heap (<) h'" by (rule askHeap.heap_Pop_Ret[OF assms(2,1)])
  have "Min (set h) = hd h"
    using askHeap.is_heap_least[OF assms(1)] assms(2) by (intro Min_eqI) (auto simp: hd_conv_nth not_less)
  then show ?thesis using pop askHeap.heap_Push_is_heap[OF assms(1)] askHeap.heap_Push_mset by auto
qed

theorem ask_heap_ops_witness:
  "\<exists>h'. heap_Pop minH [100, 103, 101 :: int] = Ret (100, h') \<and> is_heap (<) h'"
proof -
  have "[100, 103, 101 :: int] ! k \<ge> [100, 103, 101] ! parent k" if "0 < k" "k < 3" for k
  proof -
    have "k = 1 \<or> k = 2" using that by auto
    then show ?thesis by (auto simp: parent_def)
  qed
  then have "is_heap (<) [100, 103, 101 :: int]" by (auto simp: is_heap_def not_less)
  from ask_heap_ops[OF this, of 0] show ?thesis by auto
qed

subsection \<open>The naive book\<close>

text \<open>
  C10. \<open>SubmitLimit\<close> and \<open>Cancel\<close> of the naive book are the specification's, on any well-formed
  book and for a fresh order.
\<close>

theorem naive_book_refines:
  assumes "book_ok (naive_abs n)"
  shows "(0 < Qty t \<and> ID t \<notin> book_ids (naive_abs n) \<and> (Side t = Buy \<or> Side t = Sell) \<longrightarrow>
      (\<exists>n'. Naive_SubmitLimit n (Some t) = Ret (fst (spec_submit t (naive_abs n)), n') \<and>
        naive_abs n' = snd (spec_submit t (naive_abs n)))) \<and>
    (\<exists>n'. Naive_Cancel n i = Ret (i \<in> book_ids (naive_abs n), n') \<and>
        naive_abs n' = spec_cancel i (naive_abs n))"
  using naive_match_refines[OF assms, of t] naive_cancel_refines[OF assms, of i] by metis

theorem naive_book_refines_witness:
  "\<exists>n'. Naive_SubmitLimit NewNaiveOrderBook (Some ask_1_at_100) = Ret ([], n') \<and> asks n' = [ask_1_at_100]"
proof -
  have e: "naive_abs NewNaiveOrderBook = empty_abook"
    by (simp add: naive_abs_def NewNaiveOrderBook_def empty_abook_def)
  then have "book_ok (naive_abs NewNaiveOrderBook)" by simp
  moreover have "spec_submit ask_1_at_100 empty_abook = ([], \<lparr>aAsks = [ask_1_at_100], aBids = []\<rparr>)"
    by (simp add: spec_submit_def spec_match_def spec_add_def empty_abook_def book_ids_def concrete)
  ultimately obtain n' where n': "Naive_SubmitLimit NewNaiveOrderBook (Some ask_1_at_100) = Ret ([], n')"
    "naive_abs n' = \<lparr>aAsks = [ask_1_at_100], aBids = []\<rparr>"
    using naive_book_refines[of NewNaiveOrderBook ask_1_at_100] unfolding e
    by (auto simp: book_ids_def empty_abook_def concrete)
  have "asks n' = aAsks (naive_abs n')" by simp
  also have "\<dots> = [ask_1_at_100]" unfolding n'(2) by simp
  finally show ?thesis using n'(1) by blast
qed

text \<open>
  \<open>Cancel2\<close>, which trusts the position index, removes a wrong order: after a better bid was
  inserted in front, cancelling the first bid removes the better one and reports success.
\<close>

theorem naive_cancel2_wrong_order:
  assumes "Side x = Buy" "Side y = Buy" "0 < Qty x" "0 < Qty y" "Price x < Price y" "ID x \<noteq> ID y"
  shows "andThen (Naive_Add NewNaiveOrderBook (Some x)) (\<lambda>(_, n1).
    andThen (Naive_Add n1 (Some y)) (\<lambda>(_, n2).
    andThen (Naive_Cancel2 n2 (ID x)) (\<lambda>(ok, n3). Ret (ok, bids n2, bids n3)))) =
      Ret (True, [y, x], [x])"
proof -
  let ?n1 = "NewNaiveOrderBook\<lparr>bids := [x], pos := [ID x \<mapsto> \<lparr>posSide = Buy, posIndex = 0\<rparr>]\<rparr>"
  let ?n2 = "?n1\<lparr>bids := [y, x], pos := (pos ?n1)(ID y \<mapsto> \<lparr>posSide = Buy, posIndex = 0\<rparr>)\<rparr>"
  have "insertBid NewNaiveOrderBook x = Ret ?n1"
    using insertBid_place[of NewNaiveOrderBook x]
    by (simp add: NewNaiveOrderBook_def sorted_side_def fun_eq_iff)
  then have 1: "Naive_Add NewNaiveOrderBook (Some x) = Ret (False, ?n1)"
    using assms by (simp add: Naive_Add_def)
  have "insertBid ?n1 y = Ret ?n2"
    using insertBid_place[of ?n1 y] assms(5) by (simp add: sorted_side_def place_def)
  then have 2: "Naive_Add ?n1 (Some y) = Ret (False, ?n2)"
    using assms by (simp add: Naive_Add_def)
  have "\<exists>n3. Naive_Cancel2 ?n2 (ID x) = Ret (True, n3) \<and> bids n3 = [x]"
    using assms(6) by (simp add: Naive_Cancel2_def removeAtOrderPtr_def copy_within_def Let_def)
  then show ?thesis unfolding 1 by (auto simp: 2 simp del: fun_upd_apply)
qed

theorem naive_cancel2_wrong_order_witness:
  "andThen (Naive_Add NewNaiveOrderBook (Some (buy_7_at_101\<lparr>ID := 5, Price := 99\<rparr>))) (\<lambda>(_, n1).
    andThen (Naive_Add n1 (Some buy_7_at_101)) (\<lambda>(_, n2).
    andThen (Naive_Cancel2 n2 5) (\<lambda>(ok, n3). Ret (ok, map ID (bids n2), map ID (bids n3))))) =
      Ret (True, [3, 5], [5])"
  using naive_cancel2_wrong_order[of "buy_7_at_101\<lparr>ID := 5, Price := 99\<rparr>" buy_7_at_101]
  by (auto simp: concrete andThen_eq_Ret split: prod.splits)

subsection \<open>The level book\<close>

text \<open>\<open>recomputeBestAsk\<close> finds the least price of the levels that hold orders, whatever the map's order.\<close>

theorem level_best_ask:
  "Level_BestAsk (recomputeBestAsk b) =
     (if ask_prices b = {} then (0, False) else (Min (ask_prices b), True))"
  by (rule recomputeBestAsk_least)

text \<open>
  \<open>Cancel\<close> of the level book leaves the order in the index: cancelling it again succeeds again.
\<close>

theorem level_cancel_twice:
  assumes "Level_Cancel b i = Ret (True, b1)"
  shows "\<exists>b2. Level_Cancel b1 i = Ret (True, b2)"
proof -
  obtain n l where n: "lByID b i = Some n" and l: "lv (nodes b n) = Some l"
    using assms by (auto simp: Level_Cancel_def deref_def andThen_eq_Ret split: option.splits)
  have "lByID b1 = lByID b" by (rule Level_Cancel_index[OF assms])
  moreover have "nodes b1 = nodes (remove_node l n b)"
    using assms n l by (auto simp: Level_Cancel_def Let_def recomputeBestAsk_def recomputeBestBid_def
        split: if_splits prod.splits)
  then have "lv (nodes b1 n) = Some l" using l by (simp add: remove_frame)
  ultimately show ?thesis using n by (simp add: Level_Cancel_def Let_def)
qed

theorem level_cancel_twice_witness:
  "\<exists>b1 b2. Level_Cancel (Level_Add NewLevelOrderBook (Some ask_1_at_100)) 1 = Ret (True, b1) \<and>
     Level_Cancel b1 1 = Ret (True, b2)"
proof -
  let ?b = "Level_Add NewLevelOrderBook (Some ask_1_at_100)"
  have "lByID ?b 1 = Some 0 \<and> lv (nodes ?b 0) = Some 0"
    by (simp add: Level_Add_def NewLevelOrderBook_def concrete Let_def new_level_def new_node_def
        pushBack_def upd_node_def upd_level_def map_get_def map_set_def map_delete_def
        empty_store_def store.defs)
  then obtain b1 where "Level_Cancel ?b 1 = Ret (True, b1)" by (simp add: Level_Cancel_def Let_def)
  from level_cancel_twice[OF this] show ?thesis using \<open>Level_Cancel ?b 1 = Ret (True, b1)\<close> by blast
qed

text \<open>
  The list of a level is a queue: \<open>pushBack\<close> appends at the tail, \<open>remove\<close> unlinks any node and
  keeps the order of the others.
\<close>

theorem level_list_ops:
  assumes "level_chain (nodes s) (levels s l) (xs @ n # ys)" and "m \<notin> set (xs @ n # ys)"
  shows "level_chain (nodes (pushBack l m s)) (levels (pushBack l m s) l) (xs @ n # ys @ [m]) \<and>
    level_chain (nodes (remove_node l n s)) (levels (remove_node l n s) l) (xs @ ys)"
  using pushBack_chain[OF assms] remove_chain[OF assms(1)] by simp

theorem level_list_ops_witness:
  "\<exists>s :: store. level_chain (nodes s) (levels s 0) [1] \<and>
     level_chain (nodes (pushBack 0 2 s)) (levels (pushBack 0 2 s) 0) [1, 2] \<and>
     level_chain (nodes (remove_node 0 1 s)) (levels (remove_node 0 1 s) 0) []"
proof -
  let ?s = "pushBack 0 1 empty_store"
  have "level_chain (nodes empty_store) (levels empty_store 0) []" by (simp add: empty_store_def)
  then have c: "level_chain (nodes ?s) (levels ?s 0) [1]"
    using pushBack_chain[of empty_store 0 "[]" 1] by simp
  then show ?thesis using level_list_ops[of ?s 0 "[]" 1 "[]" 2] by (intro exI[of _ ?s]) simp
qed

end
