(* ===== verification/Engine_Manager.thy ===== *)
theory Engine_Manager
  imports Engine_Actor
begin

text \<open>
  \<^verbatim>\<open>internal/engine/engine.go\<close>: the engine that creates one actor per symbol on its first
  command, after repairing the symbol's outbox and replaying its command log. The file system is a
  map from paths to contents; a file that an actor has open is the content of its writer. The order
  book and its factory, the codecs and \<open>filepath.Join\<close> are parameters. Starting a goroutine is
  recorded, not run: \<open>actor_round\<close> and \<open>publisher_turn\<close> are what it does.
\<close>

record 'b EngineConfig =
  EventBusSize :: int
  ActorCfg :: ActorConfig
  BookFactory :: "(string \<Rightarrow> goerror + 'b) option"
  WALDir :: string
  EnableCmdWAL :: bool
  WALBufSize :: int
  EnableOutbox :: bool
  OutboxBufSize :: int
  EnablePublisher :: bool
  CmdDecode :: "bytes \<Rightarrow> goerror + uint64 \<times> Command"
  EvEncode :: "bytes \<Rightarrow> Event \<Rightarrow> goerror + bytes"
  EvDecode :: "bytes \<Rightarrow> goerror + Event"
  cfgBus :: "ChanBus option"

type_synonym 'b engine_actor = "('b, Writer, EventOutbox) SymbolActor"

record 'b Engine =
  actors :: "string \<rightharpoonup> 'b engine_actor"
  engBus :: "ChanBus option"
  engCfg :: "'b EngineConfig"
  files :: "string \<rightharpoonup> bytes"
  publishers :: "string list"
  stopped :: bool

definition NewEngine :: "'b EngineConfig \<Rightarrow> (string \<rightharpoonup> bytes) \<Rightarrow> 'b Engine" where
  "NewEngine cfg fs =
     (let cfg1 = (if EventBusSize cfg \<le> 0 then cfg\<lparr>EventBusSize := 65536\<rparr> else cfg)
      in \<lparr>actors = (\<lambda>_. None), engBus = cfgBus cfg1, engCfg = cfg1, files = fs, publishers = [],
          stopped = False\<rparr>)"

text \<open>Both read a field behind the bus pointer, which may be nil.\<close>

definition Events :: "'b Engine \<Rightarrow> Event list go" where
  "Events e = andThen (deref (engBus e)) (\<lambda>b. Ret (ch b))"

definition DroppedEvents :: "'b Engine \<Rightarrow> uint64 go" where
  "DroppedEvents e = andThen (deref (engBus e)) (\<lambda>b. Ret (dropped b))"

definition Stop :: "'b Engine \<Rightarrow> 'b Engine" where
  "Stop e = e\<lparr>stopped := True\<rparr>"

definition ErrNoWALDir :: goerror where
  "ErrNoWALDir = ''WALDir is empty but persistence is enabled''"

text \<open>
  The outbox half of \<open>getOrCreateActor\<close>: create the file, repair it and open it. \<open>mk\<close> is the
  outcome of creating a missing file.
\<close>

definition open_outbox :: "'b EngineConfig \<Rightarrow> goerror option \<Rightarrow> string \<Rightarrow> (string \<rightharpoonup> bytes) \<Rightarrow>
    (goerror + uint64 \<times> EventOutbox option) \<times> (string \<rightharpoonup> bytes)" where
  "open_outbox cfg mk evPath fs =
     (if EnableOutbox cfg \<and> WALDir cfg \<noteq> [] then
        (case (if fs evPath = None then
                 (case mk of Some x \<Rightarrow> Inl x | None \<Rightarrow> Inr (fs(evPath \<mapsto> [])))
               else Inr fs) of
           Inl x \<Rightarrow> (Inl x, fs)
         | Inr fs1 \<Rightarrow>
             (let (res, file) = ScanAndRepairOutbox (EvDecode cfg) (fs1 evPath);
                  fs2 = fs1(evPath := file)
              in case res of
                   Inl x \<Rightarrow> (Inl x, fs2)
                 | Inr (lastCompleteSeq, _) \<Rightarrow>
                     (let content0 = (case fs2 evPath of None \<Rightarrow> [] | Some f \<Rightarrow> f)
                      in (Inr (lastCompleteSeq, Some (OpenEventOutbox content0 None (OutboxBufSize cfg))),
                          fs2(evPath \<mapsto> content0)))))
      else (Inr (0, None), fs))"

text \<open>\<open>closeIfNotNil\<close>: closing the outbox writes out what it had buffered.\<close>

definition close_outbox :: "EventOutbox Outbox \<Rightarrow> string \<Rightarrow> EventOutbox option \<Rightarrow> 'b Engine \<Rightarrow> 'b Engine" where
  "close_outbox ob evPath out e =
     (case out of
        None \<Rightarrow> e
      | Some o1 \<Rightarrow> e\<lparr>files := (files e)(evPath \<mapsto> content (ow (snd (obClose ob o1))))\<rparr>)"

lemma close_outbox_actors [simp]: "actors (close_outbox ob p out e) = actors e"
  by (simp add: close_outbox_def split: option.split)

text \<open>The second half: replay the command log, flush the outbox, open the log, start the actor.\<close>

definition flush_outbox :: "EventOutbox Outbox \<Rightarrow> EventOutbox option \<Rightarrow> goerror option \<times> EventOutbox option" where
  "flush_outbox ob out =
     (case out of None \<Rightarrow> (None, None) | Some o1 \<Rightarrow> (let (fe, o2) = obFlush ob o1 in (fe, Some o2)))"

definition finish_actor :: "string \<Rightarrow> string \<Rightarrow> string \<Rightarrow> goerror option \<Rightarrow> uint64 \<Rightarrow> 'b \<Rightarrow>
    EventOutbox option \<Rightarrow> 'b Engine \<Rightarrow> (goerror + 'b engine_actor) \<times> 'b Engine" where
  "finish_actor symbol cmdPath evPath err lastSeq book out e =
     (let cfg = engCfg e; ob = event_outbox (EvEncode cfg)
      in case err of
           Some x \<Rightarrow> (Inl x, close_outbox ob evPath out e)
         | None \<Rightarrow>
           let (ferr, out2) = flush_outbox ob out
           in case ferr of
                Some x \<Rightarrow> (Inl x, close_outbox ob evPath out2 e)
              | None \<Rightarrow>
                let file = (case files e cmdPath of None \<Rightarrow> [] | Some f \<Rightarrow> f);
                    w = (if EnableCmdWAL cfg \<and> WALDir cfg \<noteq> []
                         then Some (OpenWrite file None (WALBufSize cfg)) else None);
                    a = (NewSymbolActor book (ActorCfg cfg) w out2)\<lparr>aSeq := lastSeq\<rparr>
                in (Inr a, e\<lparr>actors := (actors e)(symbol \<mapsto> a),
                      publishers := (if EnablePublisher cfg \<and> out2 \<noteq> None
                                     then publishers e @ [symbol] else publishers e)\<rparr>))"

definition start_actor :: "('b, EventOutbox outboxEmitter) OrderBook \<Rightarrow> string \<Rightarrow> string \<Rightarrow> string \<Rightarrow>
    uint64 \<Rightarrow> EventOutbox option \<Rightarrow> 'b \<Rightarrow> 'b Engine \<Rightarrow> ((goerror + 'b engine_actor) \<times> 'b Engine) go" where
  "start_actor B symbol cmdPath evPath lastCompleteSeq out book e =
     (let cfg = engCfg e;
          (err, st) = (if EnableCmdWAL cfg \<and> WALDir cfg \<noteq> [] then
              replayCmdWALAndFillOutbox B (event_outbox (EvEncode cfg)) (CmdDecode cfg)
                (new_emitter (OpenEventOutbox [] None 0) 0 0) (files e cmdPath) book out lastCompleteSeq
            else (None, Ret (0, book, out)))
      in andThen st (\<lambda>(lastSeq, book1, out1).
           Ret (finish_actor symbol cmdPath evPath err lastSeq book1 out1 e)))"

definition getOrCreateActor :: "('b, EventOutbox outboxEmitter) OrderBook \<Rightarrow> (string \<Rightarrow> string \<Rightarrow> string) \<Rightarrow>
    goerror option \<Rightarrow> string \<Rightarrow> 'b Engine \<Rightarrow> ((goerror + 'b engine_actor) \<times> 'b Engine) go" where
  "getOrCreateActor B join mk symbol e =
     (let cfg = engCfg e; dir = WALDir cfg
      in case actors e symbol of
           Some a \<Rightarrow> Ret (Inr a, e)
         | None \<Rightarrow>
      (case BookFactory cfg of
         None \<Rightarrow> Ret (Inl ErrUnknownSym, e)
       | Some factory \<Rightarrow>
      (case factory symbol of
         Inl err \<Rightarrow> Ret (Inl err, e)
       | Inr book \<Rightarrow>
         if (EnableCmdWAL cfg \<or> EnableOutbox cfg \<or> EnablePublisher cfg) \<and> dir = []
         then Ret (Inl ErrNoWALDir, e)
         else
           let cmdPath = cmdWalPath join dir symbol; evPath = outboxWalPath join dir symbol;
               (res, fs1) = open_outbox cfg mk evPath (files e)
           in case res of
                Inl err \<Rightarrow> Ret (Inl err, e\<lparr>files := fs1\<rparr>)
              | Inr (lastCompleteSeq, out) \<Rightarrow>
                  start_actor B symbol cmdPath evPath lastCompleteSeq out book (e\<lparr>files := fs1\<rparr>))))"

definition TryCommand :: "CmdType \<Rightarrow> ('b, EventOutbox outboxEmitter) OrderBook \<Rightarrow>
    (string \<Rightarrow> string \<Rightarrow> string) \<Rightarrow> goerror option \<Rightarrow> string \<Rightarrow> Command \<Rightarrow> 'b Engine \<Rightarrow>
    (goerror option \<times> 'b Engine) go" where
  "TryCommand ty B join mk symbol cmd e =
     (if cType cmd \<noteq> ty then Ret (Some ErrBadCommand, e)
      else andThen (getOrCreateActor B join mk symbol e) (\<lambda>(res, e1).
        case res of
          Inl err \<Rightarrow> Ret (Some err, e1)
        | Inr a \<Rightarrow> let (err, a1) = TryEnqueue cmd a
                   in Ret (err, e1\<lparr>actors := (actors e1)(symbol \<mapsto> a1)\<rparr>)))"

definition TrySubmit where "TrySubmit = TryCommand CmdSubmitLimit"
definition TryCancel where "TryCancel = TryCommand CmdCancel"

subsection \<open>One actor per symbol\<close>

lemma TryEnqueue_other: "aBook (snd (TryEnqueue c a)) = aBook a"
  by (simp add: TryEnqueue_def)

text \<open>A command for one symbol leaves the actors of the others alone.\<close>

lemma finish_actor_actors:
  "finish_actor y p q err k b out e = (r, e') \<Longrightarrow>
     actors e' = (case r of Inl _ \<Rightarrow> actors e | Inr a \<Rightarrow> (actors e)(y \<mapsto> a))"
  unfolding finish_actor_def Let_def by (auto split: option.splits prod.splits if_splits)

lemma start_actor_actors:
  assumes "start_actor B y p q k out b e = Ret (r, e')"
  shows "actors e' = (case r of Inl _ \<Rightarrow> actors e | Inr a \<Rightarrow> (actors e)(y \<mapsto> a))"
proof -
  obtain err n b1 o1 where "finish_actor y p q err n b1 o1 e = (r, e')"
    using assms by (auto simp: start_actor_def Let_def andThen_eq_Ret split: prod.splits)
  then show ?thesis by (rule finish_actor_actors)
qed

lemma getOrCreate_actors:
  assumes "getOrCreateActor B join mk y e = Ret (r, e')"
  shows "actors e' = (case r of Inl _ \<Rightarrow> actors e | Inr a \<Rightarrow> (actors e)(y \<mapsto> a))"
proof (cases "actors e y")
  case (Some a)
  then show ?thesis using assms by (auto simp: getOrCreateActor_def Let_def fun_eq_iff)
next
  case None
  then show ?thesis using assms
    by (auto simp: getOrCreateActor_def Let_def dest!: start_actor_actors
        split: option.splits sum.splits prod.splits if_splits)
qed

lemma getOrCreate_again:
  assumes "getOrCreateActor B join mk y e = Ret (Inr a, e')"
  shows "getOrCreateActor B join mk' y e' = Ret (Inr a, e')"
proof -
  have "actors e' y = Some a" using getOrCreate_actors[OF assms] by simp
  then show ?thesis by (simp add: getOrCreateActor_def Let_def)
qed

end
