(* ===== verification/Engine_Recovery.thy ===== *)
theory Engine_Recovery
  imports Engine_Laws Engine_Manager
begin

text \<open>
  The actor's life as a step relation: commands are enqueued and batches are run, with the command
  log on disk. The log always rebuilds the book.
\<close>

subsection \<open>A batch goes to the log first\<close>

definition wal_ops :: "Writer walWriter" where
  "wal_ops = \<lparr>wwAppend = Append, wwFlush = Flush\<rparr>"

text \<open>A writer whose every accepted byte is in the file.\<close>

definition synced :: "bytes \<Rightarrow> Writer \<Rightarrow> bool" where
  "synced f w \<longleftrightarrow> content w = f \<and> wbuf w = []"

lemma Flush_syncs: "Flush w = (None, w') \<Longrightarrow> synced (taken w) w'"
  using bufio_Flush_frame(2)[of w] bufio_Flush_frame(5)[of w]
  by (auto simp: Flush_def synced_def taken_def Let_def split: if_splits)

lemma log_batch_synced:
  "log_batch wal_ops BinaryCMDCode_Encode cs seq seqs w = (None, seq', seqs', w') \<Longrightarrow>
   \<exists>new. seqs' = seqs @ new \<and> length new = length cs \<and>
     synced (taken w @ log_of (cmd_log (zip new cs))) w'"
proof (induction cs arbitrary: seq seqs w)
  case Nil
  then show ?case using Flush_syncs by (auto simp: wal_ops_def cmd_log_def split: prod.splits)
next
  case (Cons c cs)
  let ?p = "binCmd.payload (replicate cmdRecordLen 0) (seq + 1, c)"
  obtain w1 where ap: "Append ?p w = (None, w1)"
    and rest: "log_batch wal_ops BinaryCMDCode_Encode cs (seq + 1) (seqs @ [seq + 1]) w1 =
      (None, seq', seqs', w')"
    using Cons.prems by (auto simp: wal_ops_def binCmd.payload_def Let_def split: prod.splits option.splits)
  obtain new where new: "seqs' = (seqs @ [seq + 1]) @ new" "length new = length cs"
    "synced (taken w1 @ log_of (cmd_log (zip new cs))) w'"
    using Cons.IH[OF rest] by blast
  have "taken w1 @ log_of (cmd_log (zip new cs)) =
      taken w @ log_of (cmd_log (zip ((seq + 1) # new) (c # cs)))"
    using Append_ok(1)[OF ap] by (simp add: cmd_log_def)
  then show ?case using new by (intro exI[of _ "(seq + 1) # new"]) simp
qed

subsection \<open>A batch and the book\<close>

context order_book
begin

lemma live_batch_silent:
  "apply_batch_silent B cs b e = Ret b' \<Longrightarrow>
     book_run e0 (filter valid_cmd (map fst cs)) b = Ret b'"
proof (induction cs arbitrary: b e)
  case (Cons x cs)
  obtain c s where x: "x = (c, s)" by (cases x)
  obtain k b1 e1 where c: "apply_command B noopEmitter c b e = Ret (k, b1, e1)"
    and rest: "apply_batch_silent B cs b1 e1 = Ret b'"
    using Cons.prems by (auto simp: x andThen_eq_Ret)
  show ?case
  proof (cases "valid_cmd c")
    case True
    then show ?thesis using live_command(2)[OF True c, of e0] Cons.IH[OF rest] by (simp add: x)
  next
    case False
    then show ?thesis using live_invalid[OF False c] Cons.IH[OF rest] by (simp add: x)
  qed
qed simp

lemma book_run_append:
  "book_run e0 (cs @ ds) b = andThen (book_run e0 cs b) (book_run e0 ds)"
proof (induction cs arbitrary: b)
  case (Cons c cs)
  then show ?case
    by (cases "book_of (applyCommandToBook B c noopEmitter b e0)") simp_all
qed simp

end

lemma filter_zip_all:
  "length new = length cs \<Longrightarrow> \<forall>c \<in> set cs. P c \<Longrightarrow> filter P (map fst (zip cs new)) = cs"
  by simp

subsection \<open>The invariant\<close>

text \<open>The actor of a symbol with the heap book and an open command log.\<close>

type_synonym 'o heap_actor = "(LevelOrderBookHeap, Writer, 'o) SymbolActor"

definition good_cmd :: "Command \<Rightarrow> bool" where
  "good_cmd c \<longleftrightarrow> valid_cmd c \<and> cmd_accepts c"

text \<open>The log holds commands whose run from the book \<open>b0\<close> is the actor's book.\<close>

definition durable :: "'o outboxEmitter \<Rightarrow> LevelOrderBookHeap \<Rightarrow> 'o heap_actor \<Rightarrow> bool" where
  "durable e0 b0 a \<longleftrightarrow> (\<exists>w scs. aWal a = Some w \<and> synced (log_of (cmd_log scs)) w \<and>
     (\<forall>sc \<in> set scs. good_cmd (snd sc)) \<and> (\<forall>c \<in> set (aIn a). good_cmd c) \<and>
     heapBook.book_run e0 (map snd scs) b0 = Ret (aBook a))"

lemma durable_enqueue:
  assumes "durable e0 b0 a" and "good_cmd c" and "TryEnqueue c a = (err, a')"
  shows "durable e0 b0 a'"
  using assms by (auto simp: durable_def TryEnqueue_def split: if_splits)

lemma durable_round:
  fixes a :: "'o heap_actor"
  assumes d: "durable e0 b0 a"
    and r: "actor_round HeapBookAdapter wal_ops ob BinaryCMDCode_Encode e1 a = Ret (None, a')"
  shows "durable e0 b0 a'"
proof -
  obtain w scs where w: "aWal a = Some w" "synced (log_of (cmd_log scs)) w"
    and scs: "\<forall>sc \<in> set scs. good_cmd (snd sc)" and ins: "\<forall>c \<in> set (aIn a). good_cmd c"
    and run: "heapBook.book_run e0 (map snd scs) b0 = Ret (aBook a)"
    using d by (auto simp: durable_def)
  define n where "n = nat (BatchMax (aCfg a))"
  define cs where "cs = take n (aIn a)"
  have cs: "\<forall>c \<in> set cs. good_cmd c" "\<forall>c \<in> set (drop n (aIn a)). good_cmd c"
    using ins by (auto simp: cs_def dest: in_set_takeD in_set_dropD)
  obtain seq seqs w' where L: "log_batch wal_ops BinaryCMDCode_Encode cs (aSeq a) [] w = (None, seq, seqs, w')"
    and a': "aWal a' = Some w'" "aIn a' = drop n (aIn a)"
    and book: "(\<exists>o1 o2. apply_batch HeapBookAdapter ob (zip cs seqs) (aBook a) o1 = Ret (None, aBook a', o2)) \<or>
      apply_batch_silent HeapBookAdapter (zip cs seqs) (aBook a) e1 = Ret (aBook a')"
    using r w by (auto simp: actor_round_def take_batch_def Let_def cs_def n_def andThen_eq_Ret
        split: prod.splits option.splits) blast
  have len: "length seqs = length cs"
    and sy: "synced (taken w @ log_of (cmd_log (zip seqs cs))) w'"
    using log_batch_synced[OF L] by auto
  have all: "filter valid_cmd (map fst (zip cs seqs)) = cs"
    using len cs(1) by (intro filter_zip_all) (auto simp: good_cmd_def)
  have "heapBook.book_run e0 cs (aBook a) = Ret (aBook a')"
    using book heapBook.live_batch heapBook.live_batch_silent all by metis
  then have run': "heapBook.book_run e0 (map snd (scs @ zip seqs cs)) b0 = Ret (aBook a')"
    using run len by (simp add: heapBook.book_run_append)
  have "taken w = log_of (cmd_log scs)" using w(2) by (simp add: taken_def synced_def)
  then have "synced (log_of (cmd_log (scs @ zip seqs cs))) w'" using sy by (simp add: cmd_log_def)
  moreover have "\<forall>sc \<in> set (scs @ zip seqs cs). good_cmd (snd sc)"
    using scs cs(1) by (auto dest: set_zip_rightD)
  ultimately show ?thesis using a' run' cs(2) unfolding durable_def by metis
qed

lemma durable_replay:
  fixes a :: "'o heap_actor"
  assumes "durable e0 b0 a"
  shows "\<exists>w n. aWal a = Some w \<and> replayCmdWALAndFillOutbox HeapBookAdapter ob BinaryCMDCode_Decode e0
    (Some (content w)) b0 None 0 = (None, Ret (n, aBook a, None))"
proof -
  obtain w scs where w: "aWal a = Some w" "synced (log_of (cmd_log scs)) w"
    and scs: "\<forall>sc \<in> set scs. good_cmd (snd sc)"
    and run: "heapBook.book_run e0 (map snd scs) b0 = Ret (aBook a)"
    using assms by (auto simp: durable_def)
  have "\<forall>sc \<in> set scs. cmd_accepts (snd sc)" using scs by (auto simp: good_cmd_def)
  from log_replay[OF this run, of ob] show ?thesis using w by (auto simp: synced_def)
qed

subsection \<open>Reachable actors\<close>

text \<open>
  An actor starts on an empty log; commands are enqueued, rounds succeed, and it may crash between
  two rounds and be restarted from its log, with an empty mailbox.
\<close>

inductive actor_reach :: "'o Outbox \<Rightarrow> 'o outboxEmitter \<Rightarrow> 'o heap_actor \<Rightarrow> bool"
  for ob :: "'o Outbox" and e0 :: "'o outboxEmitter" where
  start: "actor_reach ob e0 (NewSymbolActor NewLevelOrderHeapBook cfg (Some (OpenWrite [] sp n)) out)"
| enqueue: "actor_reach ob e0 a \<Longrightarrow> good_cmd c \<Longrightarrow> TryEnqueue c a = (err, a') \<Longrightarrow> actor_reach ob e0 a'"
| round: "actor_reach ob e0 a \<Longrightarrow>
    actor_round HeapBookAdapter wal_ops ob BinaryCMDCode_Encode e1 a = Ret (None, a') \<Longrightarrow>
    actor_reach ob e0 a'"
| restart: "actor_reach ob e0 a \<Longrightarrow> aWal a = Some w \<Longrightarrow>
    replayCmdWALAndFillOutbox HeapBookAdapter ob BinaryCMDCode_Decode e0 (Some (content w))
      NewLevelOrderHeapBook None 0 = (None, Ret (k, b, None)) \<Longrightarrow>
    actor_reach ob e0 ((NewSymbolActor b cfg (Some (OpenWrite (content w) sp n)) out)\<lparr>aSeq := k\<rparr>)"

lemma OpenWrite_synced: "synced f (OpenWrite f sp n)"
  by (simp add: synced_def OpenWrite_def)

lemma NewSymbolActor_fields [simp]:
  "aWal (NewSymbolActor b cfg w out) = w" "aBook (NewSymbolActor b cfg w out) = b"
  "aIn (NewSymbolActor b cfg w out) = []"
  by (simp_all add: NewSymbolActor_def Let_def)

lemma durable_restart:
  fixes a :: "'o heap_actor"
  assumes d: "durable e0 b0 a" and w: "aWal a = Some w"
    and r: "replayCmdWALAndFillOutbox HeapBookAdapter ob BinaryCMDCode_Decode e0 (Some (content w))
      b0 None 0 = (None, Ret (k, b, None))"
  shows "durable e0 b0 ((NewSymbolActor b cfg (Some (OpenWrite (content w) sp n)) out :: 'o heap_actor)\<lparr>aSeq := k\<rparr>)"
proof -
  have "b = aBook a" using durable_replay[OF d, of ob] w r by auto
  moreover obtain scs where "synced (log_of (cmd_log scs)) w" "\<forall>sc \<in> set scs. good_cmd (snd sc)"
    "heapBook.book_run e0 (map snd scs) b0 = Ret (aBook a)"
    using d w by (auto simp: durable_def)
  ultimately show ?thesis
    using OpenWrite_synced[of "content w" sp n] unfolding durable_def synced_def by (intro exI conjI) auto
qed

lemma reach_durable: "actor_reach ob e0 a \<Longrightarrow> durable e0 NewLevelOrderHeapBook a"
proof (induction rule: actor_reach.induct)
  case (start cfg sp n out)
  show ?case
    unfolding durable_def
    by (intro exI[of _ "OpenWrite [] sp n"] exI[of _ "[]"])
      (simp add: cmd_log_def OpenWrite_synced)
qed (blast intro: durable_enqueue durable_round durable_restart)+


subsection \<open>The engine restarts from the log\<close>

lemma getOrCreate_restores:
  fixes a :: "EventOutbox heap_actor"
  assumes reach: "actor_reach (event_outbox (EvEncode cfg)) (new_emitter (OpenEventOutbox [] None 0) 0 0) a"
    and w: "aWal a = Some w" and e: "engCfg e = cfg" "actors e y = None"
    and cfg: "EnableCmdWAL cfg" "\<not> EnableOutbox cfg" "WALDir cfg \<noteq> []"
      "BookFactory cfg = Some (\<lambda>_. Inr NewLevelOrderHeapBook)" "CmdDecode cfg = BinaryCMDCode_Decode"
    and onDisk: "files e (cmdWalPath join (WALDir cfg) y) = Some (content w)"
  shows "\<exists>a' e'. getOrCreateActor HeapBookAdapter join mk y e = Ret (Inr a', e') \<and>
    aBook a' = aBook a \<and> aIn a' = [] \<and> aWal a' = Some (OpenWrite (content w) None (WALBufSize cfg)) \<and>
    actors e' = (actors e)(y \<mapsto> a')"
proof -
  let ?ob = "event_outbox (EvEncode cfg)"
  obtain k where r: "replayCmdWALAndFillOutbox HeapBookAdapter ?ob BinaryCMDCode_Decode
      (new_emitter (OpenEventOutbox [] None 0) 0 0) (Some (content w)) NewLevelOrderHeapBook None 0 =
      (None, Ret (k, aBook a, None))"
    using durable_replay[OF reach_durable[OF reach], of ?ob] w by auto
  have o: "open_outbox cfg mk p fs = (Inr (0, None), fs)" for p fs
    using cfg(2) by (simp add: open_outbox_def)
  let ?p = "cmdWalPath join (WALDir cfg) y"
  let ?q = "outboxWalPath join (WALDir cfg) y"
  have "getOrCreateActor HeapBookAdapter join mk y e =
      start_actor HeapBookAdapter y ?p ?q 0 None NewLevelOrderHeapBook e"
    using e cfg by (simp add: getOrCreateActor_def o Let_def)
  also have "\<dots> = Ret (finish_actor y ?p ?q None k (aBook a) None e)"
    using e cfg onDisk r by (simp add: start_actor_def)
  finally show ?thesis
    using e cfg onDisk by (simp add: finish_actor_def flush_outbox_def Let_def)
qed

end
