(* ===== verification/Log_Laws.thy ===== *)
theory Log_Laws
  imports Outbox_Log
begin

text \<open>
  Runs of the log writer and reader: what a sequence of appends leaves in the file, and what a
  replay of any prefix of the file, as a crash may leave it, delivers.
\<close>

fun append_all :: "bytes list \<Rightarrow> Writer \<Rightarrow> goerror option \<times> Writer" where
  "append_all [] w = (None, w)"
| "append_all (p # ps) w =
     (case Append p w of (Some e, w1) \<Rightarrow> (Some e, w1) | (None, w1) \<Rightarrow> append_all ps w1)"

lemma append_all_ok: "append_all ps w = (None, w') \<Longrightarrow> taken w' = taken w @ log_of ps"
proof (induction ps arbitrary: w)
  case (Cons p ps)
  then obtain w1 where "Append p w = (None, w1)" "append_all ps w1 = (None, w')"
    by (auto split: prod.splits option.splits)
  then show ?case using Cons.IH[of w1] Append_ok(1)[of p w w1] by simp
qed simp

lemma extends_taken: "extends (content w) (taken w)"
  by (simp add: taken_def)

text \<open>Successful or not, the file holds a prefix of the log.\<close>

lemma append_all_prefix:
  "append_all ps w = (err, w') \<Longrightarrow> extends (content w) (content w') \<and>
     extends (content w') (taken w @ log_of ps)"
proof (induction ps arbitrary: w)
  case Nil
  then show ?case using extends_taken by auto
next
  case (Cons p ps)
  obtain e1 w1 where ap: "Append p w = (e1, w1)" by fastforce
  have pre: "extends (content w) (content w1)" "extends (content w1) (taken w @ record_of p)"
    using Append_prefix[OF ap] .
  show ?case
  proof (cases e1)
    case None
    then have "append_all ps w1 = (err, w')" using Cons.prems ap by simp
    moreover have "taken w1 = taken w @ record_of p" using Append_ok(1) ap None by blast
    ultimately show ?thesis using Cons.IH[of w1] pre(1) extends_trans by auto
  next
    case (Some e)
    then have "w' = w1" using Cons.prems ap by simp
    then show ?thesis using pre extends_trans[OF pre(2), of "taken w @ log_of (p # ps)"]
      by (simp add: extends_def)
  qed
qed

text \<open>The callback that collects the payloads.\<close>

definition collect :: "bytes \<Rightarrow> bytes list \<Rightarrow> goerror option \<times> bytes list" where
  "collect p acc = (None, acc @ [p])"

lemma run_collect: "run_records collect ps acc = (None, acc @ ps)"
  by (induction ps arbitrary: acc) (simp_all add: collect_def)

text \<open>A prefix of a log is some whole records and at most a proper prefix of the next.\<close>

lemma log_prefix:
  "n \<le> length (log_of ps) \<Longrightarrow>
     \<exists>k j. k \<le> length ps \<and> (k < length ps \<longrightarrow> j < length (record_of (ps ! k))) \<and>
       take n (log_of ps) =
         log_of (take k ps) @ (if k < length ps then take j (record_of (ps ! k)) else [])"
proof (induction ps arbitrary: n)
  case (Cons p ps)
  show ?case
  proof (cases "n < length (record_of p)")
    case True
    then show ?thesis by (intro exI[of _ 0] exI[of _ n]) simp
  next
    case False
    have "n - length (record_of p) \<le> length (log_of ps)" using Cons.prems by simp
    from Cons.IH[OF this] obtain k j where kj: "k \<le> length ps" "k < length ps \<longrightarrow> j < length (record_of (ps ! k))"
      "take (n - length (record_of p)) (log_of ps) =
         log_of (take k ps) @ (if k < length ps then take j (record_of (ps ! k)) else [])"
      by blast
    then show ?thesis using False by (intro exI[of _ "Suc k"] exI[of _ j]) simp
  qed
qed simp

lemma replay_prefix:
  assumes fit: "\<forall>p \<in> set ps. fits_in (max_payload m) p" and n: "n \<le> length (log_of ps)"
  shows "\<exists>k st err. Replay (Some (take n (log_of ps))) \<lparr>MaxPayload = m, AllowTruncatedTail = True\<rparr>
      collect [] = (st, err, take k ps) \<and> k \<le> length ps \<and> length (log_of (take k ps)) \<le> n \<and>
    (k < length ps \<longrightarrow> n < length (log_of (take (Suc k) ps))) \<and>
    err = (if n = length (log_of (take k ps)) + 8 then Some io_EOF else None)"
proof -
  obtain k j where k: "k \<le> length ps" "k < length ps \<longrightarrow> j < length (record_of (ps ! k))"
    and t: "take n (log_of ps) =
         log_of (take k ps) @ (if k < length ps then take j (record_of (ps ! k)) else [])"
    using log_prefix[OF n] by blast
  have len: "n = length (log_of (take k ps)) + (if k < length ps then j else 0)"
    using arg_cong[OF t, of length] n k(2) by (auto split: if_splits)
  have fit': "\<forall>p \<in> set (take k ps). fits_in (max_payload m) p" using fit by (auto dest: in_set_takeD)
  note R = replay_loop_log[OF fit' run_collect, of True]
  show ?thesis
  proof (cases "k < length ps")
    case True
    then have q: "fits_in (max_payload m) (ps ! k)" using fit by simp
    have more: "log_of (take (Suc k) ps) = log_of (take k ps) @ record_of (ps ! k)"
      using True by (simp add: take_Suc_conv_app_nth)
    have "\<exists>st. Replay (Some (take n (log_of ps))) \<lparr>MaxPayload = m, AllowTruncatedTail = True\<rparr> collect [] =
        (st, if j = 8 then Some io_EOF else None, take k ps)"
      unfolding t using True k(2) by (simp add: Replay_def R replay_loop_torn[OF q])
    moreover have "n < length (log_of (take (Suc k) ps))"
      using more True k(2) len by simp
    ultimately show ?thesis using True k(1) len by (intro exI[of _ k]) auto
  next
    case False
    then have "k = length ps" "n = length (log_of ps)" using k len by auto
    then show ?thesis using R[of "[]"] by (intro exI[of _ k]) (simp add: Replay_def replay_loop_end)
  qed
qed

end
