(* ===== verification/Engine_Properties.thy ===== *)
theory Engine_Properties
  imports Engine_Recovery Log_Laws
begin

text \<open>
  What the engine around the book does (\<^verbatim>\<open>internal/engine\<close>, \<^verbatim>\<open>pkg/wal\<close>): codecs, log,
  outbox, publisher, actor and engine.
\<close>

subsection \<open>Codecs\<close>

definition sample_cmd :: Command where
  "sample_cmd = empty_Command\<lparr>cType := CmdSubmitLimit, cReqID := 11, cOrderID := 1, cUserID := 7,
     cSide := Sell, cPrice := 100, cQty := 5\<rparr>"

lemma sample_cmd_good: "good_cmd sample_cmd"
  by (simp add: good_cmd_def valid_cmd_def cmd_accepts_def sample_cmd_def empty_Command_def is_i64_def)

text \<open>
  C11. Decoding an encoded command gives the sequence number and the command back; only the cancel
  identity of a submit is not kept.
\<close>

theorem cmd_codec_round:
  assumes "cmd_accepts c"
  shows "\<exists>p. BinaryCMDCode_Encode dst s c = Inr p \<and> length p = cmdRecordLen \<and>
    BinaryCMDCode_Decode p = Inr (s, cmd_keeps c)"
  using cmd_round[OF assms, of dst s] by (auto simp: cmd_layout cmdRecordLen_def)

theorem cmd_codec_round_witness:
  "\<exists>p. BinaryCMDCode_Encode [] 5 sample_cmd = Inr p \<and> BinaryCMDCode_Decode p = Inr (5, sample_cmd)"
proof -
  have "cmd_keeps sample_cmd = sample_cmd"
    by (simp add: cmd_keeps_def sample_cmd_def empty_Command_def)
  moreover have "cmd_accepts sample_cmd" using sample_cmd_good by (simp add: good_cmd_def)
  ultimately show ?thesis using cmd_codec_round[of sample_cmd "[]" 5] by auto
qed

text \<open>C12. Decoding an encoded event gives it back, without its reason.\<close>

theorem ev_codec_round:
  assumes "ev_accepts e"
  shows "\<exists>p. EvCmdCodec_Encode dst e = Inr p \<and> length p = evRecordLen \<and> EvCmdCodec_Decode p = Inr (ev_keeps e)"
  using ev_round[OF assms, of dst] by (auto simp: ev_layout evRecordLen_def)

theorem ev_codec_round_witness:
  "\<exists>p. EvCmdCodec_Encode [] (empty_Event\<lparr>eType := EvTrade, ePrice := - 3, eReason := ''x''\<rparr>) = Inr p \<and>
     EvCmdCodec_Decode p = Inr (empty_Event\<lparr>eType := EvTrade, ePrice := - 3\<rparr>)"
  using ev_codec_round[of "empty_Event\<lparr>eType := EvTrade, ePrice := - 3, eReason := ''x''\<rparr>" "[]"]
  by (auto simp: ev_accepts_def ev_keeps_def is_i64_def empty_Event_def)

subsection \<open>The log\<close>

text \<open>
  C13. A log that was written without an error and flushed is read back whole: \<open>Replay\<close> hands every
  payload to the callback once, in order.
\<close>

theorem wal_round:
  assumes "append_all ps (OpenWrite [] sp buf) = (None, w1)" and "Flush w1 = (None, w2)"
    and "\<forall>p \<in> set ps. fits_in (max_payload m) p"
  shows "\<exists>st. Replay (Some (content w2)) \<lparr>MaxPayload = m, AllowTruncatedTail = a\<rparr> collect [] = (st, None, ps)"
proof -
  have "taken w1 = log_of ps"
    using append_all_ok[OF assms(1)] by (simp add: taken_def OpenWrite_def)
  then have f: "content w2 = log_of ps" using Flush_syncs[OF assms(2)] by (simp add: synced_def)
  show ?thesis unfolding f
    using replay_loop_log[OF assms(3) run_collect, of a "[]"] by (simp add: Replay_def replay_loop_end)
qed

theorem wal_round_witness:
  "\<exists>w1 w2 st. append_all [[1, 2], []] (OpenWrite [] None 0) = (None, w1) \<and> Flush w1 = (None, w2) \<and>
     Replay (Some (content w2)) \<lparr>MaxPayload = 0, AllowTruncatedTail = False\<rparr> collect [] = (st, None, [[1, 2], []])"
proof -
  obtain w1 where w1: "append_all [[1, 2], []] (OpenWrite [] None 0) = (None, w1)" "\<not> werr w1"
    "space w1 = None"
    by (simp add: OpenWrite_def Append_def bufio_Write_def Let_def le32_def)
  obtain w2 where w2: "Flush w1 = (None, w2)"
    using w1(2,3) by (simp add: Flush_def bufio_Flush_def file_write_def fits_def Let_def)
  have "\<forall>p \<in> set [[1, 2], [] :: bytes]. fits_in (max_payload 0) p"
    by (simp add: fits_in_def max_payload_def DefaultMaxPayload_def)
  from wal_round[OF w1(1) w2 this] show ?thesis using w1(1) w2 by blast
qed

text \<open>
  C14. Whatever prefix of a log a crash leaves, replay with a truncated tail allowed delivers
  exactly the records that are whole. It reports no error, except when the cut falls right behind
  the eight header bytes of a record: there it reports \<open>io.EOF\<close> although the tail is just as torn.
\<close>

theorem wal_crash_prefix:
  assumes "\<forall>p \<in> set ps. fits_in (max_payload m) p" and "n \<le> length (log_of ps)"
  shows "\<exists>k st. k \<le> length ps \<and> length (log_of (take k ps)) \<le> n \<and>
    (k < length ps \<longrightarrow> n < length (log_of (take (Suc k) ps))) \<and>
    Replay (Some (take n (log_of ps))) \<lparr>MaxPayload = m, AllowTruncatedTail = True\<rparr> collect [] =
      (st, if n = length (log_of (take k ps)) + 8 then Some io_EOF else None, take k ps)"
  using replay_prefix[OF assms] by blast

theorem wal_crash_prefix_witness:
  "\<exists>st. Replay (Some (take 8 (log_of [[1, 2]]))) \<lparr>MaxPayload = 0, AllowTruncatedTail = True\<rparr> collect [] =
      (st, Some io_EOF, [])"
proof -
  have f: "\<forall>p \<in> set [[1, 2] :: bytes]. fits_in (max_payload 0) p"
    by (simp add: fits_in_def max_payload_def DefaultMaxPayload_def)
  have "(8 :: nat) \<le> length (log_of [[1, 2]])" by simp
  from wal_crash_prefix[OF f this] obtain k st where k: "k \<le> 1" "length (log_of (take k [[1, 2]])) \<le> 8"
    "Replay (Some (take 8 (log_of [[1, 2]]))) \<lparr>MaxPayload = 0, AllowTruncatedTail = True\<rparr> collect [] =
      (st, if 8 = length (log_of (take k [[1, 2]])) + 8 then Some io_EOF else None, take k [[1, 2]])"
    by auto
  have "k = 0" using k(1,2) by (cases k) auto
  then show ?thesis using k(3) by auto
qed

text \<open>
  Failed or not, a sequence of appends leaves a prefix of the log in the file and never
  rewrites what was there.
\<close>

theorem wal_append_prefix:
  assumes "append_all ps (OpenWrite f sp buf) = (err, w)"
  shows "extends f (content w) \<and> extends (content w) (f @ log_of ps)"
  using append_all_prefix[OF assms] by (simp add: taken_def OpenWrite_def)

theorem wal_append_prefix_witness:
  "\<exists>err w. append_all [[1, 2, 3]] (OpenWrite [9] (Some 4) 2) = (err, w) \<and> extends [9] (content w)"
proof -
  obtain err w where "append_all [[1, 2, 3]] (OpenWrite [9] (Some 4) 2) = (err, w)" by fastforce
  from wal_append_prefix[OF this] show ?thesis
    using \<open>append_all [[1, 2, 3]] (OpenWrite [9] (Some 4) 2) = (err, w)\<close> by blast
qed

subsection \<open>Recovery\<close>









definition sample_cfg :: "LevelOrderBookHeap EngineConfig" where
  "sample_cfg = \<lparr>EventBusSize = 0, ActorCfg = \<lparr>MailboxSize = 0, BatchMax = 0\<rparr>,
     BookFactory = Some (\<lambda>_. Inr NewLevelOrderHeapBook), WALDir = ''d'', EnableCmdWAL = True,
     WALBufSize = 0, EnableOutbox = False, OutboxBufSize = 0, EnablePublisher = False,
     CmdDecode = BinaryCMDCode_Decode, EvEncode = EvCmdCodec_Encode, EvDecode = EvCmdCodec_Decode,
     cfgBus = None\<rparr>"


text \<open>
  This needs the commands to be valid: a limit order with a price that is not positive is
  rejected by the running actor, which leaves the book alone, but it has been logged already, and
  the replay submits it to the book.
\<close>

theorem replay_skips_checks:
  assumes "book_rel b ab" and "cType c = CmdSubmitLimit" "cPrice c \<le> 0" "0 < cQty c"
    and "cSide c = Buy \<or> cSide c = Sell"
  shows "apply_command HeapBookAdapter em c b e =
      Ret (False, b, Rejected em (cReqID c) (cOrderID c) (cUserID c) ''bad submit'' e) \<and>
    (\<exists>b' e'. applyCommandToBook HeapBookAdapter c em b e = Ret (b', e') \<and>
      book_rel b' (snd (spec_submit \<lparr>ID = cOrderID c, Side = cSide c, Price = cPrice c, Qty = cQty c,
        UserID = cUserID c\<rparr> ab)))"
proof -
  let ?t = "\<lparr>ID = cOrderID c, Side = cSide c, Price = cPrice c, Qty = cQty c, UserID = cUserID c\<rparr>"
  obtain ts r ab' where m: "spec_match ?t ab = (ts, r, ab')" by (metis prod_cases3)
  show ?thesis
    by (rule adapter_submit[OF assms(1,4,5) refl m, of "cReqID c" em e])
      (use assms in \<open>auto simp: apply_command_def applyCommandToBook_def HeapBookAdapter_def\<close>)
qed

theorem replay_skips_checks_witness:
  "apply_command HeapBookAdapter noopEmitter (sample_cmd\<lparr>cPrice := - 1\<rparr>) NewLevelOrderHeapBook () =
      Ret (False, NewLevelOrderHeapBook, ()) \<and>
   (\<exists>b'. applyCommandToBook HeapBookAdapter (sample_cmd\<lparr>cPrice := - 1\<rparr>) noopEmitter
       NewLevelOrderHeapBook () = Ret (b', ()) \<and>
     book_rel b' \<lparr>aAsks = [\<lparr>ID = 1, Side = Sell, Price = - 1, Qty = 5, UserID = 7\<rparr>], aBids = []\<rparr>)"
proof -
  have "snd (spec_submit \<lparr>ID = 1, Side = Sell, Price = - 1, Qty = 5, UserID = 7\<rparr> empty_abook) =
      \<lparr>aAsks = [\<lparr>ID = 1, Side = Sell, Price = - 1, Qty = 5, UserID = 7\<rparr>], aBids = []\<rparr>"
    by (simp add: spec_submit_def spec_match_def spec_add_def empty_abook_def book_ids_def)
  then show ?thesis
    using replay_skips_checks[OF new_book_rel, of "sample_cmd\<lparr>cPrice := - 1\<rparr>" noopEmitter "()"]
    by (simp add: sample_cmd_def empty_Command_def noopEmitter_def)
qed

text \<open>
  Two flaws of the actor's loop. A cancel of an unknown order is rejected twice, by the adapter
  and by the actor. A command that is rejected as malformed is not followed by an end mark: the
  outbox sees the rejection alone.
\<close>

theorem rejections:
  assumes "book_rel b ab"
  shows "(cType c = CmdCancel \<and> cCancelOrderID c \<noteq> 0 \<and> cCancelOrderID c \<notin> book_ids ab \<longrightarrow>
      apply_command HeapBookAdapter em c b e = Ret (True, b,
        Rejected em (cReqID c) (cCancelOrderID c) 0 ''order not found''
          (Rejected em (cReqID c) (cCancelOrderID c) 0 ''order not found'' e))) \<and>
    (cType c = CmdCancel \<and> cCancelOrderID c = 0 \<longrightarrow>
      apply_batch HeapBookAdapter ob [(c, s)] b o1 = Ret (None, b,
        emOut (out_Rejected ob (cReqID c) 0 0 ''bad cancel'' (new_emitter o1 s (cReqID c)))))"
proof -
  have "Heap_Cancel b i = Ret (False, b)" if "i \<notin> book_ids ab" for i
    using book_rel_ids[OF assms, of i] that by (simp add: Heap_Cancel_def)
  then show ?thesis
    by (auto simp: apply_command_def HeapBookAdapter_def Adapter_Cancel_def outboxEmitter_def)
qed

theorem rejections_witness:
  "apply_command HeapBookAdapter (noopEmitter\<lparr>Rejected := (\<lambda>_ _ _ _ n. n + 1)\<rparr>)
     (empty_Command\<lparr>cType := CmdCancel, cCancelOrderID := 5\<rparr>) NewLevelOrderHeapBook (0 :: nat) =
   Ret (True, NewLevelOrderHeapBook, 2)"
  using rejections[OF new_book_rel, of "empty_Command\<lparr>cType := CmdCancel, cCancelOrderID := 5\<rparr>"
      "noopEmitter\<lparr>Rejected := (\<lambda>_ _ _ _ n. n + 1)\<rparr>" "0 :: nat"]
  by (simp add: empty_Command_def book_ids_def empty_abook_def)

subsection \<open>The outbox\<close>

definition trade_rec :: bytes where
  "trade_rec = binEv.ev_payload [] (empty_Event\<lparr>eType := EvTrade, eSeq := 1\<rparr>)"

definition end_rec :: bytes where
  "end_rec = binEv.ev_payload [] (empty_Event\<lparr>eType := EvCmdEnd, eSeq := 1\<rparr>)"

lemma sample_recs:
  "EvCmdCodec_Decode trade_rec = Inr (empty_Event\<lparr>eType := EvTrade, eSeq := 1\<rparr>)"
  "EvCmdCodec_Decode end_rec = Inr (empty_Event\<lparr>eType := EvCmdEnd, eSeq := 1\<rparr>)"
  "length trade_rec = 68" "length end_rec = 68"
proof -
  have "binEv.ev_payload [] e = [1, eType e] @ le64 (eSeq e) @ le16 (eIdx e) @ le64 (eReqID e) @
      le64 (eOrderID e) @ le64 (eUserID e) @ le64 (eMakerOrderID e) @ le64 (eTakerOrderID e) @
      le64 (u64_of (ePrice e)) @ le64 (u64_of (eQty e))" for e
    by (simp add: binEv.ev_payload_def ev_layout)
  then show "length trade_rec = 68" "length end_rec = 68" by (simp_all add: trade_rec_def end_rec_def)
  show "EvCmdCodec_Decode trade_rec = Inr (empty_Event\<lparr>eType := EvTrade, eSeq := 1\<rparr>)"
    "EvCmdCodec_Decode end_rec = Inr (empty_Event\<lparr>eType := EvCmdEnd, eSeq := 1\<rparr>)"
    unfolding trade_rec_def end_rec_def
    by (subst binEv.Decode_payload; simp add: ev_accepts_def ev_keeps_def empty_Event_def is_i64_def)+
qed

lemma sample_fits: "set ps \<subseteq> {trade_rec, end_rec} \<Longrightarrow> scan_fits ps"
  by (auto simp: scan_fits_def fits_in_def DefaultMaxPayload_def sample_recs)

lemma sample_decodes: "p = trade_rec \<or> p = end_rec \<Longrightarrow> \<exists>ev. EvCmdCodec_Decode p = Inr ev"
  using sample_recs by auto

text \<open>
  Repairing an outbox of whole records finds the last end mark, returns its sequence number
  and cuts the records of the unfinished command behind it - unless there is no end mark at all:
  then nothing is cut.
\<close>

theorem repair_cuts_unfinished:
  assumes "scan_fits (ps @ p # qs)" and "\<forall>r \<in> set (ps @ p # qs). \<exists>ev. d r = Inr ev"
    and "d p = Inr ev" "eType ev = EvCmdEnd" and "\<forall>q \<in> set qs. \<not> is_end d q"
  shows "ScanAndRepairOutbox d (Some (log_of (ps @ p # qs))) =
      (Inr (eSeq ev, int (length (log_of (ps @ [p])))), Some (log_of (ps @ [p]))) \<and>
    ScanAndRepairOutbox d (Some (log_of qs)) = (Inr (0, 0), Some (log_of qs))"
proof -
  have b: "boundary d (ps @ p # qs) 0 0 0 = (eSeq ev, int (length (log_of (ps @ [p]))))"
    using boundary_last[where pos = 0, OF assms(3-5)] by simp
  have l: "log_of (ps @ p # qs) = log_of (ps @ [p]) @ log_of qs" by simp
  have 1: "take (nat (int (length (log_of (ps @ [p]))))) (log_of (ps @ p # qs)) = log_of (ps @ [p])"
    unfolding l nat_int by (simp del: log_of_simps)
  have "scan_fits qs" "\<forall>q \<in> set qs. \<exists>ev. d q = Inr ev" using assms(1,2) by (auto simp: scan_fits_def)
  from repair_log[OF this boundary_none[OF assms(5)]]
  have "ScanAndRepairOutbox d (Some (log_of qs)) = (Inr (0, 0), Some (log_of qs))" by simp
  moreover have "length (log_of (ps @ p # qs)) = length (log_of (ps @ [p])) + length (log_of qs)"
    unfolding l by (simp del: log_of_simps)
  moreover have "0 < length (log_of (ps @ [p]))" by simp
  ultimately show ?thesis using repair_log[OF assms(1,2) b] 1 by (auto simp del: log_of_simps)
qed

theorem repair_cuts_unfinished_witness:
  "ScanAndRepairOutbox EvCmdCodec_Decode (Some (log_of [trade_rec, end_rec, trade_rec])) =
      (Inr (1, 152), Some (log_of [trade_rec, end_rec]))"
proof -
  have "EvCmdEnd \<noteq> EvTrade" by (simp add: EvCmdEnd_def EvTrade_def)
  then have "\<forall>q \<in> set [trade_rec]. \<not> is_end EvCmdCodec_Decode q" by (auto simp: is_end_def sample_recs)
  from repair_cuts_unfinished[OF _ _ sample_recs(2) _ this, of "[trade_rec]"]
  show ?thesis using sample_fits[of "[trade_rec, end_rec, trade_rec]"]
    by (auto simp: sample_recs empty_Event_def)
qed

text \<open>
  An outbox whose last record is torn is not repaired: although the reader was asked to accept
  a truncated tail it never does, so the scan fails and the file stays as it is - the engine
  cannot create the symbol's actor.
\<close>

theorem repair_rejects_torn:
  assumes "scan_fits (ps @ [q])" and "\<forall>p \<in> set ps. \<exists>ev. d p = Inr ev"
    and "0 < k" "k < length (record_of q)" "k \<noteq> 8"
    and "f = log_of ps @ take k (record_of q)"
  shows "ScanAndRepairOutbox d (Some f) = (Inl (if k < 8 then ErrCorruptHeader else ErrCorruptPayload), Some f)"
  by (rule repair_torn[OF assms])

theorem repair_rejects_torn_witness:
  "ScanAndRepairOutbox EvCmdCodec_Decode (Some (log_of [end_rec] @ take 5 (record_of trade_rec))) =
     (Inl ErrCorruptHeader, Some (log_of [end_rec] @ take 5 (record_of trade_rec)))"
  using repair_rejects_torn[of "[end_rec]" trade_rec EvCmdCodec_Decode 5] sample_fits[of "[end_rec, trade_rec]"]
  by (auto simp: sample_recs)

text \<open>
  Different symbols can share their files: the characters outside letters, digits, underscore
  and dash all become underscores, in the log's name and the outbox's.
\<close>

theorem symbols_share_files:
  assumes "list_all2 (\<lambda>x y. x = y \<or> (\<not> safe_char x \<or> x = CHR ''_'') \<and> (\<not> safe_char y \<or> y = CHR ''_'')) s s'"
  shows "cmdWalPath join dir s = cmdWalPath join dir s' \<and> outboxWalPath join dir s = outboxWalPath join dir s' \<and>
    outboxCursorPath join dir s = outboxCursorPath join dir s'"
proof -
  have "safeSym s = safeSym s'" using assms by (induction rule: list_all2_induct) auto
  then show ?thesis
    by (simp add: cmdWalPath_def outboxWalPath_def outboxCursorPath_def cmdWalSym_safeSym)
qed

theorem symbols_share_files_witness:
  "cmdWalPath (@) ''d/'' ''BTC/USDT'' = cmdWalPath (@) ''d/'' ''BTC_USDT''"
proof -
  have "list_all2 (\<lambda>x y. x = y \<or> (\<not> safe_char x \<or> x = CHR ''_'') \<and> (\<not> safe_char y \<or> y = CHR ''_''))
      ''BTC/USDT'' ''BTC_USDT''" by code_simp
  from symbols_share_files[OF this, of "(@)" "''d/''"] show ?thesis by blast
qed

text \<open>The cursor file gives back the offset that was stored last.\<close>

theorem cursor_round_trip:
  assumes "is_i64 off"
  shows "loadCursor (snd (storeCursor None fs path off) path) = off"
  by (rule cursor_round[OF assms])

theorem cursor_round_trip_witness: "loadCursor (snd (storeCursor None (\<lambda>_. None) ''c'' 152) ''c'') = 152"
  by (rule cursor_round_trip) (simp add: is_i64_def)

text \<open>
  As long as the file holds more records the publisher publishes every event once, in order,
  and no end marks.
\<close>

theorem publisher_publishes:
  assumes "scan_fits ps" and "\<forall>p \<in> set ps. \<exists>ev. d p = Inr ev" and "\<forall>ev. pub ev = None"
  shows "bus (publisher_run d pub (replicate (length ps) (log_of ps @ rest))
    (publisher_start (log_of ps @ rest) 0)) = events_of d ps"
proof -
  have s: "pub_at (publisher_start (log_of ps @ rest) 0) (int (length []))"
    "bus (publisher_start (log_of ps @ rest) 0) = []"
    by (simp_all add: publisher_start_def pub_at_def)
  from publisher_run_log[OF s(1) assms, of "log_of ps @ rest" rest] show ?thesis by (simp add: s(2))
qed

theorem publisher_publishes_witness:
  "map eType (bus (publisher_run EvCmdCodec_Decode (\<lambda>_. None) (replicate 3 (log_of [trade_rec, end_rec, trade_rec]))
     (publisher_start (log_of [trade_rec, end_rec, trade_rec]) 0))) = [EvTrade, EvTrade]"
proof -
  have d: "\<forall>p \<in> set [trade_rec, end_rec, trade_rec]. \<exists>ev. EvCmdCodec_Decode p = Inr ev"
    using sample_decodes by auto
  have "EvCmdEnd \<noteq> EvTrade" by (simp add: EvCmdEnd_def EvTrade_def)
  moreover have "scan_fits [trade_rec, end_rec, trade_rec]" by (rule sample_fits) simp
  ultimately show ?thesis
    using publisher_publishes[OF _ d, of "\<lambda>_. None" "[]"]
    by (simp add: sample_recs empty_Event_def numeral_3_eq_3)
qed

text \<open>
  C17. Once the publisher has met the end of the file it is stuck: it closes its reader and never
  opens it again, so whatever the actor appends later is not published and the cursor stands still.
\<close>

theorem publisher_stalls:
  assumes "\<not> pClosed st" and "length f \<le> nat (roff (pReader st))"
  shows "bus (publisher_run d pub (f # fs) st) = bus st \<and> pCursor (publisher_run d pub (f # fs) st) = pCursor st"
proof -
  have "drop (nat (roff (pReader st))) f = []" using assms(2) by simp
  note t = publisher_turn_end[OF assms(1) this, of d pub]
  show ?thesis using publisher_run_stalled[OF t(1,2), of d pub fs] t(3,4) by simp
qed

theorem publisher_stalls_witness:
  "bus (publisher_run EvCmdCodec_Decode (\<lambda>_. None) [[], log_of [trade_rec], log_of [trade_rec]]
     (publisher_start [] 0)) = []"
  using publisher_stalls[of "publisher_start [] 0" "[]" EvCmdCodec_Decode "\<lambda>_. None"
      "[log_of [trade_rec], log_of [trade_rec]]"]
  by (simp add: publisher_start_def)

subsection \<open>The engine\<close>



text \<open>
  \<open>NewEngine\<close> makes no bus: it copies an unexported field of the configuration, which callers
  outside the package cannot set, so \<open>Events\<close> and \<open>DroppedEvents\<close> fail with a nil pointer.
\<close>

theorem engine_has_no_bus:
  assumes "cfgBus cfg = None"
  shows "Events (NewEngine cfg fs) = Panic \<and> DroppedEvents (NewEngine cfg fs) = Panic"
  using assms by (simp add: Events_def DroppedEvents_def NewEngine_def Let_def)

theorem engine_has_no_bus_witness: "Events (NewEngine sample_cfg (\<lambda>_. None)) = Panic"
  using engine_has_no_bus[of sample_cfg "\<lambda>_. None"] by (simp add: sample_cfg_def)

end
