(* ===== verification/Kline_Fixed.thy ===== *)
theory Kline_Fixed
  imports Go_Prelude
begin

text \<open>
  The helpers of \<^verbatim>\<open>internal/quotes/kline/agg.go\<close>: fixed-point decimals and time buckets.
  Strings are ASCII. Every \<open>int64\<close> operation wraps (\<open>i64\<close>).
\<close>

subsection \<open>Decimal digits\<close>

definition is_digit :: "char \<Rightarrow> bool" where
  "is_digit c \<longleftrightarrow> CHR ''0'' \<le> c \<and> c \<le> CHR ''9''"

definition digit_val :: "char \<Rightarrow> int" where
  "digit_val c = int (of_char c) - 48"

definition digit :: "nat \<Rightarrow> char" where
  "digit n = char_of (48 + n)"

lemma digit_facts:
  assumes "n < 10"
  shows "is_digit (digit n)" "digit_val (digit n) = int n"
proof -
  have "of_char (digit n) = (48 + n :: nat)" using assms by (simp add: digit_def)
  then show "is_digit (digit n)" "digit_val (digit n) = int n"
    using assms by (simp_all add: is_digit_def digit_val_def less_eq_char_def)
qed

lemma not_digits: "\<not> is_digit (CHR ''.'')" "\<not> is_digit (CHR ''-'')" "\<not> is_digit (CHR '' '')"
  by (simp_all add: is_digit_def less_eq_char_def)

text \<open>What \<open>fmt\<close> prints for a number that is not negative, and with zeros to a width.\<close>

fun decimal :: "nat \<Rightarrow> string" where
  "decimal n = (if n < 10 then [digit n] else decimal (n div 10) @ [digit (n mod 10)])"

declare decimal.simps [simp del]

definition fmt_d :: "int \<Rightarrow> string" where
  "fmt_d x = (if x < 0 then CHR ''-'' # decimal (nat (- x)) else decimal (nat x))"

definition fmt_0d :: "nat \<Rightarrow> int \<Rightarrow> string" where
  "fmt_0d w x =
     (if x < 0 then (let s = decimal (nat (- x)) in CHR ''-'' # replicate (w - 1 - length s) (CHR ''0'') @ s)
      else (let s = decimal (nat x) in replicate (w - length s) (CHR ''0'') @ s))"

text \<open>The number a string of digits stands for.\<close>

definition number :: "string \<Rightarrow> int \<Rightarrow> int" where
  "number s a = foldl (\<lambda>a c. a * 10 + digit_val c) a s"

lemma number_simps [simp]:
  "number [] a = a" "number (c # s) a = number s (a * 10 + digit_val c)"
  "number (s @ [c]) a = number s a * 10 + digit_val c"
  by (simp_all add: number_def)

lemma decimal_digits: "\<forall>c \<in> set (decimal n). is_digit c"
  by (induction n rule: decimal.induct) (subst decimal.simps, auto simp: digit_facts)

lemma decimal_Nil: "decimal n \<noteq> []"
  by (subst decimal.simps) simp

lemma number_decimal: "number (decimal n) 0 = int n"
proof (induction n rule: decimal.induct)
  case (1 n)
  then show ?case
    by (cases "n < 10") (subst decimal.simps, simp add: digit_facts zdiv_int zmod_int)+
qed

text \<open>A printed number ends at the first colon: it can be read back.\<close>

lemma prefix_until:
  assumes "c \<notin> set xs" and "c \<notin> set ys" and "xs @ c # us = ys @ c # vs"
  shows "xs = ys \<and> us = vs"
  using assms
proof (induction xs arbitrary: ys)
  case Nil
  then show ?case by (cases ys) auto
next
  case (Cons x xs)
  then show ?case by (cases ys) auto
qed

lemma decimal_inj: "decimal a = decimal b \<Longrightarrow> a = b"
  by (metis number_decimal of_nat_eq_iff)

lemma decimal_no_colon: "CHR '':'' \<notin> set (decimal n)"
  using decimal_digits[of n] by (auto simp: is_digit_def less_eq_char_def)

lemma length_decimal: "n < 10 ^ k \<Longrightarrow> 0 < k \<Longrightarrow> length (decimal n) \<le> k"
proof (induction n arbitrary: k rule: decimal.induct)
  case (1 n)
  show ?case
  proof (cases "n < 10")
    case True
    then show ?thesis using "1.prems" by (subst decimal.simps) simp
  next
    case False
    then obtain j where k: "k = Suc j" "0 < j" using "1.prems" by (cases k; cases "k - 1") auto
    then have "n div 10 < 10 ^ j" using "1.prems" by (simp add: less_mult_imp_div_less mult.commute)
    then show ?thesis using "1.IH"[OF False _ k(2)] False k by (subst decimal.simps) simp
  qed
qed

lemma number_zeros: "number (replicate k (CHR ''0'') @ s) 0 = number s 0"
  by (induction k) (simp_all add: digit_val_def)

subsection \<open>Fixed-point numbers\<close>

definition Scale :: int where "Scale = 100000000"

definition is_space :: "char \<Rightarrow> bool" where
  "is_space c \<longleftrightarrow> c = CHR '' '' \<or> (CHR 0x09 \<le> c \<and> c \<le> CHR 0x0D)"

definition TrimSpace :: "string \<Rightarrow> string" where
  "TrimSpace s = rev (dropWhile is_space (rev (dropWhile is_space s)))"

text \<open>The loop over the integer part.\<close>

fun parse_int :: "string \<Rightarrow> int \<Rightarrow> int option" where
  "parse_int [] ip = Some ip"
| "parse_int (c # cs) ip =
     (if is_digit c then parse_int cs (i64 (i64 (ip * 10) + digit_val c)) else None)"

text \<open>The loop over at most eight fraction digits, and the one that fills up with zeros.\<close>

fun parse_frac :: "string \<Rightarrow> int \<Rightarrow> nat \<Rightarrow> (int \<times> nat) option" where
  "parse_frac [] fp d = Some (fp, d)"
| "parse_frac (c # cs) fp d =
     (if d < 8 then
        if is_digit c then parse_frac cs (i64 (i64 (fp * 10) + digit_val c)) (d + 1) else None
      else Some (fp, d))"

function pad_frac :: "int \<Rightarrow> nat \<Rightarrow> int" where
  "pad_frac fp d = (if d < 8 then pad_frac (i64 (fp * 10)) (d + 1) else fp)"
  by pat_completeness auto
termination by (relation "measure (\<lambda>(fp, d). 8 - d)") auto

declare pad_frac.simps [simp del]

definition ParseFixed :: "string \<Rightarrow> int \<times> bool" where
  "ParseFixed s0 =
     (let s = TrimSpace s0
      in if s = [] then (0, False)
         else let neg = (hd s = CHR ''-'');
                  s1 = (if neg then tl s else s);
                  intPart = takeWhile (\<lambda>c. c \<noteq> CHR ''.'') s1;
                  fracPart = tl (dropWhile (\<lambda>c. c \<noteq> CHR ''.'') s1)
              in case parse_int intPart 0 of
                   None \<Rightarrow> (0, False)
                 | Some ip \<Rightarrow>
                     (case parse_frac fracPart 0 0 of
                        None \<Rightarrow> (0, False)
                      | Some (fp, d) \<Rightarrow>
                          let val = i64 (i64 (ip * Scale) + pad_frac fp d)
                          in (if neg then i64 (- val) else val, True)))"

definition FormatFixed :: "int \<Rightarrow> string" where
  "FormatFixed v0 =
     (let neg = v0 < 0;
          v = (if neg then i64 (- v0) else v0);
          s = fmt_d (go_div v Scale) @ CHR ''.'' # fmt_0d 8 (go_mod v Scale)
      in if neg then CHR ''-'' # s else s)"

subsection \<open>Parsing what was printed\<close>

lemma i64_add: "i64 (i64 x + y) = i64 (x + y)"
  by (simp add: i64_def algebra_simps mod_simps)

lemma i64_add2: "i64 (x + i64 y) = i64 (x + y)"
  using i64_add[of y x] by (simp add: add.commute)

text \<open>Numbers that are equal modulo \<open>2 ^ 64\<close> wrap to the same value.\<close>

lemma i64_eq: "i64 x = i64 y \<longleftrightarrow> x mod 2 ^ 64 = y mod 2 ^ 64"
proof
  assume "i64 x = i64 y"
  then have "(x + 2 ^ 63) mod 2 ^ 64 = (y + 2 ^ 63) mod 2 ^ 64" by (simp add: i64_def)
  then have "(x + 2 ^ 63 - 2 ^ 63) mod 2 ^ 64 = (y + 2 ^ 63 - 2 ^ 63) mod 2 ^ 64" by (rule mod_diff_cong) (rule refl)
  then show "x mod 2 ^ 64 = y mod 2 ^ 64" by (simp only: add_diff_cancel)
next
  assume "x mod 2 ^ 64 = y mod 2 ^ 64"
  then have "(x + 2 ^ 63) mod 2 ^ 64 = (y + 2 ^ 63) mod 2 ^ 64" by (rule mod_add_cong) (rule refl)
  then show "i64 x = i64 y" by (simp add: i64_def)
qed

lemma i64_mod: "i64 x mod 2 ^ 64 = x mod 2 ^ 64"
  using i64_eq[of "i64 x" x] i64_id[OF is_i64_i64] by blast

lemma i64_mult: "i64 (i64 x * y) = i64 (x * y)"
  unfolding i64_eq by (rule mod_mult_cong[OF i64_mod refl])

lemma i64_minus: "i64 (- i64 x) = i64 (- x)"
  using i64_mult[of x "- 1"] by simp

lemma small_is_i64: "0 \<le> z \<Longrightarrow> z < 2 ^ 61 \<Longrightarrow> \<bar>y\<bar> < 2 ^ 61 \<Longrightarrow> is_i64 z \<and> is_i64 (z - y)"
  by (simp add: is_i64_def) linarith

lemma i64_idem [simp]: "i64 (i64 x) = i64 x"
  by (rule i64_id[OF is_i64_i64])

lemma parse_int_number:
  "\<forall>c \<in> set s. is_digit c \<Longrightarrow> parse_int s (i64 a) = Some (i64 (number s a))"
proof (induction s arbitrary: a)
  case (Cons c s)
  have "i64 (i64 (i64 a * 10) + digit_val c) = i64 (a * 10 + digit_val c)"
    by (simp add: i64_add i64_mult)
  then show ?case using Cons by simp
qed simp

lemma parse_frac_number:
  "\<forall>c \<in> set s. is_digit c \<Longrightarrow> d + length s \<le> 8 \<Longrightarrow>
     parse_frac s (i64 a) d = Some (i64 (number s a), d + length s)"
proof (induction s arbitrary: a d)
  case (Cons c s)
  have "i64 (i64 (i64 a * 10) + digit_val c) = i64 (a * 10 + digit_val c)"
    by (simp add: i64_add i64_mult)
  then show ?case using Cons by simp
qed simp

lemma TrimSpace_id: "s \<noteq> [] \<Longrightarrow> \<not> is_space (hd s) \<Longrightarrow> \<not> is_space (last s) \<Longrightarrow> TrimSpace s = s"
proof -
  assume s: "s \<noteq> []" "\<not> is_space (hd s)" "\<not> is_space (last s)"
  have "dropWhile is_space s = s" using s(1,2) by (cases s) auto
  moreover have "dropWhile is_space (rev s) = rev s" using s(1,3) by (cases s rule: rev_cases) auto
  ultimately show "TrimSpace s = s" by (simp add: TrimSpace_def)
qed

lemma digit_not_space: "is_digit c \<Longrightarrow> \<not> is_space c"
  by (auto simp: is_digit_def is_space_def less_eq_char_def)

lemma fmt_0d_8:
  assumes "0 \<le> x" "x < Scale"
  shows "length (fmt_0d 8 x) = 8" "\<forall>c \<in> set (fmt_0d 8 x). is_digit c" "number (fmt_0d 8 x) 0 = x"
proof -
  have "length (decimal (nat x)) \<le> 8" by (rule length_decimal) (use assms in \<open>simp_all add: Scale_def nat_less_iff\<close>)
  moreover have "is_digit (CHR ''0'')" by (simp add: is_digit_def)
  ultimately show "length (fmt_0d 8 x) = 8" "\<forall>c \<in> set (fmt_0d 8 x). is_digit c" "number (fmt_0d 8 x) 0 = x"
    using assms decimal_digits by (auto simp: fmt_0d_def Let_def number_zeros number_decimal)
qed

text \<open>Parsing an unsigned fixed-point number.\<close>

lemma parse_unsigned:
  assumes s: "s = ds @ CHR ''.'' # fs" and ds: "ds \<noteq> []" "\<forall>c \<in> set ds. is_digit c"
    and fs: "length fs = 8" "\<forall>c \<in> set fs. is_digit c"
  shows "ParseFixed s = (i64 (number ds 0 * Scale + number fs 0), True)"
    and "ParseFixed (CHR ''-'' # s) = (i64 (- (number ds 0 * Scale + number fs 0)), True)"
proof -
  have nd: "\<forall>c \<in> set ds. c \<noteq> CHR ''.''" using ds(2) not_digits by metis
  have tk: "takeWhile (\<lambda>c. c \<noteq> CHR ''.'') s = ds" "dropWhile (\<lambda>c. c \<noteq> CHR ''.'') s = CHR ''.'' # fs"
    using nd by (simp_all add: s takeWhile_append2 dropWhile_append2)
  have fs': "fs \<noteq> []" using fs(1) by auto
  have sp: "\<not> is_space (CHR ''-'')" by (simp add: is_space_def less_eq_char_def)
  have l: "last s = last fs" "hd s = hd ds" using fs' ds(1) by (simp_all add: s)
  have ns: "\<not> is_space (last s)" "\<not> is_space (hd s)" "hd s \<noteq> CHR ''-''" "s \<noteq> []"
    using l ds fs fs' digit_not_space not_digits last_in_set hd_in_set s by (metis append_is_Nil_conv)+
  have t: "TrimSpace s = s" "TrimSpace (CHR ''-'' # s) = CHR ''-'' # s"
    by (rule TrimSpace_id; use ns sp in simp)+
  have p: "parse_int ds 0 = Some (i64 (number ds 0))" "parse_frac fs 0 0 = Some (i64 (number fs 0), 8)"
    using parse_int_number[OF ds(2), of 0] parse_frac_number[OF fs(2), of 0 0] fs(1) by (simp_all add: i64_def)
  have v: "i64 (i64 (i64 x * Scale) + i64 y) = i64 (x * Scale + y)" for x y
    by (simp add: i64_add i64_add2 i64_mult)
  have v2: "i64 (- (i64 (i64 x * Scale) + i64 y)) = i64 (- (x * Scale + y))" for x y
    by (metis i64_minus v)
  have pf: "pad_frac f 8 = f" for f by (simp add: pad_frac.simps)
  show "ParseFixed s = (i64 (number ds 0 * Scale + number fs 0), True)"
    unfolding ParseFixed_def t Let_def using ns tk p v by (simp add: pf)
  show "ParseFixed (CHR ''-'' # s) = (i64 (- (number ds 0 * Scale + number fs 0)), True)"
    unfolding ParseFixed_def t Let_def using ns tk p
    by (simp add: pf v v2 i64_minus del: minus_add_distrib)
qed

lemma parse_format:
  assumes "is_i64 v" and "v \<noteq> - (2 ^ 63)"
  shows "ParseFixed (FormatFixed v) = (v, True)"
proof -
  let ?a = "\<bar>v\<bar>"
  have a: "is_i64 ?a" "0 \<le> ?a" using assms by (auto simp: is_i64_def)
  have dm: "go_div ?a Scale = ?a div Scale" "go_mod ?a Scale = ?a mod Scale"
    using a(2) by (simp_all add: go_div_nonneg go_mod_nonneg Scale_def)
  let ?ds = "decimal (nat (?a div Scale))"
  let ?fs = "fmt_0d 8 (?a mod Scale)"
  let ?s = "?ds @ CHR ''.'' # ?fs"
  have f: "length ?fs = 8" "\<forall>c \<in> set ?fs. is_digit c" "number ?fs 0 = ?a mod Scale"
    by (rule fmt_0d_8; simp add: Scale_def)+
  have n: "number ?ds 0 = ?a div Scale"
    using a(2) by (simp add: number_decimal pos_imp_zdiv_nonneg_iff Scale_def)
  have v: "number ?ds 0 * Scale + number ?fs 0 = ?a" by (simp add: n f(3))
  have F: "FormatFixed v = (if v < 0 then CHR ''-'' # ?s else ?s)"
    using a dm by (auto simp: FormatFixed_def Let_def i64_id fmt_d_def abs_if Scale_def
        pos_imp_zdiv_neg_iff)
  have P: "ParseFixed ?s = (i64 ?a, True)" "ParseFixed (CHR ''-'' # ?s) = (i64 (- ?a), True)"
    using parse_unsigned[OF refl decimal_Nil decimal_digits f(1,2), of "nat (?a div Scale)"] v
    by (simp_all only:)
  show ?thesis
  proof (cases "v < 0")
    case True
    then show ?thesis using P(2) F assms(1) by (simp add: i64_id)
  next
    case False
    then show ?thesis using P(1) F assms(1) by (simp add: i64_id)
  qed
qed

subsection \<open>Buckets\<close>

definition bucketStartMs :: "int \<Rightarrow> int \<Rightarrow> int \<Rightarrow> int go" where
  "bucketStartMs tsMs intervalMs offsetMs =
     (let x = i64 (tsMs + offsetMs)
      in if intervalMs = 0 then Panic
         else Ret (i64 (i64 (i64 (go_div x intervalMs) * intervalMs) - offsetMs)))"

text \<open>Times and periods for which nothing overflows and the division rounds down.\<close>

definition in_range :: "int \<Rightarrow> int \<Rightarrow> int \<Rightarrow> bool" where
  "in_range iv off ts \<longleftrightarrow> 0 < iv \<and> iv < 2 ^ 61 \<and> \<bar>off\<bar> < 2 ^ 61 \<and> 0 \<le> ts + off \<and> ts + off < 2 ^ 61"

definition bucket :: "int \<Rightarrow> int \<Rightarrow> int \<Rightarrow> int" where
  "bucket iv off ts = (ts + off) div iv * iv - off"

lemma bucketStartMs_eq:
  assumes "in_range iv off ts"
  shows "bucketStartMs ts iv off = Ret (bucket iv off ts)"
proof -
  have r: "0 < iv" "0 \<le> ts + off" "ts + off < 2 ^ 61" "\<bar>off\<bar> < 2 ^ 61" using assms by (auto simp: in_range_def)
  have x: "i64 (ts + off) = ts + off" using r by (intro i64_id) (simp add: is_i64_def)
  have d: "0 \<le> (ts + off) div iv" "0 \<le> (ts + off) div iv * iv" "(ts + off) div iv * iv \<le> ts + off"
    using r by (simp_all add: pos_imp_zdiv_nonneg_iff) (smt (verit) minus_mod_eq_div_mult pos_mod_sign)
  have "(ts + off) div iv \<le> ts + off"
    using r d by (smt (verit) div_by_1 zdiv_mono2)
  then have "i64 ((ts + off) div iv) = (ts + off) div iv"
    using d r by (intro i64_id) (simp add: is_i64_def)
  moreover have "i64 ((ts + off) div iv * iv) = (ts + off) div iv * iv"
    "i64 ((ts + off) div iv * iv - off) = (ts + off) div iv * iv - off"
    using small_is_i64[OF d(2), of off] d(3) r by (simp_all add: i64_id)
  ultimately show ?thesis using r x by (simp add: bucketStartMs_def bucket_def go_div_nonneg Let_def)
qed

lemma bucket_bounds:
  assumes "0 < iv" shows "bucket iv off ts \<le> ts" "ts < bucket iv off ts + iv"
proof -
  have "(ts + off) div iv * iv = ts + off - (ts + off) mod iv" by (simp add: minus_mod_eq_div_mult)
  then show "bucket iv off ts \<le> ts" "ts < bucket iv off ts + iv"
    using pos_mod_sign[OF assms, of "ts + off"] pos_mod_bound[OF assms, of "ts + off"]
    by (simp_all add: bucket_def)
qed

lemma bucket_mono: "0 < iv \<Longrightarrow> s \<le> t \<Longrightarrow> bucket iv off s \<le> bucket iv off t"
  by (simp add: bucket_def zdiv_mono1)

text \<open>Bucket starts lie on a grid.\<close>

lemma bucket_grid:
  assumes "0 < iv" and "bucket iv off s < bucket iv off t"
  shows "\<exists>k. 0 < k \<and> bucket iv off t = bucket iv off s + int k * iv"
proof -
  let ?d = "(t + off) div iv - (s + off) div iv"
  have eq: "bucket iv off t = bucket iv off s + ?d * iv" by (simp add: bucket_def algebra_simps)
  then have "0 < ?d * iv" using assms(2) by simp
  then have "0 < ?d" using assms(1) by (simp add: zero_less_mult_iff)
  then show ?thesis using eq by (intro exI[of _ "nat ?d"]) auto
qed

lemma bucket_idem: "0 < iv \<Longrightarrow> bucket iv off (bucket iv off t) = bucket iv off t"
  by (simp add: bucket_def)

end
