(* ===== verification/Kline_Agg.thy ===== *)
theory Kline_Agg
  imports Kline_Fixed Go_Map
begin

text \<open>
  \<^verbatim>\<open>internal/quotes/kline/agg.go\<close>: candlestick bars built from trades
  (\<open>TradeAgg\<close>, with a window for late trades) and from smaller bars (\<open>RollupAgg\<close>, optionally
  filling gaps). The callback \<open>emit\<close> acts on a state of the caller's choice and may panic.
\<close>

subsection \<open>Data\<close>

record MdTrade =
  Src :: string
  Symbol :: string
  Base :: string
  Quote :: string
  PriceStr :: string
  SizeStr :: string
  MakerSide :: uint8
  TsUnixMs :: int
  TradeID :: string

record Bar =
  bSymbol :: string
  bInterval :: int
  bTF :: string
  bStartMs :: int
  bEndMs :: int
  bOpen :: int
  bHigh :: int
  bLow :: int
  bClose :: int
  bVolume :: int
  bCount :: int

definition Millisecond :: int where "Millisecond = 1000000"

record symState =
  latestTsMs :: int
  sbars :: "(int, Bar) gomap"
  lastEmittedStartMs :: int
  hasEmitted :: bool

record TradeAgg =
  intervalMs :: int
  offsetMs :: int
  reorderWindowMs :: int
  syms :: "(string, symState) gomap"
  lateDrops :: int

definition NewTradeAggReorder :: "int \<Rightarrow> int \<Rightarrow> int \<Rightarrow> TradeAgg" where
  "NewTradeAggReorder interval tzOffset reorderWindow =
     \<lparr>intervalMs = go_div interval Millisecond, offsetMs = go_div tzOffset Millisecond,
      reorderWindowMs = go_div reorderWindow Millisecond, syms = [], lateDrops = 0\<rparr>"

definition NewTradeAgg :: "int \<Rightarrow> int \<Rightarrow> TradeAgg" where
  "NewTradeAgg interval tzOffset = NewTradeAggReorder interval tzOffset 0"

definition new_symState :: symState where
  "new_symState = \<lparr>latestTsMs = 0, sbars = [], lastEmittedStartMs = 0, hasEmitted = False\<rparr>"

subsection \<open>Insertion sort\<close>

text \<open>The inner loop: \<open>j\<close> is the code's \<open>j + 1\<close>, the hole that moves to the left.\<close>

fun shift :: "int list \<Rightarrow> int \<Rightarrow> nat \<Rightarrow> int list" where
  "shift a x 0 = a[0 := x]"
| "shift a x (Suc j) = (if a ! j > x then shift (a[Suc j := a ! j]) x j else a[Suc j := x])"

fun sort_from :: "nat list \<Rightarrow> int list \<Rightarrow> int list" where
  "sort_from [] a = a"
| "sort_from (i # is) a = sort_from is (shift a (a ! i) i)"

definition insertion_sort :: "int list \<Rightarrow> int list" where
  "insertion_sort a = sort_from [1..<length a] a"

subsection \<open>Emitting bars\<close>

fun emit_loop :: "(Bar \<Rightarrow> 'e \<Rightarrow> 'e go) \<Rightarrow> int list \<Rightarrow> symState \<Rightarrow> 'e \<Rightarrow> (symState \<times> 'e) go" where
  "emit_loop emit [] st e = Ret (st, e)"
| "emit_loop emit (start # ss) st e =
     (case map_get (sbars st) start of
        None \<Rightarrow> emit_loop emit ss st e
      | Some b \<Rightarrow>
          andThen (emit b e) (\<lambda>e1.
            emit_loop emit ss
              (st\<lparr>sbars := map_delete (sbars st) start, lastEmittedStartMs := start, hasEmitted := True\<rparr>) e1))"

definition emitReady :: "(Bar \<Rightarrow> 'e \<Rightarrow> 'e go) \<Rightarrow> symState \<Rightarrow> int \<Rightarrow> 'e \<Rightarrow> (symState \<times> 'e) go" where
  "emitReady emit st watermarkMs e =
     (let ready = [start. (start, b) \<leftarrow> sbars st,
                    \<not> (hasEmitted st \<and> start \<le> lastEmittedStartMs st), bEndMs b \<le> watermarkMs]
      in if ready = [] then Ret (st, e) else emit_loop emit (insertion_sort ready) st e)"

text \<open>Adding a trade to the bar of its bucket.\<close>

definition add_to_bar :: "string \<Rightarrow> int \<Rightarrow> int \<Rightarrow> int \<Rightarrow> int \<Rightarrow> int \<Rightarrow> Bar option \<Rightarrow> Bar" where
  "add_to_bar symbol iv bs be pr sz old =
     (case old of
        None \<Rightarrow> \<lparr>bSymbol = symbol, bInterval = i64 (iv * Millisecond), bTF = '''', bStartMs = bs, bEndMs = be,
                 bOpen = pr, bHigh = pr, bLow = pr, bClose = pr, bVolume = sz, bCount = 1\<rparr>
      | Some b0 \<Rightarrow>
          let b1 = (if pr > bHigh b0 then b0\<lparr>bHigh := pr\<rparr> else b0);
              b2 = (if pr < bLow b1 then b1\<lparr>bLow := pr\<rparr> else b1)
          in b2\<lparr>bClose := pr, bVolume := i64 (bVolume b2 + sz), bCount := i64 (bCount b2 + 1)\<rparr>)"

definition OfferTrade :: "(Bar \<Rightarrow> 'e \<Rightarrow> 'e go) \<Rightarrow> TradeAgg \<Rightarrow> MdTrade \<Rightarrow> 'e \<Rightarrow> (TradeAgg \<times> 'e) go" where
  "OfferTrade emit a t e =
     (let (pr, okp) = ParseFixed (PriceStr t); (sz, oks) = ParseFixed (SizeStr t)
      in if \<not> okp then Ret (a, e)
         else if \<not> oks then Ret (a, e)
         else
           let st0 = (case map_get (syms a) (Symbol t) of Some st \<Rightarrow> st | None \<Rightarrow> new_symState);
               st = (if TsUnixMs t > latestTsMs st0 then st0\<lparr>latestTsMs := TsUnixMs t\<rparr> else st0);
               watermark = i64 (latestTsMs st - reorderWindowMs a)
           in if reorderWindowMs a > 0 \<and> TsUnixMs t < watermark then
                andThen (emitReady emit st watermark e) (\<lambda>(st1, e1).
                  Ret (a\<lparr>syms := map_set (syms a) (Symbol t) st1, lateDrops := i64 (lateDrops a + 1)\<rparr>, e1))
              else
                andThen (bucketStartMs (TsUnixMs t) (intervalMs a) (offsetMs a)) (\<lambda>bs.
                  let b = add_to_bar (Symbol t) (intervalMs a) bs (i64 (bs + intervalMs a)) pr sz
                            (map_get (sbars st) bs);
                      st1 = st\<lparr>sbars := map_set (sbars st) bs b\<rparr>
                  in andThen (emitReady emit st1 watermark e) (\<lambda>(st2, e1).
                       Ret (a\<lparr>syms := map_set (syms a) (Symbol t) st2\<rparr>, e1))))"

fun flush_loop :: "(Bar \<Rightarrow> 'e \<Rightarrow> 'e go) \<Rightarrow> int list \<Rightarrow> symState \<Rightarrow> 'e \<Rightarrow> (symState \<times> 'e) go" where
  "flush_loop emit [] st e = Ret (st, e)"
| "flush_loop emit (start # ss) st e =
     (case map_get (sbars st) start of
        None \<Rightarrow> flush_loop emit ss st e
      | Some b \<Rightarrow>
          if bCount b > 0 then
            andThen (emit b e) (flush_loop emit ss (st\<lparr>lastEmittedStartMs := start, hasEmitted := True\<rparr>))
          else flush_loop emit ss st e)"

definition flush_sym :: "(Bar \<Rightarrow> 'e \<Rightarrow> 'e go) \<Rightarrow> symState \<Rightarrow> 'e \<Rightarrow> (symState \<times> 'e) go" where
  "flush_sym emit st e =
     (let ks = [start. (start, b) \<leftarrow> sbars st, \<not> (hasEmitted st \<and> start \<le> lastEmittedStartMs st)]
      in andThen (flush_loop emit (insertion_sort ks) st e) (\<lambda>(st1, e1). Ret (st1\<lparr>sbars := []\<rparr>, e1)))"

fun flush_syms :: "(Bar \<Rightarrow> 'e \<Rightarrow> 'e go) \<Rightarrow> (string, symState) gomap \<Rightarrow> 'e \<Rightarrow>
    ((string, symState) gomap \<times> 'e) go" where
  "flush_syms emit [] e = Ret ([], e)"
| "flush_syms emit ((y, st) # m) e =
     andThen (flush_sym emit st e) (\<lambda>(st1, e1).
       andThen (flush_syms emit m e1) (\<lambda>(m1, e2). Ret ((y, st1) # m1, e2)))"

definition TradeAgg_Flush :: "(Bar \<Rightarrow> 'e \<Rightarrow> 'e go) \<Rightarrow> TradeAgg \<Rightarrow> 'e \<Rightarrow> (TradeAgg \<times> 'e) go" where
  "TradeAgg_Flush emit a e = andThen (flush_syms emit (syms a) e) (\<lambda>(m, e1). Ret (a\<lparr>syms := m\<rparr>, e1))"

subsection \<open>Rolling up\<close>

record RollupAgg =
  rIntervalMs :: int
  rOffsetMs :: int
  cur :: "(string, Bar) gomap"
  fillGaps :: bool
  lastClose :: "string \<Rightarrow> int"
  hasClose :: "string \<Rightarrow> bool"

definition NewRollupAggFill :: "int \<Rightarrow> int \<Rightarrow> bool \<Rightarrow> RollupAgg" where
  "NewRollupAggFill interval tzOffset fill =
     \<lparr>rIntervalMs = go_div interval Millisecond, rOffsetMs = go_div tzOffset Millisecond, cur = [],
      fillGaps = fill, lastClose = (\<lambda>_. 0), hasClose = (\<lambda>_. False)\<rparr>"

definition NewRollupAgg :: "int \<Rightarrow> int \<Rightarrow> RollupAgg" where
  "NewRollupAgg interval tzOffset = NewRollupAggFill interval tzOffset False"

text \<open>The bar a child opens, and an empty bar at the last close.\<close>

definition open_bar :: "int \<Rightarrow> int \<Rightarrow> int \<Rightarrow> Bar \<Rightarrow> Bar" where
  "open_bar iv bs be child =
     \<lparr>bSymbol = bSymbol child, bInterval = i64 (iv * Millisecond), bTF = '''', bStartMs = bs, bEndMs = be,
      bOpen = bOpen child, bHigh = bHigh child, bLow = bLow child, bClose = bClose child,
      bVolume = bVolume child, bCount = 1\<rparr>"

definition empty_bar :: "string \<Rightarrow> int \<Rightarrow> int \<Rightarrow> int \<Rightarrow> Bar" where
  "empty_bar symbol iv start close =
     \<lparr>bSymbol = symbol, bInterval = i64 (iv * Millisecond), bTF = '''', bStartMs = start,
      bEndMs = i64 (start + iv), bOpen = close, bHigh = close, bLow = close, bClose = close,
      bVolume = 0, bCount = 0\<rparr>"

text \<open>The gap loop; its fuel is the number of buckets between the two starts.\<close>

fun fill_gap :: "nat \<Rightarrow> (Bar \<Rightarrow> 'e \<Rightarrow> 'e go) \<Rightarrow> string \<Rightarrow> int \<Rightarrow> int \<Rightarrow> int \<Rightarrow> int \<Rightarrow> 'e \<Rightarrow> 'e go" where
  "fill_gap 0 emit symbol iv close nxt bs e = Hang"
| "fill_gap (Suc k) emit symbol iv close nxt bs e =
     (if nxt < bs then
        andThen (emit (empty_bar symbol iv nxt close) e)
          (fill_gap k emit symbol iv close (i64 (nxt + iv)) bs)
      else Ret e)"

definition gap_fuel :: "int \<Rightarrow> int \<Rightarrow> int \<Rightarrow> nat" where
  "gap_fuel iv start bs = Suc (nat ((bs - start) div iv))"

definition merge_bar :: "Bar \<Rightarrow> Bar \<Rightarrow> Bar" where
  "merge_bar cb child =
     (let c1 = (if bHigh child > bHigh cb then cb\<lparr>bHigh := bHigh child\<rparr> else cb);
          c2 = (if bLow child < bLow c1 then c1\<lparr>bLow := bLow child\<rparr> else c1)
      in c2\<lparr>bClose := bClose child, bVolume := i64 (bVolume c2 + bVolume child),
            bCount := i64 (bCount c2 + 1)\<rparr>)"

definition OfferBar :: "(Bar \<Rightarrow> 'e \<Rightarrow> 'e go) \<Rightarrow> RollupAgg \<Rightarrow> Bar \<Rightarrow> 'e \<Rightarrow> (RollupAgg \<times> 'e) go" where
  "OfferBar emit a child e =
     andThen (bucketStartMs (bStartMs child) (rIntervalMs a) (rOffsetMs a)) (\<lambda>bs.
       let iv = rIntervalMs a; be = i64 (bs + iv); y = bSymbol child
       in case map_get (cur a) y of
            None \<Rightarrow> Ret (a\<lparr>cur := map_set (cur a) y (open_bar iv bs be child)\<rparr>, e)
          | Some cb \<Rightarrow>
              if bs > bStartMs cb then
                andThen (emit cb e) (\<lambda>e1.
                  let a1 = a\<lparr>lastClose := (lastClose a)(y := bClose cb), hasClose := (hasClose a)(y := True)\<rparr>
                  in andThen (if fillGaps a1 \<and> hasClose a1 y
                              then fill_gap (gap_fuel iv (bStartMs cb) bs) emit y iv (lastClose a1 y)
                                     (i64 (bStartMs cb + iv)) bs e1
                              else Ret e1) (\<lambda>e2.
                       Ret (a1\<lparr>cur := map_set (cur a1) y (open_bar iv bs be child)\<rparr>, e2)))
              else if bs < bStartMs cb then Ret (a, e)
              else Ret (a\<lparr>cur := map_set (cur a) y (merge_bar cb child)\<rparr>, e))"

fun rollup_flush :: "(Bar \<Rightarrow> 'e \<Rightarrow> 'e go) \<Rightarrow> (string, Bar) gomap \<Rightarrow> RollupAgg \<Rightarrow> 'e \<Rightarrow> (RollupAgg \<times> 'e) go" where
  "rollup_flush emit [] a e = Ret (a, e)"
| "rollup_flush emit ((y, cb) # m) a e =
     (if bCount cb > 0 then
        andThen (emit cb e) (rollup_flush emit m
          (a\<lparr>lastClose := (lastClose a)(y := bClose cb), hasClose := (hasClose a)(y := True)\<rparr>))
      else rollup_flush emit m a e)"

definition RollupAgg_Flush :: "(Bar \<Rightarrow> 'e \<Rightarrow> 'e go) \<Rightarrow> RollupAgg \<Rightarrow> 'e \<Rightarrow> (RollupAgg \<times> 'e) go" where
  "RollupAgg_Flush emit a e = rollup_flush emit (cur a) a e"

end
