(* ===== verification/Kline_Laws.thy ===== *)
theory Kline_Laws
  imports Kline_Agg
begin

text \<open>
  What the aggregators compute: the reference is \<open>roll\<close>, the bar of a list of children, and
  \<open>bucket_of\<close>, the children of a bucket in the order of their arrival.
\<close>

subsection \<open>The insertion sort sorts\<close>

lemma insort_snoc:
  "sorted (xs @ [y]) \<Longrightarrow> insort x (xs @ [y]) = (if y > x then insort x xs @ [y] else xs @ [y, x])"
  for x :: int
proof (cases "y > x")
  case True
  then show ?thesis by (induction xs) auto
next
  case False
  moreover assume "sorted (xs @ [y])"
  ultimately show ?thesis
    using sorted_insort_is_snoc[of "xs @ [y]" x] by (force simp: sorted_append)
qed

lemma shift_insort:
  "j < length a \<Longrightarrow> sorted (take j a) \<Longrightarrow> shift a x j = insort x (take j a) @ drop (Suc j) a"
proof (induction j arbitrary: a)
  case 0
  then show ?case by (cases a) simp_all
next
  case (Suc j)
  have tk: "take (Suc j) a = take j a @ [a ! j]" using Suc.prems(1) by (simp add: take_Suc_conv_app_nth)
  show ?case
  proof (cases "a ! j > x")
    case True
    let ?b = "a[Suc j := a ! j]"
    have "shift ?b x j = insort x (take j ?b) @ drop (Suc j) ?b"
      using Suc.prems tk by (intro Suc.IH) (simp_all add: sorted_append)
    moreover have "take j ?b = take j a" by simp
    moreover have "drop (Suc j) ?b = a ! j # drop (Suc (Suc j)) a"
      using Suc.prems(1) by (simp add: drop_update_swap Cons_nth_drop_Suc[symmetric])
    ultimately show ?thesis using True insort_snoc[of "take j a" "a ! j" x] Suc.prems(2) tk by simp
  next
    case False
    have "a[Suc j := x] = take (Suc j) a @ x # drop (Suc (Suc j)) a"
      using Suc.prems(1) by (rule upd_conv_take_nth_drop)
    then show ?thesis using False insort_snoc[of "take j a" "a ! j" x] Suc.prems(2) tk by simp
  qed
qed

lemma sort_from_sort:
  "sorted (take i a) \<Longrightarrow> i \<le> length a \<Longrightarrow> sort_from [i..<length a] a = sort a"
proof (induction "length a - i" arbitrary: i a)
  case 0
  then show ?case by (simp add: sorted_sort_id)
next
  case (Suc n)
  then have i: "i < length a" by simp
  let ?b = "shift a (a ! i) i"
  have b: "?b = insort (a ! i) (take i a) @ drop (Suc i) a" by (rule shift_insort[OF i Suc.prems(1)])
  have len: "length ?b = length a" using i by (simp add: b)
  have "sorted (take (Suc i) ?b)" using i Suc.prems(1) by (simp add: b sorted_insort)
  then have "sort_from [Suc i..<length ?b] ?b = sort ?b"
    using Suc.hyps(1)[of ?b "Suc i"] Suc.hyps(2) i len by simp
  moreover have "mset ?b = mset a"
    using i by (metis b mset.simps(2) mset_append mset_insort union_mset_add_mset_left
        append_take_drop_id Cons_nth_drop_Suc union_mset_add_mset_right)
  then have "sort ?b = sort a" by (metis properties_for_sort sorted_sort mset_sort)
  ultimately show ?case using i len by (simp add: upt_conv_Cons)
qed

lemma insertion_sort_sort: "insertion_sort a = sort a"
proof (cases a)
  case (Cons x xs)
  then show ?thesis using sort_from_sort[of 1 a] by (simp add: insertion_sort_def)
qed (simp add: insertion_sort_def)

subsection \<open>The reference bar\<close>

definition roll :: "string \<Rightarrow> int \<Rightarrow> int \<Rightarrow> Bar list \<Rightarrow> Bar" where
  "roll y iv s cs =
     \<lparr>bSymbol = y, bInterval = i64 (iv * Millisecond), bTF = '''', bStartMs = s, bEndMs = s + iv,
      bOpen = bOpen (hd cs), bHigh = Max (bHigh ` set cs), bLow = Min (bLow ` set cs),
      bClose = bClose (last cs), bVolume = i64 (sum_list (map bVolume cs)), bCount = i64 (int (length cs))\<rparr>"

definition bucket_of :: "int \<Rightarrow> int \<Rightarrow> Bar list \<Rightarrow> int \<Rightarrow> Bar list" where
  "bucket_of iv off cs s = filter (\<lambda>c. bucket iv off (bStartMs c) = s) cs"

lemma roll_fields [simp]:
  "bSymbol (roll y iv s cs) = y" "bStartMs (roll y iv s cs) = s" "bEndMs (roll y iv s cs) = s + iv"
  by (simp_all add: roll_def)

lemma roll_one:
  "is_i64 (bVolume c) \<Longrightarrow> bSymbol c = y \<Longrightarrow> open_bar iv s (s + iv) c = roll y iv s [c]"
  by (simp add: open_bar_def roll_def i64_id is_i64_def)

lemma roll_merge:
  assumes "cs \<noteq> []" shows "merge_bar (roll y iv s cs) c = roll y iv s (cs @ [c])"
proof -
  obtain h l where h: "Max (bHigh ` set cs) = h" and l: "Min (bLow ` set cs) = l" by blast
  have H: "Max (bHigh ` set (cs @ [c])) = (if bHigh c > h then bHigh c else h)"
    using assms h by (simp add: max_def)
  have L: "Min (bLow ` set (cs @ [c])) = (if bLow c < l then bLow c else l)"
    using assms l by (simp add: min_def)
  show ?thesis
    unfolding roll_def H L h l using assms by (simp add: merge_bar_def Let_def i64_add2 add.commute)
qed

text \<open>A bar over its children: the order of its prices.\<close>

lemma roll_ohlc:
  assumes "cs \<noteq> []" and "\<forall>c \<in> set cs. bLow c \<le> bOpen c \<and> bLow c \<le> bClose c \<and> bOpen c \<le> bHigh c \<and> bClose c \<le> bHigh c"
  shows "bLow (roll y iv s cs) \<le> bOpen (roll y iv s cs)" "bOpen (roll y iv s cs) \<le> bHigh (roll y iv s cs)"
    "bLow (roll y iv s cs) \<le> bClose (roll y iv s cs)" "bClose (roll y iv s cs) \<le> bHigh (roll y iv s cs)"
proof -
  have m: "hd cs \<in> set cs" "last cs \<in> set cs" using assms(1) by simp_all
  have lo: "Min (bLow ` set cs) \<le> bLow c" and hi: "bHigh c \<le> Max (bHigh ` set cs)" if "c \<in> set cs" for c
    using that by simp_all
  show "bLow (roll y iv s cs) \<le> bOpen (roll y iv s cs)" "bOpen (roll y iv s cs) \<le> bHigh (roll y iv s cs)"
    "bLow (roll y iv s cs) \<le> bClose (roll y iv s cs)" "bClose (roll y iv s cs) \<le> bHigh (roll y iv s cs)"
    unfolding roll_def Bar.simps
    using order_trans[OF lo[OF m(1)]] order_trans[OF lo[OF m(2)]] order_trans[OF _ hi[OF m(1)]]
      order_trans[OF _ hi[OF m(2)]] assms(2) m by blast+
qed

text \<open>The child a trade stands for.\<close>

definition tick :: "MdTrade \<Rightarrow> Bar" where
  "tick t =
     (let p = fst (ParseFixed (PriceStr t))
      in \<lparr>bSymbol = Symbol t, bInterval = 0, bTF = '''', bStartMs = TsUnixMs t, bEndMs = TsUnixMs t,
          bOpen = p, bHigh = p, bLow = p, bClose = p, bVolume = fst (ParseFixed (SizeStr t)), bCount = 1\<rparr>)"

lemma tick_fields [simp]: "bStartMs (tick t) = TsUnixMs t" "bSymbol (tick t) = Symbol t"
  by (simp_all add: tick_def Let_def)

lemma ParseFixed_i64: "is_i64 (fst (ParseFixed s))"
  using is_i64_i64 by (auto simp: ParseFixed_def Let_def is_i64_def split: option.splits)

lemma add_to_bar_tick:
  assumes "ParseFixed (PriceStr t) = (pr, okp)" "ParseFixed (SizeStr t) = (sz, oks)"
  shows "add_to_bar (Symbol t) iv bs be pr sz old =
    (case old of None \<Rightarrow> open_bar iv bs be (tick t) | Some b \<Rightarrow> merge_bar b (tick t))"
  using assms by (simp add: add_to_bar_def tick_def open_bar_def merge_bar_def Let_def split: option.split)

subsection \<open>Emission\<close>

definition col :: "Bar \<Rightarrow> Bar list \<Rightarrow> Bar list go" where
  "col b bs = Ret (bs @ [b])"

definition delete_all :: "int list \<Rightarrow> (int, Bar) gomap \<Rightarrow> (int, Bar) gomap" where
  "delete_all ss m = fold (\<lambda>s m. map_delete m s) ss m"

lemma delete_all_simps [simp]: "delete_all [] m = m" "delete_all (s # ss) m = delete_all ss (map_delete m s)"
  by (simp_all add: delete_all_def)

lemma get_delete_all: "map_get (delete_all ss m) k = (if k \<in> set ss then None else map_get m k)"
  by (induction ss arbitrary: m) (simp_all add: map_get_delete)

lemma distinct_delete_all: "distinct (map_keys m) \<Longrightarrow> distinct (map_keys (delete_all ss m))"
  by (induction ss arbitrary: m) (simp_all add: distinct_map_ops)

lemma emit_loop_col:
  "distinct ss \<Longrightarrow> \<forall>s \<in> set ss. map_get (sbars st) s = Some (f s) \<Longrightarrow>
   emit_loop col ss st e = Ret (st\<lparr>sbars := delete_all ss (sbars st),
       lastEmittedStartMs := (if ss = [] then lastEmittedStartMs st else last ss),
       hasEmitted := (hasEmitted st \<or> ss \<noteq> [])\<rparr>, e @ map f ss)"
proof (induction ss arbitrary: st e)
  case (Cons s ss)
  let ?st = "st\<lparr>sbars := map_delete (sbars st) s, lastEmittedStartMs := s, hasEmitted := True\<rparr>"
  have "\<forall>x \<in> set ss. map_get (sbars ?st) x = Some (f x)" using Cons.prems by (auto simp: map_get_delete)
  then show ?case using Cons.IH[of ?st "e @ [f s]"] Cons.prems by (simp add: col_def)
qed simp

lemma flush_loop_col:
  "\<forall>s \<in> set ss. map_get (sbars st) s = Some (f s) \<and> 0 < bCount (f s) \<Longrightarrow>
   flush_loop col ss st e = Ret (st\<lparr>lastEmittedStartMs := (if ss = [] then lastEmittedStartMs st else last ss),
       hasEmitted := (hasEmitted st \<or> ss \<noteq> [])\<rparr>, e @ map f ss)"
proof (induction ss arbitrary: st e)
  case (Cons s ss)
  let ?st = "st\<lparr>lastEmittedStartMs := s, hasEmitted := True\<rparr>"
  have "\<forall>x \<in> set ss. map_get (sbars ?st) x = Some (f x) \<and> 0 < bCount (f x)" using Cons.prems by simp
  then show ?case using Cons.IH[of ?st "e @ [f s]"] Cons.prems by (simp add: col_def)
qed simp

subsection \<open>The state of a symbol\<close>

text \<open>
  \<open>acc\<close> are the children accepted so far, \<open>em\<close> the bars emitted so far. Every bucket with a child
  has its bar, live or emitted; the emitted ones come in order, end at or before the watermark \<open>W\<close>
  and are older than the live ones.
\<close>

definition st_inv :: "string \<Rightarrow> int \<Rightarrow> int \<Rightarrow> int \<Rightarrow> Bar list \<Rightarrow> Bar list \<Rightarrow> symState \<Rightarrow> bool" where
  "st_inv y iv off W acc em st \<longleftrightarrow>
     distinct (map_keys (sbars st)) \<and>
     (\<forall>s. map_get (sbars st) s =
        (if s \<in> bStartMs ` set em \<or> bucket_of iv off acc s = [] then None
         else Some (roll y iv s (bucket_of iv off acc s)))) \<and>
     (\<forall>b \<in> set em. bucket_of iv off acc (bStartMs b) \<noteq> [] \<and>
        b = roll y iv (bStartMs b) (bucket_of iv off acc (bStartMs b)) \<and> bEndMs b \<le> W) \<and>
     sorted_wrt (<) (map bStartMs em) \<and>
     (hasEmitted st \<longleftrightarrow> em \<noteq> []) \<and> (em \<noteq> [] \<longrightarrow> lastEmittedStartMs st = bStartMs (last em)) \<and>
     (\<forall>s \<in> set (map_keys (sbars st)). \<forall>b \<in> set em. bStartMs b < s)"

lemma st_invD:
  assumes "st_inv y iv off W acc em st"
  shows "distinct (map_keys (sbars st))"
    and "\<And>s. map_get (sbars st) s = (if s \<in> bStartMs ` set em \<or> bucket_of iv off acc s = [] then None
         else Some (roll y iv s (bucket_of iv off acc s)))"
    and "\<And>b. b \<in> set em \<Longrightarrow> bucket_of iv off acc (bStartMs b) \<noteq> [] \<and>
        b = roll y iv (bStartMs b) (bucket_of iv off acc (bStartMs b)) \<and> bEndMs b \<le> W"
    and "sorted_wrt (<) (map bStartMs em)" and "hasEmitted st \<longleftrightarrow> em \<noteq> []"
    and "em \<noteq> [] \<Longrightarrow> lastEmittedStartMs st = bStartMs (last em)"
    and "\<And>s b. s \<in> set (map_keys (sbars st)) \<Longrightarrow> b \<in> set em \<Longrightarrow> bStartMs b < s"
  using assms unfolding st_inv_def by blast+

lemma st_inv_new: "st_inv y iv off W [] [] new_symState"
  by (simp add: st_inv_def new_symState_def map_keys_def bucket_of_def)

lemma live_bar:
  assumes "st_inv y iv off W acc em st" and "(s, b) \<in> set (sbars st)"
  shows "b = roll y iv s (bucket_of iv off acc s)" "bucket_of iv off acc s \<noteq> []" "bEndMs b = s + iv"
    "\<not> (hasEmitted st \<and> s \<le> lastEmittedStartMs st)"
proof -
  have g: "map_get (sbars st) s = Some b" using assms(2) map_get_in[OF st_invD(1)[OF assms(1)]] by blast
  then show "b = roll y iv s (bucket_of iv off acc s)" "bucket_of iv off acc s \<noteq> []" "bEndMs b = s + iv"
    using st_invD(2)[OF assms(1), of s] by (auto split: if_splits)
  have "s \<in> set (map_keys (sbars st))" using g by (simp add: map_keys_get)
  then show "\<not> (hasEmitted st \<and> s \<le> lastEmittedStartMs st)"
    using st_invD(5,6)[OF assms(1)] st_invD(7)[OF assms(1), of s "last em"] by auto
qed

text \<open>Emitting a sorted selection of live buckets, older than the ones that stay.\<close>

lemma st_inv_emit:
  assumes I: "st_inv y iv off W acc em st" and ss: "sorted_wrt (<) ss" "set ss \<subseteq> set (map_keys (sbars st))"
    and W: "W \<le> W'" "\<forall>s \<in> set ss. s + iv \<le> W'"
    and rest: "\<forall>s \<in> set (map_keys (sbars st)) - set ss. \<forall>r \<in> set ss. r < s"
    and st': "st' = st\<lparr>sbars := delete_all ss (sbars st),
       lastEmittedStartMs := (if ss = [] then lastEmittedStartMs st else last ss),
       hasEmitted := (hasEmitted st \<or> ss \<noteq> [])\<rparr>"
  shows "st_inv y iv off W' acc (em @ map (\<lambda>s. roll y iv s (bucket_of iv off acc s)) ss) st'"
proof -
  let ?r = "\<lambda>s. roll y iv s (bucket_of iv off acc s)"
  have live: "s \<notin> bStartMs ` set em \<and> bucket_of iv off acc s \<noteq> []" if "s \<in> set ss" for s
    using st_invD(2)[OF I, of s] ss(2) that map_keys_get[of s "sbars st"] by (auto split: if_splits)
  have keys: "map_keys (delete_all ss (sbars st)) = filter (\<lambda>s. s \<notin> set ss) (map_keys (sbars st))"
  proof -
    have "map_keys (delete_all ss m) = filter (\<lambda>s. s \<notin> set ss) (map_keys m)" for m
      by (induction ss arbitrary: m) (simp_all add: map_keys_delete)
    then show ?thesis .
  qed
  have sort: "sorted_wrt (<) (map bStartMs em @ ss)"
    using st_invD(4)[OF I] ss(1) st_invD(7)[OF I] ss(2) by (auto simp: sorted_wrt_append)
  have starts: "map bStartMs (map ?r ss) = ss" by (induction ss) simp_all
  have all: "bStartMs ` set (em @ map ?r ss) = bStartMs ` set em \<union> set ss"
    using starts by (metis list.set_map map_append set_append)
  show ?thesis
    unfolding st_inv_def
  proof (intro conjI allI ballI impI)
    show "distinct (map_keys (sbars st'))" using st_invD(1)[OF I] by (simp add: st' distinct_delete_all)
    show "map_get (sbars st') s = (if s \<in> bStartMs ` set (em @ map ?r ss) \<or> bucket_of iv off acc s = [] then None
        else Some (?r s))" for s
      unfolding all using st_invD(2)[OF I, of s] by (simp add: st' get_delete_all)
    show "sorted_wrt (<) (map bStartMs (em @ map ?r ss))" using sort starts by simp
    show "hasEmitted st' = (em @ map ?r ss \<noteq> [])" using st_invD(5)[OF I] by (auto simp: st')
    show "lastEmittedStartMs st' = bStartMs (last (em @ map ?r ss))" if "em @ map ?r ss \<noteq> []"
      using st_invD(6)[OF I] that by (auto simp: st' last_map)
  next
    fix b assume b: "b \<in> set (em @ map ?r ss)"
    show "bucket_of iv off acc (bStartMs b) \<noteq> []" using b st_invD(3)[OF I] live by auto
    show "b = roll y iv (bStartMs b) (bucket_of iv off acc (bStartMs b))" using b st_invD(3)[OF I] by auto
    show "bEndMs b \<le> W'" using b st_invD(3)[OF I] W by fastforce
  next
    fix s b assume s: "s \<in> set (map_keys (sbars st'))" and b: "b \<in> set (em @ map ?r ss)"
    have "s \<in> set (map_keys (sbars st)) - set ss" using s by (auto simp: st' keys)
    then show "bStartMs b < s" using b rest st_invD(7)[OF I, of s] by auto
  qed
qed

lemma emitReady_col:
  assumes I: "st_inv y iv off W acc em st" and "W \<le> W'"
  obtains st' ss where "emitReady col st W' e = Ret (st', e @ map (\<lambda>s. roll y iv s (bucket_of iv off acc s)) ss)"
    and "st_inv y iv off W' acc (em @ map (\<lambda>s. roll y iv s (bucket_of iv off acc s)) ss) st'"
    and "latestTsMs st' = latestTsMs st"
proof -
  let ?r = "\<lambda>s. roll y iv s (bucket_of iv off acc s)"
  define ready where "ready = filter (\<lambda>s. s + iv \<le> W') (map_keys (sbars st))"
  have "[start. (start, b) \<leftarrow> m, \<not> (hasEmitted st \<and> start \<le> lastEmittedStartMs st), bEndMs b \<le> W'] =
      filter (\<lambda>s. s + iv \<le> W') (map_keys m)" if "set m \<subseteq> set (sbars st)" for m
    using that
  proof (induction m)
    case (Cons x m)
    obtain s b where x: "x = (s, b)" by (cases x)
    have "(s, b) \<in> set (sbars st)" using Cons.prems x by auto
    then show ?case using live_bar(3,4)[OF I] Cons x by (auto simp: map_keys_def)
  qed (simp add: map_keys_def)
  then have rd: "[start. (start, b) \<leftarrow> sbars st, \<not> (hasEmitted st \<and> start \<le> lastEmittedStartMs st),
      bEndMs b \<le> W'] = ready" by (simp add: ready_def)
  define ss where "ss = sort ready"
  have ss: "sorted_wrt (<) ss" "set ss \<subseteq> set (map_keys (sbars st))" "distinct ss"
    using st_invD(1)[OF I] by (auto simp: ss_def ready_def strict_sorted_iff)
  have r: "\<forall>s \<in> set ss. s + iv \<le> W'" "\<forall>s \<in> set (map_keys (sbars st)) - set ss. \<forall>r \<in> set ss. r < s"
    by (auto simp: ss_def ready_def)
  have g: "\<forall>s \<in> set ss. map_get (sbars st) s = Some (?r s)"
  proof
    fix s assume "s \<in> set ss"
    then have "map_get (sbars st) s \<noteq> None" using ss(2) map_keys_get[of s "sbars st"] by auto
    then show "map_get (sbars st) s = Some (?r s)" using st_invD(2)[OF I, of s] by (auto split: if_splits)
  qed
  let ?st = "st\<lparr>sbars := delete_all ss (sbars st),
       lastEmittedStartMs := (if ss = [] then lastEmittedStartMs st else last ss),
       hasEmitted := (hasEmitted st \<or> ss \<noteq> [])\<rparr>"
  have "emitReady col st W' e = Ret (?st, e @ map ?r ss)"
    unfolding emitReady_def rd Let_def insertion_sort_sort ss_def[symmetric] emit_loop_col[OF ss(3) g]
    by (auto simp: ss_def)
  moreover have "st_inv y iv off W' acc (em @ map ?r ss) ?st"
    by (rule st_inv_emit[OF I ss(1,2) assms(2) r refl])
  ultimately show thesis using that by simp
qed

subsection \<open>Offering trades\<close>

lemma bucket_of_snoc:
  "bucket_of iv off (acc @ [c]) s =
     (if bucket iv off (bStartMs c) = s then bucket_of iv off acc s @ [c] else bucket_of iv off acc s)"
  by (simp add: bucket_of_def)

text \<open>An accepted child is not older than the watermark, so its bucket is still open.\<close>

lemma st_inv_add:
  assumes I: "st_inv y iv off W acc em st" and iv: "0 < iv" and c: "W \<le> bStartMs c" "bSymbol c = y"
    and v: "is_i64 (bVolume c)" and s: "s = bucket iv off (bStartMs c)"
    and b: "b = (case map_get (sbars st) s of None \<Rightarrow> open_bar iv s (s + iv) c | Some b0 \<Rightarrow> merge_bar b0 c)"
  shows "st_inv y iv off W (acc @ [c]) em (st\<lparr>sbars := map_set (sbars st) s b\<rparr>)"
proof -
  have new: "bStartMs x < s" if x: "x \<in> set em" for x
  proof -
    note X = st_invD(3)[OF I x]
    obtain d where "d \<in> set (bucket_of iv off acc (bStartMs x))"
      using X by (cases "bucket_of iv off acc (bStartMs x)") auto
    then have g: "bStartMs x = bucket iv off (bStartMs d)" by (auto simp: bucket_of_def)
    have "bEndMs x = bStartMs x + iv" using X by (metis roll_fields(3))
    then have "bucket iv off (bStartMs d) + iv \<le> bStartMs c" using X c(1) g by simp
    then have "bucket iv off (bStartMs d) < bucket iv off (bStartMs c)"
      using bucket_bounds(2)[OF iv, of "bStartMs c" off] by linarith
    then show ?thesis using g s by simp
  qed
  then have out: "s \<notin> bStartMs ` set em" by auto
  have bk: "bucket_of iv off (acc @ [c]) s = bucket_of iv off acc s @ [c]"
    "r \<noteq> s \<Longrightarrow> bucket_of iv off (acc @ [c]) r = bucket_of iv off acc r" for r
    using s by (simp_all add: bucket_of_snoc)
  have b': "b = roll y iv s (bucket_of iv off (acc @ [c]) s)"
    using st_invD(2)[OF I, of s] out roll_one[OF v c(2), of iv s] roll_merge[of "bucket_of iv off acc s" y iv s c]
    by (auto simp: b bk split: if_splits)
  show ?thesis
    unfolding st_inv_def
  proof (intro conjI allI ballI impI)
    show "distinct (map_keys (sbars (st\<lparr>sbars := map_set (sbars st) s b\<rparr>)))"
      using st_invD(1)[OF I] by (simp add: distinct_map_ops)
    show "map_get (sbars (st\<lparr>sbars := map_set (sbars st) s b\<rparr>)) r =
      (if r \<in> bStartMs ` set em \<or> bucket_of iv off (acc @ [c]) r = [] then None
       else Some (roll y iv r (bucket_of iv off (acc @ [c]) r)))" for r
      using st_invD(2)[OF I, of r] out b' bk by (auto simp: map_get_set)
    show "sorted_wrt (<) (map bStartMs em)" by (rule st_invD(4)[OF I])
  next
    fix x assume x: "x \<in> set em"
    have "bStartMs x \<noteq> s" using new[OF x] by simp
    note k = bk(2)[OF this]
    show "bucket_of iv off (acc @ [c]) (bStartMs x) \<noteq> []"
      "x = roll y iv (bStartMs x) (bucket_of iv off (acc @ [c]) (bStartMs x))" "bEndMs x \<le> W"
      unfolding k using st_invD(3)[OF I x] by auto
  next
    fix r x assume "r \<in> set (map_keys (sbars (st\<lparr>sbars := map_set (sbars st) s b\<rparr>)))" and "x \<in> set em"
    then show "bStartMs x < r" using new st_invD(7)[OF I] by (auto simp: map_keys_set)
  qed (use st_invD(5,6)[OF I] in auto)
qed

text \<open>The trades that parse and are not too late, given the latest time seen of each symbol.\<close>

definition parses :: "MdTrade \<Rightarrow> bool" where
  "parses t \<longleftrightarrow> snd (ParseFixed (PriceStr t)) \<and> snd (ParseFixed (SizeStr t))"

fun accepted :: "int \<Rightarrow> (string \<Rightarrow> int) \<Rightarrow> MdTrade list \<Rightarrow> MdTrade list" where
  "accepted win L [] = []"
| "accepted win L (t # ts) =
     (if parses t then
        let l = max (L (Symbol t)) (TsUnixMs t)
        in if TsUnixMs t < l - win then accepted win (L(Symbol t := l)) ts
           else t # accepted win (L(Symbol t := l)) ts
      else accepted win L ts)"

definition children :: "string \<Rightarrow> MdTrade list \<Rightarrow> Bar list" where
  "children y ts = map tick (filter (\<lambda>t. Symbol t = y) ts)"

definition of_symbol :: "string \<Rightarrow> Bar list \<Rightarrow> Bar list" where
  "of_symbol y bs = filter (\<lambda>b. bSymbol b = y) bs"

lemma of_symbol_simps [simp]:
  "of_symbol y [] = []" "of_symbol y (xs @ ys) = of_symbol y xs @ of_symbol y ys"
  "of_symbol y (map (\<lambda>s. roll z iv s (f s)) ss) = (if z = y then map (\<lambda>s. roll z iv s (f s)) ss else [])"
  by (simp_all add: of_symbol_def filter_map comp_def)

text \<open>The state of a symbol, fresh or in the map.\<close>

definition sym_of :: "TradeAgg \<Rightarrow> string \<Rightarrow> symState" where
  "sym_of a y = (case map_get (syms a) y of Some st \<Rightarrow> st | None \<Rightarrow> new_symState)"

definition agg_inv :: "int \<Rightarrow> int \<Rightarrow> int \<Rightarrow> MdTrade list \<Rightarrow> (string \<Rightarrow> int) \<Rightarrow> TradeAgg \<Rightarrow> Bar list \<Rightarrow> bool" where
  "agg_inv iv off win acc L a e \<longleftrightarrow>
     intervalMs a = iv \<and> offsetMs a = off \<and> reorderWindowMs a = win \<and> distinct (map_keys (syms a)) \<and>
     (\<forall>y. latestTsMs (sym_of a y) = L y \<and> st_inv y iv off (L y - win) (children y acc) (of_symbol y e) (sym_of a y)) \<and>
     (\<forall>y. map_get (syms a) y = None \<longrightarrow> children y acc = []) \<and> (\<forall>b \<in> set e. map_get (syms a) (bSymbol b) \<noteq> None)"

text \<open>Times for which no sum leaves \<open>int64\<close>.\<close>

definition time_ok :: "int \<Rightarrow> int \<Rightarrow> int \<Rightarrow> int \<Rightarrow> bool" where
  "time_ok iv off win ts \<longleftrightarrow> in_range iv off ts \<and> 0 \<le> win \<and> win < 2 ^ 61 \<and> \<bar>ts\<bar> < 2 ^ 62"

lemma bucket_end_i64:
  assumes "in_range iv off ts" shows "i64 (bucket iv off ts + iv) = bucket iv off ts + iv"
proof -
  have r: "0 < iv" "iv < 2 ^ 61" "0 \<le> ts + off" "ts + off < 2 ^ 61" "\<bar>off\<bar> < 2 ^ 61"
    using assms by (auto simp: in_range_def)
  have "is_i64 (bucket iv off ts + iv)"
    using bucket_bounds[OF r(1), of off ts] bucket_bounds(2)[OF r(1), of ts off] r
    by (simp add: is_i64_def) linarith
  then show ?thesis by (rule i64_id)
qed

lemma st_inv_latest [simp]: "st_inv y iv off W acc em (st\<lparr>latestTsMs := l\<rparr>) = st_inv y iv off W acc em st"
  by (simp add: st_inv_def)

lemma agg_inv_update:
  assumes I: "agg_inv iv off win acc L a e" and st: "latestTsMs st = l"
    and S: "st_inv y iv off (l - win) (children y acc') (of_symbol y e @ map (\<lambda>s. roll y iv s (f s)) ss) st"
    and other: "\<And>z. z \<noteq> y \<Longrightarrow> children z acc' = children z acc"
    and a': "a' = a\<lparr>syms := map_set (syms a) y st, lateDrops := d\<rparr>"
  shows "agg_inv iv off win acc' (L(y := l)) a' (e @ map (\<lambda>s. roll y iv s (f s)) ss)"
proof -
  have "sym_of a' z = (if z = y then st else sym_of a z)" for z
    by (simp add: sym_of_def a' map_get_set)
  then show ?thesis
    using I st S other unfolding agg_inv_def
    by (auto simp: a' distinct_map_ops map_get_set)
qed

lemma offer_trade:
  assumes I: "agg_inv iv off win acc L a e" and win: "0 < win" and L: "\<bar>L (Symbol t)\<bar> < 2 ^ 62"
    and t: "parses t" "time_ok iv off win (TsUnixMs t)"
    and l: "l = max (L (Symbol t)) (TsUnixMs t)"
  obtains a' e' where "OfferTrade col a t e = Ret (a', e')"
    and "agg_inv iv off win (if TsUnixMs t < l - win then acc else acc @ [t]) (L(Symbol t := l)) a' e'"
proof -
  let ?y = "Symbol t" and ?st = "(sym_of a (Symbol t))\<lparr>latestTsMs := l\<rparr>"
  have f: "intervalMs a = iv" "offsetMs a = off" "reorderWindowMs a = win" "latestTsMs (sym_of a ?y) = L ?y"
    and S: "st_inv ?y iv off (L ?y - win) (children ?y acc) (of_symbol ?y e) (sym_of a ?y)"
    using I by (auto simp: agg_inv_def)
  obtain pr sz where p: "ParseFixed (PriceStr t) = (pr, True)" "ParseFixed (SizeStr t) = (sz, True)"
    using t(1) by (cases "ParseFixed (PriceStr t)"; cases "ParseFixed (SizeStr t)") (auto simp: parses_def)
  have st: "(if TsUnixMs t > latestTsMs (sym_of a ?y) then (sym_of a ?y)\<lparr>latestTsMs := TsUnixMs t\<rparr>
      else sym_of a ?y) = ?st"
    using f(4) l by (cases "sym_of a ?y") (simp add: max_def)
  have w: "i64 (l - win) = l - win"
    using t(2) L l by (intro i64_id) (auto simp: is_i64_def time_ok_def max_def split: if_splits)
  have Lw: "L ?y - win \<le> l - win" using l by simp
  have unf: "OfferTrade col a t e =
    (if TsUnixMs t < l - win then
       andThen (emitReady col ?st (l - win) e) (\<lambda>(st1, e1).
         Ret (a\<lparr>syms := map_set (syms a) ?y st1, lateDrops := i64 (lateDrops a + 1)\<rparr>, e1))
     else andThen (bucketStartMs (TsUnixMs t) iv off) (\<lambda>bs.
       let b = add_to_bar ?y iv bs (i64 (bs + iv)) pr sz (map_get (sbars ?st) bs);
           st1 = ?st\<lparr>sbars := map_set (sbars ?st) bs b\<rparr>
       in andThen (emitReady col st1 (l - win) e) (\<lambda>(st2, e1). Ret (a\<lparr>syms := map_set (syms a) ?y st2\<rparr>, e1))))"
    unfolding OfferTrade_def p Let_def prod.case sym_of_def[symmetric]
    unfolding st unfolding f using win w by simp
  show thesis
  proof (cases "TsUnixMs t < l - win")
    case True
    have S': "st_inv ?y iv off (L ?y - win) (children ?y acc) (of_symbol ?y e) ?st" using S by simp
    obtain st1 ss where E: "emitReady col ?st (l - win) e =
        Ret (st1, e @ map (\<lambda>s. roll ?y iv s (bucket_of iv off (children ?y acc) s)) ss)"
      and S1: "st_inv ?y iv off (l - win) (children ?y acc) (of_symbol ?y e @
        map (\<lambda>s. roll ?y iv s (bucket_of iv off (children ?y acc) s)) ss) st1" and "latestTsMs st1 = l"
      by (rule emitReady_col[OF S' Lw, of e]) simp
    from agg_inv_update[OF I this(3) S1 refl refl] that[OF unf[unfolded if_P[OF True] E, simplified]] True
    show thesis by simp
  next
    case False
    let ?s = "bucket iv off (TsUnixMs t)"
    have r: "in_range iv off (TsUnixMs t)" "0 < iv" using t(2) by (auto simp: time_ok_def in_range_def)
    let ?b = "add_to_bar ?y iv ?s (?s + iv) pr sz (map_get (sbars ?st) ?s)"
    let ?st1 = "?st\<lparr>sbars := map_set (sbars ?st) ?s ?b\<rparr>"
    let ?acc = "children ?y (acc @ [t])"
    have "st_inv ?y iv off (L ?y - win) (children ?y acc @ [tick t]) (of_symbol ?y e) ?st1"
    proof (rule st_inv_add)
      show "st_inv ?y iv off (L ?y - win) (children ?y acc) (of_symbol ?y e) ?st" using S by simp
      show "L ?y - win \<le> bStartMs (tick t)" using False Lw by simp
      show "is_i64 (bVolume (tick t))" by (simp add: tick_def Let_def ParseFixed_i64)
    qed (use r p in \<open>simp_all add: add_to_bar_tick\<close>)
    then have S1: "st_inv ?y iv off (L ?y - win) ?acc (of_symbol ?y e) ?st1" by (simp add: children_def)
    obtain st2 ss where E: "emitReady col ?st1 (l - win) e =
        Ret (st2, e @ map (\<lambda>s. roll ?y iv s (bucket_of iv off ?acc s)) ss)"
      and S2: "st_inv ?y iv off (l - win) ?acc (of_symbol ?y e @
        map (\<lambda>s. roll ?y iv s (bucket_of iv off ?acc s)) ss) st2" and "latestTsMs st2 = l"
      by (rule emitReady_col[OF S1 Lw, of e]) simp
    have off: "OfferTrade col a t e = Ret (a\<lparr>syms := map_set (syms a) ?y st2, lateDrops := lateDrops a\<rparr>,
        e @ map (\<lambda>s. roll ?y iv s (bucket_of iv off ?acc s)) ss)"
      unfolding unf using False E by (simp add: bucketStartMs_eq[OF r(1)] bucket_end_i64[OF r(1)] Let_def)
    have other: "children z (acc @ [t]) = children z acc" if "z \<noteq> ?y" for z
      using that by (simp add: children_def)
    show thesis
      by (rule that[OF off], subst if_not_P[OF False],
          rule agg_inv_update[OF I \<open>latestTsMs st2 = l\<close> S2 other refl])
  qed
qed

subsection \<open>Whole runs\<close>

fun offer_all :: "(Bar \<Rightarrow> 'e \<Rightarrow> 'e go) \<Rightarrow> TradeAgg \<Rightarrow> MdTrade list \<Rightarrow> 'e \<Rightarrow> (TradeAgg \<times> 'e) go" where
  "offer_all emit a [] e = Ret (a, e)"
| "offer_all emit a (t # ts) e = andThen (OfferTrade emit a t e) (\<lambda>(a1, e1). offer_all emit a1 ts e1)"

lemma OfferTrade_unparsed: "\<not> parses t \<Longrightarrow> OfferTrade emit a t e = Ret (a, e)"
  by (auto simp: OfferTrade_def parses_def split: prod.splits)

lemma offer_all_inv:
  assumes "agg_inv iv off win acc L a e" and "0 < win" and "\<forall>y. \<bar>L y\<bar> < 2 ^ 62"
    and "\<forall>t \<in> set ts. time_ok iv off win (TsUnixMs t)"
  shows "\<exists>a' e' L'. offer_all col a ts e = Ret (a', e') \<and>
    agg_inv iv off win (acc @ accepted win L ts) L' a' e'"
  using assms
proof (induction ts arbitrary: acc L a e)
  case Nil
  then show ?case by auto
next
  case (Cons t ts)
  show ?case
  proof (cases "parses t")
    case False
    then show ?thesis using Cons by (simp add: OfferTrade_unparsed[OF False])
  next
    case True
    let ?l = "max (L (Symbol t)) (TsUnixMs t)"
    let ?acc = "if TsUnixMs t < ?l - win then acc else acc @ [t]"
    have ok: "time_ok iv off win (TsUnixMs t)" using Cons.prems by simp
    obtain a1 e1 where o: "OfferTrade col a t e = Ret (a1, e1)"
      and I: "agg_inv iv off win ?acc (L(Symbol t := ?l)) a1 e1"
      by (rule offer_trade[OF Cons.prems(1,2) _ True ok refl]) (use Cons.prems(3) in blast)
    have "\<forall>y. \<bar>(L(Symbol t := ?l)) y\<bar> < 2 ^ 62"
      using Cons.prems(3) ok by (auto simp: time_ok_def max_def)
    moreover have "\<forall>t \<in> set ts. time_ok iv off win (TsUnixMs t)" using Cons.prems(4) by simp
    ultimately obtain a' e' L' where r: "offer_all col a1 ts e1 = Ret (a', e')"
      "agg_inv iv off win (?acc @ accepted win (L(Symbol t := ?l)) ts) L' a' e'"
      using Cons.IH[OF I Cons.prems(2)] by blast
    have "acc @ accepted win L (t # ts) = ?acc @ accepted win (L(Symbol t := ?l)) ts"
      using True by (simp add: Let_def del: fun_upd_apply)
    then show ?thesis using o r by (intro exI[of _ a'] exI[of _ e'] exI[of _ L']) (simp del: accepted.simps)
  qed
qed

text \<open>At the end every live bar is emitted.\<close>

lemma flush_sym_col:
  assumes I: "st_inv y iv off W acc em st" and len: "int (length acc) < 2 ^ 63"
  obtains st' where "flush_sym col st e = Ret (st', e @ map (\<lambda>s. roll y iv s (bucket_of iv off acc s))
      (sort (map_keys (sbars st))))"
proof -
  let ?r = "\<lambda>s. roll y iv s (bucket_of iv off acc s)"
  have "[start. (start, b) \<leftarrow> m, \<not> (hasEmitted st \<and> start \<le> lastEmittedStartMs st)] = map_keys m"
    if "set m \<subseteq> set (sbars st)" for m
    using that
  proof (induction m)
    case (Cons x m)
    obtain s b where x: "x = (s, b)" by (cases x)
    have "(s, b) \<in> set (sbars st)" using Cons.prems x by auto
    then show ?case using live_bar(4)[OF I] Cons x by (auto simp: map_keys_def)
  qed (simp add: map_keys_def)
  then have ks: "[start. (start, b) \<leftarrow> sbars st, \<not> (hasEmitted st \<and> start \<le> lastEmittedStartMs st)] =
      map_keys (sbars st)" by simp
  have g: "\<forall>s \<in> set (sort (map_keys (sbars st))). map_get (sbars st) s = Some (?r s) \<and> 0 < bCount (?r s)"
  proof
    fix s assume "s \<in> set (sort (map_keys (sbars st)))"
    then have "map_get (sbars st) s \<noteq> None" using map_keys_get[of s "sbars st"] by auto
    then have m: "map_get (sbars st) s = Some (?r s)" "bucket_of iv off acc s \<noteq> []"
      using st_invD(2)[OF I, of s] by (auto split: if_splits)
    have "int (length (bucket_of iv off acc s)) < 2 ^ 63"
      using len length_filter_le[of _ acc] unfolding bucket_of_def by (smt (verit) of_nat_mono)
    then have "bCount (?r s) = int (length (bucket_of iv off acc s))" by (simp add: roll_def i64_id is_i64_def)
    then show "map_get (sbars st) s = Some (?r s) \<and> 0 < bCount (?r s)" using m by simp
  qed
  show thesis
    using that unfolding flush_sym_def ks Let_def insertion_sort_sort flush_loop_col[OF g] by simp
qed

text \<open>The bars of a symbol: the buckets of its accepted children, in order.\<close>

definition bars_of :: "string \<Rightarrow> int \<Rightarrow> int \<Rightarrow> Bar list \<Rightarrow> Bar list" where
  "bars_of y iv off cs =
     map (\<lambda>s. roll y iv s (bucket_of iv off cs s))
       (sorted_list_of_set ((\<lambda>c. bucket iv off (bStartMs c)) ` set cs))"

lemma bucket_of_Nil: "bucket_of iv off cs s = [] \<longleftrightarrow> s \<notin> (\<lambda>c. bucket iv off (bStartMs c)) ` set cs"
  by (auto simp: bucket_of_def filter_empty_conv)

lemma bars_complete:
  assumes I: "st_inv y iv off W acc em st"
  shows "em @ map (\<lambda>s. roll y iv s (bucket_of iv off acc s)) (sort (map_keys (sbars st))) = bars_of y iv off acc"
proof -
  let ?r = "\<lambda>s. roll y iv s (bucket_of iv off acc s)"
  let ?B = "(\<lambda>c. bucket iv off (bStartMs c)) ` set acc"
  let ?ss = "map bStartMs em @ sort (map_keys (sbars st))"
  have "sorted_wrt (<) (sort (map_keys (sbars st)))" using st_invD(1)[OF I] by (simp add: strict_sorted_iff)
  then have srt: "sorted_wrt (<) ?ss" using st_invD(4,7)[OF I] by (auto simp: sorted_wrt_append)
  have "s \<in> set (map_keys (sbars st)) \<longleftrightarrow> s \<notin> bStartMs ` set em \<and> s \<in> ?B" for s
    using st_invD(2)[OF I, of s] map_keys_get[of s "sbars st"] bucket_of_Nil[of iv off acc s] by auto
  moreover have "bStartMs ` set em \<subseteq> ?B"
    using st_invD(3)[OF I] bucket_of_Nil[of iv off acc] by blast
  ultimately have "set ?ss = ?B" by auto
  then have ss: "?ss = sorted_list_of_set ?B"
    using srt by (metis finite_imageI finite_set sorted_list_of_set_unique strict_sorted_iff distinct_card)
  have "map ?r (map bStartMs em) = em"
    using st_invD(3)[OF I] by (simp add: comp_def map_idI)
  then have "map ?r ?ss = em @ map ?r (sort (map_keys (sbars st)))" by simp
  then show ?thesis unfolding bars_of_def ss[symmetric] by simp
qed

lemma flush_syms_col:
  assumes "distinct (map_keys m)" and "\<forall>(y, st) \<in> set m. st_inv y iv off (W y) (acc y) (em y) st"
    and "\<forall>y. int (length (acc y)) < 2 ^ 63"
  shows "\<exists>m' e'. flush_syms col m e = Ret (m', e') \<and>
    (\<forall>y. of_symbol y e' = of_symbol y e @ (case map_get m y of None \<Rightarrow> [] | Some st \<Rightarrow>
       map (\<lambda>s. roll y iv s (bucket_of iv off (acc y) s)) (sort (map_keys (sbars st)))))"
  using assms
proof (induction m arbitrary: e)
  case Nil
  then show ?case by simp
next
  case (Cons x m)
  obtain z st where x: "x = (z, st)" by (cases x)
  let ?new = "map (\<lambda>s. roll z iv s (bucket_of iv off (acc z) s)) (sort (map_keys (sbars st)))"
  have "st_inv z iv off (W z) (acc z) (em z) st" using Cons.prems(2) x by auto
  then obtain st1 where f: "flush_sym col st e = Ret (st1, e @ ?new)"
    using flush_sym_col Cons.prems(3) by blast
  have d: "distinct (map_keys m)" "map_get m z = None"
    using Cons.prems(1) x map_keys_get[of z m] by (auto simp: map_keys_def)
  have "\<forall>(y, st) \<in> set m. st_inv y iv off (W y) (acc y) (em y) st" using Cons.prems(2) by auto
  from Cons.IH[OF d(1) this Cons.prems(3), of "e @ ?new"] obtain m' e' where
    r: "flush_syms col m (e @ ?new) = Ret (m', e')" and
    o: "\<forall>y. of_symbol y e' = of_symbol y (e @ ?new) @ (case map_get m y of None \<Rightarrow> [] | Some st \<Rightarrow>
       map (\<lambda>s. roll y iv s (bucket_of iv off (acc y) s)) (sort (map_keys (sbars st))))" by blast
  have g: "map_get (x # m) y = (if y = z then Some st else map_get m y)" for y
    by (simp add: map_get_def x)
  show ?case
    using f r o d(2) by (intro exI[of _ "(z, st1) # m'"] exI[of _ e']) (auto simp: x g[unfolded x])
qed

lemma agg_inv_new:
  assumes "go_div interval Millisecond = iv" "go_div tz Millisecond = off" "go_div window Millisecond = win"
  shows "agg_inv iv off win [] (\<lambda>_. 0) (NewTradeAggReorder interval tz window) []"
  using assms
  by (simp add: agg_inv_def NewTradeAggReorder_def map_keys_def sym_of_def st_inv_new children_def)
    (simp add: new_symState_def)

lemma trades_to_bars:
  assumes p: "go_div interval Millisecond = iv" "go_div tz Millisecond = off" "go_div window Millisecond = win"
    and win: "0 < win" and ts: "\<forall>t \<in> set ts. time_ok iv off win (TsUnixMs t)" "int (length ts) < 2 ^ 63"
  shows "\<exists>a a' e e'. offer_all col (NewTradeAggReorder interval tz window) ts [] = Ret (a, e) \<and>
    TradeAgg_Flush col a e = Ret (a', e') \<and>
    (\<forall>y. of_symbol y e' = bars_of y iv off (children y (accepted win (\<lambda>_. 0) ts)))"
proof -
  let ?acc = "accepted win (\<lambda>_. 0) ts"
  obtain a e L where o: "offer_all col (NewTradeAggReorder interval tz window) ts [] = Ret (a, e)"
    and I: "agg_inv iv off win ?acc L a e"
    using offer_all_inv[OF agg_inv_new[OF p] win _ ts(1)] by auto
  have "length (accepted win L ts) \<le> length ts" for L
    by (induction ts arbitrary: L) (auto simp: Let_def le_SucI)
  then have "length ?acc \<le> length ts" .
  moreover have "length (children y ?acc) \<le> length ?acc" for y by (simp add: children_def)
  ultimately have n: "int (length (children y ?acc)) < 2 ^ 63" for y
    using ts(2) by (meson le_less_trans of_nat_mono order_trans)
  have S: "st_inv y iv off (L y - win) (children y ?acc) (of_symbol y e) (sym_of a y)" for y
    using I by (simp add: agg_inv_def)
  have d: "distinct (map_keys (syms a))" using I by (simp add: agg_inv_def)
  have "\<forall>(y, st) \<in> set (syms a). st_inv y iv off (L y - win) (children y ?acc) (of_symbol y e) st"
  proof clarify
    fix y st assume "(y, st) \<in> set (syms a)"
    then have "sym_of a y = st" using map_get_in[OF d] by (simp add: sym_of_def)
    then show "st_inv y iv off (L y - win) (children y ?acc) (of_symbol y e) st" using S[of y] by simp
  qed
  from flush_syms_col[OF d this] n obtain m' e' where
    f: "flush_syms col (syms a) e = Ret (m', e')" and
    out: "\<forall>y. of_symbol y e' = of_symbol y e @ (case map_get (syms a) y of None \<Rightarrow> [] | Some st \<Rightarrow>
       map (\<lambda>s. roll y iv s (bucket_of iv off (children y ?acc) s)) (sort (map_keys (sbars st))))" by blast
  have "of_symbol y e' = bars_of y iv off (children y ?acc)" for y
  proof (cases "map_get (syms a) y")
    case None
    then have "sbars (sym_of a y) = []" by (simp add: sym_of_def new_symState_def)
    then show ?thesis using out None bars_complete[OF S[of y]] by (simp add: map_keys_def)
  next
    case (Some st)
    then show ?thesis using out bars_complete[OF S[of y]] by (simp add: sym_of_def)
  qed
  then show ?thesis using o f by (simp add: TradeAgg_Flush_def)
qed

end
