(* ===== verification/Kline_Rollup.thy ===== *)
theory Kline_Rollup
  imports Kline_Laws
begin

text \<open>
  \<open>RollupAgg\<close> against the reference: bars over children that arrive in order, and the empty bars
  that fill the gaps.
\<close>

subsection \<open>The reference grows at its end\<close>

lemma bars_of_Nil [simp]: "bars_of y iv off [] = []"
  by (simp add: bars_of_def)

lemma sorted_list_of_set_snoc:
  fixes m :: int
  assumes "finite A" and "\<forall>x \<in> A. x < m"
  shows "sorted_list_of_set (insert m A) = sorted_list_of_set A @ [m]"
proof -
  have "m \<notin> A" using assms(2) by blast
  moreover have "insort m (sorted_list_of_set A) = sorted_list_of_set A @ [m]"
    using assms by (intro sorted_insort_is_snoc) (simp_all add: less_imp_le)
  ultimately show ?thesis using assms(1) by simp
qed

abbreviation buckets :: "int \<Rightarrow> int \<Rightarrow> Bar list \<Rightarrow> int set" where
  "buckets iv off cs \<equiv> (\<lambda>c. bucket iv off (bStartMs c)) ` set cs"

lemma bars_of_new:
  assumes "\<forall>d \<in> set acc. bucket iv off (bStartMs d) < bucket iv off (bStartMs c)"
  shows "bars_of y iv off (acc @ [c]) = bars_of y iv off acc @ [roll y iv (bucket iv off (bStartMs c)) [c]]"
proof -
  let ?s = "bucket iv off (bStartMs c)"
  have L: "sorted_list_of_set (buckets iv off (acc @ [c])) = sorted_list_of_set (buckets iv off acc) @ [?s]"
    using sorted_list_of_set_snoc[of "buckets iv off acc" ?s] assms by simp
  have "bucket_of iv off (acc @ [c]) r = bucket_of iv off acc r" if "r \<in> buckets iv off acc" for r
    using assms that by (auto simp: bucket_of_snoc)
  moreover have "bucket_of iv off (acc @ [c]) ?s = [c]"
    using assms by (auto simp: bucket_of_snoc bucket_of_def filter_empty_conv)
  ultimately show ?thesis unfolding bars_of_def L by simp
qed

lemma bars_of_same:
  assumes e: "em @ [b] = bars_of y iv off acc" and b: "bStartMs b = bucket iv off (bStartMs c)"
  shows "em @ [merge_bar b c] = bars_of y iv off (acc @ [c])"
proof -
  let ?s = "bucket iv off (bStartMs c)"
  let ?r = "\<lambda>acc s. roll y iv s (bucket_of iv off acc s)"
  let ?L = "sorted_list_of_set (buckets iv off acc)"
  obtain ss s where L: "?L = ss @ [s]"
    using e by (cases ?L rule: rev_cases) (auto simp: bars_of_def)
  then have em: "em = map (?r acc) ss" "b = ?r acc s" using e by (auto simp: bars_of_def)
  then have s: "s = ?s" using b by simp
  have "distinct ?L" "set ?L = buckets iv off acc" by simp_all
  then have ss: "s \<notin> set ss" "s \<in> buckets iv off acc" unfolding L by auto
  have "buckets iv off (acc @ [c]) = buckets iv off acc" using ss(2) s by auto
  moreover have "map (?r (acc @ [c])) ss = em"
    using ss(1) s by (auto simp: em bucket_of_snoc)
  moreover have "?r (acc @ [c]) s = merge_bar b c"
    using roll_merge[of "bucket_of iv off acc s" y iv s c] ss(2) bucket_of_Nil[of iv off acc s] s
    by (simp add: em bucket_of_snoc)
  ultimately show ?thesis by (simp add: bars_of_def L)
qed

subsection \<open>Gaps\<close>

lemma fill_gap_col:
  "bs = nxt + int k * iv \<Longrightarrow> k < fuel \<Longrightarrow> 0 < iv \<Longrightarrow> is_i64 nxt \<Longrightarrow> is_i64 bs \<Longrightarrow>
   fill_gap fuel col y iv close nxt bs e =
     Ret (e @ map (\<lambda>j. empty_bar y iv (nxt + int j * iv) close) [0..<k])"
proof (induction k arbitrary: fuel nxt e)
  case 0
  then show ?case by (cases fuel) simp_all
next
  case (Suc k)
  obtain f where f: "fuel = Suc f" "k < f" using Suc.prems(2) by (cases fuel) auto
  have n: "bs = (nxt + iv) + int k * iv" using Suc.prems(1) by (simp add: algebra_simps)
  moreover have "0 \<le> int k * iv" using Suc.prems(3) by simp
  ultimately have le: "nxt < bs" "nxt + iv \<le> bs" using Suc.prems(3) by linarith+
  then have i: "is_i64 (nxt + iv)" using Suc.prems(3-5) by (simp add: is_i64_def)
  have "map (\<lambda>j. empty_bar y iv (nxt + int j * iv) close) [0..<Suc k] =
      empty_bar y iv nxt close # map (\<lambda>j. empty_bar y iv (nxt + iv + int j * iv) close) [0..<k]"
    by (simp add: upt_conv_Cons map_Suc_upt[symmetric] comp_def algebra_simps del: upt_Suc)
  then show ?case
    using Suc.IH[OF n f(2) Suc.prems(3) i Suc.prems(5), of "e @ [empty_bar y iv nxt close]"] f(1) le(1)
    by (simp add: col_def i64_id[OF i])
qed

definition steps_of :: "int \<Rightarrow> int list \<Rightarrow> bool" where
  "steps_of iv ss \<longleftrightarrow> successively (\<lambda>a b. b = a + iv) ss"

lemma steps_of_gap:
  assumes "steps_of iv (ss @ [s])"
  shows "steps_of iv (ss @ s # map (\<lambda>j. s + iv + int j * iv) [0..<k] @ [s + iv + int k * iv])"
proof (induction k)
  case 0
  then show ?case using assms by (simp add: steps_of_def successively_append_iff)
next
  case (Suc k)
  have "ss @ s # map (\<lambda>j. s + iv + int j * iv) [0..<Suc k] @ [s + iv + int (Suc k) * iv] =
      (ss @ s # map (\<lambda>j. s + iv + int j * iv) [0..<k] @ [s + iv + int k * iv]) @ [s + iv + int (Suc k) * iv]"
    by simp
  then show ?case using Suc unfolding steps_of_def
    by (simp only: successively_append_iff) (simp add: algebra_simps)
qed

subsection \<open>The state of a symbol\<close>

text \<open>What every emitted bar satisfies, so that it can be a child of the next aggregator.\<close>

definition emitted_ok :: "int \<Rightarrow> int \<Rightarrow> Bar \<Rightarrow> bool" where
  "emitted_ok iv off b \<longleftrightarrow> 0 \<le> bStartMs b + off \<and> bStartMs b + off < 2 ^ 61 \<and> is_i64 (bVolume b) \<and>
     bInterval b = i64 (iv * Millisecond)"

definition roll_inv :: "bool \<Rightarrow> int \<Rightarrow> int \<Rightarrow> string \<Rightarrow> Bar list \<Rightarrow> Bar list \<Rightarrow> Bar option \<Rightarrow> bool" where
  "roll_inv fill iv off y acc em cb \<longleftrightarrow>
     (case cb of
        None \<Rightarrow> acc = [] \<and> em = []
      | Some b \<Rightarrow> acc \<noteq> [] \<and> bStartMs b = bucket iv off (bStartMs (last acc)) \<and>
          filter (\<lambda>b. bCount b \<noteq> 0) em @ [b] = bars_of y iv off acc \<and>
          (fill \<longrightarrow> steps_of iv (map bStartMs em @ [bStartMs b])) \<and>
          (\<not> fill \<longrightarrow> (\<forall>b \<in> set em. bCount b \<noteq> 0)) \<and> (\<forall>b \<in> set em. emitted_ok iv off b))"

lemma bars_count:
  assumes "int (length acc) < 2 ^ 63" and "b \<in> set (bars_of y iv off acc)"
  shows "0 < bCount b"
proof -
  obtain s where s: "s \<in> buckets iv off acc" "b = roll y iv s (bucket_of iv off acc s)"
    using assms(2) by (auto simp: bars_of_def)
  have "int (length (bucket_of iv off acc s)) < 2 ^ 63"
    using assms(1) length_filter_le[of _ acc] unfolding bucket_of_def by (smt (verit) of_nat_mono)
  then show ?thesis using s bucket_of_Nil[of iv off acc s] by (simp add: roll_def i64_id is_i64_def)
qed

lemma bars_ok:
  assumes "\<forall>c \<in> set acc. in_range iv off (bStartMs c)" and "b \<in> set (bars_of y iv off acc)"
  shows "emitted_ok iv off b"
proof -
  obtain c where c: "c \<in> set acc" "bStartMs b = bucket iv off (bStartMs c)" "is_i64 (bVolume b)"
      "bInterval b = i64 (iv * Millisecond)"
    using assms(2) by (auto simp: bars_of_def roll_def is_i64_i64)
  then have r: "in_range iv off (bStartMs c)" using assms(1) by simp
  then show ?thesis using bucket_bounds(1)[of iv off "bStartMs c"] c
    by (simp add: emitted_ok_def in_range_def) (simp add: bucket_def pos_imp_zdiv_nonneg_iff)
qed

lemma in_range_i64: "in_range iv off ts \<Longrightarrow> is_i64 (bucket iv off ts)"
proof -
  assume r: "in_range iv off ts"
  then show "is_i64 (bucket iv off ts)"
    using bucket_bounds[of iv off ts] bucket_bounds(2)[of iv ts off]
    by (simp add: in_range_def is_i64_def) linarith
qed

text \<open>
  Offering a child that is not older than the last: the bars emitted are the current bar and, with
  gap filling, the empty ones up to the child's bucket.
\<close>

lemma offer_bar:
  assumes I: "roll_inv (fillGaps a) iv off y acc em (map_get (cur a) y)"
    and a: "rIntervalMs a = iv" "rOffsetMs a = off"
    and c: "bSymbol c = y" "in_range iv off (bStartMs c)" "is_i64 (bVolume c)"
    and ord: "\<forall>d \<in> set acc. bStartMs d \<le> bStartMs c \<and> in_range iv off (bStartMs d)"
    and len: "int (length acc) < 2 ^ 63"
  obtains a' new cb where "OfferBar col a c e = Ret (a', e @ new)"
    and "cur a' = map_set (cur a) y cb" and "fillGaps a' = fillGaps a" "rIntervalMs a' = iv" "rOffsetMs a' = off"
    and "of_symbol y new = new" and "\<forall>z. z \<noteq> y \<longrightarrow> of_symbol z new = []"
    and "roll_inv (fillGaps a) iv off y (acc @ [c]) (em @ new) (Some cb)"
proof -
  let ?s = "bucket iv off (bStartMs c)"
  have iv: "0 < iv" using c(2) by (simp add: in_range_def)
  note be = bucket_end_i64[OF c(2)]
  have opn: "open_bar iv ?s (?s + iv) c = roll y iv ?s [c]" by (rule roll_one[OF c(3,1)])
  show thesis
  proof (cases "map_get (cur a) y")
    case None
    then have acc: "acc = []" "em = []" using I by (simp_all add: roll_inv_def)
    have "bars_of y iv off [c] = [roll y iv ?s [c]]" using bars_of_new[of "[]" iv off c y] by simp
    then show thesis using that[of _ "[]" "roll y iv ?s [c]"] None acc a c opn be
      by (simp add: OfferBar_def bucketStartMs_eq Let_def roll_inv_def steps_of_def)
  next
    case (Some b)
    then have acc: "acc \<noteq> []" and b: "bStartMs b = bucket iv off (bStartMs (last acc))"
      and bars: "filter (\<lambda>b. bCount b \<noteq> 0) em @ [b] = bars_of y iv off acc"
      and steps: "fillGaps a \<Longrightarrow> steps_of iv (map bStartMs em @ [bStartMs b])"
      and okem: "\<forall>b \<in> set em. emitted_ok iv off b" "\<not> fillGaps a \<Longrightarrow> \<forall>b \<in> set em. bCount b \<noteq> 0"
      using I by (auto simp: roll_inv_def)
    have l: "last acc \<in> set acc" using acc by simp
    then have le: "bStartMs b \<le> ?s" using bucket_mono[OF iv] ord b by simp
    have bsym: "bSymbol b = y" "0 < bCount b"
    proof -
      have "b \<in> set (bars_of y iv off acc)" using bars by (metis in_set_conv_decomp)
      then show "bSymbol b = y" "0 < bCount b" using bars_count[OF len] by (auto simp: bars_of_def)
    qed
    show thesis
    proof (cases "bStartMs b = ?s")
      case True
      have "OfferBar col a c e = Ret (a\<lparr>cur := map_set (cur a) y (merge_bar b c)\<rparr>, e @ [])"
        using Some True a c by (simp add: OfferBar_def bucketStartMs_eq Let_def)
      moreover have "bStartMs (merge_bar b c) = bStartMs b" by (simp add: merge_bar_def Let_def)
      ultimately show thesis
        using that[of _ "[]" "merge_bar b c"] bars_of_same[OF bars True] steps okem True a
        by (simp add: roll_inv_def)
    next
      case False
      then have lt: "bStartMs b < ?s" using le by simp
      obtain k where k: "0 < k" "?s = bStartMs b + int k * iv" using bucket_grid[OF iv] lt b by metis
      then obtain j where j: "k = Suc j" by (cases k) auto
      let ?gap = "map (\<lambda>i. empty_bar y iv (bStartMs b + iv + int i * iv) (bClose b)) [0..<j]"
      let ?new = "b # (if fillGaps a then ?gap else [])"
      let ?cb = "roll y iv ?s [c]"
      have ib: "is_i64 (bStartMs b)" "is_i64 ?s" using in_range_i64 ord l c(2) b by simp_all
      have sj: "?s = bStartMs b + iv + int j * iv" using k(2) j by (simp add: algebra_simps)
      have "0 \<le> int j * iv" using iv by simp
      then have "bStartMs b + iv \<le> ?s" using sj by linarith
      then have i1: "is_i64 (bStartMs b + iv)" using ib iv by (simp add: is_i64_def)
      have "(?s - bStartMs b) div iv = int k" using k(2) iv by simp
      then have fuel: "j < gap_fuel iv (bStartMs b) ?s" by (simp add: gap_fuel_def j)
      have gap: "fill_gap (gap_fuel iv (bStartMs b) ?s) col y iv (bClose b) (bStartMs b + iv) ?s (e @ [b]) =
          Ret ((e @ [b]) @ ?gap)"
        by (rule fill_gap_col[OF sj fuel iv i1 ib(2)])
      have off: "\<exists>a'. OfferBar col a c e = Ret (a', e @ ?new) \<and> cur a' = map_set (cur a) y ?cb \<and>
          fillGaps a' = fillGaps a \<and> rIntervalMs a' = iv \<and> rOffsetMs a' = off"
        using Some lt a c gap opn be i64_id[OF i1]
        by (simp add: OfferBar_def bucketStartMs_eq Let_def col_def)
      have "\<forall>d \<in> set acc. bucket iv off (bStartMs d) < ?s"
      proof
        fix d assume "d \<in> set acc"
        have "b = last (bars_of y iv off acc)" using bars by (metis last_snoc)
        have "bucket iv off (bStartMs d) \<in> bStartMs ` set (bars_of y iv off acc)"
          using \<open>d \<in> set acc\<close> by (force simp: bars_of_def)
        moreover have "sorted (map bStartMs (bars_of y iv off acc))" by (simp add: bars_of_def comp_def)
        then have "\<forall>x \<in> set (bars_of y iv off acc). bStartMs x \<le> bStartMs b"
          unfolding bars[symmetric] by (auto simp: sorted_append)
        ultimately show "bucket iv off (bStartMs d) < ?s" using lt by force
      qed
      note nb = bars_of_new[OF this, of y]
      have cnt: "filter (\<lambda>b. bCount b \<noteq> 0) ?new = [b]" using bsym(2) by (auto simp: empty_bar_def filter_empty_conv)
      have st: "fillGaps a \<Longrightarrow> steps_of iv (map bStartMs (em @ ?new) @ [bStartMs ?cb])"
        using steps_of_gap[OF steps, of j] sj by (simp add: comp_def empty_bar_def)
      have okb: "emitted_ok iv off b"
        by (rule bars_ok[of acc iv off b y]) (use ord bars[symmetric] in auto)
      have "emitted_ok iv off ?cb"
        by (rule bars_ok[of "acc @ [c]" iv off _ y]) (use ord c(2) nb in auto)
      then have "emitted_ok iv off (empty_bar y iv (bStartMs b + iv + int i * iv) (bClose b))" if "i < j" for i
      proof -
        have "int i * iv \<le> int j * iv" "0 \<le> int i * iv" using that iv by simp_all
        then have "bStartMs b \<le> bStartMs b + iv + int i * iv" "bStartMs b + iv + int i * iv \<le> bStartMs ?cb"
          using sj iv unfolding roll_fields by linarith+
        moreover have "bStartMs b + off \<ge> 0" "bStartMs ?cb + off < 2 ^ 61"
          using okb \<open>emitted_ok iv off ?cb\<close> by (simp_all add: emitted_ok_def)
        ultimately have "0 \<le> bStartMs b + iv + int i * iv + off \<and> bStartMs b + iv + int i * iv + off < 2 ^ 61"
          by linarith
        then show ?thesis by (simp add: emitted_ok_def empty_bar_def is_i64_def)
      qed
      then have okn: "\<forall>b \<in> set ?new. emitted_ok iv off b" using okb by auto
      have R: "roll_inv (fillGaps a) iv off y (acc @ [c]) (em @ ?new) (Some ?cb)"
        using nb bars cnt st okn okem bsym(2) by (auto simp: roll_inv_def)
      have sy: "of_symbol y ?new = ?new" "\<forall>z. z \<noteq> y \<longrightarrow> of_symbol z ?new = []"
        using bsym(1) by (auto simp: of_symbol_def empty_bar_def filter_empty_conv)
      show thesis using off that R sy by blast
    qed
  qed
qed


subsection \<open>All symbols\<close>

fun offer_bars :: "(Bar \<Rightarrow> 'e \<Rightarrow> 'e go) \<Rightarrow> RollupAgg \<Rightarrow> Bar list \<Rightarrow> 'e \<Rightarrow> (RollupAgg \<times> 'e) go" where
  "offer_bars emit a [] e = Ret (a, e)"
| "offer_bars emit a (c # cs) e = andThen (OfferBar emit a c e) (\<lambda>(a1, e1). offer_bars emit a1 cs e1)"

definition rollup_inv :: "bool \<Rightarrow> int \<Rightarrow> int \<Rightarrow> Bar list \<Rightarrow> RollupAgg \<Rightarrow> Bar list \<Rightarrow> bool" where
  "rollup_inv fill iv off acc a e \<longleftrightarrow>
     rIntervalMs a = iv \<and> rOffsetMs a = off \<and> fillGaps a = fill \<and> distinct (map_keys (cur a)) \<and>
     (\<forall>y. roll_inv fill iv off y (of_symbol y acc) (of_symbol y e) (map_get (cur a) y))"

text \<open>Children come in order, per symbol, within the range of the clock.\<close>

definition ordered :: "Bar list \<Rightarrow> bool" where
  "ordered cs \<longleftrightarrow> (\<forall>y. sorted (map bStartMs (of_symbol y cs)))"

definition child_ok :: "int \<Rightarrow> int \<Rightarrow> Bar \<Rightarrow> bool" where
  "child_ok iv off c \<longleftrightarrow> in_range iv off (bStartMs c) \<and> is_i64 (bVolume c)"

definition few :: "Bar list \<Rightarrow> bool" where
  "few cs \<longleftrightarrow> (\<forall>y. int (length (of_symbol y cs)) < 2 ^ 63)"

lemma few_le: "few (xs @ ys) \<Longrightarrow> int (length (of_symbol y xs)) < 2 ^ 63"
  unfolding few_def by (metis of_symbol_simps(2) length_append of_nat_add le_less_trans le_add1 of_nat_mono)

lemma offer_bars_inv:
  assumes "rollup_inv fill iv off acc a e" and "ordered (acc @ cs)"
    and "\<forall>c \<in> set (acc @ cs). child_ok iv off c" and "few (acc @ cs)"
  shows "\<exists>a' e'. offer_bars col a cs e = Ret (a', e') \<and> rollup_inv fill iv off (acc @ cs) a' e'"
  using assms
proof (induction cs arbitrary: acc a e)
  case Nil
  then show ?case by auto
next
  case (Cons c cs)
  let ?y = "bSymbol c"
  have I: "roll_inv (fillGaps a) iv off ?y (of_symbol ?y acc) (of_symbol ?y e) (map_get (cur a) ?y)"
    and a: "rIntervalMs a = iv" "rOffsetMs a = off" "fillGaps a = fill" "distinct (map_keys (cur a))"
    and O: "\<forall>y. roll_inv fill iv off y (of_symbol y acc) (of_symbol y e) (map_get (cur a) y)"
    using Cons.prems(1) by (simp_all add: rollup_inv_def)
  have c: "in_range iv off (bStartMs c)" "is_i64 (bVolume c)" using Cons.prems(3) by (simp_all add: child_ok_def)
  have "sorted (map bStartMs (of_symbol ?y acc @ c # of_symbol ?y cs))"
    using Cons.prems(2) by (auto simp: ordered_def of_symbol_def dest: spec[of _ ?y])
  then have ord: "\<forall>d \<in> set (of_symbol ?y acc). bStartMs d \<le> bStartMs c \<and> in_range iv off (bStartMs d)"
    using Cons.prems(3) by (auto simp: sorted_append child_ok_def of_symbol_def)
  have len: "int (length (of_symbol ?y acc)) < 2 ^ 63" using few_le[OF Cons.prems(4), of ?y] by simp
  from offer_bar[OF I a(1,2) refl c ord len, of e] obtain a1 new cb where
    o: "OfferBar col a c e = Ret (a1, e @ new)" and a1: "cur a1 = map_set (cur a) ?y cb"
      "fillGaps a1 = fillGaps a" "rIntervalMs a1 = iv" "rOffsetMs a1 = off" and
    n: "of_symbol ?y new = new" "\<forall>z. z \<noteq> ?y \<longrightarrow> of_symbol z new = []" and
    R: "roll_inv (fillGaps a) iv off ?y (of_symbol ?y acc @ [c]) (of_symbol ?y e @ new) (Some cb)" by metis
  have "roll_inv fill iv off z (of_symbol z (acc @ [c])) (of_symbol z (e @ new)) (map_get (cur a1) z)" for z
    using R n a O a1(1) by (cases "z = ?y") (simp_all add: of_symbol_def map_get_set)
  then have I1: "rollup_inv fill iv off (acc @ [c]) a1 (e @ new)"
    using a a1 by (simp add: rollup_inv_def distinct_map_ops)
  show ?case using Cons.IH[OF I1] Cons.prems(2-4) o by simp
qed


text \<open>Flushing emits the current bars, once per call.\<close>

lemma rollup_flush_col:
  "\<forall>b \<in> set (map snd m). 0 < bCount b \<Longrightarrow>
   \<exists>a'. rollup_flush col m a e = Ret (a', e @ map snd m) \<and> cur a' = cur a"
proof (induction m arbitrary: a e)
  case Nil
  then show ?case by simp
next
  case (Cons x m)
  obtain y b where x: "x = (y, b)" by (cases x)
  let ?a = "a\<lparr>lastClose := (lastClose a)(y := bClose b), hasClose := (hasClose a)(y := True)\<rparr>"
  have "\<forall>b \<in> set (map snd m). 0 < bCount b" using Cons.prems by simp
  from Cons.IH[OF this, of ?a "e @ [b]"] show ?case using Cons.prems x by (auto simp: col_def)
qed

lemma of_symbol_cur:
  assumes "distinct (map_keys m)" and "\<forall>(z, b) \<in> set m. bSymbol b = z"
  shows "of_symbol y (map snd m) = (case map_get m y of None \<Rightarrow> [] | Some b \<Rightarrow> [b])"
  using assms
proof (induction m)
  case Nil
  then show ?case by simp
next
  case (Cons x m)
  obtain z b where x: "x = (z, b)" by (cases x)
  have "map_get m z = None" using Cons.prems(1) x map_keys_get[of z m] by (auto simp: map_keys_def)
  then show ?case using Cons x by (auto simp: of_symbol_def map_get_def map_keys_def)
qed

lemma roll_inv_cur:
  assumes "roll_inv fill iv off y acc em (Some b)" and "int (length acc) < 2 ^ 63"
  shows "0 < bCount b" "bSymbol b = y"
proof -
  have "filter (\<lambda>b. bCount b \<noteq> 0) em @ [b] = bars_of y iv off acc" using assms(1) by (simp add: roll_inv_def)
  then have b: "b \<in> set (bars_of y iv off acc)" by (metis in_set_conv_decomp)
  then show "0 < bCount b" by (rule bars_count[OF assms(2)])
  show "bSymbol b = y" using b by (auto simp: bars_of_def)
qed


text \<open>Bars of one symbol strictly in order.\<close>

lemma steps_of_sorted: "steps_of iv ss \<Longrightarrow> 0 < iv \<Longrightarrow> sorted_wrt (<) ss"
  unfolding steps_of_def
  by (induction ss rule: induct_list012) (auto simp: sorted_wrt2_simps successively_Cons intro: less_trans)

lemma bars_of_sorted: "sorted_wrt (<) (map bStartMs (bars_of y iv off cs))"
  by (simp add: bars_of_def comp_def strict_sorted_iff)

text \<open>What one aggregator makes of its children: the bars of the reference, gaps filled.\<close>

definition rolled :: "bool \<Rightarrow> int \<Rightarrow> int \<Rightarrow> Bar list \<Rightarrow> Bar list \<Rightarrow> bool" where
  "rolled fill iv off cs bs \<longleftrightarrow>
     (\<forall>y. filter (\<lambda>b. bCount b \<noteq> 0) (of_symbol y bs) = bars_of y iv off (of_symbol y cs) \<and>
       (fill \<longrightarrow> steps_of iv (map bStartMs (of_symbol y bs))) \<and>
       (\<not> fill \<longrightarrow> of_symbol y bs = bars_of y iv off (of_symbol y cs)))"

lemma rolled_ordered: "rolled fill iv off cs bs \<Longrightarrow> 0 < iv \<Longrightarrow> sorted_wrt (<) (map bStartMs (of_symbol y bs))"
  using steps_of_sorted bars_of_sorted by (cases fill) (auto simp: rolled_def)

lemma rollup_flush_inv:
  assumes I: "rollup_inv fill iv off acc a e" and few: "few acc"
    and ok: "\<forall>c \<in> set acc. child_ok iv off c"
  obtains a' where "RollupAgg_Flush col a e' = Ret (a', e' @ map snd (cur a))" and "cur a' = cur a"
    and "\<forall>y. of_symbol y (map snd (cur a)) = (case map_get (cur a) y of None \<Rightarrow> [] | Some b \<Rightarrow> [b])"
    and "rolled fill iv off acc (e @ map snd (cur a))"
    and "\<forall>b \<in> set (e @ map snd (cur a)). emitted_ok iv off b"
proof -
  have d: "distinct (map_keys (cur a))" using I by (simp add: rollup_inv_def)
  have R: "roll_inv fill iv off y (of_symbol y acc) (of_symbol y e) (map_get (cur a) y)" for y
    using I by (simp add: rollup_inv_def)
  have n: "int (length (of_symbol y acc)) < 2 ^ 63" for y using few by (simp add: few_def)
  have g: "0 < bCount b \<and> bSymbol b = z" if "(z, b) \<in> set (cur a)" for z b
    using R[of z] roll_inv_cur[OF _ n[of z]] that map_get_in[OF d] by auto
  then have "\<forall>b \<in> set (map snd (cur a)). 0 < bCount b" by auto
  from rollup_flush_col[OF this, of a e'] obtain a' where
    f: "RollupAgg_Flush col a e' = Ret (a', e' @ map snd (cur a))" "cur a' = cur a"
    by (auto simp: RollupAgg_Flush_def)
  have s: "of_symbol y (map snd (cur a)) = (case map_get (cur a) y of None \<Rightarrow> [] | Some b \<Rightarrow> [b])" for y
    using of_symbol_cur[OF d] g by blast
  have r: "\<forall>c \<in> set (of_symbol y acc). in_range iv off (bStartMs c)" for y
    using ok by (simp add: of_symbol_def child_ok_def)
  have main: "filter (\<lambda>b. bCount b \<noteq> 0) (of_symbol y (e @ map snd (cur a))) = bars_of y iv off (of_symbol y acc) \<and>
      (fill \<longrightarrow> steps_of iv (map bStartMs (of_symbol y (e @ map snd (cur a))))) \<and>
      (\<not> fill \<longrightarrow> of_symbol y (e @ map snd (cur a)) = bars_of y iv off (of_symbol y acc)) \<and>
      (\<forall>b \<in> set (of_symbol y (e @ map snd (cur a))). emitted_ok iv off b)" for y
  proof (cases "map_get (cur a) y")
    case None
    then show ?thesis using R[of y] s[of y] by (simp add: roll_inv_def steps_of_def)
  next
    case (Some b)
    then have I': "roll_inv fill iv off y (of_symbol y acc) (of_symbol y e) (Some b)" using R[of y] by simp
    then have B: "filter (\<lambda>b. bCount b \<noteq> 0) (of_symbol y e) @ [b] = bars_of y iv off (of_symbol y acc)"
      by (simp add: roll_inv_def)
    have "emitted_ok iv off b" by (rule bars_ok[OF r[of y], of _ y]) (simp add: B[symmetric])
    moreover have "0 < bCount b" by (rule roll_inv_cur(1)[OF I' n])
    moreover have "filter (\<lambda>b. bCount b \<noteq> 0) (of_symbol y e) = of_symbol y e" if "\<not> fill"
      using I' that by (simp add: roll_inv_def)
    ultimately show ?thesis using I' s[of y] Some B by (auto simp: roll_inv_def)
  qed
  then have "rolled fill iv off acc (e @ map snd (cur a))" by (simp add: rolled_def)
  moreover have "\<forall>b \<in> set (e @ map snd (cur a)). emitted_ok iv off b"
  proof
    fix b assume "b \<in> set (e @ map snd (cur a))"
    then have "b \<in> set (of_symbol (bSymbol b) (e @ map snd (cur a)))" by (auto simp: of_symbol_def)
    then show "emitted_ok iv off b" using main by blast
  qed
  ultimately show thesis using that[OF f] s by blast
qed

lemma rollup_inv_new:
  assumes "go_div interval Millisecond = iv" and "go_div tz Millisecond = off"
  shows "rollup_inv fill iv off [] (NewRollupAggFill interval tz fill) []"
  using assms by (simp add: rollup_inv_def NewRollupAggFill_def map_keys_def roll_inv_def)

text \<open>Everything offered, then flushed, and flushed again.\<close>

lemma bars_to_bars:
  assumes p: "go_div interval Millisecond = iv" "go_div tz Millisecond = off"
    and cs: "ordered cs" "\<forall>c \<in> set cs. child_ok iv off c" "few cs"
  shows "\<exists>a a1 a2 e new. offer_bars col (NewRollupAggFill interval tz fill) cs [] = Ret (a, e) \<and>
    RollupAgg_Flush col a e = Ret (a1, e @ new) \<and> RollupAgg_Flush col a1 (e @ new) = Ret (a2, e @ new @ new) \<and>
    rolled fill iv off cs (e @ new) \<and> (\<forall>b \<in> set (e @ new). emitted_ok iv off b) \<and>
    (\<forall>c \<in> set cs. of_symbol (bSymbol c) new \<noteq> [])"
proof -
  obtain a e where o: "offer_bars col (NewRollupAggFill interval tz fill) cs [] = Ret (a, e)"
    and I: "rollup_inv fill iv off cs a e"
    using offer_bars_inv[OF rollup_inv_new[OF p, of fill], of cs] cs by auto
  obtain a1 where f1: "RollupAgg_Flush col a e = Ret (a1, e @ map snd (cur a))" and c1: "cur a1 = cur a"
    and s: "\<forall>y. of_symbol y (map snd (cur a)) = (case map_get (cur a) y of None \<Rightarrow> [] | Some b \<Rightarrow> [b])"
    and r: "rolled fill iv off cs (e @ map snd (cur a))" "\<forall>b \<in> set (e @ map snd (cur a)). emitted_ok iv off b"
    by (rule rollup_flush_inv[OF I cs(3,2)]) blast
  have "0 < bCount b" if "(z, b) \<in> set (cur a)" for z b
  proof -
    have "distinct (map_keys (cur a))" "roll_inv fill iv off z (of_symbol z cs) (of_symbol z e) (map_get (cur a) z)"
      using I by (simp_all add: rollup_inv_def)
    then show ?thesis using cs(3) that map_get_in[of "cur a"] roll_inv_cur by (auto simp: few_def)
  qed
  then have "\<forall>b \<in> set (map snd (cur a)). 0 < bCount b" by auto
  then obtain a2 where f2: "RollupAgg_Flush col a1 (e @ map snd (cur a)) = Ret (a2, (e @ map snd (cur a)) @ map snd (cur a))"
    using rollup_flush_col[of "cur a" a1 "e @ map snd (cur a)"] c1 by (auto simp: RollupAgg_Flush_def)
  have "of_symbol (bSymbol c) (map snd (cur a)) \<noteq> []" if "c \<in> set cs" for c
  proof -
    have "of_symbol (bSymbol c) cs \<noteq> []" using that by (auto simp: of_symbol_def filter_empty_conv)
    then have "map_get (cur a) (bSymbol c) \<noteq> None"
      using I by (auto simp: rollup_inv_def roll_inv_def split: option.splits)
    then show ?thesis using s by auto
  qed
  then show ?thesis using o f1 f2 r
    by (intro exI[of _ a] exI[of _ a1] exI[of _ a2] exI[of _ e] exI[of _ "map snd (cur a)"]) auto
qed

text \<open>Children from a lower level: in order, in range, and never too many of them.\<close>

lemma strict_length:
  assumes "sorted_wrt (<) ss" and "\<forall>x \<in> set ss. l \<le> x \<and> x < u" and "l \<le> (u :: int)"
  shows "int (length ss) \<le> u - l"
proof -
  have "card (set ss) \<le> card {l ..< u}" using assms(2) by (intro card_mono) auto
  moreover have "card (set ss) = length ss" using assms(1) by (simp add: strict_sorted_iff distinct_card)
  ultimately show ?thesis using assms(3) by simp
qed

lemma strict_children:
  assumes s: "\<And>y. sorted_wrt (<) (map bStartMs (of_symbol y bs))" and ok: "\<forall>b \<in> set bs. emitted_ok iv1 off b"
    and iv: "0 < iv" "iv < 2 ^ 61" "\<bar>off\<bar> < 2 ^ 61"
  shows "ordered bs" "\<forall>c \<in> set bs. child_ok iv off c" "few bs"
proof -
  show "ordered bs" using s by (simp add: ordered_def strict_sorted_imp_sorted)
  show "\<forall>c \<in> set bs. child_ok iv off c" using ok iv by (simp add: child_ok_def emitted_ok_def in_range_def)
  have "int (length (map bStartMs (of_symbol y bs))) \<le> (2 ^ 61 - off) - (- off)" for y
    by (rule strict_length[OF s]) (use ok in \<open>auto simp: of_symbol_def emitted_ok_def\<close>)
  then have "int (length (of_symbol y bs)) \<le> 2 ^ 61" for y by simp
  then show "few bs" unfolding few_def using le_less_trans[of _ "2 ^ 61" "2 ^ 63 :: int"] by fastforce
qed

end
