(* ===== verification/Kline_Shard.thy ===== *)
theory Kline_Shard
  imports Kline_Rollup
begin

text \<open>
  \<^verbatim>\<open>internal/quotes/kline/shard.go\<close>: trades are routed by symbol to shards, and each shard
  chains four aggregators (1s, 1m, 1h, 1d) whose callbacks send to \<open>out\<close> and feed the next one. A
  callback acts on the state below its aggregator, so the chain is built from the day upwards.
  \<open>out\<close> is the sequence of events sent so far; a shard that waits for room in it is not modelled.
\<close>

subsection \<open>Data\<close>

record KlineEvent =
  evBar :: Bar

record ShardedAggConfig =
  Shards :: int
  ReorderWindow :: int
  TZOffset :: int
  FillGaps1m :: bool
  FillGaps1h :: bool
  FillGaps1d :: bool
  InboxSize :: int
  DropWhenFull :: bool

text \<open>The aggregators of a shard with the events sent: every callback passes this state along.\<close>

type_synonym day_state = "RollupAgg \<times> KlineEvent list"
type_synonym hour_state = "RollupAgg \<times> day_state"
type_synonym minute_state = "RollupAgg \<times> hour_state"
type_synonym chain_state = "TradeAgg \<times> minute_state"

definition Second :: int where "Second = 1000 * Millisecond"

definition Minute :: int where "Minute = 60 * Second"

definition Hour :: int where "Hour = 60 * Minute"

subsection \<open>The callbacks of the chain\<close>

text \<open>\<open>a.out <- KlineEvent{Bar: b}\<close>.\<close>

definition send :: "Bar \<Rightarrow> KlineEvent list \<Rightarrow> KlineEvent list" where
  "send b out = out @ [\<lparr>evBar = b\<rparr>]"

definition emit_day :: "Bar \<Rightarrow> KlineEvent list \<Rightarrow> KlineEvent list go" where
  "emit_day b out = Ret (send b out)"

definition emit_hour :: "Bar \<Rightarrow> day_state \<Rightarrow> day_state go" where
  "emit_hour b = (\<lambda>(d, out). OfferBar emit_day d b (send b out))"

definition emit_minute :: "Bar \<Rightarrow> hour_state \<Rightarrow> hour_state go" where
  "emit_minute b = (\<lambda>(h, d, out). OfferBar emit_hour h b (d, send b out))"

definition emit_second :: "Bar \<Rightarrow> minute_state \<Rightarrow> minute_state go" where
  "emit_second b = (\<lambda>(m, h, d, out). OfferBar emit_minute m b (h, d, send b out))"

definition new_chain :: "ShardedAggConfig \<Rightarrow> KlineEvent list \<Rightarrow> chain_state" where
  "new_chain cfg out =
     (NewTradeAggReorder (1 * Second) (TZOffset cfg) (ReorderWindow cfg),
      NewRollupAggFill (1 * Minute) (TZOffset cfg) (FillGaps1m cfg),
      NewRollupAggFill (1 * Hour) (TZOffset cfg) (FillGaps1h cfg),
      NewRollupAggFill (24 * Hour) (TZOffset cfg) (FillGaps1d cfg), out)"

text \<open>The two cases of the worker's \<open>select\<close>: a trade from the inbox, or the end of the context.\<close>

definition chain_trade :: "MdTrade \<Rightarrow> chain_state \<Rightarrow> chain_state go" where
  "chain_trade t = (\<lambda>(s, x). OfferTrade emit_second s t x)"

definition chain_flush :: "chain_state \<Rightarrow> chain_state go" where
  "chain_flush = (\<lambda>(s, x).
     andThen (TradeAgg_Flush emit_second s x) (\<lambda>(s1, m, x1).
       andThen (RollupAgg_Flush emit_minute m x1) (\<lambda>(m1, h, x2).
         andThen (RollupAgg_Flush emit_hour h x2) (\<lambda>(h1, d, x3).
           andThen (RollupAgg_Flush emit_day d x3) (\<lambda>(d1, out).
             Ret (s1, m1, h1, d1, out))))))"

fun chain_trades :: "MdTrade list \<Rightarrow> chain_state \<Rightarrow> chain_state go" where
  "chain_trades [] c = Ret c"
| "chain_trades (t # ts) c = andThen (chain_trade t c) (chain_trades ts)"

subsection \<open>Routing\<close>

text \<open>FNV-1a, 64 bits, as \<^verbatim>\<open>hash/fnv\<close> documents it.\<close>

definition fnv1a :: "string \<Rightarrow> uint64" where
  "fnv1a s = fold (\<lambda>c h. xor h (of_char c) * 1099511628211) s 14695981039346656037"

definition shardIndex :: "string \<Rightarrow> int \<Rightarrow> int go" where
  "shardIndex symbol shards =
     (if shards = 0 then Panic else Ret (sint (fnv1a symbol mod word_of_int shards)))"

text \<open>
  A shard: its inbox, whether its worker still runs, and its aggregators. The shards share \<open>out\<close>.
\<close>

record shard =
  inbox :: "MdTrade list"
  running :: bool
  aggs :: "TradeAgg \<times> RollupAgg \<times> RollupAgg \<times> RollupAgg"

record ShardedAggregator =
  acfg :: ShardedAggConfig
  shards :: "shard list"
  evs :: "KlineEvent list"
  closed :: bool

definition with_out :: "TradeAgg \<times> RollupAgg \<times> RollupAgg \<times> RollupAgg \<Rightarrow> KlineEvent list \<Rightarrow> chain_state" where
  "with_out = (\<lambda>(s, m, h, d) out. (s, m, h, d, out))"

definition NewShardedAggregator :: "ShardedAggConfig \<Rightarrow> goerror + ShardedAggregator" where
  "NewShardedAggregator cfg =
     (if Shards cfg \<le> 0 then Inl ''Shards must be > 0''
      else
        let cfg1 = (if InboxSize cfg \<le> 0 then cfg\<lparr>InboxSize := 8192\<rparr> else cfg);
            (s, m, h, d, out) = new_chain cfg1 []
        in Inr \<lparr>acfg = cfg1,
               shards = replicate (nat (Shards cfg1)) \<lparr>inbox = [], running = False, aggs = (s, m, h, d)\<rparr>,
               evs = out, closed = False\<rparr>)"

definition start_workers :: "ShardedAggregator \<Rightarrow> ShardedAggregator" where
  "start_workers a = a\<lparr>shards := map (\<lambda>sh. sh\<lparr>running := True\<rparr>) (shards a)\<rparr>"

text \<open>\<open>None\<close>: the send blocks until a worker makes room.\<close>

definition Sharded_OfferTrade :: "ShardedAggregator \<Rightarrow> MdTrade \<Rightarrow> (ShardedAggregator \<times> bool) option go" where
  "Sharded_OfferTrade a t =
     andThen (shardIndex (Symbol t) (int (length (shards a)))) (\<lambda>idx.
      if 0 \<le> idx \<and> idx < int (length (shards a)) then
           let sh = shards a ! nat idx;
               a1 = a\<lparr>shards := (shards a)[nat idx := sh\<lparr>inbox := inbox sh @ [t]\<rparr>]\<rparr>;
               room = int (length (inbox sh)) < InboxSize (acfg a)
           in if \<not> DropWhenFull (acfg a) then Ret (if room then Some (a1, True) else None)
              else Ret (Some (if room then (a1, True) else (a, False)))
      else Panic)"

text \<open>One turn of the worker of shard \<open>i\<close>.\<close>

definition put_chain :: "ShardedAggregator \<Rightarrow> nat \<Rightarrow> shard \<Rightarrow> chain_state \<Rightarrow> ShardedAggregator" where
  "put_chain a i sh = (\<lambda>(s, m, h, d, out). a\<lparr>shards := (shards a)[i := sh\<lparr>aggs := (s, m, h, d)\<rparr>], evs := out\<rparr>)"

definition worker_trade :: "ShardedAggregator \<Rightarrow> nat \<Rightarrow> ShardedAggregator go" where
  "worker_trade a i =
     (let sh = shards a ! i
      in case inbox sh of
           [] \<Rightarrow> Ret a
         | t # ts \<Rightarrow>
             andThen (chain_trade t (with_out (aggs sh) (evs a))) (\<lambda>c.
               Ret (put_chain a i (sh\<lparr>inbox := ts\<rparr>) c)))"

definition worker_stop :: "ShardedAggregator \<Rightarrow> nat \<Rightarrow> ShardedAggregator go" where
  "worker_stop a i =
     (let sh = shards a ! i
      in andThen (chain_flush (with_out (aggs sh) (evs a))) (\<lambda>c.
           Ret (put_chain a i (sh\<lparr>running := False\<rparr>) c)))"

text \<open>\<open>Close\<close> waits for every worker.\<close>

definition Sharded_Close :: "ShardedAggregator \<Rightarrow> ShardedAggregator option" where
  "Sharded_Close a = (if \<exists>sh \<in> set (shards a). running sh then None else Some (a\<lparr>closed := True\<rparr>))"

end
