(* ===== verification/Kline_Chain.thy ===== *)
theory Kline_Chain
  imports Kline_Shard
begin

text \<open>
  The chain of a shard from end to end: every aggregator only reaches its callback through the bars
  it emits, so the chain sends to \<open>out\<close> what the levels make of each other's bars.
\<close>

subsection \<open>Shard index\<close>

lemma shardIndex_bounds:
  assumes "0 < n" and "n < 2 ^ 63"
  shows "\<exists>i. shardIndex symbol n = Ret i \<and> 0 \<le> i \<and> i < n"
proof -
  let ?w = "fnv1a symbol mod word_of_int n"
  have n: "uint (word_of_int n :: uint64) = n" using assms by (simp add: uint_word_of_int)
  have "uint ?w = uint (fnv1a symbol) mod n" by (simp add: uint_mod n)
  then have u: "0 \<le> uint ?w" "uint ?w < n" using assms by simp_all
  then have "- (2 ^ 63) \<le> uint ?w" "uint ?w < 2 ^ 63" using assms by linarith+
  from signed_take_bit_int_eq_self[OF this] have "sint ?w = uint ?w" by (simp add: sint_uint)
  moreover have "n \<noteq> 0" using assms(1) by linarith
  ultimately show ?thesis using u assms(1) by (simp add: shardIndex_def)
qed

subsection \<open>Replaying what was emitted\<close>

fun replay :: "(Bar \<Rightarrow> 'e \<Rightarrow> 'e go) \<Rightarrow> Bar list \<Rightarrow> 'e \<Rightarrow> 'e go" where
  "replay emit [] e = Ret e"
| "replay emit (b # bs) e = andThen (emit b e) (replay emit bs)"

lemma replay_append: "replay emit (xs @ ys) e = andThen (replay emit xs e) (replay emit ys)"
proof (induction xs arbitrary: e)
  case (Cons x xs)
  then show ?case by (cases "emit x e") simp_all
qed simp

text \<open>\<open>f\<close> hands the bars \<open>bs\<close> to the callback, one by one, and returns \<open>r\<close>.\<close>

definition hands :: "(Bar \<Rightarrow> 'e \<Rightarrow> 'e go) \<Rightarrow> Bar list \<Rightarrow> 'r \<Rightarrow> ('e \<Rightarrow> ('r \<times> 'e) go) \<Rightarrow> bool" where
  "hands emit bs r f \<longleftrightarrow> (\<forall>e. f e = andThen (replay emit bs e) (\<lambda>e'. Ret (r, e')))"

lemma hands_Nil: "hands emit [] r (\<lambda>e. Ret (r, e))"
  by (simp add: hands_def)

lemma hands_Cons:
  assumes "hands emit bs r f"
  shows "hands emit (b # bs) r (\<lambda>e. andThen (emit b e) f)"
  unfolding hands_def
proof
  fix e
  show "andThen (emit b e) f = andThen (replay emit (b # bs) e) (\<lambda>e'. Ret (r, e'))"
    using assms by (cases "emit b e") (simp_all add: hands_def)
qed

lemma hands_append:
  assumes "hands emit xs r f" and "hands emit ys s (g r)"
  shows "hands emit (xs @ ys) s (\<lambda>e. andThen (f e) (\<lambda>(r, e). g r e))"
  unfolding hands_def
proof
  fix e
  show "andThen (f e) (\<lambda>(r, e). g r e) = andThen (replay emit (xs @ ys) e) (\<lambda>e'. Ret (s, e'))"
    using assms by (cases "replay emit xs e") (simp_all add: hands_def replay_append)
qed

lemma hands_map:
  assumes "hands emit xs r f"
  shows "hands emit xs (h r) (\<lambda>e. andThen (f e) (\<lambda>(r, e). Ret (h r, e)))"
  using hands_append[OF assms, of "[]" "h r" "\<lambda>r e. Ret (h r, e)"] by (simp add: hands_Nil)

lemma col_eq: "col b e = Ret (e @ [b])"
  by (simp add: col_def)

lemma emit_loop_hands:
  "emit_loop col ss st e0 = Ret (st', e1) \<Longrightarrow> \<exists>bs. e1 = e0 @ bs \<and> hands emit bs st' (emit_loop emit ss st)"
proof (induction ss arbitrary: st e0)
  case Nil
  then show ?case using hands_Nil[of emit] by (intro exI[of _ "[]"]) (simp add: hands_def)
next
  case (Cons s ss)
  show ?case
  proof (cases "map_get (sbars st) s")
    case None
    then show ?thesis using Cons by (simp add: hands_def)
  next
    case (Some b)
    let ?st = "st\<lparr>sbars := map_delete (sbars st) s, lastEmittedStartMs := s, hasEmitted := True\<rparr>"
    have "emit_loop col ss ?st (e0 @ [b]) = Ret (st', e1)" using Cons.prems Some by (simp add: col_eq[of b e0])
    from Cons.IH[OF this] obtain bs where "e1 = (e0 @ [b]) @ bs" "hands emit bs st' (emit_loop emit ss ?st)" by blast
    then show ?thesis using Some hands_Cons[of emit bs st' "emit_loop emit ss ?st" b]
      by (intro exI[of _ "b # bs"]) (simp add: hands_def)
  qed
qed

lemma flush_loop_hands:
  "flush_loop col ss st e0 = Ret (st', e1) \<Longrightarrow> \<exists>bs. e1 = e0 @ bs \<and> hands emit bs st' (flush_loop emit ss st)"
proof (induction ss arbitrary: st e0)
  case Nil
  then show ?case by (intro exI[of _ "[]"]) (simp add: hands_def)
next
  case (Cons s ss)
  show ?case
  proof (cases "\<exists>b. map_get (sbars st) s = Some b \<and> 0 < bCount b")
    case False
    then show ?thesis using Cons by (auto simp: hands_def split: option.splits)
  next
    case True
    then obtain b where b: "map_get (sbars st) s = Some b" "0 < bCount b" by blast
    let ?st = "st\<lparr>lastEmittedStartMs := s, hasEmitted := True\<rparr>"
    have "flush_loop col ss ?st (e0 @ [b]) = Ret (st', e1)" using Cons.prems b by (simp add: col_eq[of b e0])
    from Cons.IH[OF this] obtain bs where "e1 = (e0 @ [b]) @ bs" "hands emit bs st' (flush_loop emit ss ?st)" by blast
    then show ?thesis using b hands_Cons[of emit bs st' "flush_loop emit ss ?st" b]
      by (intro exI[of _ "b # bs"]) (simp add: hands_def)
  qed
qed

lemma emitReady_hands:
  "emitReady col st w e0 = Ret (st', e1) \<Longrightarrow> \<exists>bs. e1 = e0 @ bs \<and> hands emit bs st' (emitReady emit st w)"
  using emit_loop_hands[of _ st e0 st' e1 emit]
  by (force simp: emitReady_def Let_def hands_def split: if_splits)

lemma flush_sym_hands:
  assumes "flush_sym col st e0 = Ret (st', e1)"
  shows "\<exists>bs. e1 = e0 @ bs \<and> hands emit bs st' (flush_sym emit st)"
proof -
  let ?ks = "insertion_sort [start. (start, b) \<leftarrow> sbars st, \<not> (hasEmitted st \<and> start \<le> lastEmittedStartMs st)]"
  obtain st1 where r: "flush_loop col ?ks st e0 = Ret (st1, e1)" "st' = st1\<lparr>sbars := []\<rparr>"
    using assms by (auto simp: flush_sym_def Let_def andThen_eq_Ret)
  obtain bs where b: "e1 = e0 @ bs" "hands emit bs st1 (flush_loop emit ?ks st)"
    using flush_loop_hands[OF r(1), of emit] by blast
  have "flush_sym emit st = (\<lambda>e. andThen (flush_loop emit ?ks st e) (\<lambda>(r, e). Ret (r\<lparr>sbars := []\<rparr>, e)))"
    by (simp add: flush_sym_def Let_def fun_eq_iff)
  then show ?thesis using b hands_map[OF b(2), of "\<lambda>r. r\<lparr>sbars := []\<rparr>"] r(2) by auto
qed

lemma flush_syms_hands:
  "flush_syms col m e0 = Ret (m', e1) \<Longrightarrow> \<exists>bs. e1 = e0 @ bs \<and> hands emit bs m' (flush_syms emit m)"
proof (induction m arbitrary: e0 m')
  case Nil
  then show ?case by (intro exI[of _ "[]"]) (simp add: hands_def)
next
  case (Cons x m)
  obtain y st where x: "x = (y, st)" by (cases x)
  obtain st1 e m1 where r: "flush_sym col st e0 = Ret (st1, e)" "flush_syms col m e = Ret (m1, e1)" "m' = (y, st1) # m1"
    using Cons.prems x by (auto simp: andThen_eq_Ret)
  obtain bs cs where h: "e = e0 @ bs" "hands emit bs st1 (flush_sym emit st)"
      "e1 = e @ cs" "hands emit cs m1 (flush_syms emit m)"
    using flush_sym_hands[OF r(1)] Cons.IH[OF r(2)] by blast
  have "hands emit (bs @ cs) ((y, st1) # m1) (\<lambda>e. andThen (flush_sym emit st e)
      (\<lambda>(r, e). andThen (flush_syms emit m e) (\<lambda>(m1, e). Ret ((y, r) # m1, e))))"
    by (rule hands_append[OF h(2)]) (rule hands_map[OF h(4)])
  moreover have "flush_syms emit ((y, st) # m) = (\<lambda>e. andThen (flush_sym emit st e)
      (\<lambda>(r, e). andThen (flush_syms emit m e) (\<lambda>(m1, e). Ret ((y, r) # m1, e))))"
    by (simp add: fun_eq_iff)
  ultimately show ?case using h r x by (intro exI[of _ "bs @ cs"]) simp
qed


text \<open>Offering a trade is nothing, a panic, or the emission of bars that are ready.\<close>

lemma OfferTrade_cases:
  fixes emit :: "Bar \<Rightarrow> 'x \<Rightarrow> 'x go"
  obtains (skip) "OfferTrade col a t = (\<lambda>e. Ret (a, e))" "OfferTrade emit a t = (\<lambda>e. Ret (a, e))"
    | (ready) st w h where
        "OfferTrade col a t = (\<lambda>e. andThen (emitReady col st w e) (\<lambda>(r, e). Ret (h r, e)))"
        "OfferTrade emit a t = (\<lambda>e. andThen (emitReady emit st w e) (\<lambda>(r, e). Ret (h r, e)))"
    | (panic) "\<forall>e r. OfferTrade col a t e \<noteq> Ret r"
proof -
  obtain pr okp sz oks where p: "ParseFixed (PriceStr t) = (pr, okp)" "ParseFixed (SizeStr t) = (sz, oks)"
    by (metis surj_pair)
  show thesis
  proof (cases "okp \<and> oks")
    case False
    then show thesis by (intro skip) (auto simp: OfferTrade_def p)
  next
    case ok: True
    define st0 where "st0 = (case map_get (syms a) (Symbol t) of Some st \<Rightarrow> st | None \<Rightarrow> new_symState)"
    define st where "st = (if TsUnixMs t > latestTsMs st0 then st0\<lparr>latestTsMs := TsUnixMs t\<rparr> else st0)"
    define w where "w = i64 (latestTsMs st - reorderWindowMs a)"
    note D = OfferTrade_def p Let_def st0_def[symmetric] st_def[symmetric] w_def[symmetric]
    show thesis
    proof (cases "reorderWindowMs a > 0 \<and> TsUnixMs t < w")
      case True
      show thesis using ok True by (intro ready) (auto simp: D)
    next
      case False
      show thesis
      proof (cases "bucketStartMs (TsUnixMs t) (intervalMs a) (offsetMs a)")
        case (Ret bs)
        then show thesis using ok False by (intro ready) (auto simp: D)
      qed (use ok False in \<open>auto intro!: panic simp: D\<close>)
    qed
  qed
qed

lemma OfferTrade_hands:
  assumes "OfferTrade col a t e0 = Ret (a', e1)"
  shows "\<exists>bs. e1 = e0 @ bs \<and> hands emit bs a' (OfferTrade emit a t)"
proof (cases rule: OfferTrade_cases[of a t emit])
  case skip
  then show ?thesis using assms hands_Nil by auto
next
  case (ready st w h)
  obtain r where r: "emitReady col st w e0 = Ret (r, e1)" "a' = h r"
    using assms unfolding ready(1) by (auto simp: andThen_eq_Ret)
  then show ?thesis using emitReady_hands[OF r(1), of emit] hands_map[of emit _ r _ h] unfolding ready(2) by metis
next
  case panic
  then show ?thesis using assms by blast
qed


lemma TradeAgg_Flush_hands:
  assumes "TradeAgg_Flush col a e0 = Ret (a', e1)"
  shows "\<exists>bs. e1 = e0 @ bs \<and> hands emit bs a' (TradeAgg_Flush emit a)"
proof -
  obtain m where r: "flush_syms col (syms a) e0 = Ret (m, e1)" "a' = a\<lparr>syms := m\<rparr>"
    using assms by (auto simp: TradeAgg_Flush_def andThen_eq_Ret)
  obtain bs where "e1 = e0 @ bs" "hands emit bs m (flush_syms emit (syms a))"
    using flush_syms_hands[OF r(1), of emit] by blast
  moreover have "TradeAgg_Flush emit a = (\<lambda>e. andThen (flush_syms emit (syms a) e) (\<lambda>(m, e). Ret (a\<lparr>syms := m\<rparr>, e)))"
    by (simp add: TradeAgg_Flush_def fun_eq_iff)
  ultimately show ?thesis using hands_map[of emit bs m _ "\<lambda>m. a\<lparr>syms := m\<rparr>"] r(2) by auto
qed

lemma offer_all_hands:
  "offer_all col a ts e0 = Ret (a', e1) \<Longrightarrow> \<exists>bs. e1 = e0 @ bs \<and> hands emit bs a' (offer_all emit a ts)"
proof (induction ts arbitrary: a e0)
  case Nil
  then show ?case by (intro exI[of _ "[]"]) (simp add: hands_def)
next
  case (Cons t ts)
  obtain a1 e where r: "OfferTrade col a t e0 = Ret (a1, e)" "offer_all col a1 ts e = Ret (a', e1)"
    using Cons.prems by (auto simp: andThen_eq_Ret)
  obtain bs cs where h: "e = e0 @ bs" "hands emit bs a1 (OfferTrade emit a t)"
      "e1 = e @ cs" "hands emit cs a' (offer_all emit a1 ts)"
    using OfferTrade_hands[OF r(1)] Cons.IH[OF r(2)] by blast
  have "offer_all emit a (t # ts) = (\<lambda>e. andThen (OfferTrade emit a t e) (\<lambda>(a, e). offer_all emit a ts e))"
    by (simp add: fun_eq_iff)
  then show ?case using hands_append[of emit bs a1 _ cs a' "\<lambda>a. offer_all emit a ts", OF h(2,4)] h(1,3)
    by (intro exI[of _ "bs @ cs"]) simp
qed

lemma fill_gap_hands:
  "fill_gap k col y iv c nxt bs e0 = Ret e1 \<Longrightarrow>
   \<exists>new. e1 = e0 @ new \<and> (\<forall>e. fill_gap k emit y iv c nxt bs e = replay emit new e)"
proof (induction k arbitrary: nxt e0)
  case 0
  then show ?case by simp
next
  case (Suc k)
  let ?b = "empty_bar y iv nxt c"
  show ?case
  proof (cases "nxt < bs")
    case True
    have "fill_gap k col y iv c (i64 (nxt + iv)) bs (e0 @ [?b]) = Ret e1"
      using Suc.prems True by (simp add: col_eq[of ?b e0])
    from Suc.IH[OF this] obtain new where "e1 = (e0 @ [?b]) @ new"
      "\<forall>e. fill_gap k emit y iv c (i64 (nxt + iv)) bs e = replay emit new e" by blast
    then show ?thesis using True by (intro exI[of _ "?b # new"]) (auto intro: arg_cong2[of _ _ _ _ andThen])
  next
    case False
    then show ?thesis using Suc.prems by (intro exI[of _ "[]"]) simp
  qed
qed

lemma OfferBar_cases:
  fixes emit :: "Bar \<Rightarrow> 'x \<Rightarrow> 'x go"
  obtains (quiet) a1 where "OfferBar col a c = (\<lambda>e. Ret (a1, e))" "OfferBar emit a c = (\<lambda>e. Ret (a1, e))"
    | (closes) cb a1 fg k iv cl nxt bs where
        "OfferBar col a c = (\<lambda>e. andThen (col cb e) (\<lambda>e1. andThen
           (if fg then fill_gap k col (bSymbol c) iv cl nxt bs e1 else Ret e1) (\<lambda>e2. Ret (a1, e2))))"
        "OfferBar emit a c = (\<lambda>e. andThen (emit cb e) (\<lambda>e1. andThen
           (if fg then fill_gap k emit (bSymbol c) iv cl nxt bs e1 else Ret e1) (\<lambda>e2. Ret (a1, e2))))"
    | (panic) "\<forall>e r. OfferBar col a c e \<noteq> Ret r"
proof (cases "bucketStartMs (bStartMs c) (rIntervalMs a) (rOffsetMs a)")
  case (Ret bs)
  show thesis
  proof (cases "map_get (cur a) (bSymbol c)")
    case None
    then show thesis using Ret by (intro quiet) (auto simp: OfferBar_def Let_def)
  next
    case (Some cb)
    show thesis
    proof (cases "bs > bStartMs cb")
      case True
      then show thesis using Ret Some
        by (intro closes) (auto simp: OfferBar_def Let_def fun_eq_iff)
    next
      case False
      show thesis
      proof (cases "bs < bStartMs cb")
        case True
        then show thesis using False Ret Some by (intro quiet) (auto simp: OfferBar_def Let_def)
      next
        case False
        then show thesis using \<open>\<not> bs > bStartMs cb\<close> Ret Some
          by (intro quiet) (auto simp: OfferBar_def Let_def)
      qed
    qed
  qed
qed (auto intro!: panic simp: OfferBar_def)

lemma OfferBar_hands:
  assumes "OfferBar col a c e0 = Ret (a', e1)"
  shows "\<exists>bs. e1 = e0 @ bs \<and> hands emit bs a' (OfferBar emit a c)"
proof (cases rule: OfferBar_cases[of a c emit])
  case (quiet a1)
  then show ?thesis using assms hands_Nil by auto
next
  case (closes cb a1 fg k iv cl nxt bs)
  have r: "(if fg then fill_gap k col (bSymbol c) iv cl nxt bs (e0 @ [cb]) else Ret (e0 @ [cb])) = Ret e1" "a' = a1"
    using assms unfolding closes(1) col_eq[of cb e0] by (auto simp: andThen_eq_Ret)
  obtain new where n: "e1 = (e0 @ [cb]) @ new"
    "\<forall>e. (if fg then fill_gap k emit (bSymbol c) iv cl nxt bs e else Ret e) = replay emit new e"
  proof (cases fg)
    case True
    then show thesis using r that fill_gap_hands[of k "bSymbol c" iv cl nxt bs "e0 @ [cb]" e1 emit] by auto
  next
    case False
    then show thesis using r that[of "[]"] by auto
  qed
  have "hands emit (cb # new) a1 (OfferBar emit a c)"
    unfolding closes(2) by (rule hands_Cons) (simp add: hands_def n(2))
  then show ?thesis using n(1) r(2) by (intro exI[of _ "cb # new"]) simp
next
  case panic
  then show ?thesis using assms by blast
qed

lemma rollup_flush_hands:
  "rollup_flush col m a e0 = Ret (a', e1) \<Longrightarrow> \<exists>bs. e1 = e0 @ bs \<and> hands emit bs a' (rollup_flush emit m a)"
proof (induction m arbitrary: a e0)
  case Nil
  then show ?case by (intro exI[of _ "[]"]) (simp add: hands_def)
next
  case (Cons x m)
  obtain y b where x: "x = (y, b)" by (cases x)
  let ?a = "a\<lparr>lastClose := (lastClose a)(y := bClose b), hasClose := (hasClose a)(y := True)\<rparr>"
  show ?case
  proof (cases "0 < bCount b")
    case True
    have "rollup_flush col m ?a (e0 @ [b]) = Ret (a', e1)" using Cons.prems True x by (simp add: col_eq[of b e0])
    from Cons.IH[OF this] obtain bs where "e1 = (e0 @ [b]) @ bs" "hands emit bs a' (rollup_flush emit m ?a)" by blast
    then show ?thesis using True x hands_Cons[of emit bs a' "rollup_flush emit m ?a" b]
      by (intro exI[of _ "b # bs"]) (simp add: hands_def)
  next
    case False
    then show ?thesis using Cons x by (simp add: hands_def)
  qed
qed

lemma RollupAgg_Flush_hands:
  "RollupAgg_Flush col a e0 = Ret (a', e1) \<Longrightarrow> \<exists>bs. e1 = e0 @ bs \<and> hands emit bs a' (RollupAgg_Flush emit a)"
  unfolding RollupAgg_Flush_def using rollup_flush_hands[of "cur a" a e0 a' e1 emit] by (simp add: hands_def)


subsection \<open>The levels of the chain\<close>

definition lev :: "KlineEvent list \<Rightarrow> int \<Rightarrow> Bar list" where
  "lev out i = filter (\<lambda>b. bInterval b = i) (map evBar out)"

lemma lev_send: "lev (send b out) i = lev out i @ (if bInterval b = i then [b] else [])"
  by (simp add: lev_def send_def)

lemma offer_bars_snoc:
  "offer_bars emit a (cs @ [c]) e = andThen (offer_bars emit a cs e) (\<lambda>(a1, e1). OfferBar emit a1 c e1)"
proof (induction cs arbitrary: a e)
  case Nil
  then show ?case by (cases "OfferBar emit a c e") auto
next
  case (Cons x cs)
  then show ?case by (cases "OfferBar emit a x e") auto
qed

text \<open>An aggregator with its own interval, over the state of the levels below.\<close>

definition lift_emit :: "(Bar \<Rightarrow> 'x \<Rightarrow> 'x go) \<Rightarrow> (Bar \<Rightarrow> 'x \<Rightarrow> 'x) \<Rightarrow> Bar \<Rightarrow> RollupAgg \<times> 'x \<Rightarrow> (RollupAgg \<times> 'x) go" where
  "lift_emit emit push b = (\<lambda>(a, x). OfferBar emit a b (push b x))"

definition lift_push :: "(Bar \<Rightarrow> 'x \<Rightarrow> 'x) \<Rightarrow> Bar \<Rightarrow> RollupAgg \<times> 'x \<Rightarrow> RollupAgg \<times> 'x" where
  "lift_push push b = (\<lambda>(a, x). (a, push b x))"

definition lift_legal :: "(Bar list \<Rightarrow> bool) \<Rightarrow> int \<Rightarrow> RollupAgg \<Rightarrow> Bar list \<Rightarrow> bool" where
  "lift_legal legal i a0 cs \<longleftrightarrow>
     (\<exists>a bs. offer_bars col a0 cs [] = Ret (a, bs) \<and> legal bs \<and> (\<forall>b \<in> set bs. bInterval b = i))"

definition lift_K :: "('x \<Rightarrow> KlineEvent list) \<Rightarrow> (Bar list \<Rightarrow> 'x \<Rightarrow> bool) \<Rightarrow> int \<Rightarrow> RollupAgg \<Rightarrow> Bar list \<Rightarrow> RollupAgg \<times> 'x \<Rightarrow> bool" where
  "lift_K events K i a0 cs = (\<lambda>(a, x).
     \<exists>bs. offer_bars col a0 cs [] = Ret (a, bs) \<and> lev (events x) i = bs \<and> K bs x)"

text \<open>
  What a callback promises the aggregator above it. \<open>K bs x\<close>: the state \<open>x\<close> is the one after the
  bars \<open>bs\<close>; \<open>legal bs\<close>: the levels below take them; \<open>I\<close>: the intervals of those levels. A bar
  handed down is sent, and nothing else changes outside \<open>I\<close>.
\<close>

locale stage =
  fixes emit :: "Bar \<Rightarrow> 'x \<Rightarrow> 'x go" and push :: "Bar \<Rightarrow> 'x \<Rightarrow> 'x" and events :: "'x \<Rightarrow> KlineEvent list"
    and I :: "int set" and legal :: "Bar list \<Rightarrow> bool" and K :: "Bar list \<Rightarrow> 'x \<Rightarrow> bool"
  assumes push_ok: "K bs x \<Longrightarrow> bInterval b \<notin> I \<Longrightarrow> K bs (push b x) \<and> events (push b x) = send b (events x)"
    and emit_ok: "K bs x \<Longrightarrow> legal (bs @ [b]) \<Longrightarrow> bInterval b \<notin> I \<Longrightarrow>
      \<exists>x'. emit b x = Ret x' \<and> K (bs @ [b]) x' \<and> (\<forall>i. i \<notin> I \<longrightarrow> lev (events x') i = lev (send b (events x)) i)"
    and legal_prefix: "legal (bs @ cs) \<Longrightarrow> legal bs"
begin

lemma replay_ok:
  assumes "K bs x" and "legal (bs @ new)" and "\<forall>b \<in> set new. bInterval b = i" and "i \<notin> I"
  shows "\<exists>x'. replay emit new x = Ret x' \<and> K (bs @ new) x' \<and>
    (\<forall>j. j \<notin> I \<longrightarrow> lev (events x') j = lev (events x) j @ (if j = i then new else []))"
  using assms
proof (induction new arbitrary: bs x)
  case Nil
  then show ?case by simp
next
  case (Cons b new)
  have l: "legal (bs @ [b])" "legal ((bs @ [b]) @ new)"
    using Cons.prems(2) legal_prefix[of "bs @ [b]" new] by simp_all
  have b: "bInterval b \<notin> I" using Cons.prems(3,4) by simp
  obtain x1 where 1: "emit b x = Ret x1" "K (bs @ [b]) x1"
    "\<forall>j. j \<notin> I \<longrightarrow> lev (events x1) j = lev (send b (events x)) j"
    using emit_ok[OF Cons.prems(1) l(1) b] by blast
  have "\<forall>b \<in> set new. bInterval b = i" using Cons.prems(3) by simp
  from Cons.IH[OF 1(2) l(2) this Cons.prems(4)] obtain x2 where 2: "replay emit new x1 = Ret x2"
    "K ((bs @ [b]) @ new) x2"
    "\<forall>j. j \<notin> I \<longrightarrow> lev (events x2) j = lev (events x1) j @ (if j = i then new else [])" by blast
  then show ?case using 1 Cons.prems(3) by (auto simp: lev_send)
qed

lemma lift_emit_ok:
  assumes K: "lift_K events K i a0 cs (a, x)" and L: "lift_legal legal i a0 (cs @ [c])" and c: "bInterval c \<notin> insert i I"
    and i: "i \<notin> I"
  shows "\<exists>a' x'. lift_emit emit push c (a, x) = Ret (a', x') \<and> lift_K events K i a0 (cs @ [c]) (a', x') \<and>
    (\<forall>j. j \<notin> insert i I \<longrightarrow> lev (events x') j = lev (send c (events x)) j)"
proof -
  obtain bs where o: "offer_bars col a0 cs [] = Ret (a, bs)" and e: "lev (events x) i = bs" and k: "K bs x"
    using K by (auto simp: lift_K_def)
  obtain a' bs' where o': "offer_bars col a0 (cs @ [c]) [] = Ret (a', bs')" and l: "legal bs'"
    and t: "\<forall>b \<in> set bs'. bInterval b = i" using L by (auto simp: lift_legal_def)
  have "OfferBar col a c bs = Ret (a', bs')" using o o' by (simp add: offer_bars_snoc)
  from OfferBar_hands[OF this, of emit] obtain new where n: "bs' = bs @ new" "hands emit new a' (OfferBar emit a c)"
    by blast
  have p: "K bs (push c x)" "events (push c x) = send c (events x)" using push_ok[OF k] c by auto
  have "\<exists>x'. replay emit new (push c x) = Ret x' \<and> K bs' x' \<and>
      (\<forall>j. j \<notin> I \<longrightarrow> lev (events x') j = lev (send c (events x)) j @ (if j = i then new else []))"
    using replay_ok[OF p(1), of new i] l t i unfolding n(1) p(2) by simp
  then obtain x' where x': "replay emit new (push c x) = Ret x'" "K bs' x'"
    "\<forall>j. j \<notin> I \<longrightarrow> lev (events x') j = lev (send c (events x)) j @ (if j = i then new else [])" by blast
  have "lift_emit emit push c (a, x) = Ret (a', x')" using n(2) x'(1) by (simp add: lift_emit_def hands_def)
  moreover have "lev (events x') i = bs'" using x'(3) i c e n(1) by (auto simp: lev_send)
  ultimately show ?thesis using x' o' c by (auto simp: lift_K_def)
qed

lemma lift_stage:
  assumes "i \<notin> I"
  shows "stage (lift_emit emit push) (lift_push push) (events \<circ> snd) (insert i I) (lift_legal legal i a0) (lift_K events K i a0)"
proof
  fix bs and b :: Bar and x :: "RollupAgg \<times> 'x"
  assume "lift_K events K i a0 bs x" "bInterval b \<notin> insert i I"
  then show "lift_K events K i a0 bs (lift_push push b x) \<and>
      (events \<circ> snd) (lift_push push b x) = send b ((events \<circ> snd) x)"
    using push_ok[of _ "snd x" b] by (cases x) (auto simp: lift_K_def lift_push_def lev_send)
next
  fix bs and b :: Bar and x :: "RollupAgg \<times> 'x"
  assume "lift_K events K i a0 bs x" "lift_legal legal i a0 (bs @ [b])" "bInterval b \<notin> insert i I"
  then show "\<exists>x'. lift_emit emit push b x = Ret x' \<and> lift_K events K i a0 (bs @ [b]) x' \<and>
      (\<forall>j. j \<notin> insert i I \<longrightarrow> lev ((events \<circ> snd) x') j = lev (send b ((events \<circ> snd) x)) j)"
    using lift_emit_ok[of i a0 bs "fst x" "snd x" b] assms by (cases x) auto
next
  fix bs cs
  assume "lift_legal legal i a0 (bs @ cs)"
  then show "lift_legal legal i a0 bs"
  proof (induction cs rule: rev_induct)
    case (snoc c cs)
    obtain a bs' where o: "offer_bars col a0 ((bs @ cs) @ [c]) [] = Ret (a, bs')" "legal bs'"
      "\<forall>b \<in> set bs'. bInterval b = i" using snoc.prems by (auto simp: lift_legal_def)
    then obtain a1 bs1 where 1: "offer_bars col a0 (bs @ cs) [] = Ret (a1, bs1)" "OfferBar col a1 c bs1 = Ret (a, bs')"
      unfolding offer_bars_snoc by (auto simp: andThen_eq_Ret)
    obtain new where "bs' = bs1 @ new" using OfferBar_hands[OF 1(2), of col] by blast
    then have "lift_legal legal i a0 (bs @ cs)" using 1(1) o legal_prefix[of bs1 new] by (auto simp: lift_legal_def)
    then show ?case by (rule snoc.IH)
  qed simp
qed

text \<open>The aggregator's \<open>Flush\<close> hands its last bars down.\<close>

lemma flush_ok:
  assumes "offer_bars col a0 cs [] = Ret (a, bs)" and "lev (events x) i = bs" and "K bs x" and "i \<notin> I"
    and "RollupAgg_Flush col a bs = Ret (a1, bs @ new)" and "legal (bs @ new)" and "\<forall>b \<in> set new. bInterval b = i"
  shows "\<exists>x'. RollupAgg_Flush emit a x = Ret (a1, x') \<and> K (bs @ new) x' \<and> lev (events x') i = bs @ new \<and>
    (\<forall>j. j \<notin> insert i I \<longrightarrow> lev (events x') j = lev (events x) j)"
proof -
  have h: "hands emit new a1 (RollupAgg_Flush emit a)"
    using RollupAgg_Flush_hands[OF assms(5), of emit] by auto
  obtain x' where "replay emit new x = Ret x'" "K (bs @ new) x'"
    "\<forall>j. j \<notin> I \<longrightarrow> lev (events x') j = lev (events x) j @ (if j = i then new else [])"
    using replay_ok[OF assms(3,6,7,4)] by blast
  then show ?thesis using h assms(2,4) by (simp add: hands_def)
qed

end


subsection \<open>End to end\<close>

interpretation out: stage emit_day send "\<lambda>x. x" "{}" "\<lambda>_. True" "\<lambda>_ _. True"
  by unfold_locales (simp_all add: emit_day_def)

lemma emit_lifts:
  "lift_emit emit_day send = emit_hour"
  "lift_emit emit_hour (lift_push send) = emit_minute"
  "lift_emit emit_minute (lift_push (lift_push send)) = emit_second"
  by (auto simp: lift_emit_def lift_push_def emit_hour_def emit_minute_def emit_second_def fun_eq_iff)

abbreviation "day_ms \<equiv> 86400000 * Millisecond"
abbreviation "hour_ms \<equiv> 3600000 * Millisecond"
abbreviation "minute_ms \<equiv> 60000 * Millisecond"

abbreviation "K_day d0 \<equiv> lift_K (\<lambda>x. x) (\<lambda>_ _. True) day_ms d0"
abbreviation "K_hour d0 h0 \<equiv> lift_K ((\<lambda>x. x) \<circ> snd) (K_day d0) hour_ms h0"
abbreviation "K_minute d0 h0 m0 \<equiv> lift_K ((\<lambda>x. x) \<circ> snd \<circ> snd) (K_hour d0 h0) minute_ms m0"
abbreviation "legal_day d0 \<equiv> lift_legal (\<lambda>_. True) day_ms d0"
abbreviation "legal_hour d0 h0 \<equiv> lift_legal (legal_day d0) hour_ms h0"
abbreviation "legal_minute d0 h0 m0 \<equiv> lift_legal (legal_hour d0 h0) minute_ms m0"

interpretation day: stage emit_hour "lift_push send" "(\<lambda>x. x) \<circ> snd" "{day_ms}" "legal_day d0" "K_day d0" for d0
  using out.lift_stage[of day_ms d0] unfolding emit_lifts by simp

interpretation hour: stage emit_minute "lift_push (lift_push send)" "(\<lambda>x. x) \<circ> snd \<circ> snd" "{hour_ms, day_ms}"
  "legal_hour d0 h0" "K_hour d0 h0" for d0 h0
  using day.lift_stage[of hour_ms d0 h0] unfolding emit_lifts by (simp add: Millisecond_def)

interpretation minute: stage emit_second "lift_push (lift_push (lift_push send))" "(\<lambda>x. x) \<circ> snd \<circ> snd \<circ> snd"
  "{minute_ms, hour_ms, day_ms}" "legal_minute d0 h0 m0" "K_minute d0 h0 m0" for d0 h0 m0
  using hour.lift_stage[of minute_ms d0 h0 m0] unfolding emit_lifts by (simp add: Millisecond_def)


lemma chain_trades_eq: "chain_trades ts (s, x) = offer_all emit_second s ts x"
proof (induction ts arbitrary: s x)
  case (Cons t ts)
  then show ?case by (cases "OfferTrade emit_second s t x") (auto simp: chain_trade_def)
qed simp

lemma next_level:
  assumes p: "go_div interval Millisecond = iv" "go_div tz Millisecond = off" "0 < iv" "iv < 2 ^ 61" "\<bar>off\<bar> < 2 ^ 61"
    and s: "\<And>y. sorted_wrt (<) (map bStartMs (of_symbol y bs))" and ok: "\<forall>b \<in> set bs. emitted_ok iv1 off b"
  obtains a a1 e new where "offer_bars col (NewRollupAggFill interval tz fill) bs [] = Ret (a, e)"
    and "RollupAgg_Flush col a e = Ret (a1, e @ new)" and "rolled fill iv off bs (e @ new)"
    and "\<forall>b \<in> set (e @ new). emitted_ok iv off b" and "\<forall>b \<in> set (e @ new). bInterval b = i64 (iv * Millisecond)"
    and "\<And>y. sorted_wrt (<) (map bStartMs (of_symbol y (e @ new)))"
proof -
  obtain a a1 e new where o: "offer_bars col (NewRollupAggFill interval tz fill) bs [] = Ret (a, e)"
    "RollupAgg_Flush col a e = Ret (a1, e @ new)" "rolled fill iv off bs (e @ new)"
    "\<forall>b \<in> set (e @ new). emitted_ok iv off b"
    using bars_to_bars[OF p(1,2) strict_children[OF s ok p(3-5)]] by blast
  moreover have "\<forall>b \<in> set (e @ new). bInterval b = i64 (iv * Millisecond)" using o(4) by (simp add: emitted_ok_def)
  ultimately show thesis using that rolled_ordered[OF o(3) p(3)] by blast
qed

text \<open>The bars of the second level, with what the next level needs of them.\<close>

lemma seconds_level:
  assumes p: "go_div interval Millisecond = iv" "go_div tz Millisecond = off" "go_div window Millisecond = win"
    and win: "0 < win" and ts: "\<forall>t \<in> set ts. time_ok iv off win (TsUnixMs t)" "int (length ts) < 2 ^ 63"
  obtains a a1 e new where "offer_all col (NewTradeAggReorder interval tz window) ts [] = Ret (a, e)"
    and "TradeAgg_Flush col a e = Ret (a1, e @ new)"
    and "\<forall>y. of_symbol y (e @ new) = bars_of y iv off (children y (accepted win (\<lambda>_. 0) ts))"
    and "\<forall>b \<in> set (e @ new). emitted_ok iv off b" and "\<forall>b \<in> set (e @ new). bInterval b = i64 (iv * Millisecond)"
    and "\<And>y. sorted_wrt (<) (map bStartMs (of_symbol y (e @ new)))"
proof -
  obtain a a1 e e' where o: "offer_all col (NewTradeAggReorder interval tz window) ts [] = Ret (a, e)"
    "TradeAgg_Flush col a e = Ret (a1, e')"
    and b: "\<forall>y. of_symbol y e' = bars_of y iv off (children y (accepted win (\<lambda>_. 0) ts))"
    using trades_to_bars[OF p win ts] by blast
  obtain new where n: "e' = e @ new" using TradeAgg_Flush_hands[OF o(2), of col] by blast
  have sub: "set (accepted win L ts) \<subseteq> set ts" for L by (induction ts arbitrary: L) (auto simp: Let_def)
  have ok: "emitted_ok iv off b" if "b \<in> set e'" for b
  proof -
    have "b \<in> set (of_symbol (bSymbol b) e')" using that by (simp add: of_symbol_def)
    then have "b \<in> set (bars_of (bSymbol b) iv off (children (bSymbol b) (accepted win (\<lambda>_. 0) ts)))"
      using b by simp
    moreover have "\<forall>c \<in> set (children (bSymbol b) (accepted win (\<lambda>_. 0) ts)). in_range iv off (bStartMs c)"
      using ts(1) sub[of "\<lambda>_. 0"] by (auto simp: children_def time_ok_def)
    ultimately show ?thesis using bars_ok by blast
  qed
  moreover have "\<forall>b \<in> set e'. bInterval b = i64 (iv * Millisecond)" using ok by (simp add: emitted_ok_def)
  moreover have "sorted_wrt (<) (map bStartMs (of_symbol y e'))" for y using b bars_of_sorted by simp
  ultimately show thesis using that[OF o(1)] o(2) b unfolding n by blast
qed

text \<open>A shard's events: each level rolls up the one below, the first the accepted trades.\<close>

lemma chain_levels:
  assumes tz: "go_div (TZOffset c) Millisecond = off" "\<bar>off\<bar> < 2 ^ 61"
    and win: "go_div (ReorderWindow c) Millisecond = win" "0 < win"
    and ts: "\<forall>t \<in> set ts. time_ok 1000 off win (TsUnixMs t)" "int (length ts) < 2 ^ 63"
  shows "\<exists>x s m h d evs. chain_trades ts (new_chain c []) = Ret x \<and> chain_flush x = Ret (s, m, h, d, evs) \<and>
    (\<forall>y. of_symbol y (lev evs Second) = bars_of y 1000 off (children y (accepted win (\<lambda>_. 0) ts))) \<and>
    rolled (FillGaps1m c) 60000 off (lev evs Second) (lev evs Minute) \<and>
    rolled (FillGaps1h c) 3600000 off (lev evs Minute) (lev evs Hour) \<and>
    rolled (FillGaps1d c) 86400000 off (lev evs Hour) (lev evs (24 * Hour))"
proof -
  note U = Second_def Minute_def Hour_def Millisecond_def
  let ?m0 = "NewRollupAggFill (1 * Minute) (TZOffset c) (FillGaps1m c)"
  let ?h0 = "NewRollupAggFill (1 * Hour) (TZOffset c) (FillGaps1h c)"
  let ?d0 = "NewRollupAggFill (24 * Hour) (TZOffset c) (FillGaps1d c)"
  have div: "go_div (1 * Second) Millisecond = 1000" "go_div (1 * Minute) Millisecond = 60000"
    "go_div (1 * Hour) Millisecond = 3600000" "go_div (24 * Hour) Millisecond = 86400000"
    by (simp_all add: U go_div_def)
  obtain s s1 S1 S2 where s: "offer_all col (NewTradeAggReorder (1 * Second) (TZOffset c) (ReorderWindow c)) ts [] = Ret (s, S1)"
      "TradeAgg_Flush col s S1 = Ret (s1, S1 @ S2)"
      "\<forall>y. of_symbol y (S1 @ S2) = bars_of y 1000 off (children y (accepted win (\<lambda>_. 0) ts))"
    and sk: "\<forall>b \<in> set (S1 @ S2). emitted_ok 1000 off b" "\<forall>b \<in> set (S1 @ S2). bInterval b = i64 (1000 * Millisecond)"
      "\<And>y. sorted_wrt (<) (map bStartMs (of_symbol y (S1 @ S2)))"
    by (rule seconds_level[OF div(1) tz(1) win ts]) blast
  obtain m m1 M1 M2 where m: "offer_bars col ?m0 (S1 @ S2) [] = Ret (m, M1)"
      "RollupAgg_Flush col m M1 = Ret (m1, M1 @ M2)" "rolled (FillGaps1m c) 60000 off (S1 @ S2) (M1 @ M2)"
    and mk: "\<forall>b \<in> set (M1 @ M2). emitted_ok 60000 off b" "\<forall>b \<in> set (M1 @ M2). bInterval b = i64 (60000 * Millisecond)"
      "\<And>y. sorted_wrt (<) (map bStartMs (of_symbol y (M1 @ M2)))"
    by (rule next_level[OF div(2) tz(1) _ _ tz(2) sk(3,1), of "FillGaps1m c"]) simp_all
  obtain h h1 H1 H2 where h: "offer_bars col ?h0 (M1 @ M2) [] = Ret (h, H1)"
      "RollupAgg_Flush col h H1 = Ret (h1, H1 @ H2)" "rolled (FillGaps1h c) 3600000 off (M1 @ M2) (H1 @ H2)"
    and hk: "\<forall>b \<in> set (H1 @ H2). emitted_ok 3600000 off b" "\<forall>b \<in> set (H1 @ H2). bInterval b = i64 (3600000 * Millisecond)"
      "\<And>y. sorted_wrt (<) (map bStartMs (of_symbol y (H1 @ H2)))"
    by (rule next_level[OF div(3) tz(1) _ _ tz(2) mk(3,1), of "FillGaps1h c"]) simp_all
  obtain d d1 D1 D2 where d: "offer_bars col ?d0 (H1 @ H2) [] = Ret (d, D1)"
      "RollupAgg_Flush col d D1 = Ret (d1, D1 @ D2)" "rolled (FillGaps1d c) 86400000 off (H1 @ H2) (D1 @ D2)"
    and dk: "\<forall>b \<in> set (D1 @ D2). bInterval b = i64 (86400000 * Millisecond)"
    by (rule next_level[OF div(4) tz(1) _ _ tz(2) hk(3,1), of "FillGaps1d c"]) simp_all
  have tags: "\<forall>b \<in> set (S1 @ S2). bInterval b = Second" "\<forall>b \<in> set (M1 @ M2). bInterval b = minute_ms"
    "\<forall>b \<in> set (H1 @ H2). bInterval b = hour_ms" "\<forall>b \<in> set (D1 @ D2). bInterval b = day_ms"
    using sk(2) mk(2) hk(2) dk by (simp_all add: U i64_def)
  have legal: "legal_day ?d0 (H1 @ H2)" "legal_hour ?d0 ?h0 (M1 @ M2)" "legal_minute ?d0 ?h0 ?m0 (S1 @ S2)"
  proof -
    show l: "legal_day ?d0 (H1 @ H2)" using d(1) tags(4) by (auto simp: lift_legal_def)
    show l: "legal_hour ?d0 ?h0 (M1 @ M2)"
      unfolding lift_legal_def[where legal = "legal_day ?d0"] using h(1) tags(3) day.legal_prefix[OF l] by auto
    show "legal_minute ?d0 ?h0 ?m0 (S1 @ S2)"
      unfolding lift_legal_def[where legal = "legal_hour ?d0 ?h0"] using m(1) tags(2) hour.legal_prefix[OF l] by auto
  qed
  let ?ev = "(\<lambda>x. x) \<circ> snd \<circ> snd \<circ> snd"
  let ?x0 = "(?m0, ?h0, ?d0, [] :: KlineEvent list)"
  have K0: "K_minute ?d0 ?h0 ?m0 [] ?x0" by (simp add: lift_K_def lev_def)
  have sec: "Second \<notin> {minute_ms, hour_ms, day_ms}" by (simp add: U)
  obtain x1 where 1: "replay emit_second S1 ?x0 = Ret x1" "K_minute ?d0 ?h0 ?m0 S1 x1" "lev (?ev x1) Second = S1"
    using minute.replay_ok[OF K0, of S1 Second] minute.legal_prefix[OF legal(3)] tags(1) sec by (auto simp: lev_def)
  obtain x2 where 2: "replay emit_second S2 x1 = Ret x2" "K_minute ?d0 ?h0 ?m0 (S1 @ S2) x2" "lev (?ev x2) Second = S1 @ S2"
    using minute.replay_ok[OF 1(2) legal(3), of Second] tags(1) sec 1(3) by auto
  obtain x3 where x2: "x2 = (m, x3)" "lev (snd (snd x3)) minute_ms = M1" "K_hour ?d0 ?h0 M1 x3"
    using 2(2) m(1) by (cases x2) (auto simp: lift_K_def[where i = minute_ms])
  obtain x4 where 4: "RollupAgg_Flush emit_minute m x3 = Ret (m1, x4)" "K_hour ?d0 ?h0 (M1 @ M2) x4"
    "lev (snd (snd x4)) minute_ms = M1 @ M2" "lev (snd (snd x4)) Second = S1 @ S2"
    using hour.flush_ok[OF m(1) _ x2(3) _ m(2) legal(2), of minute_ms] tags(2) x2 2(3) by (auto simp: U)
  obtain x5 where x4: "x4 = (h, x5)" "lev (snd x5) hour_ms = H1" "K_day ?d0 H1 x5"
    using 4(2) h(1) by (cases x4) (auto simp: lift_K_def[where i = hour_ms])
  obtain x6 where 6: "RollupAgg_Flush emit_hour h x5 = Ret (h1, x6)" "K_day ?d0 (H1 @ H2) x6"
    "lev (snd x6) hour_ms = H1 @ H2" "lev (snd x6) minute_ms = M1 @ M2" "lev (snd x6) Second = S1 @ S2"
    using day.flush_ok[OF h(1) _ x4(3) _ h(2) legal(1), of hour_ms] tags(3) x4 4(3,4) by (auto simp: U)
  obtain evs where x6: "x6 = (d, evs)" "lev evs day_ms = D1"
    using 6(2) d(1) by (cases x6) (auto simp: lift_K_def[where i = day_ms])
  obtain evs' where 7: "RollupAgg_Flush emit_day d evs = Ret (d1, evs')" "lev evs' day_ms = D1 @ D2"
    "lev evs' hour_ms = H1 @ H2" "lev evs' minute_ms = M1 @ M2" "lev evs' Second = S1 @ S2"
    using out.flush_ok[OF d(1) x6(2) _ _ d(2)] tags(4) 6(3-5) x6 by (auto simp: U)
  have "chain_trades ts (new_chain c []) = Ret (s, x1)"
    using offer_all_hands[OF s(1), of emit_second] 1(1) by (auto simp: new_chain_def chain_trades_eq hands_def)
  moreover have "TradeAgg_Flush emit_second s x1 = Ret (s1, x2)"
    using TradeAgg_Flush_hands[OF s(2), of emit_second] 2(1) by (auto simp: hands_def simp del: split_paired_All)
  then have "chain_flush (s, x1) = Ret (s1, m1, h1, d1, evs')"
    using 4(1) 6(1) 7(1) x2(1) x4(1) x6(1) by (simp add: chain_flush_def)
  moreover have "lev evs' Minute = M1 @ M2" "lev evs' Hour = H1 @ H2" "lev evs' (24 * Hour) = D1 @ D2"
    using 7 by (simp_all add: U)
  ultimately show ?thesis using s(3) m(3) h(3) d(3) 7(5) by (metis (no_types, lifting))
qed

end
