(* ===== verification/Kline_Properties.thy ===== *)
theory Kline_Properties
  imports Kline_Chain
begin

text \<open>
  What the candlestick aggregation of \<^verbatim>\<open>internal/quotes/kline\<close> does, stated on the code's
  definitions: each property is followed by a witness on concrete trades and bars.
\<close>

subsection \<open>The order of a bar's prices\<close>

definition ohlc :: "Bar \<Rightarrow> bool" where
  "ohlc b \<longleftrightarrow> bLow b \<le> bOpen b \<and> bOpen b \<le> bHigh b \<and> bLow b \<le> bClose b \<and> bClose b \<le> bHigh b"

lemma ohlc_bars [simp]:
  "ohlc (empty_bar y iv s p)" "ohlc (open_bar iv bs be c) = ohlc c"
  by (simp_all add: ohlc_def empty_bar_def open_bar_def)




















subsection \<open>Concrete trades\<close>

definition btc_trade :: "int \<Rightarrow> string \<Rightarrow> MdTrade" where
  "btc_trade ts price =
     \<lparr>Src = ''binance'', Symbol = ''BTC-USDT'', Base = ''BTC'', Quote = ''USDT'', PriceStr = price,
      SizeStr = ''1.00000000'', MakerSide = 0, TsUnixMs = ts, TradeID = ''''\<rparr>"

definition btc_second :: "int \<Rightarrow> int \<Rightarrow> Bar" where
  "btc_second start price =
     \<lparr>bSymbol = ''BTC-USDT'', bInterval = 1000000000, bTF = '''', bStartMs = start, bEndMs = start + 1000,
      bOpen = price, bHigh = price, bLow = price, bClose = price, bVolume = 1, bCount = 1\<rparr>"

definition test_config :: ShardedAggConfig where
  "test_config = \<lparr>Shards = 1, ReorderWindow = 2 * Second, TZOffset = 0, FillGaps1m = True, FillGaps1h = False,
     FillGaps1d = False, InboxSize = 1024, DropWhenFull = False\<rparr>"


subsection \<open>Numbers and buckets\<close>

text \<open>C23. Parsing what \<open>FormatFixed\<close> prints gives the number back, for every \<open>int64\<close> but the least.\<close>

theorem fixed_round:
  assumes "is_i64 v" and "v \<noteq> - (2 ^ 63)"
  shows "ParseFixed (FormatFixed v) = (v, True)"
  by (rule parse_format[OF assms])

theorem fixed_round_witness: "ParseFixed (FormatFixed (- 123456789)) = (- 123456789, True)"
  by (rule fixed_round) (simp_all add: is_i64_def)

text \<open>
  C24. \<open>bucketStartMs\<close> returns. From the epoch of the zone on, the bucket contains the time and starts
  on the grid; before it the division truncates upwards, and the bucket starts after the time.
\<close>

theorem bucket_start:
  assumes "0 < iv" and "iv < 2 ^ 60" and "\<bar>off\<bar> < 2 ^ 60" and "\<bar>ts + off\<bar> < 2 ^ 60"
  shows "\<exists>s. bucketStartMs ts iv off = Ret s \<and>
    (0 \<le> ts + off \<longrightarrow> s \<le> ts \<and> ts < s + iv \<and> (s + off) mod iv = 0) \<and>
    (ts + off < 0 \<longrightarrow> (ts + off) mod iv \<noteq> 0 \<longrightarrow> ts < s)"
proof (cases "0 \<le> ts + off")
  case True
  then have "in_range iv off ts" using assms by (simp add: in_range_def)
  moreover have "(bucket iv off ts + off) mod iv = 0" by (simp add: bucket_def)
  ultimately show ?thesis using bucketStartMs_eq[of iv off ts] bucket_bounds(1)[OF assms(1), of off ts]
      bucket_bounds(2)[OF assms(1), of ts off] True by auto
next
  case False
  define q where "q = (- (ts + off)) div iv"
  have m: "q * iv = - (ts + off) - (- (ts + off)) mod iv" unfolding q_def by (rule minus_mod_eq_div_mult[symmetric])
  then have q: "q * iv \<le> - (ts + off)" using pos_mod_sign[OF assms(1), of "- (ts + off)"] by simp
  have q0: "0 \<le> q" using False assms(1) by (simp add: q_def pos_imp_zdiv_nonneg_iff)
  then have "q * 1 \<le> q * iv" using assms(1) by (intro mult_left_mono) simp_all
  moreover have "0 \<le> q * iv" using q0 assms(1) by simp
  ultimately have b: "0 \<le> q * iv" "q < 2 ^ 60" "q * iv < 2 ^ 60" using q assms(4) by linarith+
  have i: "i64 (ts + off) = ts + off" "i64 (- q) = - q" "i64 (- (q * iv)) = - (q * iv)"
      "i64 (- (q * iv) - off) = - (q * iv) - off"
    using q0 b assms(3,4) by (auto intro!: i64_id simp: is_i64_def)
  have d: "go_div (ts + off) iv = - q" using False assms(1) by (simp add: go_div_def sgn_if q_def)
  have s: "bucketStartMs ts iv off = Ret (- (q * iv) - off)"
    using assms(1) i d by (simp add: bucketStartMs_def Let_def)
  have "ts < - (q * iv) - off" if "(ts + off) mod iv \<noteq> 0"
  proof -
    have "(- (ts + off)) mod iv \<noteq> 0" using that by (metis dvd_minus_iff mod_0_imp_dvd dvd_imp_mod_0)
    then have "0 < (- (ts + off)) mod iv" using pos_mod_sign[OF assms(1), of "- (ts + off)"] by linarith
    then show ?thesis using m by linarith
  qed
  then show ?thesis using s False by auto
qed

theorem bucket_start_witness:
  "(\<exists>s. bucketStartMs 1500 1000 0 = Ret s \<and> (0 \<le> (1500 :: int) + 0 \<longrightarrow> s \<le> 1500 \<and> 1500 < s + 1000 \<and> (s + 0) mod 1000 = 0) \<and>
     ((1500 :: int) + 0 < 0 \<longrightarrow> ((1500 :: int) + 0) mod 1000 \<noteq> 0 \<longrightarrow> 1500 < s)) \<and>
   (\<exists>s. bucketStartMs (- 1) 1000 0 = Ret s \<and> (0 \<le> (- 1 :: int) + 0 \<longrightarrow> s \<le> - 1 \<and> - 1 < s + 1000 \<and> (s + 0) mod 1000 = 0) \<and>
     ((- 1 :: int) + 0 < 0 \<longrightarrow> ((- 1 :: int) + 0) mod 1000 \<noteq> 0 \<longrightarrow> - 1 < s))"
  by (intro conjI bucket_start) simp_all


subsection \<open>Aggregation\<close>




text \<open>
  C21. \<open>RollupAgg\<close> over children in order: offering and \<open>Flush\<close> return (the gap loop ends), and the bars
  emitted are those of the reference, without a hole when gaps are filled. A second \<open>Flush\<close> emits
  the last bars again, one for every symbol.
\<close>

theorem rollup_rolls:
  assumes "go_div interval Millisecond = iv" and "go_div tz Millisecond = off"
    and "ordered cs" and "\<forall>c \<in> set cs. child_ok iv off c" and "few cs"
  shows "\<exists>a a1 a2 e new. offer_bars col (NewRollupAggFill interval tz fill) cs [] = Ret (a, e) \<and>
    RollupAgg_Flush col a e = Ret (a1, e @ new) \<and> RollupAgg_Flush col a1 (e @ new) = Ret (a2, e @ new @ new) \<and>
    rolled fill iv off cs (e @ new) \<and> (\<forall>c \<in> set cs. of_symbol (bSymbol c) new \<noteq> [])"
  using bars_to_bars[OF assms] by blast

theorem rollup_rolls_witness:
  "\<exists>a a1 a2 e new. offer_bars col (NewRollupAggFill Minute 0 True) [btc_second 0 100, btc_second 120000 110] [] = Ret (a, e) \<and>
    RollupAgg_Flush col a e = Ret (a1, e @ new) \<and> RollupAgg_Flush col a1 (e @ new) = Ret (a2, e @ new @ new) \<and>
    rolled True 60000 0 [btc_second 0 100, btc_second 120000 110] (e @ new) \<and>
    (\<forall>c \<in> set [btc_second 0 100, btc_second 120000 110]. of_symbol (bSymbol c) new \<noteq> [])"
  by (rule rollup_rolls)
    (auto simp: Minute_def Second_def Millisecond_def go_div_def ordered_def of_symbol_def child_ok_def in_range_def
      few_def btc_second_def is_i64_def)






text \<open>
  Without a reorder window no trade is ever counted as late, and a late one is not dropped: after a
  trade at 2.5 s, one at 1.5 s makes a bar of its own, which is emitted at once, before the bar of the
  earlier trade.
\<close>

theorem late_trade_makes_bar:
  "case offer_all col (NewTradeAgg Second 0) [btc_trade 2500 ''100.00000000'', btc_trade 1500 ''1.00000000''] [] of
     Ret (a, e) \<Rightarrow> map bStartMs e = [1000] \<and> map bLow e = [Scale] \<and> lateDrops a = 0 \<and>
       (case TradeAgg_Flush col a e of Ret (_, bs) \<Rightarrow> map bStartMs bs = [1000, 2000] | _ \<Rightarrow> False)
   | _ \<Rightarrow> False"
  by code_simp

lemma Sharded_Close_Some:
  "Sharded_Close a = Some a3 \<longleftrightarrow> (\<forall>sh \<in> set (shards a). \<not> running sh) \<and> a3 = a\<lparr>closed := True\<rparr>"
  by (auto simp: Sharded_Close_def)

text \<open>
  A worker that stops drops what its inbox holds: a trade offered with success is not in any bar when
  the aggregator is closed.
\<close>

theorem stop_loses_trade:
  assumes "Shards c = 1" and "NewShardedAggregator c = Inr a"
  shows "\<exists>a1 a2 a3. Sharded_OfferTrade (start_workers a) t = Ret (Some (a1, True)) \<and>
    worker_stop a1 0 = Ret a2 \<and> Sharded_Close a2 = Some a3 \<and> evs a3 = []"
proof -
  have "shardIndex (Symbol t) 1 = Ret 0" using shardIndex_bounds[of 1 "Symbol t"] by force
  then show ?thesis using assms
    by (auto simp: NewShardedAggregator_def new_chain_def start_workers_def Sharded_OfferTrade_def Let_def
      worker_stop_def with_out_def chain_flush_def TradeAgg_Flush_def NewTradeAggReorder_def RollupAgg_Flush_def
      NewRollupAggFill_def put_chain_def Sharded_Close_Some split: if_splits)
qed

theorem stop_loses_trade_witness:
  "\<exists>a a1 a2 a3. NewShardedAggregator test_config = Inr a \<and>
    Sharded_OfferTrade (start_workers a) (btc_trade 500 ''100.00000000'') = Ret (Some (a1, True)) \<and>
    worker_stop a1 0 = Ret a2 \<and> Sharded_Close a2 = Some a3 \<and> evs a3 = []"
proof -
  obtain a where "NewShardedAggregator test_config = Inr a"
    by (cases "NewShardedAggregator test_config") (auto simp: NewShardedAggregator_def test_config_def Let_def split: prod.splits)
  then show ?thesis using stop_loses_trade[of test_config a "btc_trade 500 ''100.00000000''"]
    by (simp add: test_config_def)
qed

text \<open>
  A trade goes to a shard that exists, the same for every trade of its symbol; with
  \<open>DropWhenFull\<close> the offer never blocks and a refusal changes nothing.
\<close>

lemma offer_routes:
  assumes "shards a \<noteq> []" and "int (length (shards a)) < 2 ^ 63"
  shows "\<exists>i < length (shards a). \<forall>t. Symbol t = y \<longrightarrow>
    (let sh = shards a ! i; a1 = a\<lparr>shards := (shards a)[i := sh\<lparr>inbox := inbox sh @ [t]\<rparr>]\<rparr>;
         room = int (length (inbox sh)) < InboxSize (acfg a)
     in Sharded_OfferTrade a t = Ret (if room then Some (a1, True) else if DropWhenFull (acfg a) then Some (a, False) else None))"
proof -
  obtain i where i: "shardIndex y (int (length (shards a))) = Ret i" "0 \<le> i" "i < int (length (shards a))"
    using shardIndex_bounds[of "int (length (shards a))" y] assms by auto
  then show ?thesis by (intro exI[of _ "nat i"]) (auto simp: Sharded_OfferTrade_def Let_def)
qed

end
