(* ===== verification/Watcher_Types.thy ===== *)
theory Watcher_Types
  imports Go_Prelude
begin

text \<open>
  \<^verbatim>\<open>internal/watcher\<close>: the deposit watcher's data (\<^verbatim>\<open>domain\<close>), the cursor of the scan
  (\<^verbatim>\<open>repo\<close>, \<^verbatim>\<open>service\<close>), the chain adapters (\<^verbatim>\<open>chain\<close>) and the two scanning strategies
  (\<^verbatim>\<open>scanner/strage\<close>). The node, the script and address encodings and the decimal type are
  libraries: they are parameters.
\<close>

subsection \<open>Domain\<close>

datatype TransactionType = TransactionStatusPending | TransactionConfirmed | TransactionFailed

text \<open>\<open>'d\<close> is the decimal type.\<close>

record 'd ChainTransfer =
  TxHash :: string
  LogIndex :: int
  BlockHeight :: int
  FromAddress :: string
  ToAddress :: string
  tChain :: string
  tSymbol :: string
  Amount :: 'd
  Contract :: string
  Data :: string
  tStatus :: TransactionType
  GasUsed :: 'd
  MsgId :: string

record 'd StandardBlock =
  Height :: int
  Hash :: string
  PrevHash :: string
  Time :: int
  Transactions :: "'d ChainTransfer list"

definition StreamRecharegeKey :: string where "StreamRecharegeKey = ''stream:recharge''"

definition GroupName :: string where "GroupName = ''stream:group_workers''"

definition ModeBlock :: string where "ModeBlock = ''block''"

definition ModeLog :: string where "ModeLog = ''log''"

record RechargeConfig =
  Chain :: string
  Interval :: int
  ConfirmNum :: int
  StepBlock :: uint8
  ConfirmInterval :: int
  ConsumerCount :: uint8
  ScanMode :: string

subsection \<open>The cursor\<close>

text \<open>
  The table \<open>scans\<close> has a unique index on \<open>symbol\<close>: it maps a symbol to \<open>current_height\<close>. A
  query or an upsert that fails gives the database's message.
\<close>

type_synonym scans = "string \<rightharpoonup> int"

definition GetLastCursor :: "goerror option \<Rightarrow> scans \<Rightarrow> string \<Rightarrow> string \<Rightarrow> goerror + int \<times> string" where
  "GetLastCursor db_err scans chain mode =
     (case db_err of
        Some e \<Rightarrow> Inl (''query cursor failed: '' @ e)
      | None \<Rightarrow>
          (case scans chain of
             None \<Rightarrow> Inr (0, '''')
           | Some h \<Rightarrow> Inr (h, '''')))"

definition UpdateCursor :: "goerror option \<Rightarrow> scans \<Rightarrow> string \<Rightarrow> int \<Rightarrow> string \<Rightarrow> goerror + scans" where
  "UpdateCursor db_err scans chain height mode =
     (case db_err of
        Some e \<Rightarrow> Inl (''update cursor failed: '' @ e)
      | None \<Rightarrow> Inr (scans(chain \<mapsto> height)))"

definition IsAddress :: "string \<Rightarrow> bool" where
  "IsAddress toAddress = True"

subsection \<open>The node\<close>

text \<open>An Ethereum log: what the strategy reads of it, its fields already rendered as strings.\<close>

record EthLog =
  Topics :: "string list"
  lTxHash :: string
  BlockNumber :: uint64
  lData :: string
  lAddress :: string
  lIndex :: nat

text \<open>A Bitcoin block with its transactions and their outputs.\<close>

record 'f Vout =
  Value :: 'f
  PkHex :: string

record 'f BtcTx =
  Txid :: string
  Vouts :: "'f Vout list"

record 'f BtcBlock =
  btcHeight :: int
  btcHash :: string
  PreviousHash :: string
  btcTime :: int
  Tx :: "'f BtcTx list"

text \<open>
  \<open>decode_hex\<close>, \<open>addresses\<close> (the addresses of a script) and \<open>of_float\<close> are the libraries'.
\<close>

definition btc_deposit :: "'d \<Rightarrow> (string \<Rightarrow> 's option) \<Rightarrow> ('s \<Rightarrow> string list option) \<Rightarrow> ('f \<Rightarrow> 'd) \<Rightarrow>
    int \<Rightarrow> int \<Rightarrow> 'f BtcTx \<Rightarrow> 'f Vout \<Rightarrow> 'd ChainTransfer list" where
  "btc_deposit zero decode_hex addresses of_float height i tx vout =
     (case decode_hex (PkHex vout) of
        None \<Rightarrow> []
      | Some script \<Rightarrow>
          (case addresses script of
             None \<Rightarrow> []
           | Some [] \<Rightarrow> []
           | Some (address # _) \<Rightarrow>
               [\<lparr>TxHash = Txid tx, LogIndex = i, BlockHeight = height, FromAddress = '''', ToAddress = address,
                 tChain = ''BTC'', tSymbol = ''BTC'', Amount = of_float (Value vout), Contract = '''', Data = '''',
                 tStatus = TransactionStatusPending, GasUsed = zero, MsgId = ''''\<rparr>]))"

fun btc_txs :: "'d \<Rightarrow> (string \<Rightarrow> 's option) \<Rightarrow> ('s \<Rightarrow> string list option) \<Rightarrow> ('f \<Rightarrow> 'd) \<Rightarrow>
    int \<Rightarrow> int \<Rightarrow> 'f BtcTx list \<Rightarrow> 'd ChainTransfer list" where
  "btc_txs zero decode_hex addresses of_float height i [] = []"
| "btc_txs zero decode_hex addresses of_float height i (tx # txs) =
     concat (map (btc_deposit zero decode_hex addresses of_float height i tx) (Vouts tx)) @
     btc_txs zero decode_hex addresses of_float height (i + 1) txs"

text \<open>The two calls to the node: \<open>block_hash\<close> and \<open>block_of\<close>.\<close>

definition btc_FetchBlock :: "'d \<Rightarrow> (string \<Rightarrow> 's option) \<Rightarrow> ('s \<Rightarrow> string list option) \<Rightarrow> ('f \<Rightarrow> 'd) \<Rightarrow>
    (int \<Rightarrow> goerror + 'h) \<Rightarrow> ('h \<Rightarrow> goerror + 'f BtcBlock) \<Rightarrow> int \<Rightarrow> goerror + 'd StandardBlock" where
  "btc_FetchBlock zero decode_hex addresses of_float block_hash block_of height =
     (case block_hash height of
        Inl e \<Rightarrow> Inl e
      | Inr hash \<Rightarrow>
          (case block_of hash of
             Inl e \<Rightarrow> Inl e
           | Inr block \<Rightarrow>
               Inr \<lparr>Height = btcHeight block, Hash = btcHash block, PrevHash = PreviousHash block,
                    Time = btcTime block,
                    Transactions = btc_txs zero decode_hex addresses of_float height 0 (Tx block)\<rparr>))"

definition btc_FetchLog :: "int \<Rightarrow> int \<Rightarrow> string list \<Rightarrow> goerror + EthLog list" where
  "btc_FetchLog from to addresses = Inr []"

text \<open>
  The status of a transaction. \<open>parse_hash\<close> and \<open>get_transaction\<close> are the library and the node; a
  transaction has its confirmations and the categories of its details.
\<close>

definition contains :: "string \<Rightarrow> string \<Rightarrow> bool" where
  "contains s sub \<longleftrightarrow> (\<exists>i \<in> {0..length s}. take (length sub) (drop i s) = sub)"

definition btc_GetTransactionStatus :: "(string \<Rightarrow> goerror + 'h) \<Rightarrow> ('h \<Rightarrow> goerror + int \<times> string list) \<Rightarrow>
    string \<Rightarrow> TransactionType \<times> goerror option" where
  "btc_GetTransactionStatus parse_hash get_transaction hash =
     (case parse_hash hash of
        Inl e \<Rightarrow> (TransactionStatusPending, Some (''invalid hash: '' @ e))
      | Inr h \<Rightarrow>
          (case get_transaction h of
             Inl e \<Rightarrow>
               if contains e ''Invalid or non-wallet'' then (TransactionFailed, None)
               else (TransactionFailed, Some e)
           | Inr (confirmations, categories) \<Rightarrow>
               if confirmations > 0 then (TransactionConfirmed, None)
               else if \<exists>c \<in> set categories. c = ''conflict'' \<or> c = ''abandoned'' then (TransactionFailed, None)
               else (TransactionConfirmed, None)))"

text \<open>
  The Ethereum adapter. A transaction has its value (wei), its sender as the signer recovers it and
  its recipient, if any; \<open>lower\<close> lowers the letters of a string.
\<close>

record EthTx =
  txHash :: string
  txValue :: int
  txSender :: "string option"
  txTo :: "string option"

definition lower :: "string \<Rightarrow> string" where
  "lower = map (\<lambda>c. if CHR ''A'' \<le> c \<and> c \<le> CHR ''Z'' then char_of (of_char c + 32 :: nat) else c)"

definition eth_transfer :: "'d \<Rightarrow> (int \<Rightarrow> 'd) \<Rightarrow> int \<Rightarrow> EthTx \<Rightarrow> 'd ChainTransfer list" where
  "eth_transfer zero wei18 height tx =
     (case txSender tx of
        None \<Rightarrow> []
      | Some sender \<Rightarrow>
          (case txTo tx of
             None \<Rightarrow> []
           | Some recipient \<Rightarrow>
               if txValue tx > 0 then
                 [\<lparr>TxHash = txHash tx, LogIndex = 0, BlockHeight = height, FromAddress = lower sender,
                   ToAddress = lower recipient, tChain = ''ETH'', tSymbol = ''ETH'', Amount = wei18 (txValue tx),
                   Contract = '''', Data = '''', tStatus = TransactionStatusPending, GasUsed = zero, MsgId = ''''\<rparr>]
               else []))"

definition eth_FetchBlock :: "'d \<Rightarrow> (int \<Rightarrow> 'd) \<Rightarrow> (int \<Rightarrow> goerror + string \<times> string \<times> uint64 \<times> EthTx list) \<Rightarrow>
    int \<Rightarrow> goerror + 'd StandardBlock" where
  "eth_FetchBlock zero wei18 block_by_number height =
     (case block_by_number height of
        Inl e \<Rightarrow> Inl (''eth get block failed: '' @ e)
      | Inr (hash, parent, time, txs) \<Rightarrow>
          Inr \<lparr>Height = height, Hash = hash, PrevHash = parent, Time = sint time,
               Transactions = concat (map (eth_transfer zero wei18 height) txs)\<rparr>)"

text \<open>The receipt: its status and block number; \<open>latest\<close> is 0 when the node does not answer.\<close>

definition eth_GetTransactionStatus :: "(string \<Rightarrow> goerror + uint64 \<times> int) \<Rightarrow> uint64 \<Rightarrow> string \<Rightarrow> TransactionType \<times> goerror option" where
  "eth_GetTransactionStatus receipt latest hash =
     (case receipt hash of
        Inl e \<Rightarrow> (TransactionStatusPending, None)
      | Inr (status, number) \<Rightarrow>
          if status = 1 then
            (if i64 (sint latest - number) \<ge> 12 then (TransactionConfirmed, None) else (TransactionStatusPending, None))
          else (TransactionFailed, None))"

subsection \<open>Strategies\<close>

datatype Strategy = BlockStrage | LogStrage

definition NewStrategy :: "RechargeConfig \<Rightarrow> Strategy go" where
  "NewStrategy config =
     (if ScanMode config = ModeBlock then Ret BlockStrage
      else if ScanMode config = ModeLog then Ret LogStrage
      else Panic)"

primrec GetSkip :: "Strategy \<Rightarrow> int" where
  "GetSkip BlockStrage = 1"
| "GetSkip LogStrage = 1000"

text \<open>What the watcher asks of the node during one scan.\<close>

record 'd Node =
  FetchBlock :: "int \<Rightarrow> goerror + 'd StandardBlock"
  FetchLog :: "int \<Rightarrow> int \<Rightarrow> goerror + EthLog list"

fun block_transfers :: "'d \<Rightarrow> int \<Rightarrow> 'd ChainTransfer list \<Rightarrow> 'd ChainTransfer list" where
  "block_transfers zero key [] = []"
| "block_transfers zero key (b # bs) =
     (if \<not> IsAddress (ToAddress b) then block_transfers zero (key + 1) bs
      else
        \<lparr>TxHash = TxHash b, LogIndex = key, BlockHeight = BlockHeight b, FromAddress = FromAddress b,
         ToAddress = ToAddress b, tChain = tChain b, tSymbol = ''native'', Amount = Amount b, Contract = '''',
         Data = '''', tStatus = TransactionStatusPending, GasUsed = zero, MsgId = ''''\<rparr>
        # block_transfers zero (key + 1) bs)"

definition Block_GetFetchAndPush :: "'d \<Rightarrow> 'd Node \<Rightarrow> int \<Rightarrow> int \<Rightarrow> goerror + int \<times> 'd ChainTransfer list" where
  "Block_GetFetchAndPush zero node from to =
     (case FetchBlock node from of
        Inl e \<Rightarrow> Inl e
      | Inr block \<Rightarrow>
          if Transactions block = [] then Inr (to, [])
          else Inr (to, block_transfers zero 0 (Transactions block)))"

text \<open>\<open>hex_address\<close> renders the address of a topic.\<close>

fun log_transfers :: "'d \<Rightarrow> (string \<Rightarrow> string) \<Rightarrow> EthLog list \<Rightarrow> 'd ChainTransfer list" where
  "log_transfers zero hex_address [] = []"
| "log_transfers zero hex_address (lg # lgs) =
     (if length (Topics lg) < 3 then log_transfers zero hex_address lgs
      else
        let toAddress = hex_address (Topics lg ! 2)
        in if \<not> IsAddress toAddress then log_transfers zero hex_address lgs
           else
             \<lparr>TxHash = lTxHash lg, LogIndex = int (lIndex lg), BlockHeight = sint (BlockNumber lg),
              FromAddress = hex_address (Topics lg ! 1), ToAddress = toAddress, tChain = ''ETH'',
              tSymbol = ''erc20'', Amount = zero, Contract = lAddress lg, Data = lData lg,
              tStatus = TransactionStatusPending, GasUsed = zero, MsgId = ''''\<rparr>
             # log_transfers zero hex_address lgs)"

definition Log_GetFetchAndPush :: "'d \<Rightarrow> (string \<Rightarrow> string) \<Rightarrow> 'd Node \<Rightarrow> int \<Rightarrow> int \<Rightarrow>
    goerror + int \<times> 'd ChainTransfer list" where
  "Log_GetFetchAndPush zero hex_address node from to =
     (case FetchLog node from to of
        Inl e \<Rightarrow> Inl e
      | Inr [] \<Rightarrow> Inr (to, [])
      | Inr txlogs \<Rightarrow> Inr (to, log_transfers zero hex_address txlogs))"

primrec GetFetchAndPush :: "Strategy \<Rightarrow> 'd \<Rightarrow> (string \<Rightarrow> string) \<Rightarrow> 'd Node \<Rightarrow> int \<Rightarrow> int \<Rightarrow>
    goerror + int \<times> 'd ChainTransfer list" where
  "GetFetchAndPush BlockStrage zero hex_address node from to = Block_GetFetchAndPush zero node from to"
| "GetFetchAndPush LogStrage zero hex_address node from to = Log_GetFetchAndPush zero hex_address node from to"

end
