(* ===== verification/Watcher_Scan.thy ===== *)
theory Watcher_Scan
  imports Watcher_Types
begin

text \<open>
  \<^verbatim>\<open>internal/watcher/scanner/recharge.go\<close>, the scanning side: \<open>NewRecharge\<close>, \<open>master\<close>,
  \<open>scaner\<close> and \<open>pushRedis\<close>. The node, the database and redis answer as the parameter \<open>Env\<close> says;
  the state is the cursor table and the redis stream.
\<close>

subsection \<open>Data\<close>

text \<open>An entry of the stream: the field values of its \<open>XAdd\<close>.\<close>

type_synonym entry = "(string \<times> string) list"

record World =
  scans :: scans
  stream :: "entry list"

text \<open>
  \<open>exec es\<close>: the commands of a pipeline that took effect, and its error. \<open>db_err h\<close>: the error of the
  upsert of height \<open>h\<close>.
\<close>

record 'd Env =
  node :: "'d Node"
  tip :: "goerror + int"
  exec :: "entry list \<Rightarrow> entry list \<times> goerror option"
  db_err :: "int \<Rightarrow> goerror option"
  marshal :: "'d ChainTransfer \<Rightarrow> goerror + string"
  zero :: 'd
  hex_address :: "string \<Rightarrow> string"

text \<open>A pipeline without an error has applied its commands.\<close>

definition exec_ok :: "'d Env \<Rightarrow> bool" where
  "exec_ok env \<longleftrightarrow> (\<forall>es. snd (exec env es) = None \<longrightarrow> fst (exec env es) = es)"

record Engine =
  config :: RechargeConfig
  strageWatch :: Strategy
  chainTransferRpcCap :: nat
  rdsAckCap :: nat
  StreamRechargeKey :: string
  GroupNameKey :: string

definition NewRecharge :: "RechargeConfig \<Rightarrow> Engine go" where
  "NewRecharge c =
     andThen (NewStrategy c) (\<lambda>strategy.
       Ret \<lparr>config = c, strageWatch = strategy, chainTransferRpcCap = 100, rdsAckCap = 100,
            StreamRechargeKey = StreamRecharegeKey @ ''_'' @ Chain c @ ''_'' @ ScanMode c,
            GroupNameKey = GroupName @ ''_'' @ Chain c @ ''_'' @ ScanMode c\<rparr>)"

subsection \<open>Pushing\<close>

fun marshal_all :: "('d ChainTransfer \<Rightarrow> goerror + string) \<Rightarrow> 'd ChainTransfer list \<Rightarrow> goerror + entry list" where
  "marshal_all m [] = Inr []"
| "marshal_all m (t # ts) =
     (case m t of
        Inl e \<Rightarrow> Inl (''marshal chain transfer: '' @ e)
      | Inr s \<Rightarrow>
          (case marshal_all m ts of
             Inl e \<Rightarrow> Inl e
           | Inr es \<Rightarrow> Inr ([(''data'', s), (''type'', ''native'')] # es)))"

definition pushRedis :: "'d Env \<Rightarrow> 'd ChainTransfer list \<Rightarrow> World \<Rightarrow> World \<times> goerror option" where
  "pushRedis env transfers w =
     (if transfers = [] then (w, None)
      else
        case marshal_all (marshal env) transfers of
          Inl e \<Rightarrow> (w, Some e)
        | Inr es \<Rightarrow>
            let (applied, err) = exec env es
            in (w\<lparr>stream := stream w @ applied\<rparr>,
                case err of None \<Rightarrow> None | Some e \<Rightarrow> Some (''pipeline exec: '' @ e)))"

subsection \<open>Scanning\<close>

fun scaner_loop :: "nat \<Rightarrow> 'd Env \<Rightarrow> Engine \<Rightarrow> int \<Rightarrow> int \<Rightarrow> int \<Rightarrow> World \<Rightarrow> ((int \<times> goerror option) \<times> World) go" where
  "scaner_loop 0 env r blockHeight from lastSuccess w = Hang"
| "scaner_loop (Suc k) env r blockHeight from lastSuccess w =
     (if from < blockHeight then
        let to0 = i64 (from + GetSkip (strageWatch r) - 1);
            to = (if to0 > blockHeight then blockHeight else to0)
        in case GetFetchAndPush (strageWatch r) (zero env) (hex_address env) (node env) from to of
             Inl e \<Rightarrow> Ret ((lastSuccess, Some e), w)
           | Inr (processed, transfers) \<Rightarrow>
               let (w1, err) = pushRedis env transfers w
               in case err of
                    Some e \<Rightarrow> Ret ((lastSuccess, Some e), w1)
                  | None \<Rightarrow>
                      (case UpdateCursor (db_err env processed) (scans w1) (Chain (config r)) processed
                              (ScanMode (config r)) of
                         Inl e \<Rightarrow> Ret ((lastSuccess, Some e), w1)
                       | Inr s \<Rightarrow>
                           scaner_loop k env r blockHeight (i64 (processed + 1)) processed (w1\<lparr>scans := s\<rparr>))
      else Ret ((lastSuccess, None), w))"

text \<open>Enough fuel when heights stay in range: every turn advances.\<close>

definition scaner :: "'d Env \<Rightarrow> Engine \<Rightarrow> int \<Rightarrow> int \<Rightarrow> World \<Rightarrow> ((int \<times> goerror option) \<times> World) go" where
  "scaner env r currentHeight blockHeight w =
     scaner_loop (Suc (nat (blockHeight - currentHeight))) env r blockHeight (i64 (currentHeight + 1)) currentHeight w"

text \<open>\<open>master\<close>: the height it starts from, and one tick.\<close>

definition master_start :: "goerror option \<Rightarrow> Engine \<Rightarrow> World \<Rightarrow> int go" where
  "master_start db r w =
     (case GetLastCursor db (scans w) (Chain (config r)) (ScanMode (config r)) of
        Inl e \<Rightarrow> Panic
      | Inr (lastHeight, _) \<Rightarrow> Ret lastHeight)"

definition master_tick :: "'d Env \<Rightarrow> Engine \<Rightarrow> int \<Rightarrow> World \<Rightarrow> (int \<times> World) go" where
  "master_tick env r currentHeight w =
     (case tip env of
        Inl e \<Rightarrow> Ret (currentHeight, w)
      | Inr blockHeight \<Rightarrow>
          andThen (scaner env r currentHeight blockHeight w) (\<lambda>((scanHeight, err), w1).
            Ret (case err of Some _ \<Rightarrow> currentHeight | None \<Rightarrow> scanHeight, w1)))"

subsection \<open>What a scan pushes\<close>

text \<open>Consecutive ranges of at most \<open>step\<close> heights, from behind \<open>a\<close> up to \<open>b\<close>.\<close>

fun covers :: "int \<Rightarrow> int \<Rightarrow> (int \<times> int) list \<Rightarrow> int \<Rightarrow> bool" where
  "covers step a [] b \<longleftrightarrow> a = b"
| "covers step a ((f, t) # rs) b \<longleftrightarrow> f = a + 1 \<and> f \<le> t \<and> t \<le> a + step \<and> covers step t rs b"

definition fetched :: "'d Env \<Rightarrow> Engine \<Rightarrow> int \<times> int \<Rightarrow> 'd ChainTransfer list" where
  "fetched env r = (\<lambda>(f, t).
     case GetFetchAndPush (strageWatch r) (zero env) (hex_address env) (node env) f t of
       Inl _ \<Rightarrow> [] | Inr (_, ts) \<Rightarrow> ts)"

definition entries :: "'d Env \<Rightarrow> 'd ChainTransfer list \<Rightarrow> entry list" where
  "entries env ts = (case marshal_all (marshal env) ts of Inl _ \<Rightarrow> [] | Inr es \<Rightarrow> es)"

definition pushed :: "'d Env \<Rightarrow> Engine \<Rightarrow> (int \<times> int) list \<Rightarrow> entry list" where
  "pushed env r rs = concat (map (\<lambda>x. entries env (fetched env r x)) rs)"

text \<open>Where a scan without an error ends.\<close>

definition target :: "Strategy \<Rightarrow> int \<Rightarrow> int \<Rightarrow> int" where
  "target strategy a bh =
     (if bh \<le> a + 1 then a
      else if strategy = BlockStrage \<or> (bh - a) mod 1000 = 1 then bh - 1 else bh)"

lemma fetch_height: "GetFetchAndPush s z hx nd f t = Inr (h, ts) \<Longrightarrow> h = t"
  by (cases s) (auto simp: Block_GetFetchAndPush_def Log_GetFetchAndPush_def
      split: sum.splits list.splits if_splits)

lemma pushRedis_ok:
  assumes "exec_ok env" and "pushRedis env ts w = (w1, None)"
  shows "w1 = w\<lparr>stream := stream w @ entries env ts\<rparr>"
  using assms
  by (auto simp: pushRedis_def entries_def exec_ok_def split: if_splits sum.splits prod.splits option.splits)
     (metis fst_conv snd_conv)+

lemma pushRedis_err:
  assumes "pushRedis env ts w = (w1, Some e)"
  shows "\<exists>part. w1 = w\<lparr>stream := stream w @ part\<rparr>"
  using assms
  by (auto simp: pushRedis_def intro: exI[of _ "[]"] split: if_splits sum.splits prod.splits option.splits)

lemma target_step:
  assumes "a + 1 < bh" and "to = (if a + GetSkip s > bh then bh else a + GetSkip s)"
  shows "target s to bh = target s a bh"
proof (cases s)
  case BlockStrage
  then show ?thesis using assms by (auto simp: target_def)
next
  case LogStrage
  consider "bh < a + 1000" | "bh = a + 1000" | "bh = a + 1001" | "a + 1001 < bh" by linarith
  then show ?thesis
  proof cases
    case 1
    then have "(bh - a) mod 1000 = bh - a" using assms(1) by (intro mod_pos_pos_trivial) linarith+
    then show ?thesis using 1 assms LogStrage by (simp add: target_def)
  next
    case 4
    have "bh - a = bh - (a + 1000) + 1000" by simp
    then have "(bh - a) mod 1000 = (bh - (a + 1000)) mod 1000" by (metis mod_add_self2)
    then show ?thesis using 4 assms LogStrage by (simp add: target_def)
  qed (use assms LogStrage in \<open>simp_all add: target_def\<close>)
qed


text \<open>
  The outcome of a scan from \<open>a\<close>: everything up to \<open>h\<close> was fetched, pushed once and in order, and only
  then recorded; \<open>part\<close> is what a failing pipeline or upsert leaves behind.
\<close>

definition scan_result :: "'d Env \<Rightarrow> Engine \<Rightarrow> int \<Rightarrow> World \<Rightarrow> int \<Rightarrow> World \<Rightarrow> entry list \<Rightarrow> bool" where
  "scan_result env r a w h w' part \<longleftrightarrow>
     (\<exists>rs. covers (GetSkip (strageWatch r)) a rs h \<and>
       (\<forall>(f, t) \<in> set rs. \<exists>ts. GetFetchAndPush (strageWatch r) (zero env) (hex_address env) (node env) f t = Inr (t, ts)) \<and>
       stream w' = stream w @ pushed env r rs @ part \<and>
       scans w' = (if rs = [] then scans w else (scans w)(Chain (config r) \<mapsto> h)))"

lemma scan_result_step:
  assumes "GetFetchAndPush (strageWatch r) (zero env) (hex_address env) (node env) (a + 1) t = Inr (t, ts)"
    and "a + 1 \<le> t" and "t \<le> a + GetSkip (strageWatch r)"
    and "scan_result env r t (w\<lparr>stream := stream w @ entries env ts, scans := (scans w)(Chain (config r) \<mapsto> t)\<rparr>) h w' part"
  shows "scan_result env r a w h w' part"
proof -
  let ?w = "w\<lparr>stream := stream w @ entries env ts, scans := (scans w)(Chain (config r) \<mapsto> t)\<rparr>"
  obtain rs where rs: "covers (GetSkip (strageWatch r)) t rs h"
    "\<forall>(f, t) \<in> set rs. \<exists>ts. GetFetchAndPush (strageWatch r) (zero env) (hex_address env) (node env) f t = Inr (t, ts)"
    "stream w' = stream ?w @ pushed env r rs @ part"
    "scans w' = (if rs = [] then scans ?w else (scans ?w)(Chain (config r) \<mapsto> h))"
    using assms(4) unfolding scan_result_def by blast
  have "fetched env r (a + 1, t) = ts" using assms(1) by (simp add: fetched_def)
  then have "stream w' = stream w @ pushed env r ((a + 1, t) # rs) @ part" using rs(3) by (simp add: pushed_def)
  moreover have "scans w' = (scans w)(Chain (config r) \<mapsto> h)" using rs(1,4) by (cases "rs = []") simp_all
  ultimately show ?thesis unfolding scan_result_def
    using assms(1-3) rs(1,2) by (intro exI[of _ "(a + 1, t) # rs"]) simp
qed

lemma scan_result_refl: "scan_result env r a w a (w\<lparr>stream := stream w @ part\<rparr>) part"
  unfolding scan_result_def by (intro exI[of _ "[]"]) (simp add: pushed_def)

definition heights_ok :: "int \<Rightarrow> int \<Rightarrow> bool" where
  "heights_ok a bh \<longleftrightarrow> - (2 ^ 62) \<le> a \<and> a < 2 ^ 62 \<and> bh < 2 ^ 62"

lemma scaner_loop_result:
  assumes "exec_ok env" and "heights_ok a bh" and "nat (bh - a) \<le> k"
  shows "\<exists>h err w' part. scaner_loop (Suc k) env r bh (i64 (a + 1)) a w = Ret ((h, err), w') \<and>
    scan_result env r a w h w' part \<and> h \<le> target (strageWatch r) a bh \<and>
    (err = None \<longrightarrow> part = [] \<and> h = target (strageWatch r) a bh)"
  using assms(2,3)
proof (induction k arbitrary: a w)
  case 0
  then have "\<not> i64 (a + 1) < bh" by (simp add: i64_id heights_ok_def is_i64_def)
  then show ?case using 0 scan_result_refl[of env r a w "[]"] by (auto simp: target_def)
next
  case (Suc k)
  let ?s = "strageWatch r"
  have f: "i64 (a + 1) = a + 1" using Suc.prems(1) by (simp add: i64_id heights_ok_def is_i64_def)
  have k: "0 < GetSkip ?s" "GetSkip ?s \<le> 1000" by (cases ?s; simp)+
  have le: "a \<le> target ?s a bh" by (simp add: target_def)
  have t: "i64 (a + 1 + GetSkip ?s - 1) = a + GetSkip ?s"
    using Suc.prems(1) k by (simp add: i64_id heights_ok_def is_i64_def)
  show ?case
  proof (cases "a + 1 < bh")
    case False
    then show ?thesis using f scan_result_refl[of env r a w "[]"] by (auto simp: target_def)
  next
    case True
    define t where "t = (if a + GetSkip ?s > bh then bh else a + GetSkip ?s)"
    have t1: "a + 1 \<le> t" "t \<le> a + GetSkip ?s" "t \<le> bh" using True k by (auto simp: t_def)
    note L = scaner_loop.simps(2)[of "Suc k" env r bh "i64 (a + 1)" a w, unfolded f t if_P[OF True] Let_def t_def[symmetric]]
    show ?thesis
    proof (cases "GetFetchAndPush ?s (zero env) (hex_address env) (node env) (a + 1) t")
      case (Inl e)
      then show ?thesis using f L le scan_result_refl[of env r a w "[]"] by auto
    next
      case (Inr p)
      obtain h0 ts where hts: "p = (h0, ts)" by (cases p)
      have "h0 = t" by (rule fetch_height[OF Inr[unfolded hts]])
      then have g: "GetFetchAndPush ?s (zero env) (hex_address env) (node env) (a + 1) t = Inr (t, ts)"
        using Inr hts by simp
      obtain w1 err where p: "pushRedis env ts w = (w1, err)" by fastforce
      show ?thesis
      proof (cases err)
        case (Some e)
        then obtain part where "w1 = w\<lparr>stream := stream w @ part\<rparr>" using pushRedis_err p by blast
        then show ?thesis using f L le g p Some scan_result_refl[of env r a w part] by auto
      next
        case None
        then have w1: "w1 = w\<lparr>stream := stream w @ entries env ts\<rparr>" using pushRedis_ok[OF assms(1)] p by blast
        show ?thesis
        proof (cases "db_err env t")
          case (Some e)
          then show ?thesis using f L le g p None w1 scan_result_refl[of env r a w "entries env ts"]
            by (auto simp: UpdateCursor_def)
        next
          case none: None
          let ?w = "w\<lparr>stream := stream w @ entries env ts, scans := (scans w)(Chain (config r) \<mapsto> t)\<rparr>"
          have "heights_ok t bh" "nat (bh - t) \<le> k" using Suc.prems t1 by (auto simp: heights_ok_def)
          from Suc.IH[OF this, of ?w] obtain h err w' part where
            IH: "scaner_loop (Suc k) env r bh (i64 (t + 1)) t ?w = Ret ((h, err), w')"
              "scan_result env r t ?w h w' part" "h \<le> target ?s t bh" "err = None \<longrightarrow> part = [] \<and> h = target ?s t bh" by blast
          have "target ?s t bh = target ?s a bh" by (rule target_step[OF True]) (simp add: t_def)
          then show ?thesis
            using f L g p None none w1 IH scan_result_step[OF g t1(1,2) IH(2)]
            by (intro exI[of _ h] exI[of _ err] exI[of _ w'] exI[of _ part]) (simp add: UpdateCursor_def del: scaner_loop.simps)
        qed
      qed
    qed
  qed
qed

lemma scaner_result:
  assumes "exec_ok env" and "heights_ok a bh"
  shows "\<exists>h err w' part. scaner env r a bh w = Ret ((h, err), w') \<and>
    scan_result env r a w h w' part \<and> h \<le> target (strageWatch r) a bh \<and>
    (err = None \<longrightarrow> part = [] \<and> h = target (strageWatch r) a bh)"
  unfolding scaner_def by (rule scaner_loop_result[OF assms order_refl])


text \<open>In block mode every range is one block, so what a scan pushes depends on its two ends only.\<close>

definition blocks :: "'d Env \<Rightarrow> Engine \<Rightarrow> int \<Rightarrow> int \<Rightarrow> entry list" where
  "blocks env r a h = concat (map (\<lambda>i. entries env (fetched env r (i, i))) [a + 1..h])"

lemma covers_le: "covers step a rs h \<Longrightarrow> a \<le> h"
proof (induction rs arbitrary: a)
  case (Cons x rs)
  obtain f t where x: "x = (f, t)" by (cases x)
  then have "a + 1 \<le> t" "t \<le> h" using Cons by simp_all
  then show ?case by simp
qed simp

lemma covers_block: "covers 1 a rs h \<Longrightarrow> pushed env r rs = blocks env r a h"
proof (induction rs arbitrary: a)
  case Nil
  then show ?case by (simp add: pushed_def blocks_def)
next
  case (Cons x rs)
  obtain f t where ft: "x = (f, t)" by (cases x)
  then have t: "f = a + 1" "f \<le> t" "t \<le> a + 1" "covers 1 t rs h" using Cons.prems by simp_all
  then have "t = a + 1" by linarith
  then have x: "x = (a + 1, a + 1)" "covers 1 (a + 1) rs h" using t ft by simp_all
  have "[a + 1..h] = (a + 1) # [a + 1 + 1..h]" using covers_le[OF x(2)] by (simp add: upto_rec1)
  then show ?case using Cons.IH[OF x(2)] by (simp add: pushed_def blocks_def x(1))
qed

lemma blocks_split:
  assumes "a \<le> h" and "h \<le> h2"
  shows "blocks env r a h2 = blocks env r a h @ blocks env r h h2"
proof -
  have "[a + 1..h2] = [a + 1..h] @ [h + 1..h2]" using assms upto_split2[of "a + 1" h h2] by (cases "a = h") simp_all
  then show ?thesis by (simp add: blocks_def)
qed

lemma block_scan:
  assumes "strageWatch r = BlockStrage" and "scan_result env r a w h w' part"
  shows "a \<le> h" "stream w' = stream w @ blocks env r a h @ part"
    "scans w' = (if a = h then scans w else (scans w)(Chain (config r) \<mapsto> h))"
proof -
  obtain rs where rs: "covers 1 a rs h" "stream w' = stream w @ pushed env r rs @ part"
    "scans w' = (if rs = [] then scans w else (scans w)(Chain (config r) \<mapsto> h))"
    using assms unfolding scan_result_def by auto
  show "a \<le> h" by (rule covers_le[OF rs(1)])
  show "stream w' = stream w @ blocks env r a h @ part" using rs(2) covers_block[OF rs(1)] by simp
  have "rs = [] \<longleftrightarrow> a = h" using rs(1) covers_le by (cases rs) fastforce+
  then show "scans w' = (if a = h then scans w else (scans w)(Chain (config r) \<mapsto> h))" using rs(3) by simp
qed

end
