(* ===== verification/Watcher_Flow.thy ===== *)
theory Watcher_Flow
  imports Watcher_Scan
begin

text \<open>
  \<^verbatim>\<open>internal/watcher/scanner/recharge.go\<close>, the consuming side: workers parse the messages of the
  stream (\<open>processMessage\<close>), handlers take them over a bounded channel (\<open>rpcHandler\<close>), and
  acknowledgements go over another one to the ack workers (\<open>rdbACK\<close>). The goroutines are steps of a
  relation in any order. What redis delivers is the environment's choice.
\<close>

subsection \<open>Data\<close>

text \<open>A message value is any Go value; only strings matter.\<close>

datatype GoValue = GoString string | GoOther

record XMessage =
  ID :: string
  Values :: "string \<rightharpoonup> GoValue"

text \<open>
  The channels; what each handler and each ack worker holds between receiving and sending; and the
  identifiers acknowledged so far.
\<close>

record 'd Flow =
  rpcChan :: "'d ChainTransfer list"
  ackChan :: "string list"
  handling :: "'d ChainTransfer option list"
  acking :: "string option list"
  acked :: "string list"

definition start_flow :: "Engine \<Rightarrow> 'd Flow" where
  "start_flow r =
     \<lparr>rpcChan = [], ackChan = [], handling = replicate (unat (ConsumerCount (config r))) None,
      acking = replicate 2 None, acked = []\<rparr>"

subsection \<open>Operations\<close>

text \<open>\<open>True\<close>: the message went to the handlers. \<open>stop\<close>: the context is cancelled and \<open>select\<close> picks it.\<close>

definition processMessage :: "Engine \<Rightarrow> (string \<Rightarrow> 'd ChainTransfer option) \<Rightarrow> bool \<Rightarrow> XMessage \<Rightarrow> 'd Flow \<Rightarrow>
    'd Flow \<times> bool" where
  "processMessage r unmarshal stop msg f =
     (case Values msg ''data'' of
        None \<Rightarrow> (f, False)
      | Some GoOther \<Rightarrow> (f, False)
      | Some (GoString dataStr) \<Rightarrow>
          (case unmarshal dataStr of
             None \<Rightarrow> (f, False)
           | Some transferData \<Rightarrow>
               let transferData = transferData\<lparr>MsgId := ID msg\<rparr>
               in if stop then (f, False)
                  else if length (rpcChan f) < chainTransferRpcCap r
                       then (f\<lparr>rpcChan := rpcChan f @ [transferData]\<rparr>, True)
                       else (f, False)))"

text \<open>One turn of a worker: the end of the context, the answer of \<open>XReadGroup\<close> (\<open>redis.Nil\<close> is an error too), a batch.\<close>

fun handle_messages :: "Engine \<Rightarrow> (string \<Rightarrow> 'd ChainTransfer option) \<Rightarrow> (XMessage \<Rightarrow> bool) \<Rightarrow> XMessage list \<Rightarrow> 'd Flow \<Rightarrow> 'd Flow" where
  "handle_messages r unmarshal stop [] f = f"
| "handle_messages r unmarshal stop (msg # msgs) f =
     handle_messages r unmarshal stop msgs (fst (processMessage r unmarshal (stop msg) msg f))"

definition streamHandler ::
  "Engine \<Rightarrow> (string \<Rightarrow> 'd ChainTransfer option) \<Rightarrow> (XMessage \<Rightarrow> bool) \<Rightarrow> XMessage list list \<Rightarrow> 'd Flow \<Rightarrow> 'd Flow" where
  "streamHandler r unmarshal stop streams f = fold (handle_messages r unmarshal stop) streams f"

definition worker_turn ::
  "Engine \<Rightarrow> (string \<Rightarrow> 'd ChainTransfer option) \<Rightarrow> bool \<Rightarrow> goerror + XMessage list list \<Rightarrow> (XMessage \<Rightarrow> bool) \<Rightarrow>
   'd Flow \<Rightarrow> 'd Flow option" where
  "worker_turn r unmarshal ended answer stop f =
     (if ended then None
      else case answer of Inl err \<Rightarrow> Some f | Inr streams \<Rightarrow> Some (streamHandler r unmarshal stop streams f))"

text \<open>\<open>safe.GoCtx\<close>: a goroutine that panics ends, and nobody hears of it but the log.\<close>

definition GoCtx :: "'a go \<Rightarrow> 'a option go" where
  "GoCtx run = (case run of Ret a \<Rightarrow> Ret (Some a) | Panic \<Rightarrow> Ret None | Hang \<Rightarrow> Hang)"

definition insertRpc :: "'d ChainTransfer \<Rightarrow> goerror option" where
  "insertRpc block = None"

text \<open>An idle handler receives; a busy one finishes. \<open>stop\<close> as above.\<close>

definition handler_receive :: "nat \<Rightarrow> 'd Flow \<Rightarrow> 'd Flow" where
  "handler_receive i f =
     (case rpcChan f of
        [] \<Rightarrow> f
      | t # ts \<Rightarrow> f\<lparr>rpcChan := ts, handling := (handling f)[i := Some t]\<rparr>)"

definition handler_finish :: "Engine \<Rightarrow> bool \<Rightarrow> nat \<Rightarrow> 'd ChainTransfer \<Rightarrow> 'd Flow \<Rightarrow> 'd Flow \<times> bool" where
  "handler_finish r stop i t f =
     (let f1 = f\<lparr>handling := (handling f)[i := None]\<rparr>
      in case insertRpc t of
           Some _ \<Rightarrow> (f1, False)
         | None \<Rightarrow>
             if stop then (f1, False)
             else if length (ackChan f1) < rdsAckCap r then (f1\<lparr>ackChan := ackChan f1 @ [MsgId t]\<rparr>, True)
             else (f1, False))"

definition ack_receive :: "nat \<Rightarrow> 'd Flow \<Rightarrow> 'd Flow" where
  "ack_receive j f =
     (case ackChan f of
        [] \<Rightarrow> f
      | m # ms \<Rightarrow> f\<lparr>ackChan := ms, acking := (acking f)[j := Some m]\<rparr>)"

definition ack_finish :: "goerror option \<Rightarrow> nat \<Rightarrow> string \<Rightarrow> 'd Flow \<Rightarrow> 'd Flow" where
  "ack_finish err j m f =
     (let f1 = f\<lparr>acking := (acking f)[j := None]\<rparr>
      in case err of Some _ \<Rightarrow> f1 | None \<Rightarrow> f1\<lparr>acked := acked f1 @ [m]\<rparr>)"

subsection \<open>Steps\<close>

text \<open>The label records a delivery, with the identifier, and a loss.\<close>

datatype label = Delivered string | Dropped string | Refused string | Quiet

inductive flow_step :: "Engine \<Rightarrow> (string \<Rightarrow> 'd ChainTransfer option) \<Rightarrow> 'd Flow \<Rightarrow> label list \<Rightarrow> 'd Flow \<Rightarrow> bool"
  for r unmarshal where
  deliver: "processMessage r unmarshal stop msg f = (f', ok) \<Longrightarrow>
    flow_step r unmarshal f (Delivered (ID msg) # (if ok then [] else [Dropped (ID msg)])) f'"
| receive: "i < length (handling f) \<Longrightarrow> handling f ! i = None \<Longrightarrow> rpcChan f \<noteq> [] \<Longrightarrow>
    flow_step r unmarshal f [Quiet] (handler_receive i f)"
| handle: "i < length (handling f) \<Longrightarrow> handling f ! i = Some t \<Longrightarrow> handler_finish r stop i t f = (f', ok) \<Longrightarrow>
    flow_step r unmarshal f (if ok then [Quiet] else [Dropped (MsgId t)]) f'"
| ack_take: "j < length (acking f) \<Longrightarrow> acking f ! j = None \<Longrightarrow> ackChan f \<noteq> [] \<Longrightarrow>
    flow_step r unmarshal f [Quiet] (ack_receive j f)"
| ack_send: "j < length (acking f) \<Longrightarrow> acking f ! j = Some m \<Longrightarrow>
    flow_step r unmarshal f (if err = None then [Quiet] else [Refused m]) (ack_finish err j m f)"

inductive flow_run :: "Engine \<Rightarrow> (string \<Rightarrow> 'd ChainTransfer option) \<Rightarrow> label list \<Rightarrow> 'd Flow \<Rightarrow> bool"
  for r unmarshal where
  start: "flow_run r unmarshal [] (start_flow r)"
| next_step: "flow_run r unmarshal tr f \<Longrightarrow> flow_step r unmarshal f ls f' \<Longrightarrow> flow_run r unmarshal (tr @ ls) f'"

subsection \<open>Conservation\<close>

definition delivered :: "label list \<Rightarrow> string list" where
  "delivered tr = concat (map (\<lambda>l. case l of Delivered m \<Rightarrow> [m] | _ \<Rightarrow> []) tr)"

definition lost :: "label list \<Rightarrow> string list" where
  "lost tr = concat (map (\<lambda>l. case l of Dropped m \<Rightarrow> [m] | Refused m \<Rightarrow> [m] | _ \<Rightarrow> []) tr)"

definition held :: "'a option list \<Rightarrow> 'a list" where
  "held os = concat (map (\<lambda>x. case x of None \<Rightarrow> [] | Some a \<Rightarrow> [a]) os)"

lemma label_simps [simp]:
  "delivered [] = []" "delivered (xs @ ys) = delivered xs @ delivered ys"
  "delivered (Delivered m # ls) = m # delivered ls" "delivered (Dropped m # ls) = delivered ls"
  "delivered (Refused m # ls) = delivered ls" "delivered (Quiet # ls) = delivered ls"
  "lost [] = []" "lost (xs @ ys) = lost xs @ lost ys"
  "lost (Delivered m # ls) = lost ls" "lost (Dropped m # ls) = m # lost ls"
  "lost (Refused m # ls) = m # lost ls" "lost (Quiet # ls) = lost ls"
  by (simp_all add: delivered_def lost_def)

lemma held_replicate: "held (replicate n None) = []"
  by (simp add: held_def)

lemma held_set:
  assumes "i < length os" and "os ! i = None"
  shows "mset (held (os[i := Some a])) = add_mset a (mset (held os))"
  using assms unfolding held_def
proof (induction os arbitrary: i)
  case (Cons x os)
  then show ?case by (cases i) simp_all
qed simp

lemma held_clear:
  assumes "i < length os" and "os ! i = Some a"
  shows "add_mset a (mset (held (os[i := None]))) = mset (held os)"
  using assms unfolding held_def
proof (induction os arbitrary: i)
  case (Cons x os)
  then show ?case
  proof (cases i)
    case (Suc n)
    then show ?thesis using Cons.IH[of n] Cons.prems by (simp flip: union_mset_add_mset_right)
  qed simp
qed simp

text \<open>The identifiers on their way, and those that arrived.\<close>

definition present :: "'d Flow \<Rightarrow> string multiset" where
  "present f = mset (map MsgId (rpcChan f)) + image_mset MsgId (mset (held (handling f))) + mset (ackChan f)
     + mset (held (acking f)) + mset (acked f)"

lemma present_deliver:
  assumes "processMessage r unmarshal stop msg f = (f', ok)"
  shows "present f' = (if ok then add_mset (ID msg) (present f) else present f)"
  using assms
  by (auto simp: processMessage_def Let_def present_def split: option.splits GoValue.splits if_splits)

lemma present_receive:
  assumes "i < length (handling f)" and "handling f ! i = None" and "rpcChan f \<noteq> []"
  shows "present (handler_receive i f) = present f"
  using assms by (auto simp: handler_receive_def present_def held_set neq_Nil_conv)

lemma present_handle:
  assumes "i < length (handling f)" and "handling f ! i = Some t" and "handler_finish r stop i t f = (f', ok)"
  shows "present f = (if ok then present f' else add_mset (MsgId t) (present f'))"
  using assms(3) held_clear[OF assms(1,2)]
  by (auto simp: handler_finish_def insertRpc_def Let_def present_def simp flip: held_clear[OF assms(1,2)] split: if_splits)

lemma present_ack_take:
  assumes "j < length (acking f)" and "acking f ! j = None" and "ackChan f \<noteq> []"
  shows "present (ack_receive j f) = present f"
  using assms by (auto simp: ack_receive_def present_def held_set neq_Nil_conv)

lemma present_ack_send:
  assumes "j < length (acking f)" and "acking f ! j = Some m"
  shows "present f = (if err = None then present (ack_finish err j m f) else add_mset m (present (ack_finish err j m f)))"
  by (auto simp: ack_finish_def Let_def present_def simp flip: held_clear[OF assms] split: option.splits)

lemma conservation:
  "flow_run r unmarshal tr f \<Longrightarrow> mset (delivered tr) = mset (lost tr) + present f"
proof (induction rule: flow_run.induct)
  case start
  show ?case by (simp add: start_flow_def present_def held_replicate)
next
  case (next_step tr f ls f')
  from next_step(2) next_step.IH show ?case
  proof cases
    case (deliver stop msg ok)
    then show ?thesis using next_step.IH present_deliver[of r unmarshal stop msg f f' ok] by auto
  next
    case (handle i t stop ok)
    then show ?thesis using next_step.IH present_handle[of i f t r stop f' ok] by auto
  next
    case (ack_send j m err)
    then show ?thesis using next_step.IH present_ack_send[of j f m err] by auto
  qed (simp_all add: next_step.IH present_receive present_ack_take)
qed

lemma bounded:
  assumes "flow_run r unmarshal tr f"
  shows "length (rpcChan f) \<le> chainTransferRpcCap r \<and> length (ackChan f) \<le> rdsAckCap r"
  using assms
proof (induction rule: flow_run.induct)
  case start
  then show ?case by (simp add: start_flow_def)
next
  case (next_step tr f ls f')
  from next_step(2) next_step.IH show ?case
    by cases (auto simp: processMessage_def handler_receive_def handler_finish_def insertRpc_def ack_receive_def
      ack_finish_def Let_def split: option.splits GoValue.splits if_splits list.splits)
qed

subsection \<open>Workers and the master\<close>

text \<open>A turn of a worker is a run of deliveries, one for each message of its batch, in order.\<close>

lemma handle_messages_run:
  "flow_run r unmarshal tr f \<Longrightarrow>
   \<exists>ls. flow_run r unmarshal (tr @ ls) (handle_messages r unmarshal stop msgs f) \<and> delivered ls = map ID msgs"
proof (induction msgs arbitrary: tr f)
  case Nil
  then show ?case by (intro exI[of _ "[]"]) simp
next
  case (Cons msg msgs)
  obtain f1 ok where p: "processMessage r unmarshal (stop msg) msg f = (f1, ok)" by fastforce
  let ?l = "Delivered (ID msg) # (if ok then [] else [Dropped (ID msg)])"
  have "flow_run r unmarshal (tr @ ?l) f1" by (rule flow_run.next_step[OF Cons.prems flow_step.deliver[OF p]])
  from Cons.IH[OF this] obtain ls where "flow_run r unmarshal ((tr @ ?l) @ ls) (handle_messages r unmarshal stop msgs f1)"
    "delivered ls = map ID msgs" by blast
  then show ?case by (intro exI[of _ "?l @ ls"]) (simp add: p)
qed

lemma streamHandler_run:
  "flow_run r unmarshal tr f \<Longrightarrow>
   \<exists>ls. flow_run r unmarshal (tr @ ls) (streamHandler r unmarshal stop streams f) \<and> delivered ls = map ID (concat streams)"
proof (induction streams arbitrary: tr f)
  case Nil
  then show ?case by (intro exI[of _ "[]"]) (simp add: streamHandler_def)
next
  case (Cons ms streams)
  obtain l1 where l1: "flow_run r unmarshal (tr @ l1) (handle_messages r unmarshal stop ms f)" "delivered l1 = map ID ms"
    using handle_messages_run[OF Cons.prems] by blast
  from Cons.IH[OF l1(1)] obtain l2 where
    "flow_run r unmarshal ((tr @ l1) @ l2) (streamHandler r unmarshal stop streams (handle_messages r unmarshal stop ms f))"
    "delivered l2 = map ID (concat streams)" by blast
  then show ?case using l1(2) by (intro exI[of _ "l1 @ l2"]) (simp add: streamHandler_def)
qed

lemma worker_turn_run:
  assumes "flow_run r unmarshal tr f" and "worker_turn r unmarshal ended answer stop f = Some f1"
  shows "\<exists>ls. flow_run r unmarshal (tr @ ls) f1 \<and>
    delivered ls = (case answer of Inl err \<Rightarrow> [] | Inr streams \<Rightarrow> map ID (concat streams))"
proof (cases answer)
  case (Inl err)
  then show ?thesis using assms by (intro exI[of _ "[]"]) (auto simp: worker_turn_def split: if_splits)
next
  case (Inr streams)
  then show ?thesis using assms(2) streamHandler_run[OF assms(1), of stop streams] by (auto simp: worker_turn_def split: if_splits)
qed

text \<open>When the cursor cannot be read at the start, the engine goes on without a master: it never scans, and does not fail.\<close>

lemma dead_master:
  assumes "GetLastCursor db (scans w) (Chain (config r)) (ScanMode (config r)) = Inl e"
  shows "GoCtx (master_start db r w) = Ret None"
  using assms by (simp add: GoCtx_def master_start_def)

end
