(* ===== verification/Watcher_Properties.thy ===== *)
theory Watcher_Properties
  imports Watcher_Flow
begin

text \<open>
  What the deposit watcher of \<^verbatim>\<open>internal/watcher\<close> does, stated on the code's definitions: each
  property is followed by a witness on a concrete chain.
\<close>

subsection \<open>A concrete chain\<close>

definition paid :: "int \<Rightarrow> unit ChainTransfer" where
  "paid n = \<lparr>TxHash = ''tx'', LogIndex = 0, BlockHeight = n, FromAddress = ''a'', ToAddress = ''b'', tChain = ''ETH'',
     tSymbol = ''ETH'', Amount = (), Contract = '''', Data = '''', tStatus = TransactionStatusPending, GasUsed = (),
     MsgId = ''''\<rparr>"

definition test_node :: "unit Node" where
  "test_node = \<lparr>FetchBlock = (\<lambda>n. Inr \<lparr>Height = n, Hash = '''', PrevHash = '''', Time = 0, Transactions = [paid n]\<rparr>),
     FetchLog = (\<lambda>_ _. Inr [])\<rparr>"

text \<open>The database refuses one height.\<close>

definition test_env :: "int option \<Rightarrow> unit Env" where
  "test_env bad = \<lparr>node = test_node, tip = Inr 4, exec = (\<lambda>es. (es, None)),
     db_err = (\<lambda>h. if Some h = bad then Some ''down'' else None), marshal = (\<lambda>t. Inr (TxHash t)), zero = (),
     hex_address = (\<lambda>t. t)\<rparr>"

definition eth_config :: "string \<Rightarrow> RechargeConfig" where
  "eth_config mode = \<lparr>Chain = ''ETH'', Interval = 3, ConfirmNum = 1, StepBlock = 1, ConfirmInterval = 10,
     ConsumerCount = 5, ScanMode = mode\<rparr>"

definition eth_engine :: "string \<Rightarrow> Strategy \<Rightarrow> Engine" where
  "eth_engine mode strategy = \<lparr>config = eth_config mode, strageWatch = strategy, chainTransferRpcCap = 100,
     rdsAckCap = 100, StreamRechargeKey = '''', GroupNameKey = ''''\<rparr>"

definition empty_world :: World where
  "empty_world = \<lparr>scans = Map.empty, stream = []\<rparr>"

lemma test_exec: "exec_ok (test_env bad)"
  by (simp add: exec_ok_def test_env_def)

definition tx_entry :: entry where
  "tx_entry = [(''data'', ''tx''), (''type'', ''native'')]"

lemma scan_fails: "scaner (test_env (Some 2)) (eth_engine ModeBlock BlockStrage) 0 4 empty_world =
    Ret ((1, Some ''update cursor failed: down''), \<lparr>scans = [''ETH'' \<mapsto> 1], stream = [tx_entry, tx_entry]\<rparr>)"
  by (simp add: scaner_def eval_nat_numeral test_env_def eth_engine_def eth_config_def empty_world_def i64_def
      Block_GetFetchAndPush_def test_node_def paid_def IsAddress_def pushRedis_def UpdateCursor_def tx_entry_def)


lemma scan_ok: "scaner (test_env None) (eth_engine ModeBlock BlockStrage) a 4 w =
    Ret ((3, None), w\<lparr>stream := stream w @ replicate (nat (3 - a)) tx_entry, scans := (scans w)(''ETH'' \<mapsto> 3)\<rparr>)"
  if "a = 0 \<or> a = 1"
  using that
  by (auto simp: scaner_def eval_nat_numeral test_env_def eth_engine_def eth_config_def i64_def
      Block_GetFetchAndPush_def test_node_def paid_def IsAddress_def pushRedis_def UpdateCursor_def tx_entry_def)

subsection \<open>Scanning\<close>

text \<open>
  C25. A scan returns. Whatever fails on the way, the height it returns, and the cursor it saved, is one
  up to which every block was fetched, in consecutive ranges, and pushed to the stream once and in
  order; behind that the stream has at most what a failing step left. Without an error the scan ends
  at the block before the tip in block mode, and at the tip in log mode unless a single block remains.
\<close>

theorem scan_pushes_then_records:
  assumes "exec_ok env" and "heights_ok a bh"
  shows "\<exists>h err w' part. scaner env r a bh w = Ret ((h, err), w') \<and> scan_result env r a w h w' part \<and>
    h \<le> target (strageWatch r) a bh \<and> (err = None \<longrightarrow> part = [] \<and> h = target (strageWatch r) a bh)"
  by (rule scaner_result[OF assms])

theorem scan_pushes_then_records_witness:
  "\<exists>h err w' part. scaner (test_env (Some 2)) (eth_engine ModeBlock BlockStrage) 0 4 empty_world = Ret ((h, err), w') \<and>
    scan_result (test_env (Some 2)) (eth_engine ModeBlock BlockStrage) 0 empty_world h w' part \<and>
    h \<le> target BlockStrage 0 4 \<and> (err = None \<longrightarrow> part = [] \<and> h = target BlockStrage 0 4)"
  using scan_pushes_then_records[OF test_exec, of 0 4 "Some 2" "eth_engine ModeBlock BlockStrage" empty_world]
  by (simp add: heights_ok_def eth_engine_def)

text \<open>
  After a scan that failed \<open>master\<close> keeps its old height, although the scan has saved a newer one:
  the next scan that succeeds pushes the same blocks to the stream a second time.
\<close>

theorem failed_scan_repeats:
  assumes "strageWatch r = BlockStrage" and "exec_ok env" and "heights_ok a bh" and "tip env = Inr bh"
    and "scaner env r a bh w = Ret ((h, Some e), w1)"
    and "env2 = env\<lparr>tip := Inr bh2, exec := (\<lambda>es. (es, None)), db_err := (\<lambda>_. None)\<rparr>" and "bh \<le> bh2" and "bh2 < 2 ^ 62"
    and "scaner env2 r a bh2 w1 = Ret ((h2, None), w2)"
  shows "master_tick env r a w = Ret (a, w1) \<and> master_tick env2 r a w1 = Ret (h2, w2) \<and>
    (\<exists>part rest. stream w2 = stream w @ blocks env r a h @ part @ blocks env r a h @ rest)"
proof -
  obtain part where 1: "scan_result env r a w h w1 part" "h \<le> target BlockStrage a bh"
    using scaner_result[OF assms(2,3), of r w] assms(1,5) by auto
  have "exec_ok env2" "heights_ok a bh2" using assms(3,6,8) by (auto simp: exec_ok_def heights_ok_def)
  from scaner_result[OF this, of r w1] have 2: "scan_result env2 r a w1 h2 w2 []" "h2 = target BlockStrage a bh2"
    using assms(1,9) by auto
  have eq: "blocks env2 r x y = blocks env r x y" for x y
    by (simp add: blocks_def assms(6) entries_def fetched_def)
  have "h \<le> h2" using 1(2) 2(2) assms(7) by (auto simp: target_def split: if_splits)
  note split = blocks_split[OF block_scan(1)[OF assms(1) 1(1)] this, of env r]
  have "stream w2 = stream w @ blocks env r a h @ part @ blocks env r a h @ blocks env r h h2"
    using block_scan(2)[OF assms(1) 1(1)] block_scan(2)[OF assms(1) 2(1)] by (simp add: eq split)
  then have "\<exists>part rest. stream w2 = stream w @ blocks env r a h @ part @ blocks env r a h @ rest" by blast
  moreover have "master_tick env r a w = Ret (a, w1)" by (simp add: master_tick_def assms(4,5))
  moreover have "tip env2 = Inr bh2" by (simp add: assms(6))
  then have "master_tick env2 r a w1 = Ret (h2, w2)" by (simp add: master_tick_def assms(9))
  ultimately show ?thesis by blast
qed

theorem failed_scan_repeats_witness:
  "\<exists>w2. master_tick (test_env (Some 2)) (eth_engine ModeBlock BlockStrage) 0 empty_world =
      Ret (0, \<lparr>scans = [''ETH'' \<mapsto> 1], stream = [tx_entry, tx_entry]\<rparr>) \<and>
    master_tick (test_env None) (eth_engine ModeBlock BlockStrage) 0 \<lparr>scans = [''ETH'' \<mapsto> 1], stream = [tx_entry, tx_entry]\<rparr> =
      Ret (3, w2) \<and> stream w2 = replicate 5 tx_entry"
proof -
  let ?r = "eth_engine ModeBlock BlockStrage"
  have e2: "test_env None = (test_env (Some 2))\<lparr>tip := Inr 4, exec := (\<lambda>es. (es, None)), db_err := (\<lambda>_. None)\<rparr>"
    by (simp add: test_env_def)
  have r: "strageWatch ?r = BlockStrage" "heights_ok 0 4" "tip (test_env (Some 2)) = Inr 4"
    by (simp_all add: eth_engine_def heights_ok_def test_env_def)
  let ?w1 = "\<lparr>scans = [''ETH'' \<mapsto> 1], stream = [tx_entry, tx_entry]\<rparr>"
  let ?w2 = "?w1\<lparr>stream := stream ?w1 @ replicate (nat (3 - 0)) tx_entry, scans := (scans ?w1)(''ETH'' \<mapsto> 3)\<rparr>"
  have ok: "scaner (test_env None) ?r 0 4 ?w1 = Ret ((3, None), ?w2)" by (rule scan_ok) simp
  have "stream ?w2 = replicate 5 tx_entry" by (simp add: eval_nat_numeral)
  moreover have c: "(4 :: int) < 2 ^ 62" by simp
  note F = failed_scan_repeats[OF r(1) test_exec r(2,3) scan_fails e2 order_refl c ok]
  note conjunct1[OF F] conjunct1[OF conjunct2[OF F]]
  ultimately show ?thesis by blast
qed

text \<open>
  The cursor ignores the scan mode: after a block-mode engine has scanned a chain, an engine of any
  mode on the same chain starts behind those blocks and only scans later ones.
\<close>

theorem modes_share_cursor:
  assumes "strageWatch r = BlockStrage" and "exec_ok env" and "heights_ok a bh" and "a + 1 < bh"
    and "scaner env r a bh w = Ret ((h, None), w1)" and "Chain (config r2) = Chain (config r)"
    and "exec_ok env2" and "heights_ok h bh2"
  shows "h = bh - 1 \<and> master_start None r2 w1 = Ret h \<and>
    (\<exists>h2 err w2 part. scaner env2 r2 h bh2 w1 = Ret ((h2, err), w2) \<and> scan_result env2 r2 h w1 h2 w2 part)"
proof -
  have 1: "scan_result env r a w h w1 []" "h = target BlockStrage a bh"
    using scaner_result[OF assms(2,3), of r w] assms(1,5) by auto
  then have "h = bh - 1" "a \<noteq> h" using assms(4) by (simp_all add: target_def)
  moreover have "scans w1 (Chain (config r)) = Some h" using block_scan(3)[OF assms(1) 1(1)] \<open>a \<noteq> h\<close> by simp
  ultimately show ?thesis
    using scaner_result[OF assms(7,8), of r2 w1] assms(6) by (auto simp: master_start_def GetLastCursor_def)
qed

theorem modes_share_cursor_witness:
  "master_start None (eth_engine ModeLog LogStrage) (empty_world\<lparr>stream := replicate 3 tx_entry, scans := [''ETH'' \<mapsto> 3]\<rparr>) = Ret 3"
proof -
  have "master_start None (eth_engine ModeLog LogStrage)
      (empty_world\<lparr>stream := stream empty_world @ replicate (nat (3 - 0)) tx_entry, scans := (scans empty_world)(''ETH'' \<mapsto> 3)\<rparr>) = Ret 3"
    using modes_share_cursor[OF _ test_exec _ _ scan_ok[OF disjI1[OF refl]], of "eth_engine ModeLog LogStrage"
        "test_env None" 4 empty_world] test_exec[of None]
    by (simp add: eth_engine_def eth_config_def heights_ok_def)
  then show ?thesis by (simp add: empty_world_def)
qed

subsection \<open>Consuming\<close>

text \<open>
  C26. In every interleaving of workers, handlers and ack workers the channels stay within their
  capacity and every message delivered is on its way, acknowledged or lost; a message that was lost
  (malformed, or a channel was full) is never acknowledged, when redis delivers no identifier twice.
\<close>

theorem messages_conserved:
  assumes "flow_run r unmarshal tr f"
  shows "length (rpcChan f) \<le> chainTransferRpcCap r \<and> length (ackChan f) \<le> rdsAckCap r \<and>
    mset (delivered tr) = mset (lost tr) + present f \<and>
    (distinct (delivered tr) \<longrightarrow> set (lost tr) \<inter> set (acked f) = {})"
proof -
  note c = conservation[OF assms]
  have "set (lost tr) \<inter> set (acked f) = {}" if "distinct (delivered tr)"
  proof (rule ccontr)
    assume "set (lost tr) \<inter> set (acked f) \<noteq> {}"
    then obtain m where m: "m \<in># mset (lost tr)" "m \<in># mset (acked f)" by auto
    then have "0 < count (mset (lost tr)) m" "0 < count (mset (acked f)) m" by (simp_all only: count_greater_zero_iff)
    then have "2 \<le> count (mset (delivered tr)) m" unfolding c present_def count_union by linarith
    moreover have "count (mset (delivered tr)) m \<le> 1" using that by (simp add: distinct_count_atmost_1)
    ultimately show False by simp
  qed
  then show ?thesis using c bounded[OF assms] by blast
qed

text \<open>A well-formed message on its way, and one without data.\<close>

definition no_data :: XMessage where
  "no_data = \<lparr>ID = ''1-0'', Values = Map.empty\<rparr>"

lemma no_data_run: "flow_run (eth_engine ModeBlock BlockStrage) unmarshal ([] @ [Delivered ''1-0'', Dropped ''1-0''])
    (start_flow (eth_engine ModeBlock BlockStrage))"
proof (rule flow_run.next_step[OF flow_run.start])
  have "processMessage r unmarshal False no_data f = (f, False)" for r f
    by (simp add: processMessage_def no_data_def)
  from flow_step.deliver[of r unmarshal False no_data f f False for r f, OF this]
  show "flow_step (eth_engine ModeBlock BlockStrage) unmarshal (start_flow (eth_engine ModeBlock BlockStrage))
      [Delivered ''1-0'', Dropped ''1-0''] (start_flow (eth_engine ModeBlock BlockStrage))"
    by (simp add: no_data_def)
qed

theorem messages_conserved_witness:
  "mset (delivered [Delivered ''1-0'', Dropped ''1-0'']) =
     mset (lost [Delivered ''1-0'', Dropped ''1-0'']) + present (start_flow (eth_engine ModeBlock BlockStrage) :: unit Flow) \<and>
   set (lost [Delivered ''1-0'', Dropped ''1-0'']) \<inter> set (acked (start_flow (eth_engine ModeBlock BlockStrage) :: unit Flow)) = {}"
  using messages_conserved[OF no_data_run[of "\<lambda>_. None :: unit ChainTransfer option"]] by simp

subsection \<open>Bitcoin\<close>

text \<open>
  The status of a Bitcoin transaction that the node knows is never pending: one without a single
  confirmation, neither in conflict nor abandoned, is reported as confirmed.
\<close>

theorem btc_unconfirmed_confirmed:
  assumes "parse_hash hash = Inr h" and "get_transaction h = Inr (confirmations, categories)"
  shows "fst (btc_GetTransactionStatus parse_hash get_transaction hash) \<noteq> TransactionStatusPending \<and>
    (confirmations = 0 \<and> ''conflict'' \<notin> set categories \<and> ''abandoned'' \<notin> set categories \<longrightarrow>
     btc_GetTransactionStatus parse_hash get_transaction hash = (TransactionConfirmed, None))"
  using assms by (auto simp: btc_GetTransactionStatus_def)

theorem btc_unconfirmed_confirmed_witness:
  "btc_GetTransactionStatus (\<lambda>s. Inr s) (\<lambda>h. Inr (0, [''send''])) ''f00d'' = (TransactionConfirmed, None)"
  using btc_unconfirmed_confirmed[of "\<lambda>s. Inr s" "''f00d''" "''f00d''" "\<lambda>h. Inr (0, [''send''])" 0 "[''send'']"] by simp

text \<open>All deposits of one transaction carry the transaction's position, not the output's.\<close>

lemma btc_index:
  assumes "t \<in> set (btc_deposit zero dh ad fl height i tx vout)"
  shows "LogIndex t = i" "TxHash t = Txid tx"
  using assms by (auto simp: btc_deposit_def split: option.splits list.splits)

end
