(* ===== verification/Ws_Hub.thy ===== *)
theory Ws_Hub
  imports Kline_Shard
begin

text \<open>
  \<^verbatim>\<open>internal/quotes/ws\<close> and \<^verbatim>\<open>internal/quotes/gateway\<close>: connections that keep the latest payload of
  each topic (\<^verbatim>\<open>conn.go\<close>), the hub of subscriptions (\<^verbatim>\<open>hub.go\<close>), topics and encoding
  (\<^verbatim>\<open>bridge.go\<close>, \<^verbatim>\<open>encode.go\<close>, \<^verbatim>\<open>proto.go\<close>) and the in-memory broker. A set of subscribers is a Go map
  that \<open>Publish\<close> uses after it has released the lock: sets have addresses. Connections are numbered.
\<close>

subsection \<open>Connections\<close>

record Conn =
  latest :: "(string, bytes) gomap"
  notify :: bool
  conn_closed :: bool

definition NewConn :: Conn where
  "NewConn = \<lparr>latest = [], notify = False, conn_closed = False\<rparr>"

definition Conn_Offer :: "string \<Rightarrow> bytes \<Rightarrow> Conn \<Rightarrow> Conn \<times> bool" where
  "Conn_Offer topic payload c =
     (if conn_closed c then (c, False)
      else (c\<lparr>latest := map_set (latest c) topic payload, notify := True\<rparr>, True))"

text \<open>The loop of \<open>flushLatest\<close>: payloads taken, and what is left.\<close>

fun flush_entries :: "int \<Rightarrow> int \<Rightarrow> (string, bytes) gomap \<Rightarrow> bytes list \<times> (string, bytes) gomap" where
  "flush_entries mx i [] = ([], [])"
| "flush_entries mx i ((k, v) # m) =
     (if i + 1 \<ge> mx then ([v], m)
      else let (out, rest) = flush_entries mx (i + 1) m in (v # out, rest))"

definition flushLatest :: "int \<Rightarrow> Conn \<Rightarrow> Conn \<times> bytes list" where
  "flushLatest mx c =
     (if latest c = [] then (c, [])
      else let (out, rest) = flush_entries mx 0 (latest c) in (c\<lparr>latest := rest\<rparr>, out))"

definition maxFlush :: int where "maxFlush = 256"

text \<open>
  The turn of \<open>writePump\<close> on a wake-up: the message written, its payloads separated by newlines;
  \<open>Inl\<close>: a write failed and the pump ends. \<open>write_err\<close> is the error of the websocket, if any.
\<close>

fun join_lines :: "bytes list \<Rightarrow> bytes" where
  "join_lines [] = []"
| "join_lines [p] = p"
| "join_lines (p # ps) = p @ 10 # join_lines ps"

definition write_turn :: "goerror option \<Rightarrow> Conn \<Rightarrow> (goerror + bytes option) \<times> Conn" where
  "write_turn write_err c =
     (let (c1, batch) = flushLatest maxFlush (c\<lparr>notify := False\<rparr>)
      in if batch = [] then (Inr None, c1)
         else case write_err of
                Some e \<Rightarrow> (Inl e, c1)
              | None \<Rightarrow> (Inr (Some (join_lines batch)), c1))"

subsection \<open>The hub\<close>

record Hub =
  subs :: "(string, nat) gomap"
  sets :: "nat list list"
  lastMsg :: "string \<rightharpoonup> bytes"

definition NewHub :: Hub where
  "NewHub = \<lparr>subs = [], sets = [], lastMsg = Map.empty\<rparr>"

record Ws =
  hub :: Hub
  conns :: "Conn list"

definition offer_to :: "nat \<Rightarrow> string \<Rightarrow> bytes \<Rightarrow> Ws \<Rightarrow> Ws" where
  "offer_to c topic payload w = w\<lparr>conns := (conns w)[c := fst (Conn_Offer topic payload (conns w ! c))]\<rparr>"

text \<open>The part of \<open>Subscribe\<close> under the lock: recording, then the snapshots.\<close>

definition add_conn :: "nat \<Rightarrow> nat list \<Rightarrow> nat list" where
  "add_conn c s = (if c \<in> set s then s else s @ [c])"

definition sub_topic :: "nat \<Rightarrow> string \<Rightarrow> Hub \<Rightarrow> Hub" where
  "sub_topic c t h =
     (case map_get (subs h) t of
        None \<Rightarrow> h\<lparr>subs := map_set (subs h) t (length (sets h)), sets := sets h @ [[c]]\<rparr>
      | Some a \<Rightarrow> h\<lparr>sets := (sets h)[a := add_conn c (sets h ! a)]\<rparr>)"

definition sub_record :: "nat \<Rightarrow> string list \<Rightarrow> Hub \<Rightarrow> Hub" where
  "sub_record c topics h = fold (sub_topic c) topics h"

definition snapshots :: "Hub \<Rightarrow> string list \<Rightarrow> (string \<times> bytes) list" where
  "snapshots h topics = concat (map (\<lambda>t. case lastMsg h t of None \<Rightarrow> [] | Some b \<Rightarrow> [(t, b)]) topics)"

definition Subscribe :: "nat \<Rightarrow> string list \<Rightarrow> Ws \<Rightarrow> Ws" where
  "Subscribe c topics w =
     (let h = sub_record c topics (hub w)
      in fold (\<lambda>(t, b). offer_to c t b) (snapshots h topics) (w\<lparr>hub := h\<rparr>))"

definition unsub_topic :: "nat \<Rightarrow> string \<Rightarrow> Hub \<Rightarrow> Hub" where
  "unsub_topic c t h =
     (case map_get (subs h) t of
        None \<Rightarrow> h
      | Some a \<Rightarrow>
          let s = removeAll c (sets h ! a); h1 = h\<lparr>sets := (sets h)[a := s]\<rparr>
          in if s = [] then h1\<lparr>subs := map_delete (subs h1) t\<rparr> else h1)"

definition Unsubscribe :: "nat \<Rightarrow> string list \<Rightarrow> Ws \<Rightarrow> Ws" where
  "Unsubscribe c topics w = w\<lparr>hub := fold (unsub_topic c) topics (hub w)\<rparr>"

text \<open>\<open>RemoveConn\<close> ranges over the topics it may delete on the way.\<close>

definition RemoveConn :: "nat \<Rightarrow> Ws \<Rightarrow> Ws" where
  "RemoveConn c w = w\<lparr>hub := fold (unsub_topic c) (map_keys (subs (hub w))) (hub w)\<rparr>"

definition Publish :: "string \<Rightarrow> bytes \<Rightarrow> Ws \<Rightarrow> Ws" where
  "Publish topic payload w =
     (let w1 = w\<lparr>hub := (hub w)\<lparr>lastMsg := (lastMsg (hub w))(topic \<mapsto> payload)\<rparr>\<rparr>
      in case map_get (subs (hub w)) topic of
           None \<Rightarrow> w1
         | Some a \<Rightarrow> fold (\<lambda>c. offer_to c topic payload) (sets (hub w) ! a) w1)"

text \<open>One message of a client; \<open>unmarshal\<close> gives its type and topics.\<close>

definition read_turn :: "(bytes \<Rightarrow> (string \<times> string list) option) \<Rightarrow> nat \<Rightarrow> (goerror + bytes) \<Rightarrow> Ws \<Rightarrow> Ws \<times> bool" where
  "read_turn unmarshal c message w =
     (case message of
        Inl e \<Rightarrow> (RemoveConn c w, False)
      | Inr b \<Rightarrow>
          (case unmarshal b of
             None \<Rightarrow> (w, True)
           | Some (type, topics) \<Rightarrow>
               if type = ''sub'' then (Subscribe c topics w, True)
               else if type = ''unsub'' then (Unsubscribe c topics w, True)
               else (w, True)))"

subsection \<open>Topics and encoding\<close>

text \<open>\<open>dur\<close> is \<open>time.Duration.String\<close>, \<open>marshal\<close> is \<open>json.Marshal\<close>.\<close>

definition durToTF :: "(int \<Rightarrow> string) \<Rightarrow> int \<Rightarrow> string" where
  "durToTF dur d =
     (if d = Second then ''1s'' else if d = Minute then ''1m'' else if d = Hour then ''1h''
      else if d = 24 * Hour then ''1d''
      else if d > 0 \<and> go_mod d Second = 0 then fmt_d (go_div d Second) @ ''s''
      else if d > 0 \<and> go_mod d Millisecond = 0 then fmt_d (go_div d Millisecond) @ ''ms''
      else if d > 0 then dur d else '''')"

definition EncodeBar :: "(int \<Rightarrow> string) \<Rightarrow> (Bar \<Rightarrow> goerror + bytes) \<Rightarrow> Bar \<Rightarrow> goerror + string \<times> bytes" where
  "EncodeBar dur marshal b =
     (let tf = durToTF dur (bInterval b); topic = ''kline:'' @ tf @ '':'' @ bSymbol b
      in case marshal (b\<lparr>bTF := tf\<rparr>) of Inl e \<Rightarrow> Inl e | Inr buf \<Rightarrow> Inr (topic, buf))"

definition EncodeEvent :: "(int \<Rightarrow> string) \<Rightarrow> (Bar \<Rightarrow> goerror + bytes) \<Rightarrow> Bar \<Rightarrow> goerror + string \<times> bytes" where
  "EncodeEvent dur marshal ev = EncodeBar dur marshal ev"

definition intervalKey :: "(int \<Rightarrow> string) \<Rightarrow> int \<Rightarrow> string" where
  "intervalKey dur d =
     (if d = Second then ''1s'' else if d = Minute then ''1m'' else if d = Hour then ''1h''
      else if d = 24 * Hour then ''1d'' else if d = 7 * 24 * Hour then ''1w'' else dur d)"

definition normalizeInterval :: "(int \<Rightarrow> string) \<Rightarrow> int \<Rightarrow> string" where
  "normalizeInterval dur d =
     (if d = Second then ''1s'' else if d = Minute then ''1m'' else if d = Hour then ''1h''
      else if d = 24 * Hour then ''1d'' else dur d)"

definition upper :: "char \<Rightarrow> char" where
  "upper c = (if CHR ''a'' \<le> c \<and> c \<le> CHR ''z'' then char_of (of_char c - 32 :: nat) else c)"

definition normalizeSymbol :: "string \<Rightarrow> string" where
  "normalizeSymbol s0 =
     (let s1 = map upper (TrimSpace s0);
          s2 = map (\<lambda>c. if c = CHR ''_'' then CHR ''-'' else c) s1
      in map (\<lambda>c. if c = CHR ''/'' then CHR ''-'' else c) s2)"

definition TopicForBar :: "(int \<Rightarrow> string) \<Rightarrow> Bar \<Rightarrow> string" where
  "TopicForBar dur b = ''kline:'' @ intervalKey dur (bInterval b) @ '':'' @ normalizeSymbol (bSymbol b)"

record BarDTO =
  dSymbol :: string
  dInterval :: string
  dStartMs :: int
  dEndMs :: int
  dOpen :: string
  dHigh :: string
  dLow :: string
  dClose :: string
  dVolume :: string
  dCount :: int

definition ToDTO :: "(int \<Rightarrow> string) \<Rightarrow> Bar \<Rightarrow> BarDTO" where
  "ToDTO dur b =
     \<lparr>dSymbol = bSymbol b, dInterval = normalizeInterval dur (bInterval b), dStartMs = bStartMs b,
      dEndMs = bEndMs b, dOpen = FormatFixed (bOpen b), dHigh = FormatFixed (bHigh b),
      dLow = FormatFixed (bLow b), dClose = FormatFixed (bClose b), dVolume = FormatFixed (bVolume b),
      dCount = bCount b\<rparr>"

record ServerMsg =
  smType :: string
  smTopic :: string
  smBar :: BarDTO

definition Bridge :: "(int \<Rightarrow> string) \<Rightarrow> (ServerMsg \<Rightarrow> bytes) \<Rightarrow> KlineEvent \<Rightarrow> Ws \<Rightarrow> Ws" where
  "Bridge dur marshal ev w =
     (let topic = TopicForBar dur (evBar ev);
          msg = \<lparr>smType = ''kline'', smTopic = topic, smBar = ToDTO dur (evBar ev)\<rparr>
      in Publish topic (marshal msg) w)"

definition BridgeRaw :: "string \<Rightarrow> bytes \<Rightarrow> Ws \<Rightarrow> Ws" where
  "BridgeRaw topic payload w = Publish topic payload w"

text \<open>
  What \<^verbatim>\<open>marketdata/product/main.go\<close> publishes for a bar of the aggregator: nothing if it cannot be encoded.
\<close>

definition bridge_msg :: "(int \<Rightarrow> string) \<Rightarrow> (Bar \<Rightarrow> goerror + bytes) \<Rightarrow> KlineEvent \<Rightarrow> (string \<times> bytes) option" where
  "bridge_msg dur marshal ev = (case EncodeEvent dur marshal (evBar ev) of Inl e \<Rightarrow> None | Inr m \<Rightarrow> Some m)"

subsection \<open>The in-memory broker\<close>

record Message =
  mTopic :: string
  mPayload :: bytes

record Channel =
  queue :: "Message list"
  chan_closed :: bool

record MemBroker =
  msubs :: "string \<Rightarrow> nat list"
  chans :: "Channel list"

definition NewMemBroker :: MemBroker where
  "NewMemBroker = \<lparr>msubs = (\<lambda>_. []), chans = []\<rparr>"

text \<open>A send without waiting: a closed channel panics, a full one drops the message.\<close>

definition try_send :: "Message \<Rightarrow> Channel \<Rightarrow> Channel go" where
  "try_send m ch =
     (if chan_closed ch then Panic
      else if length (queue ch) < 4096 then Ret (ch\<lparr>queue := queue ch @ [m]\<rparr>)
      else Ret ch)"

fun broker_fan :: "Message \<Rightarrow> nat list \<Rightarrow> MemBroker \<Rightarrow> MemBroker go" where
  "broker_fan m [] b = Ret b"
| "broker_fan m (i # is) b =
     andThen (try_send m (chans b ! i)) (\<lambda>ch. broker_fan m is (b\<lparr>chans := (chans b)[i := ch]\<rparr>))"

definition Broker_Publish :: "string \<Rightarrow> bytes \<Rightarrow> MemBroker \<Rightarrow> MemBroker go" where
  "Broker_Publish topic payload b = broker_fan \<lparr>mTopic = topic, mPayload = payload\<rparr> (msubs b topic) b"

text \<open>The channel's number; the goroutine that \<open>Subscribe\<close> starts closes it when the context ends.\<close>

definition Broker_Subscribe :: "string list \<Rightarrow> MemBroker \<Rightarrow> MemBroker \<times> nat" where
  "Broker_Subscribe topics b =
     (let ch = length (chans b)
      in (b\<lparr>chans := chans b @ [\<lparr>queue = [], chan_closed = False\<rparr>],
            msubs := fold (\<lambda>t s. s(t := s t @ [ch])) topics (msubs b)\<rparr>, ch))"

definition context_done :: "nat \<Rightarrow> MemBroker \<Rightarrow> MemBroker" where
  "context_done ch b = b\<lparr>chans := (chans b)[ch := (chans b ! ch)\<lparr>chan_closed := True\<rparr>]\<rparr>"

subsection \<open>The gateway\<close>

text \<open>
  One turn of \<open>Run\<close> over the in-memory broker, on the channel it has subscribed: \<open>done\<close> says that the
  context has ended and its case is taken, \<open>None\<close> that \<open>Run\<close> returns. With nothing to take the turn waits.
\<close>

record Gateway =
  gHub :: Ws
  gBroker :: MemBroker

definition NewGateway :: "Ws \<Rightarrow> MemBroker \<Rightarrow> Gateway" where
  "NewGateway w b = \<lparr>gHub = w, gBroker = b\<rparr>"

definition gateway_start :: "string list \<Rightarrow> Gateway \<Rightarrow> Gateway \<times> nat" where
  "gateway_start topics g = (let (b, ch) = Broker_Subscribe topics (gBroker g) in (g\<lparr>gBroker := b\<rparr>, ch))"

definition gateway_turn :: "bool \<Rightarrow> nat \<Rightarrow> Gateway \<Rightarrow> Gateway option" where
  "gateway_turn done ch g =
     (if done then None
      else let c = chans (gBroker g) ! ch
           in case queue c of
                [] \<Rightarrow> if chan_closed c then None else Some g
              | m # ms \<Rightarrow>
                  Some (g\<lparr>gBroker := (gBroker g)\<lparr>chans := (chans (gBroker g))[ch := c\<lparr>queue := ms\<rparr>]\<rparr>,
                          gHub := BridgeRaw (mTopic m) (mPayload m) (gHub g)\<rparr>))"

definition Gateway_Publish :: "string \<Rightarrow> bytes \<Rightarrow> Gateway \<Rightarrow> Gateway go" where
  "Gateway_Publish topic payload g =
     andThen (Broker_Publish topic payload (gBroker g)) (\<lambda>b. Ret (g\<lparr>gBroker := b\<rparr>))"

end
