(* ===== verification/Ws_Laws.thy ===== *)
theory Ws_Laws
  imports Ws_Hub
begin

text \<open>
  The hub run by one goroutine at a time: what is subscribed, and what a publication delivers. Then the
  hub run by many: its operations as sequences of atomic actions, in any interleaving.
\<close>

subsection \<open>Subscriptions\<close>

definition subscribed :: "Hub \<Rightarrow> nat \<Rightarrow> string \<Rightarrow> bool" where
  "subscribed h c t \<longleftrightarrow> (\<exists>a. map_get (subs h) t = Some a \<and> c \<in> set (sets h ! a))"

text \<open>Every topic has a set of its own, without duplicates and not empty.\<close>

definition hub_inv :: "Hub \<Rightarrow> bool" where
  "hub_inv h \<longleftrightarrow>
     (\<forall>t a. map_get (subs h) t = Some a \<longrightarrow> a < length (sets h) \<and> distinct (sets h ! a) \<and> sets h ! a \<noteq> []) \<and>
     (\<forall>t u a. map_get (subs h) t = Some a \<longrightarrow> map_get (subs h) u = Some a \<longrightarrow> t = u)"

lemma hub_inv_new: "hub_inv NewHub"
  by (simp add: hub_inv_def NewHub_def)

lemma hub_invD:
  assumes "hub_inv h" and "map_get (subs h) t = Some a"
  shows "a < length (sets h)" "distinct (sets h ! a)" "sets h ! a \<noteq> []"
    "\<And>u. map_get (subs h) u = Some a \<Longrightarrow> u = t"
  using assms unfolding hub_inv_def by blast+

lemma add_conn_set: "set (add_conn c s) = insert c (set s)" "distinct s \<Longrightarrow> distinct (add_conn c s)" "add_conn c s \<noteq> []"
  by (auto simp: add_conn_def)

text \<open>Replacing the set of one topic.\<close>

lemma put_nth:
  assumes "hub_inv h" and "map_get (subs h) t = Some a" and "map_get (subs h) v = Some b"
  shows "(sets h)[a := s] ! b = (if v = t then s else sets h ! b)"
proof (cases "v = t")
  case True
  then have "b = a" using assms(2,3) by simp
  then show ?thesis using True hub_invD(1)[OF assms(1,2)] by simp
next
  case False
  then have "b \<noteq> a" using hub_invD(4)[OF assms(1,2), of v] assms(3) by blast
  then show ?thesis using False by simp
qed

lemma hub_inv_put:
  assumes "hub_inv h" and "map_get (subs h) t = Some a" and "distinct s" and "s \<noteq> []"
  shows "hub_inv (h\<lparr>sets := (sets h)[a := s]\<rparr>)"
  unfolding hub_inv_def
proof (intro conjI allI impI; simp)
  fix v b assume v: "map_get (subs h) v = Some b"
  show "b < length (sets h)" by (rule hub_invD(1)[OF assms(1) v])
  show "distinct ((sets h)[a := s] ! b)" "(sets h)[a := s] ! b \<noteq> []"
    using put_nth[OF assms(1,2) v, of s] hub_invD(2,3)[OF assms(1) v] assms(3,4) by auto
  fix u assume "map_get (subs h) u = Some b"
  then show "v = u" using hub_invD(4)[OF assms(1) v] by auto
qed

lemma subscribed_put:
  assumes "hub_inv h" and "map_get (subs h) t = Some a"
  shows "subscribed (h\<lparr>sets := (sets h)[a := s]\<rparr>) c u \<longleftrightarrow> (if u = t then c \<in> set s else subscribed h c u)"
  using put_nth[OF assms, of u _ s] assms(2) by (cases "map_get (subs h) u") (auto simp: subscribed_def)

lemma sub_topic_inv:
  assumes "hub_inv h"
  shows "hub_inv (sub_topic c t h)" "subscribed (sub_topic c t h) c' u \<longleftrightarrow> subscribed h c' u \<or> c' = c \<and> u = t"
    "lastMsg (sub_topic c t h) = lastMsg h"
proof -
  show "lastMsg (sub_topic c t h) = lastMsg h" by (simp add: sub_topic_def split: option.split)
  have "hub_inv (sub_topic c t h) \<and> (subscribed (sub_topic c t h) c' u \<longleftrightarrow> subscribed h c' u \<or> c' = c \<and> u = t)"
  proof (cases "map_get (subs h) t")
    case None
    have old: "(sets h @ [[c]]) ! a = sets h ! a" "a < length (sets h)" if "map_get (subs h) v = Some a" for v a
      using hub_invD(1)[OF assms that] by (simp_all add: nth_append)
    have "hub_inv (sub_topic c t h)"
      using None assms old hub_invD[OF assms] unfolding hub_inv_def sub_topic_def
      by (auto simp: map_get_set nth_append intro: less_SucI split: if_splits)
    then show ?thesis using None old by (auto simp: sub_topic_def subscribed_def map_get_set nth_append split: if_splits)
  next
    case (Some a)
    have "sub_topic c t h = h\<lparr>sets := (sets h)[a := add_conn c (sets h ! a)]\<rparr>" by (simp add: sub_topic_def Some)
    moreover have "subscribed h c' t \<longleftrightarrow> c' \<in> set (sets h ! a)" by (simp add: subscribed_def Some)
    ultimately show ?thesis
      using hub_inv_put[OF assms Some add_conn_set(2,3), OF hub_invD(2)[OF assms Some]]
        subscribed_put[OF assms Some, of "add_conn c (sets h ! a)" c' u] by (auto simp: add_conn_set)
  qed
  then show "hub_inv (sub_topic c t h)" "subscribed (sub_topic c t h) c' u \<longleftrightarrow> subscribed h c' u \<or> c' = c \<and> u = t"
    by blast+
qed

lemma sub_record_inv:
  assumes "hub_inv h"
  shows "hub_inv (sub_record c ts h) \<and> lastMsg (sub_record c ts h) = lastMsg h \<and>
    (\<forall>c' u. subscribed (sub_record c ts h) c' u \<longleftrightarrow> subscribed h c' u \<or> c' = c \<and> u \<in> set ts)"
  using assms unfolding sub_record_def
proof (induction ts arbitrary: h)
  case (Cons t ts)
  note s = sub_topic_inv[OF Cons.prems, of c t]
  show ?case using Cons.IH[OF s(1)] s(2,3) by auto
qed simp

lemma unsub_topic_inv:
  assumes "hub_inv h"
  shows "hub_inv (unsub_topic c t h) \<and> lastMsg (unsub_topic c t h) = lastMsg h \<and>
    (\<forall>c' u. subscribed (unsub_topic c t h) c' u \<longleftrightarrow> subscribed h c' u \<and> \<not> (c' = c \<and> u = t))"
proof (cases "map_get (subs h) t")
  case None
  then show ?thesis using assms by (auto simp: unsub_topic_def subscribed_def)
next
  case (Some a)
  note A = hub_invD[OF assms Some]
  have l: "lastMsg (unsub_topic c t h) = lastMsg h" by (simp add: unsub_topic_def Some Let_def)
  show ?thesis
  proof (cases "removeAll c (sets h ! a) = []")
    case True
    then have e: "set (sets h ! a) \<subseteq> {c}" by (metis Diff_eq_empty_iff list.set(1) set_removeAll)
    have u: "unsub_topic c t h = h\<lparr>sets := (sets h)[a := []], subs := map_delete (subs h) t\<rparr>"
      using True by (simp add: unsub_topic_def Some Let_def)
    have nth: "(sets h)[a := []] ! b = sets h ! b" if "map_get (subs h) v = Some b" "v \<noteq> t" for v b
      using put_nth[OF assms Some that(1), of "[]"] that(2) by simp
    have "hub_inv (unsub_topic c t h)"
      unfolding hub_inv_def
    proof (intro conjI allI impI; simp add: u map_get_delete split: if_splits)
      fix v b assume v: "v \<noteq> t" "map_get (subs h) v = Some b"
      show "b < length (sets h)" by (rule hub_invD(1)[OF assms v(2)])
      show "distinct ((sets h)[a := []] ! b)" "(sets h)[a := []] ! b \<noteq> []"
        using nth[OF v(2,1)] hub_invD(2,3)[OF assms v(2)] by auto
      fix w assume "w \<noteq> t" "map_get (subs h) w = Some b"
      then show "v = w" using hub_invD(4)[OF assms v(2)] by auto
    qed
    moreover have "subscribed (unsub_topic c t h) c' v \<longleftrightarrow> subscribed h c' v \<and> \<not> (c' = c \<and> v = t)" for c' v
      using e Some nth unfolding u subscribed_def by (cases "v = t") (auto simp: map_get_delete)
    ultimately show ?thesis using l by blast
  next
    case False
    have u: "unsub_topic c t h = h\<lparr>sets := (sets h)[a := removeAll c (sets h ! a)]\<rparr>"
      using False by (simp add: unsub_topic_def Some Let_def)
    have "subscribed h c' t \<longleftrightarrow> c' \<in> set (sets h ! a)" for c' by (simp add: subscribed_def Some)
    then show ?thesis
      using hub_inv_put[OF assms Some distinct_removeAll False, OF A(2)] l
        subscribed_put[OF assms Some, of "removeAll c (sets h ! a)"] unfolding u by auto
  qed
qed

lemma unsub_all_inv:
  assumes "hub_inv h"
  shows "hub_inv (fold (unsub_topic c) ts h) \<and> lastMsg (fold (unsub_topic c) ts h) = lastMsg h \<and>
    (\<forall>c' u. subscribed (fold (unsub_topic c) ts h) c' u \<longleftrightarrow> subscribed h c' u \<and> \<not> (c' = c \<and> u \<in> set ts))"
  using assms
proof (induction ts arbitrary: h)
  case (Cons t ts)
  have s: "hub_inv (unsub_topic c t h)" using unsub_topic_inv[OF Cons.prems] by blast
  show ?case using Cons.IH[OF s] unsub_topic_inv[OF Cons.prems, of c t] by auto
qed simp

lemma subscribed_keys: "subscribed h c t \<Longrightarrow> t \<in> set (map_keys (subs h))"
  by (auto simp: subscribed_def map_keys_get)

subsection \<open>Deliveries\<close>

text \<open>The payload of a topic that waits in a connection.\<close>

definition waiting :: "Ws \<Rightarrow> nat \<Rightarrow> string \<Rightarrow> bytes option" where
  "waiting w c t = map_get (latest (conns w ! c)) t"

definition is_open :: "Ws \<Rightarrow> nat \<Rightarrow> bool" where
  "is_open w c \<longleftrightarrow> c < length (conns w) \<and> \<not> conn_closed (conns w ! c)"

lemma offer_to_facts [simp]:
  "hub (offer_to c t b w) = hub w" "length (conns (offer_to c t b w)) = length (conns w)"
  "is_open (offer_to c t b w) c' = is_open w c'"
  by (simp_all add: offer_to_def is_open_def)
    (cases "c < length (conns w)"; auto simp: Conn_Offer_def nth_list_update list_update_beyond)

lemma offer_to_waiting:
  "waiting (offer_to c t b w) c' u = (if is_open w c \<and> c' = c \<and> u = t then Some b else waiting w c' u)"
  by (cases "c < length (conns w)")
    (auto simp: offer_to_def waiting_def is_open_def Conn_Offer_def nth_list_update map_get_set list_update_beyond)

lemma fan_waiting:
  "waiting (fold (\<lambda>c. offer_to c t b) cs w) c' u =
     (if is_open w c' \<and> c' \<in> set cs \<and> u = t then Some b else waiting w c' u) \<and>
   hub (fold (\<lambda>c. offer_to c t b) cs w) = hub w \<and> (\<forall>c. is_open (fold (\<lambda>c. offer_to c t b) cs w) c = is_open w c)"
  by (induction cs arbitrary: w) (auto simp: offer_to_waiting)

lemma snapshot_hub:
  "hub (fold (\<lambda>(t, b). offer_to c t b) ss w) = hub w"
  by (induction ss arbitrary: w) (auto split: prod.split)

lemma snapshot_open: "is_open (fold (\<lambda>(t, b). offer_to c t b) ss w) c' = is_open w c'"
  by (induction ss arbitrary: w) (auto split: prod.split)

lemma snapshot_waiting:
  "waiting (fold (\<lambda>(t, b). offer_to c t b) ss w) c' u =
     (if is_open w c \<and> c' = c \<and> u \<in> fst ` set ss then map_of (rev ss) u else waiting w c' u)"
proof (induction ss rule: rev_induct)
  case (snoc x ss)
  obtain t b where x: "x = (t, b)" by (cases x)
  have m: "map_of (rev (ss @ [x])) u = (if u = t then Some b else map_of (rev ss) u)" by (simp add: x)
  have f: "u \<in> fst ` set (ss @ [x]) \<longleftrightarrow> u = t \<or> u \<in> fst ` set ss" by (auto simp: x)
  have v: "waiting (fold (\<lambda>(t, b). offer_to c t b) (ss @ [x]) w) c' u =
      (if is_open w c \<and> c' = c \<and> u = t then Some b else waiting (fold (\<lambda>(t, b). offer_to c t b) ss w) c' u)"
    by (simp add: x offer_to_waiting snapshot_open)
  show ?case unfolding m f v snoc by auto
qed simp

lemma snapshots_set: "set (snapshots h ts) = {(t, b). t \<in> set ts \<and> lastMsg h t = Some b}"
  by (auto simp: snapshots_def split: option.splits)

lemma snapshots_map:
  "fst ` set (snapshots h ts) = {t \<in> set ts. lastMsg h t \<noteq> None}"
  "t \<in> set ts \<Longrightarrow> map_of (rev (snapshots h ts)) t = lastMsg h t"
proof -
  show f: "fst ` set (snapshots h ts) = {t \<in> set ts. lastMsg h t \<noteq> None}"
    unfolding snapshots_set by (auto simp: image_iff)
  assume t: "t \<in> set ts"
  show "map_of (rev (snapshots h ts)) t = lastMsg h t"
  proof (cases "map_of (rev (snapshots h ts)) t")
    case None
    then have "t \<notin> fst ` set (snapshots h ts)" by (simp add: map_of_eq_None_iff)
    then show ?thesis using None t unfolding f by simp
  next
    case (Some b)
    then have "(t, b) \<in> set (snapshots h ts)" using map_of_SomeD by fastforce
    then show ?thesis using Some by (simp add: snapshots_set)
  qed
qed

subsection \<open>Publications\<close>

lemma Publish_facts:
  "waiting (Publish t b w) c u = (if is_open w c \<and> subscribed (hub w) c t \<and> u = t then Some b else waiting w c u)"
  "subs (hub (Publish t b w)) = subs (hub w)" "sets (hub (Publish t b w)) = sets (hub w)"
  "lastMsg (hub (Publish t b w)) = (lastMsg (hub w))(t \<mapsto> b)"
  "is_open (Publish t b w) c = is_open w c"
proof -
  let ?w1 = "w\<lparr>hub := (hub w)\<lparr>lastMsg := (lastMsg (hub w))(t \<mapsto> b)\<rparr>\<rparr>"
  have w1: "is_open ?w1 c' = is_open w c'" "waiting ?w1 c' v = waiting w c' v" for c' v
    by (simp_all add: is_open_def waiting_def)
  have "waiting (Publish t b w) c u = (if is_open w c \<and> subscribed (hub w) c t \<and> u = t then Some b else waiting w c u) \<and>
    hub (Publish t b w) = hub ?w1 \<and> is_open (Publish t b w) c = is_open w c"
    by (cases "map_get (subs (hub w)) t")
      (auto simp: Publish_def Let_def subscribed_def w1 fan_waiting[of t b _ ?w1])
  then show "waiting (Publish t b w) c u = (if is_open w c \<and> subscribed (hub w) c t \<and> u = t then Some b else waiting w c u)"
    "subs (hub (Publish t b w)) = subs (hub w)" "sets (hub (Publish t b w)) = sets (hub w)"
    "lastMsg (hub (Publish t b w)) = (lastMsg (hub w))(t \<mapsto> b)" "is_open (Publish t b w) c = is_open w c"
    by simp_all
qed

text \<open>After publications one after the other, a subscriber holds the last one of each topic.\<close>

lemma fold_Publish_waiting:
  "waiting (fold (\<lambda>(t, p). Publish t p) ms w) c u =
    (if is_open w c \<and> subscribed (hub w) c u
     then case map_of (rev ms) u of Some p \<Rightarrow> Some p | None \<Rightarrow> waiting w c u else waiting w c u)"
proof (induction ms arbitrary: w)
  case (Cons m ms)
  obtain t p where m: "m = (t, p)" by (cases m)
  have "subscribed (hub (Publish t p w)) c u = subscribed (hub w) c u" by (simp add: subscribed_def Publish_facts)
  then show ?case using Cons[of "Publish t p w"]
    by (auto simp: m Publish_facts map_add_def split: option.splits)
qed simp

end
