(* ===== verification/Ws_Properties.thy ===== *)
theory Ws_Properties
  imports Ws_Laws
begin

text \<open>
  What the hub, the connections and the broker do, run one operation at a time and in any interleaving
  of their atomic steps: each property is followed by a witness.
\<close>

subsection \<open>Interleavings\<close>

text \<open>
  A goroutine is the list of the steps it has left. \<open>Subscribe\<close> runs under the lock and leaves one offer
  for each snapshot. \<open>Publish\<close> reads the set of a topic, stores the payload, and then, without a lock,
  ranges over the set; \<open>Fan a visited\<close> is that range under way.
\<close>

datatype act =
    Sub nat "string list"
  | Snap nat string bytes
  | Unsub nat "string list"
  | Remove nat
  | Pub string bytes
  | Store "nat option" string bytes
  | Fan nat "nat list" string bytes

inductive act_step :: "Ws \<Rightarrow> act \<Rightarrow> Ws \<Rightarrow> act list \<Rightarrow> bool" where
  sub: "h = sub_record c ts (hub w) \<Longrightarrow>
    act_step w (Sub c ts) (w\<lparr>hub := h\<rparr>) (map (\<lambda>(t, b). Snap c t b) (snapshots h ts))"
| snap: "act_step w (Snap c t b) (offer_to c t b w) []"
| unsub: "act_step w (Unsub c ts) (Unsubscribe c ts w) []"
| remove: "act_step w (Remove c) (RemoveConn c w) []"
| pub: "act_step w (Pub t b) w [Store (map_get (subs (hub w)) t) t b]"
| store: "act_step w (Store p t b) (w\<lparr>hub := (hub w)\<lparr>lastMsg := (lastMsg (hub w))(t \<mapsto> b)\<rparr>\<rparr>)
    (case p of None \<Rightarrow> [] | Some a \<Rightarrow> [Fan a [] t b])"
| visit: "c \<in> set (sets (hub w) ! a) \<Longrightarrow> c \<notin> set vs \<Longrightarrow> act_step w (Fan a vs t b) (offer_to c t b w) [Fan a (c # vs) t b]"
| finish: "set (sets (hub w) ! a) \<subseteq> set vs \<Longrightarrow> act_step w (Fan a vs t b) w []"

inductive ws_steps :: "Ws \<Rightarrow> act list list \<Rightarrow> Ws \<Rightarrow> act list list \<Rightarrow> bool" where
  none: "ws_steps w gs w gs"
| one: "i < length gs \<Longrightarrow> gs ! i = x # rest \<Longrightarrow> act_step w x w1 new \<Longrightarrow> ws_steps w1 (gs[i := new @ rest]) w2 gs2 \<Longrightarrow>
    ws_steps w gs w2 gs2"

inductive_cases Sub_step: "act_step w (Sub c ts) w1 new"

lemma step_of:
  assumes "act_step w x w1 new" and "i < length gs" and "gs ! i = x # rest" and "gs[i := new @ rest] = gs1"
    and "ws_steps w1 gs1 w2 gs2"
  shows "ws_steps w gs w2 gs2"
  using ws_steps.one[OF assms(2,3,1)] assms(4,5) by simp

text \<open>The set that a step writes.\<close>

fun writes :: "Hub \<Rightarrow> act \<Rightarrow> nat \<Rightarrow> bool" where
  "writes h (Sub c ts) a \<longleftrightarrow> (\<exists>t \<in> set ts. map_get (subs h) t = Some a)"
| "writes h (Unsub c ts) a \<longleftrightarrow> (\<exists>t \<in> set ts. map_get (subs h) t = Some a)"
| "writes h (Remove c) a \<longleftrightarrow> (\<exists>t. map_get (subs h) t = Some a)"
| "writes h x a \<longleftrightarrow> False"

text \<open>One goroutine ranges over a set, and the next step of another one writes it.\<close>

definition racing :: "Ws \<Rightarrow> act list list \<Rightarrow> bool" where
  "racing w gs \<longleftrightarrow> (\<exists>i j a vs t b rest x rest'. i < length gs \<and> j < length gs \<and> i \<noteq> j \<and>
     gs ! i = Fan a vs t b # rest \<and> vs \<noteq> [] \<and> gs ! j = x # rest' \<and> writes (hub w) x a)"

subsection \<open>Concrete hubs\<close>

definition two_conns :: Ws where
  "two_conns = \<lparr>hub = NewHub, conns = [NewConn, NewConn]\<rparr>"

lemma two_conns_facts: "hub_inv (hub two_conns)" "is_open two_conns 0" "is_open two_conns 1"
  by (simp_all add: two_conns_def hub_inv_new is_open_def NewConn_def)

subsection \<open>One operation at a time\<close>

text \<open>
  C38. Run one at a time, the hub's operations keep its sets apart and not empty; subscribing, unsubscribing
  and removing a connection change the subscriptions as they say; a publication puts its payload, alone, into
  every open subscriber and keeps it as the topic's last; a new subscriber gets the last payload of each
  topic at once.
\<close>

theorem hub_delivers:
  assumes "hub_inv (hub w)"
  shows "hub_inv (hub (Subscribe c ts w)) \<and> hub_inv (hub (Unsubscribe c ts w)) \<and> hub_inv (hub (RemoveConn c w)) \<and>
    hub_inv (hub (Publish t b w)) \<and>
    (\<forall>c' u. (subscribed (hub (Subscribe c ts w)) c' u \<longleftrightarrow> subscribed (hub w) c' u \<or> c' = c \<and> u \<in> set ts) \<and>
      (subscribed (hub (Unsubscribe c ts w)) c' u \<longleftrightarrow> subscribed (hub w) c' u \<and> \<not> (c' = c \<and> u \<in> set ts)) \<and>
      (subscribed (hub (RemoveConn c w)) c' u \<longleftrightarrow> subscribed (hub w) c' u \<and> c' \<noteq> c) \<and>
      waiting (Publish t b w) c' u =
        (if is_open w c' \<and> subscribed (hub w) c' t \<and> u = t then Some b else waiting w c' u) \<and>
      waiting (Subscribe c ts w) c' u =
        (if is_open w c \<and> c' = c \<and> u \<in> set ts \<and> lastMsg (hub w) u \<noteq> None then lastMsg (hub w) u else waiting w c' u)) \<and>
    lastMsg (hub (Publish t b w)) = (lastMsg (hub w))(t \<mapsto> b)"
proof -
  let ?h = "sub_record c ts (hub w)" and ?w = "w\<lparr>hub := sub_record c ts (hub w)\<rparr>"
  note S = sub_record_inv[OF assms, of c ts]
  have sub: "Subscribe c ts w = fold (\<lambda>(t, b). offer_to c t b) (snapshots ?h ts) ?w"
    by (simp add: Subscribe_def Let_def)
  have open_eq: "is_open ?w c' = is_open w c'" "waiting ?w c' u = waiting w c' u" for c' u
    by (simp_all add: is_open_def waiting_def)
  have Sw: "waiting (Subscribe c ts w) c' u =
      (if is_open w c \<and> c' = c \<and> u \<in> set ts \<and> lastMsg (hub w) u \<noteq> None then lastMsg (hub w) u else waiting w c' u)" for c' u
    unfolding sub snapshot_waiting open_eq using S snapshots_map(1)[where h = "?h" and ts = ts] snapshots_map(2)[where t = u and ts = ts and h = "?h"] by auto
  have Sh: "hub (Subscribe c ts w) = ?h" by (simp add: sub snapshot_hub)
  note U = unsub_all_inv[OF assms, of c ts] and R = unsub_all_inv[OF assms, of c "map_keys (subs (hub w))"]
  have "hub_inv (hub (Publish t b w))" using assms by (simp add: hub_inv_def Publish_facts)
  moreover have "subscribed (hub (RemoveConn c w)) c' u \<longleftrightarrow> subscribed (hub w) c' u \<and> c' \<noteq> c" for c' u
    using R subscribed_keys[of "hub w" c' u] by (auto simp: RemoveConn_def)
  ultimately show ?thesis using S U R Sw by (simp add: Sh Unsubscribe_def RemoveConn_def Publish_facts)
qed

theorem hub_delivers_witness:
  "waiting (Publish ''t'' [1] (Subscribe 0 [''t''] two_conns)) 0 ''t'' = Some [1]"
proof -
  note a = hub_delivers[OF two_conns_facts(1), of 0 "[''t'']" "''t''" "[1]"]
  have "hub_inv (hub (Subscribe 0 [''t''] two_conns))" "subscribed (hub (Subscribe 0 [''t''] two_conns)) 0 ''t''"
    using a by simp_all
  moreover have "is_open (Subscribe 0 [''t''] two_conns) 0"
    using two_conns_facts(2) by (simp add: Subscribe_def Let_def snapshot_open) (simp add: is_open_def)
  ultimately show ?thesis using hub_delivers[of "Subscribe 0 [''t''] two_conns" 0 "[]" "''t''" "[1]"] by simp
qed


subsection \<open>Many goroutines\<close>

text \<open>
  A subscription that overlaps a publication can leave the subscriber with the older payload: the
  snapshot taken before is offered after the new payload, and replaces it. Nothing is left to correct it.
\<close>

theorem stale_snapshot:
  assumes "is_open w c" and "map_get (subs (hub w)) t = None" and "lastMsg (hub w) t = Some old"
  shows "\<exists>w'. ws_steps w [[Sub c [t]], [Pub t new]] w' [[], []] \<and>
    lastMsg (hub w') t = Some new \<and> waiting w' c t = Some old"
proof -
  let ?a = "length (sets (hub w))"
  let ?h1 = "(hub w)\<lparr>subs := map_set (subs (hub w)) t ?a, sets := sets (hub w) @ [[c]]\<rparr>"
  let ?w1 = "w\<lparr>hub := ?h1\<rparr>"
  let ?w2 = "?w1\<lparr>hub := ?h1\<lparr>lastMsg := (lastMsg ?h1)(t \<mapsto> new)\<rparr>\<rparr>"
  let ?w3 = "offer_to c t new ?w2"
  have h1: "sub_record c [t] (hub w) = ?h1" by (simp add: sub_record_def sub_topic_def assms(2))
  have s: "snapshots ?h1 [t] = [(t, old)]" by (simp add: snapshots_def assms(3))
  have 1: "act_step w (Sub c [t]) ?w1 [Snap c t old]"
    using act_step.sub[of ?h1 c "[t]" w] by (simp add: h1 s)
  have 2: "act_step ?w1 (Pub t new) ?w1 [Store (Some ?a) t new]"
    using act_step.pub[of ?w1 t new] by (simp add: map_get_set)
  have 3: "act_step ?w1 (Store (Some ?a) t new) ?w2 [Fan ?a [] t new]"
    using act_step.store[of ?w1 "Some ?a" t new] by simp
  have 4: "act_step ?w2 (Fan ?a [] t new) ?w3 [Fan ?a [c] t new]"
    by (rule act_step.visit) simp_all
  have 5: "act_step ?w3 (Fan ?a [c] t new) ?w3 []"
    by (rule act_step.finish) simp
  have 6: "act_step ?w3 (Snap c t old) (offer_to c t old ?w3) []" by (rule act_step.snap)
  have "ws_steps w [[Sub c [t]], [Pub t new]] (offer_to c t old ?w3) [[], []]"
    by (rule step_of[OF 1, where i = 0], simp, simp, simp, rule step_of[OF 2, where i = 1], simp, simp, simp,
        rule step_of[OF 3, where i = 1], simp, simp, simp, rule step_of[OF 4, where i = 1], simp, simp, simp,
        rule step_of[OF 5, where i = 1], simp, simp, simp, rule step_of[OF 6, where i = 0], simp, simp, simp,
        rule ws_steps.none)
  moreover have "is_open ?w3 c" using assms(1) by simp (simp add: is_open_def)
  then have "waiting (offer_to c t old ?w3) c t = Some old" by (simp add: offer_to_waiting)
  ultimately show ?thesis by (intro exI[of _ "offer_to c t old ?w3"]) simp
qed

theorem stale_snapshot_witness:
  "\<exists>w'. ws_steps (Publish ''t'' [1] two_conns) [[Sub 0 [''t'']], [Pub ''t'' [2]]] w' [[], []] \<and>
    lastMsg (hub w') ''t'' = Some [2] \<and> waiting w' 0 ''t'' = Some [1]"
  by (rule stale_snapshot) (simp_all add: two_conns_def Publish_def NewHub_def is_open_def NewConn_def)

text \<open>
  \<open>Publish\<close> ranges over the set of subscribers after it has released the lock: while it does, another
  goroutine's \<open>Subscribe\<close>, \<open>Unsubscribe\<close> or \<open>RemoveConn\<close> on the topic can be about to write the same map.
\<close>

theorem publish_races:
  assumes "map_get (subs (hub w)) t = Some a" and "c \<in> set (sets (hub w) ! a)"
    and "x \<in> {Sub c' [t], Unsub c' [t], Remove c'}"
  shows "\<exists>w' gs. ws_steps w [[Pub t b], [x]] w' gs \<and> racing w' gs"
proof -
  let ?w2 = "w\<lparr>hub := (hub w)\<lparr>lastMsg := (lastMsg (hub w))(t \<mapsto> b)\<rparr>\<rparr>"
  let ?w3 = "offer_to c t b ?w2"
  have 1: "act_step w (Pub t b) w [Store (Some a) t b]" using act_step.pub[of w t b] by (simp add: assms(1))
  have 2: "act_step w (Store (Some a) t b) ?w2 [Fan a [] t b]" using act_step.store[of w "Some a" t b] by simp
  have 3: "act_step ?w2 (Fan a [] t b) ?w3 [Fan a [c] t b]" using assms(2) by (intro act_step.visit) simp_all
  have "ws_steps w [[Pub t b], [x]] ?w3 [[Fan a [c] t b], [x]]"
    by (rule step_of[OF 1, where i = 0], simp, simp, simp, rule step_of[OF 2, where i = 0], simp, simp, simp,
        rule step_of[OF 3, where i = 0], simp, simp, simp, rule ws_steps.none)
  moreover have "writes (hub ?w3) x a" using assms(1,3) by auto
  then have "racing ?w3 [[Fan a [c] t b], [x]]"
    unfolding racing_def by (intro exI[of _ 0] exI[of _ 1] exI[of _ a] exI[of _ "[c]"]) auto
  ultimately show ?thesis by blast
qed

theorem publish_races_witness:
  "\<exists>w' gs. ws_steps (Subscribe 0 [''t''] two_conns) [[Pub ''t'' [1]], [Sub 1 [''t'']]] w' gs \<and> racing w' gs"
  by (rule publish_races[of _ "''t''" 0 0 _ 1])
    (simp_all add: two_conns_def NewHub_def Subscribe_def sub_record_def sub_topic_def snapshots_def map_get_set)

subsection \<open>Flushing\<close>

lemma flush_entries_take:
  "0 \<le> i \<Longrightarrow> i < mx \<Longrightarrow> flush_entries mx i m = (map snd (take (nat (mx - i)) m), drop (nat (mx - i)) m)"
proof (induction mx i m rule: flush_entries.induct)
  case (2 mx i k v m)
  show ?case
  proof (cases "i + 1 \<ge> mx")
    case True
    then have "mx - i = 1" using 2(3) by linarith
    then show ?thesis using True by simp
  next
    case False
    have "nat (mx - i) = Suc (nat (mx - (i + 1)))" using False by linarith
    then show ?thesis using 2(1)[OF False] 2(2) False by simp
  qed
qed simp

text \<open>
  One wake-up writes at most 256 payloads, each once. When more topics wait, the rest stays in the
  connection with no wake-up pending: it is not written before the next offer.
\<close>

theorem flush_strands_rest:
  assumes "256 < length (latest c)"
  shows "\<exists>c'. write_turn None c = (Inr (Some (join_lines (map snd (take 256 (latest c))))), c') \<and>
    latest c' = drop 256 (latest c) \<and> latest c' \<noteq> [] \<and> \<not> notify c'"
proof -
  have "take 256 (latest c) \<noteq> []" "latest c \<noteq> []" using assms by auto
  then show ?thesis using assms
    by (auto simp: write_turn_def flushLatest_def maxFlush_def flush_entries_take Let_def)
qed

theorem flush_strands_rest_witness:
  "\<exists>c'. write_turn None \<lparr>latest = map (\<lambda>n. (replicate n (CHR ''t''), [1])) [0..<300], notify = True, conn_closed = False\<rparr> =
      (Inr (Some (join_lines (map snd (take 256 (map (\<lambda>n. (replicate n (CHR ''t''), [1])) [0..<300]))))), c') \<and> \<not> notify c'"
  using flush_strands_rest[of "\<lparr>latest = map (\<lambda>n. (replicate n (CHR ''t''), [1])) [0..<300], notify = True, conn_closed = False\<rparr>"]
  by auto

subsection \<open>Topics\<close>

text \<open>
  The two ways to name a bar's topic agree on the periods of the aggregator and a symbol in upper case
  with hyphens, and differ on a week.
\<close>

lemma topics_agree:
  assumes "bInterval b \<in> {Second, Minute, Hour, 24 * Hour}" and "normalizeSymbol (bSymbol b) = bSymbol b"
    and "marshal (b\<lparr>bTF := durToTF dur (bInterval b)\<rparr>) = Inr buf"
  shows "EncodeBar dur marshal b = Inr (TopicForBar dur b, buf)"
  using assms by (auto simp: EncodeBar_def TopicForBar_def durToTF_def intervalKey_def Let_def)

lemma week_topics: "durToTF dur (7 * 24 * Hour) = ''604800s''" "intervalKey dur (7 * 24 * Hour) = ''1w''"
proof -
  have "char_of (54 :: nat) = CHR ''6''" "char_of (48 :: nat) = CHR ''0''" "char_of (52 :: nat) = CHR ''4''"
    "char_of (56 :: nat) = CHR ''8''" by code_simp+
  then show "durToTF dur (7 * 24 * Hour) = ''604800s''" "intervalKey dur (7 * 24 * Hour) = ''1w''"
    by (simp_all add: durToTF_def intervalKey_def Hour_def Minute_def Second_def Millisecond_def go_mod_def go_div_def
        fmt_d_def decimal.simps digit_def)
qed

subsection \<open>The broker\<close>

text \<open>
  After the context of a subscription has ended the broker still lists its channel, now closed: the
  next publication on the topic panics.
\<close>

theorem broker_panics:
  assumes "msubs b t = []"
  shows "Broker_Publish t p (context_done (snd (Broker_Subscribe [t] b)) (fst (Broker_Subscribe [t] b))) = Panic"
  using assms by (simp add: Broker_Subscribe_def context_done_def Broker_Publish_def try_send_def Let_def)

theorem broker_panics_witness:
  "Broker_Publish ''t'' [1] (context_done (snd (Broker_Subscribe [''t''] NewMemBroker)) (fst (Broker_Subscribe [''t''] NewMemBroker))) = Panic"
  by (rule broker_panics) (simp add: NewMemBroker_def)

subsection \<open>From the broker to the hub\<close>

text \<open>Messages published one after the other, and then turns of the gateway.\<close>

fun publish_all :: "(string \<times> bytes) list \<Rightarrow> Gateway \<Rightarrow> Gateway go" where
  "publish_all [] g = Ret g"
| "publish_all ((t, p) # ms) g = andThen (Gateway_Publish t p g) (publish_all ms)"

fun gateway_turns :: "nat \<Rightarrow> nat \<Rightarrow> Gateway \<Rightarrow> Gateway option" where
  "gateway_turns ch 0 g = Some g"
| "gateway_turns ch (Suc n) g = (case gateway_turn False ch g of None \<Rightarrow> None | Some g' \<Rightarrow> gateway_turns ch n g')"

text \<open>The broker of a single gateway: its topics, and what waits in its channel.\<close>

definition one_channel :: "string list \<Rightarrow> (string \<times> bytes) list \<Rightarrow> MemBroker" where
  "one_channel ts q =
     \<lparr>msubs = (\<lambda>t. if t \<in> set ts then [0] else []),
      chans = [\<lparr>queue = map (\<lambda>(t, p). \<lparr>mTopic = t, mPayload = p\<rparr>) q, chan_closed = False\<rparr>]\<rparr>"

lemma subscribe_one:
  assumes "distinct ts"
  shows "Broker_Subscribe ts NewMemBroker = (one_channel ts [], 0)"
proof -
  have "fold (\<lambda>t s. s(t := s t @ [0])) ts s = (\<lambda>t. if t \<in> set ts then s t @ [0] else s t)" for s :: "string \<Rightarrow> nat list"
    using assms by (induction ts arbitrary: s) (auto simp: fun_eq_iff)
  then show ?thesis by (simp add: Broker_Subscribe_def NewMemBroker_def one_channel_def Let_def cong: if_cong)
qed

lemma publish_one:
  "Gateway_Publish t p \<lparr>gHub = w, gBroker = one_channel ts q\<rparr> =
     Ret \<lparr>gHub = w, gBroker = one_channel ts (if t \<in> set ts \<and> length q < 4096 then q @ [(t, p)] else q)\<rparr>"
  by (simp add: Gateway_Publish_def Broker_Publish_def one_channel_def try_send_def)

lemma publish_all_one:
  "length q \<le> 4096 \<Longrightarrow>
   publish_all ms \<lparr>gHub = w, gBroker = one_channel ts q\<rparr> =
     Ret \<lparr>gHub = w, gBroker = one_channel ts (take 4096 (q @ filter (\<lambda>m. fst m \<in> set ts) ms))\<rparr>"
proof (induction ms arbitrary: q)
  case (Cons m ms)
  obtain t p where m: "m = (t, p)" by (cases m)
  show ?case
  proof (cases "t \<in> set ts \<and> length q < 4096")
    case True
    then show ?thesis using Cons.IH[of "q @ [(t, p)]"] by (simp add: m publish_one)
  next
    case False
    then show ?thesis using Cons by (auto simp: m publish_one)
  qed
qed simp

lemma turns_one:
  "gateway_turns 0 (length q) \<lparr>gHub = w, gBroker = one_channel ts q\<rparr> =
     Some \<lparr>gHub = fold (\<lambda>(t, p). Publish t p) q w, gBroker = one_channel ts []\<rparr>"
  by (induction q arbitrary: w) (auto simp: gateway_turn_def one_channel_def BridgeRaw_def split: prod.splits)

text \<open>
  C40. The gateway hands the hub what the broker was given on its topics, once and in order, up to the 4096
  messages its channel holds; what comes on top is dropped, and a publication never waits or fails.
\<close>

theorem gateway_forwards:
  assumes "distinct ts"
  shows "\<exists>g g'. publish_all ms (fst (gateway_start ts (NewGateway w NewMemBroker))) = Ret g \<and>
    gateway_turns (snd (gateway_start ts (NewGateway w NewMemBroker)))
      (length (take 4096 (filter (\<lambda>m. fst m \<in> set ts) ms))) g = Some g' \<and>
    gHub g' = fold (\<lambda>(t, p). Publish t p) (take 4096 (filter (\<lambda>m. fst m \<in> set ts) ms)) w \<and>
    gateway_turn False (snd (gateway_start ts (NewGateway w NewMemBroker))) g' = Some g'"
proof -
  have s: "gateway_start ts (NewGateway w NewMemBroker) = (\<lparr>gHub = w, gBroker = one_channel ts []\<rparr>, 0)"
    using assms by (simp add: gateway_start_def NewGateway_def subscribe_one)
  have "gateway_turn False 0 \<lparr>gHub = v, gBroker = one_channel ts []\<rparr> = Some \<lparr>gHub = v, gBroker = one_channel ts []\<rparr>" for v
    by (simp add: gateway_turn_def one_channel_def)
  then show ?thesis using publish_all_one[of "[]" ms w ts] turns_one[of _ w ts] by (simp add: s del: length_take)
qed

theorem gateway_forwards_witness:
  "\<exists>g g'. publish_all [(''t'', [1]), (''u'', [2])] (fst (gateway_start [''t''] (NewGateway two_conns NewMemBroker))) = Ret g \<and>
    gateway_turns (snd (gateway_start [''t''] (NewGateway two_conns NewMemBroker))) 1 g = Some g' \<and>
    gHub g' = Publish ''t'' [1] two_conns"
  using gateway_forwards[of "[''t'']" "[(''t'', [1]), (''u'', [2])]" two_conns] by auto

end
