(* ===== verification/Accounts.thy ===== *)
theory Accounts
  imports Kline_Fixed Go_Map
begin

text \<open>
  \<^verbatim>\<open>internal/account/app\<close>: requests that take effect once (\<^verbatim>\<open>idempotency.go\<close>), currencies
  (\<^verbatim>\<open>Currency.go\<close>, \<^verbatim>\<open>registry.go\<close>) and the cache of balances (\<^verbatim>\<open>deposit_creditor.go\<close>). What the
  database answers beyond its own rules, JSON, the clock and the loader are parameters.
\<close>

subsection \<open>Requests that take effect once\<close>

definition ErrInProgress :: goerror where "ErrInProgress = ''request in progress, retry later''"
definition ErrConflict :: goerror where "ErrConflict = ''idempotency key conflict (different parameters)''"
abbreviation (input) ErrNoRows :: goerror where "ErrNoRows \<equiv> ''sql: no rows in result set''"
abbreviation (input) ErrNullString :: goerror where "ErrNullString \<equiv> ''sql: converting NULL to string is unsupported''"

record IdemRow =
  request_hash :: bytes
  status :: int
  response_json :: "bytes option"
  error_msg :: "string option"

text \<open>The committed database: the table, by scope and request, and the rest, which \<open>fn\<close> changes.\<close>

record 'd DB =
  idempotency :: "string \<times> string \<rightharpoonup> IdemRow"
  rest :: 'd

text \<open>
  What goes wrong in a call: an error for each statement, and whether a commit that reports an error has
  been applied all the same.
\<close>

record Faults =
  begin_err :: "goerror option"
  insert_err :: "goerror option"
  select_err :: "goerror option"
  update_err :: "goerror option"
  commit_err :: "goerror option"
  commit_applied :: bool

definition no_faults :: Faults where
  "no_faults = \<lparr>begin_err = None, insert_err = None, select_err = None, update_err = None, commit_err = None, commit_applied = True\<rparr>"

text \<open>\<open>copy\<close> into an array of 32 bytes.\<close>

definition copy32 :: "bytes \<Rightarrow> bytes" where
  "copy32 b = take 32 b @ replicate (32 - length b) 0"

text \<open>The branch of a request that is already there.\<close>

definition answer_again :: "(bytes \<Rightarrow> goerror + 'a) \<Rightarrow> goerror option \<Rightarrow> IdemRow option \<Rightarrow> bytes \<Rightarrow> goerror + 'a" where
  "answer_again unmarshal sel_err row reqHash =
     (case sel_err of
        Some e \<Rightarrow> Inl e
      | None \<Rightarrow>
          (case row of
             None \<Rightarrow> Inl ErrNoRows
           | Some r \<Rightarrow>
               if error_msg r = None then Inl ErrNullString
               else if copy32 (request_hash r) \<noteq> reqHash then Inl ErrConflict
               else (case response_json r of
                       Some resp \<Rightarrow> if status r = 2 then unmarshal resp else Inl ErrInProgress
                     | None \<Rightarrow> Inl ErrInProgress)))"

text \<open>
  The transaction works on its own copy \<open>t\<close>; returning without a commit rolls it back. \<open>marshal\<close> gives
  \<open>None\<close>, a null response, when \<open>json.Marshal\<close> fails: the error is ignored. A second row for a key
  violates the table's primary key.
\<close>

definition DoOnceTx ::
  "('a \<Rightarrow> bytes option) \<Rightarrow> (bytes \<Rightarrow> goerror + 'a) \<Rightarrow> Faults \<Rightarrow> string \<Rightarrow> string \<Rightarrow> bytes \<Rightarrow>
   ('d \<Rightarrow> (goerror + 'a) \<times> 'd) \<Rightarrow> 'd DB \<Rightarrow> (goerror + 'a) \<times> 'd DB" where
  "DoOnceTx marshal unmarshal f scope requestID reqHash fn db =
     (case begin_err f of
        Some e \<Rightarrow> (Inl e, db)
      | None \<Rightarrow>
          let key = (scope, requestID);
              row = \<lparr>request_hash = reqHash, status = 1, response_json = None, error_msg = None\<rparr>
          in if insert_err f \<noteq> None \<or> idempotency db key \<noteq> None
             then (answer_again unmarshal (select_err f) (idempotency db key) reqHash, db)
             else
               let t = db\<lparr>idempotency := (idempotency db)(key \<mapsto> row)\<rparr>
               in case fn (rest t) of
                    (Inl e, _) \<Rightarrow> (Inl e, db)
                  | (Inr out, d) \<Rightarrow>
                      let done = row\<lparr>status := 2, response_json := marshal out, error_msg := Some ''''\<rparr>;
                          t1 = t\<lparr>rest := d, idempotency := (idempotency t)(key \<mapsto> done)\<rparr>
                      in case update_err f of
                           Some e \<Rightarrow> (Inl e, db)
                         | None \<Rightarrow>
                             (case commit_err f of
                                None \<Rightarrow> (Inr out, t1)
                              | Some e \<Rightarrow> (Inl e, if commit_applied f then t1 else db)))"

record IdemRecord =
  recStatus :: int
  recHash :: bytes
  recResponse :: bytes
  recErrorMsg :: string

definition readIdem :: "goerror option \<Rightarrow> string \<Rightarrow> string \<Rightarrow> 'd DB \<Rightarrow> goerror + IdemRecord" where
  "readIdem sel_err scope requestID db =
     (case sel_err of
        Some e \<Rightarrow> Inl e
      | None \<Rightarrow>
          (case idempotency db (scope, requestID) of
             None \<Rightarrow> Inl ErrNoRows
           | Some r \<Rightarrow>
               (case error_msg r of
                  None \<Rightarrow> Inl ErrNullString
                | Some m \<Rightarrow>
                    Inr \<lparr>recStatus = status r, recHash = copy32 (request_hash r),
                         recResponse = (case response_json r of Some b \<Rightarrow> b | None \<Rightarrow> []), recErrorMsg = m\<rparr>)))"

subsection \<open>Currencies\<close>

record Currency =
  curSymbol :: string
  Precision :: int
  curScale :: int

text \<open>The loop from \<open>i\<close>; \<open>1 << 63 - 1\<close> is the greatest \<open>int64\<close>.\<close>

function pow10_loop :: "int \<Rightarrow> int \<Rightarrow> int \<Rightarrow> goerror + int" where
  "pow10_loop p i v =
     (if i < p then if v > go_div 9223372036854775807 10 then Inl ''error'' else pow10_loop p (i + 1) (i64 (v * 10))
      else Inr v)"
  by pat_completeness auto

termination
  by (relation "measure (\<lambda>(p, i, v). nat (p - i))") auto

declare pow10_loop.simps [simp del]

definition pow10i64 :: "int \<Rightarrow> goerror + int" where
  "pow10i64 p = pow10_loop p 0 1"

definition NewCurrency :: "string \<Rightarrow> int \<Rightarrow> goerror + Currency" where
  "NewCurrency symbol precision =
     (if symbol = '''' \<or> precision < 0 \<or> precision > 18 then Inl ''bad currency meta''
      else case pow10i64 precision of
             Inl e \<Rightarrow> Inl e
           | Inr scale \<Rightarrow> Inr \<lparr>curSymbol = symbol, Precision = precision, curScale = scale\<rparr>)"

text \<open>
  The registry. \<open>lastAt\<close> is the zero time until the first load: \<open>time.Since\<close> of it is the greatest
  duration.
\<close>

record CachedRegistry =
  regCache :: "string \<rightharpoonup> Currency"
  regTtl :: int
  lastAt :: "int option"

definition NewCachedRegistry :: "int \<Rightarrow> CachedRegistry" where
  "NewCachedRegistry t = \<lparr>regCache = Map.empty, regTtl = t, lastAt = None\<rparr>"

definition Registry_Get :: "string \<Rightarrow> CachedRegistry \<Rightarrow> Currency option" where
  "Registry_Get symbol r = regCache r symbol"

definition Registry_Must :: "string \<Rightarrow> CachedRegistry \<Rightarrow> Currency go" where
  "Registry_Must symbol r = (case Registry_Get symbol r of Some c \<Rightarrow> Ret c | None \<Rightarrow> Panic)"

definition since :: "int \<Rightarrow> int option \<Rightarrow> int" where
  "since now t = (case t of None \<Rightarrow> 9223372036854775807 | Some t' \<Rightarrow> now - t')"

definition EnsureFresh ::
  "(goerror + (string \<rightharpoonup> Currency)) \<Rightarrow> int \<Rightarrow> CachedRegistry \<Rightarrow> goerror option \<times> CachedRegistry" where
  "EnsureFresh loader now r =
     (if \<not> (regTtl r > 0 \<and> since now (lastAt r) > regTtl r) then (None, r)
      else case loader of
             Inl e \<Rightarrow> (Some e, r)
           | Inr m \<Rightarrow> (None, r\<lparr>regCache := m, lastAt := Some now\<rparr>))"

subsection \<open>The cache of balances\<close>

record BalanceKey =
  keyUserID :: int
  keyAcct :: string
  keySymbol :: string

record Balance =
  Avail :: int
  Frozen :: int
  Version :: int

type_synonym BalanceCache = "string \<rightharpoonup> Balance"

definition cacheKey :: "BalanceKey \<Rightarrow> string" where
  "cacheKey k = ''bal:'' @ fmt_d (keyUserID k) @ '':'' @ keyAcct k @ '':'' @ keySymbol k"

text \<open>The times to live are the cache's: an entry may vanish between any two operations.\<close>

definition GetBalance :: "(BalanceKey \<Rightarrow> goerror + Balance) \<Rightarrow> BalanceKey \<Rightarrow> BalanceCache \<Rightarrow> (goerror + Balance) \<times> BalanceCache" where
  "GetBalance fromDB key c =
     (case c (cacheKey key) of
        Some v \<Rightarrow> (Inr v, c)
      | None \<Rightarrow>
          (case fromDB key of
             Inl e \<Rightarrow> (Inl e, c)
           | Inr v \<Rightarrow> (Inr v, c(cacheKey key \<mapsto> v))))"

text \<open>The cache after the update, and what the timer does later.\<close>

definition UpdateBalance_DoubleDelete :: "BalanceKey \<Rightarrow> BalanceCache \<Rightarrow> BalanceCache \<times> (BalanceCache \<Rightarrow> BalanceCache)" where
  "UpdateBalance_DoubleDelete key c =
     (let k = cacheKey key in (c(k := None), (\<lambda>c'. c'(k := None))))"

definition OnBalanceChangedEvent :: "BalanceKey \<Rightarrow> Balance \<Rightarrow> BalanceCache \<Rightarrow> BalanceCache" where
  "OnBalanceChangedEvent key v c =
     (case c (cacheKey key) of
        None \<Rightarrow> c(cacheKey key \<mapsto> v)
      | Some cur \<Rightarrow> if Version v \<ge> Version cur then c(cacheKey key \<mapsto> v) else c)"

text \<open>
  The steps of a service at work: a reader's miss goes to the database, one at a time for a key, and its
  answer is stored later; events come in between, and entries expire.
\<close>

datatype bal_act = Event Balance | Miss Balance | Fill | Expire

inductive bal_step :: "BalanceKey \<Rightarrow> BalanceCache \<times> Balance option \<Rightarrow> bal_act \<Rightarrow> BalanceCache \<times> Balance option \<Rightarrow> bool" where
  event: "bal_step key (c, r) (Event v) (OnBalanceChangedEvent key v c, r)"
| miss: "c (cacheKey key) = None \<Longrightarrow> bal_step key (c, None) (Miss v) (c, Some v)"
| fill: "bal_step key (c, Some v) Fill (c(cacheKey key \<mapsto> v), None)"
| expire: "bal_step key (c, r) Expire (c(cacheKey key := None), r)"

inductive bal_steps :: "BalanceKey \<Rightarrow> BalanceCache \<times> Balance option \<Rightarrow> bal_act list \<Rightarrow> BalanceCache \<times> Balance option \<Rightarrow> bool" where
  none: "bal_steps key s [] s"
| more: "bal_step key s x s1 \<Longrightarrow> bal_steps key s1 xs s2 \<Longrightarrow> bal_steps key s (x # xs) s2"

end
