(* ===== verification/Api_Errors.thy ===== *)
theory Api_Errors
  imports Go_Map
begin

text \<open>
  How an error of a handler reaches a client: error values (\<^verbatim>\<open>pkg/xerr/errors.go\<close>), the interceptors
  of the server (\<^verbatim>\<open>pkg/interceptor\<close>), the answer of the gateway (\<^verbatim>\<open>pkg/common/helper.go\<close>), and
  what the circuit breaker makes of it (\<^verbatim>\<open>pkg/ratelimit\<close>). The gRPC library is a parameter:
  \<open>from_error\<close> is \<open>status.FromError\<close>, \<open>None\<close> for an error without a status.
\<close>

subsection \<open>Codes\<close>

type_synonym GrpcCode = nat

abbreviation (input) codes_OK :: GrpcCode where "codes_OK \<equiv> 0"
abbreviation (input) codes_Canceled :: GrpcCode where "codes_Canceled \<equiv> 1"
abbreviation (input) codes_Unknown :: GrpcCode where "codes_Unknown \<equiv> 2"
abbreviation (input) codes_InvalidArgument :: GrpcCode where "codes_InvalidArgument \<equiv> 3"
abbreviation (input) codes_DeadlineExceeded :: GrpcCode where "codes_DeadlineExceeded \<equiv> 4"
abbreviation (input) codes_NotFound :: GrpcCode where "codes_NotFound \<equiv> 5"
abbreviation (input) codes_AlreadyExists :: GrpcCode where "codes_AlreadyExists \<equiv> 6"
abbreviation (input) codes_PermissionDenied :: GrpcCode where "codes_PermissionDenied \<equiv> 7"
abbreviation (input) codes_ResourceExhausted :: GrpcCode where "codes_ResourceExhausted \<equiv> 8"
abbreviation (input) codes_FailedPrecondition :: GrpcCode where "codes_FailedPrecondition \<equiv> 9"
abbreviation (input) codes_OutOfRange :: GrpcCode where "codes_OutOfRange \<equiv> 11"
abbreviation (input) codes_Internal :: GrpcCode where "codes_Internal \<equiv> 13"
abbreviation (input) codes_Unavailable :: GrpcCode where "codes_Unavailable \<equiv> 14"
abbreviation (input) codes_DataLoss :: GrpcCode where "codes_DataLoss \<equiv> 15"
abbreviation (input) codes_Unauthenticated :: GrpcCode where "codes_Unauthenticated \<equiv> 16"

text \<open>A value of type \<open>any\<close> keeps its dynamic type.\<close>

datatype any = AInt int | AInt32 int | AInt64 int | ACode GrpcCode | AString string

text \<open>
  Error values: of the standard library, of gRPC, of \<open>xerr\<close>, and one wrapped by \<open>fmt.Errorf\<close>. The call
  stack an \<open>xerr\<close> keeps is for logs only.
\<close>

datatype err = EText string | EStatus GrpcCode string | EBiz xerr | EWrap string err
  and xerr = Error (Code: any) (Message: string) (Cause: "err option")

type_synonym from_error = "err \<Rightarrow> (GrpcCode \<times> string) option"

subsection \<open>xerr\<close>

definition xerr_New :: "any \<Rightarrow> string \<Rightarrow> xerr" where
  "xerr_New code msg = Error code msg None"

definition xerr_Wrap :: "err option \<Rightarrow> any \<Rightarrow> string \<Rightarrow> xerr" where
  "xerr_Wrap e code msg = Error code msg e"

definition Unwrap :: "xerr \<Rightarrow> err option" where
  "Unwrap e = Cause e"

text \<open>\<open>errors.As\<close> walks the chain outside in.\<close>

fun xerr_As :: "err \<Rightarrow> xerr option" where
  "xerr_As (EBiz x) = Some x"
| "xerr_As (EWrap _ e) = xerr_As e"
| "xerr_As (EText _) = None"
| "xerr_As (EStatus _ _) = None"

fun asBizCode :: "any \<Rightarrow> int option" where
  "asBizCode (AInt t) = Some t"
| "asBizCode (AInt32 t) = Some t"
| "asBizCode (AInt64 t) = Some t"
| "asBizCode _ = None"

definition asHTTPStatus :: "any \<Rightarrow> int option" where
  "asHTTPStatus v =
     (case asBizCode v of
        Some i \<Rightarrow> if i \<ge> 100 \<and> i \<le> 599 then Some i else None
      | None \<Rightarrow> None)"

fun asGRPCCode :: "any \<Rightarrow> GrpcCode option" where
  "asGRPCCode (ACode t) = Some t"
| "asGRPCCode (AInt t) = (if t \<ge> 0 \<and> t \<le> 16 then Some (nat t) else None)"
| "asGRPCCode _ = None"

definition GRPCStatus :: "from_error \<Rightarrow> xerr \<Rightarrow> GrpcCode \<times> string" where
  "GRPCStatus from_error e =
     (case asGRPCCode (Code e) of
        Some c \<Rightarrow> (c, Message e)
      | None \<Rightarrow>
          (case Cause e of
             Some cause \<Rightarrow>
               (case from_error cause of
                  Some (c, _) \<Rightarrow> (c, Message e)
                | None \<Rightarrow> (codes_Internal, Message e))
           | None \<Rightarrow> (codes_Internal, Message e)))"

definition GRPCCode :: "from_error \<Rightarrow> xerr \<Rightarrow> GrpcCode" where
  "GRPCCode from_error e =
     (case asGRPCCode (Code e) of
        Some c \<Rightarrow> c
      | None \<Rightarrow>
          (case Cause e of
             Some cause \<Rightarrow> (case from_error cause of Some (c, _) \<Rightarrow> c | None \<Rightarrow> codes_Internal)
           | None \<Rightarrow> codes_Internal))"

definition httpStatusFromBiz :: "int \<Rightarrow> int" where
  "httpStatusFromBiz biz =
     (if biz = 400 then 400 else if biz = 404 then 404 else if biz = 200 then 200
      else if biz \<ge> 500 then 500 else 400)"

definition httpStatusFromGRPC :: "GrpcCode \<Rightarrow> int" where
  "httpStatusFromGRPC c =
     (if c = codes_OK then 200 else if c = codes_ResourceExhausted then 429
      else if c = codes_DeadlineExceeded then 504 else if c = codes_Unavailable then 503
      else if c = codes_InvalidArgument then 400 else if c = codes_NotFound then 404
      else if c = codes_Unauthenticated then 401 else if c = codes_PermissionDenied then 403
      else 500)"

definition bizCodeFromGRPC :: "GrpcCode \<Rightarrow> int" where
  "bizCodeFromGRPC c =
     (if c = codes_ResourceExhausted then 1003001 else if c = codes_DeadlineExceeded then 1003002
      else if c = codes_Unavailable then 1003003 else if c = codes_InvalidArgument then 400
      else if c = codes_NotFound then 404 else 500)"

definition HTTPStatus :: "from_error \<Rightarrow> xerr \<Rightarrow> int" where
  "HTTPStatus from_error e =
     (case asHTTPStatus (Code e) of
        Some hs \<Rightarrow> hs
      | None \<Rightarrow>
          (case asGRPCCode (Code e) of
             Some gc \<Rightarrow> httpStatusFromGRPC gc
           | None \<Rightarrow>
               (case asBizCode (Code e) of
                  Some bc \<Rightarrow> httpStatusFromBiz bc
                | None \<Rightarrow>
                    (case Cause e of
                       Some cause \<Rightarrow>
                         (case from_error cause of Some (c, _) \<Rightarrow> httpStatusFromGRPC c | None \<Rightarrow> 500)
                     | None \<Rightarrow> 500))))"

definition BizCode :: "xerr \<Rightarrow> int" where
  "BizCode e =
     (case asBizCode (Code e) of
        Some bc \<Rightarrow> bc
      | None \<Rightarrow> (case asGRPCCode (Code e) of Some gc \<Rightarrow> bizCodeFromGRPC gc | None \<Rightarrow> 500))"

subsection \<open>Interceptors of the server\<close>

text \<open>\<open>switch biz\<close> compares dynamic types too: only an \<open>int\<close> matches.\<close>

definition mapBizToGrpc :: "any \<Rightarrow> GrpcCode" where
  "mapBizToGrpc biz =
     (if biz = AInt 1001001 then codes_InvalidArgument
      else if biz = AInt 1002001 then codes_Unauthenticated
      else if biz = AInt 1002003 then codes_PermissionDenied
      else codes_Unknown)"

definition ErrorUnary :: "from_error \<Rightarrow> err + 'r \<Rightarrow> err + 'r" where
  "ErrorUnary from_error answer =
     (case answer of
        Inr resp \<Rightarrow> Inr resp
      | Inl e \<Rightarrow>
          if (case from_error e of Some (c, _) \<Rightarrow> c = codes_ResourceExhausted | None \<Rightarrow> False) then Inl e
          else
            (case xerr_As e of
               Some xe \<Rightarrow> Inl (EStatus (mapBizToGrpc (Code xe)) (Message xe))
             | None \<Rightarrow> Inl (EStatus codes_Internal ''internal error'')))"

text \<open>\<open>defer recover\<close>: a panic of the handler is an error.\<close>

definition RecoverUnary :: "(err + 'r) go \<Rightarrow> (err + 'r) go" where
  "RecoverUnary answer =
     (case answer of Panic \<Rightarrow> Ret (Inl (EStatus codes_Internal ''internal error'')) | _ \<Rightarrow> answer)"

text \<open>The limiter's answer for the method, and the handler behind it.\<close>

definition RateLimitByMethodUnary :: "bool \<Rightarrow> err + 'r \<Rightarrow> err + 'r" where
  "RateLimitByMethodUnary allowed answer =
     (if \<not> allowed then Inl (EBiz (xerr_New (ACode codes_ResourceExhausted) ''rate limited'')) else answer)"

definition isSystemError :: "from_error \<Rightarrow> err option \<Rightarrow> bool" where
  "isSystemError from_error e =
     (case e of
        None \<Rightarrow> False
      | Some e' \<Rightarrow>
          (case from_error e' of
             None \<Rightarrow> True
           | Some (c, _) \<Rightarrow>
               c \<in> {codes_Internal, codes_Unavailable, codes_DeadlineExceeded, codes_ResourceExhausted,
                    codes_DataLoss, codes_Unknown}))"

text \<open>The answer, and whether an error was traced for the library's breaker. \<open>blocked\<close> is its decision.\<close>

definition SentinelUnaryServerInterceptor :: "from_error \<Rightarrow> bool \<Rightarrow> err + 'r \<Rightarrow> (err + 'r) \<times> bool" where
  "SentinelUnaryServerInterceptor from_error blocked answer =
     (if blocked then (Inl (EStatus codes_ResourceExhausted ''service is busy, please try again later''), False)
      else case answer of
             Inl e \<Rightarrow> (Inl e, isSystemError from_error (Some e))
           | Inr r \<Rightarrow> (Inr r, False))"

subsection \<open>The gateway's answer\<close>

record Response =
  rStatus :: int
  rCode :: int
  rMessage :: string

definition Fail :: "int \<Rightarrow> int \<Rightarrow> string \<Rightarrow> Response" where
  "Fail httpStatus code message = \<lparr>rStatus = httpStatus, rCode = code, rMessage = message\<rparr>"

text \<open>The messages, in UTF-8.\<close>

definition utf8 :: "nat list \<Rightarrow> string" where
  "utf8 bs = map char_of bs"

definition mapGrpcToHTTPBiz :: "GrpcCode \<Rightarrow> string \<Rightarrow> int \<times> string \<times> int" where
  "mapGrpcToHTTPBiz gc grpcMsg =
     (if gc = codes_InvalidArgument then (1001001, utf8 [229, 143, 130, 230, 149, 176, 233, 148, 153, 232, 175, 175], 400)
      else if gc = codes_Unauthenticated then (1002001, utf8 [230, 156, 170, 231, 153, 187, 229, 189, 149], 401)
      else if gc = codes_PermissionDenied then (1002003, utf8 [230, 151, 160, 230, 157, 131, 233, 153, 144], 403)
      else if gc = codes_ResourceExhausted then
        (1003001, utf8 [232, 175, 183, 230, 177, 130, 232, 191, 135, 228, 186, 142, 233, 162, 145, 231, 185, 129], 429)
      else if gc = codes_Unavailable then (1004001, utf8 [230, 156, 141, 229, 138, 161, 231, 185, 129, 229, 191, 153], 503)
      else (5000000, ''internal error'', 500))"

definition FailFromGRPC :: "from_error \<Rightarrow> err \<Rightarrow> Response" where
  "FailFromGRPC from_error e =
     (let (c, m) = (case from_error e of Some st \<Rightarrow> st | None \<Rightarrow> (codes_Unknown, ''''));
          (bizCode, msg, httpStatus) = mapGrpcToHTTPBiz c m
      in Fail httpStatus bizCode msg)"

definition WrapPreserveCode :: "from_error \<Rightarrow> err option \<Rightarrow> GrpcCode \<Rightarrow> string \<Rightarrow> err option" where
  "WrapPreserveCode from_error e fallback msg =
     (case e of
        None \<Rightarrow> None
      | Some e' \<Rightarrow>
          (case from_error e' of
             Some (c, _) \<Rightarrow> Some (EBiz (xerr_Wrap (Some e') (ACode c) msg))
           | None \<Rightarrow> Some (EBiz (xerr_Wrap (Some e') (ACode fallback) msg))))"

subsection \<open>Circuit breaker\<close>

definition isSuccessfulForBreaker :: "from_error \<Rightarrow> err option \<Rightarrow> bool" where
  "isSuccessfulForBreaker from_error e =
     (case e of
        None \<Rightarrow> True
      | Some e' \<Rightarrow>
          (case from_error e' of
             None \<Rightarrow> False
           | Some (c, _) \<Rightarrow>
               c \<in> {codes_InvalidArgument, codes_NotFound, codes_PermissionDenied, codes_Unauthenticated,
                    codes_AlreadyExists, codes_FailedPrecondition, codes_OutOfRange, codes_Canceled}))"

end
