(* ===== verification/Funds.thy ===== *)
theory Funds
  imports Kline_Fixed Go_Map Api_Errors
begin

text \<open>
  \<^verbatim>\<open>internal/funds\<close>: balances read through a cache in redis (\<^verbatim>\<open>service.go\<close>, \<^verbatim>\<open>cache.go\<close>,
  \<^verbatim>\<open>types.go\<close>, \<^verbatim>\<open>repo/mysql/balances.go\<close>); then \<^verbatim>\<open>pkg/ratelimit/store.go\<close> and the lock of
  \<^verbatim>\<open>pkg/xredis/lock.go\<close>. The query, protobuf, the random number, the token bucket and what redis answers in
  an error are parameters; times to live are redis' own.
\<close>

subsection \<open>Rows and messages\<close>

record BalanceRow =
  OwnerType :: nat
  OwnerID :: nat
  rowAsset :: string
  rowBucket :: string
  rowAmount :: int

record PbBalance =
  UserId :: nat
  pbAsset :: string
  pbBucket :: string
  pbAmount :: int

type_synonym GetBalancesRes = "PbBalance option list"

definition OwnerUser :: nat where "OwnerUser = 1"

fun clone_list :: "PbBalance option list \<Rightarrow> GetBalancesRes" where
  "clone_list [] = []"
| "clone_list (None # bs) = clone_list bs"
| "clone_list (Some b # bs) =
     Some \<lparr>UserId = UserId b, pbAsset = pbAsset b, pbBucket = pbBucket b, pbAmount = pbAmount b\<rparr> # clone_list bs"

definition cloneGetBalancesRes :: "GetBalancesRes option \<Rightarrow> GetBalancesRes" where
  "cloneGetBalancesRes inp = (case inp of None \<Rightarrow> [] | Some bs \<Rightarrow> clone_list bs)"

text \<open>\<open>query\<close> is the query by owner type, owner and, if there is one, asset.\<close>

type_synonym query = "nat \<Rightarrow> nat \<Rightarrow> string option \<Rightarrow> goerror + BalanceRow list"

definition Repo_GetBalances :: "query \<Rightarrow> nat \<Rightarrow> string \<Rightarrow> goerror + BalanceRow list" where
  "Repo_GetBalances query userID asset =
     (if userID = 0 then Inr []
      else query OwnerUser userID (if asset \<noteq> '''' then Some asset else None))"

subsection \<open>The cache\<close>

type_synonym redis = "string \<rightharpoonup> bytes"

definition getKey :: "nat \<Rightarrow> string \<Rightarrow> string" where
  "getKey userID asset = ''funds:bal:'' @ fmt_d (int userID) @ '':'' @ (if asset = '''' then ''ALL'' else asset)"

text \<open>\<open>rnd\<close> is \<open>rand.Int63n\<close>.\<close>

definition withJitter :: "(int \<Rightarrow> int) \<Rightarrow> int \<Rightarrow> int \<Rightarrow> int" where
  "withJitter rnd ttl jitter = (if ttl \<le> 0 \<or> jitter \<le> 0 then ttl else i64 (ttl + rnd jitter))"

record RedisErrs =
  get_err :: "goerror option"
  del_err :: "goerror option"
  set_err :: "goerror option"

definition Cache_GetBalances ::
  "(bytes \<Rightarrow> goerror + GetBalancesRes) \<Rightarrow> RedisErrs \<Rightarrow> nat \<Rightarrow> string \<Rightarrow> redis \<Rightarrow> (goerror + GetBalancesRes option) \<times> redis" where
  "Cache_GetBalances unmarshal x userID asset r =
     (let key = getKey userID asset
      in case get_err x of
           Some e \<Rightarrow> (Inl e, r)
         | None \<Rightarrow>
             (case r key of
                None \<Rightarrow> (Inr None, r)
              | Some b \<Rightarrow>
                  (case unmarshal b of
                     Inl e \<Rightarrow> (Inl e, if del_err x = None then r(key := None) else r)
                   | Inr res \<Rightarrow> (Inr (Some res), r))))"

definition Cache_SetBalances ::
  "(GetBalancesRes \<Rightarrow> goerror + bytes) \<Rightarrow> RedisErrs \<Rightarrow> nat \<Rightarrow> string \<Rightarrow> GetBalancesRes \<Rightarrow> redis \<Rightarrow> goerror option \<times> redis" where
  "Cache_SetBalances marshal x userID asset res r =
     (case marshal res of
        Inl e \<Rightarrow> (Some e, r)
      | Inr b \<Rightarrow>
          (case set_err x of
             Some e \<Rightarrow> (Some e, r)
           | None \<Rightarrow> (None, r(getKey userID asset \<mapsto> b))))"

definition Cache_DelBalances :: "RedisErrs \<Rightarrow> nat \<Rightarrow> string \<Rightarrow> redis \<Rightarrow> goerror option \<times> redis" where
  "Cache_DelBalances x userID asset r =
     (case del_err x of Some e \<Rightarrow> (Some e, r) | None \<Rightarrow> (None, r(getKey userID asset := None)))"

subsection \<open>The service\<close>

definition to_pb :: "BalanceRow \<Rightarrow> PbBalance" where
  "to_pb r = \<lparr>UserId = OwnerID r, pbAsset = rowAsset r, pbBucket = rowBucket r, pbAmount = rowAmount r\<rparr>"

definition GetBalances ::
  "(bytes \<Rightarrow> goerror + GetBalancesRes) \<Rightarrow> (GetBalancesRes \<Rightarrow> goerror + bytes) \<Rightarrow> query \<Rightarrow> RedisErrs \<Rightarrow> nat \<Rightarrow> string \<Rightarrow>
   redis \<Rightarrow> (err + GetBalancesRes) \<times> redis" where
  "GetBalances unmarshal marshal query x userID asset r =
     (case Cache_GetBalances unmarshal x userID asset r of
        (Inr (Some res), r1) \<Rightarrow> (Inr res, r1)
      | (_, r1) \<Rightarrow>
          (case Repo_GetBalances query userID asset of
             Inl e \<Rightarrow> (Inl (EStatus codes_Internal e), r1)
           | Inr rows \<Rightarrow>
               let res = map (\<lambda>row. Some (to_pb row)) rows;
                   (_, r2) = Cache_SetBalances marshal x userID asset res r1
               in (Inr (cloneGetBalancesRes (Some res)), r2)))"

text \<open>The calls that are not implemented.\<close>

definition Reserve :: "'req \<Rightarrow> 'resp go" where "Reserve req = Panic"

definition Release :: "'req \<Rightarrow> 'resp go" where "Release req = Panic"

definition SettleTrade :: "'req \<Rightarrow> 'resp go" where "SettleTrade req = Panic"

subsection \<open>Rate limits\<close>

text \<open>
  \<open>'l\<close> is a \<open>rate.Limiter\<close>; \<open>fresh\<close> makes one with the store's rate and burst, \<open>allow\<close> asks it at a time.
\<close>

record 'l entry =
  limiter :: 'l
  lastSeen :: int

record 'l Store =
  entries :: "(string, 'l entry) gomap"
  ttl :: int

definition NewStore :: "int \<Rightarrow> 'l Store" where
  "NewStore t = \<lparr>entries = [], ttl = (if t \<le> 0 then 600000000000 else t)\<rparr>"

definition Store_Allow :: "'l \<Rightarrow> (int \<Rightarrow> 'l \<Rightarrow> bool \<times> 'l) \<Rightarrow> int \<Rightarrow> string \<Rightarrow> 'l Store \<Rightarrow> bool \<times> 'l Store" where
  "Store_Allow fresh allow now key s =
     (let e = (case map_get (entries s) key of
                 None \<Rightarrow> \<lparr>limiter = fresh, lastSeen = now\<rparr>
               | Some e \<Rightarrow> e\<lparr>lastSeen := now\<rparr>);
          (ok, l) = allow now (limiter e)
      in (ok, s\<lparr>entries := map_set (entries s) key (e\<lparr>limiter := l\<rparr>)\<rparr>))"

text \<open>\<open>Wait\<close> asks the limiter to wait: \<open>wait\<close> gives its error and leaves the limiter after it.\<close>

definition Store_Wait ::
  "'l \<Rightarrow> (int \<Rightarrow> 'l \<Rightarrow> goerror option \<times> 'l) \<Rightarrow> int \<Rightarrow> string \<Rightarrow> 'l Store \<Rightarrow> goerror option \<times> 'l Store" where
  "Store_Wait fresh wait now key s =
     (let e = (case map_get (entries s) key of
                 None \<Rightarrow> \<lparr>limiter = fresh, lastSeen = now\<rparr>
               | Some e \<Rightarrow> e\<lparr>lastSeen := now\<rparr>);
          (er, l) = wait now (limiter e)
      in (er, s\<lparr>entries := map_set (entries s) key (e\<lparr>limiter := l\<rparr>)\<rparr>))"

definition cleanup :: "int \<Rightarrow> 'l Store \<Rightarrow> 'l Store" where
  "cleanup now s = s\<lparr>entries := filter (\<lambda>(k, e). \<not> lastSeen e < now - ttl s) (entries s)\<rparr>"

text \<open>The gateway's middleware: an answer when the request is refused.\<close>

definition RateLimit ::
  "'l \<Rightarrow> (int \<Rightarrow> 'l \<Rightarrow> bool \<times> 'l) \<Rightarrow> int \<Rightarrow> string \<Rightarrow> string \<Rightarrow> string \<Rightarrow> 'l Store \<Rightarrow> Response option \<times> 'l Store" where
  "RateLimit fresh allow now clientIP fullPath urlPath s =
     (let route = (if fullPath = '''' then urlPath else fullPath);
          (ok, s1) = Store_Allow fresh allow now (clientIP @ '':'' @ route) s
      in (if \<not> ok then Some (Fail 429 1003001 (utf8 [232, 175, 183, 230, 177, 130, 232, 191, 135, 228, 186, 142, 233, 162, 145, 231, 185, 129])) else None, s1))"

subsection \<open>The master lock\<close>

text \<open>
  One redis command each: \<open>SETNX\<close> takes a free lock or fails; then \<open>GET\<close>; then \<open>EXPIRE\<close>, which keeps the
  lock whosoever it is. A node's place in \<open>TryAcquireMaster\<close>, and its answer at the end.
\<close>

datatype lock_pc = Idle | Check | Renew | Acquired bool

record Lock =
  holder :: "string option"
  pcs :: "string \<Rightarrow> lock_pc"

inductive lock_step :: "Lock \<Rightarrow> Lock \<Rightarrow> bool" where
  take_free: "pcs s i = Idle \<Longrightarrow> holder s = None \<Longrightarrow> lock_step s (s\<lparr>holder := Some i, pcs := (pcs s)(i := Acquired True)\<rparr>)"
| taken: "pcs s i = Idle \<Longrightarrow> holder s \<noteq> None \<Longrightarrow> lock_step s (s\<lparr>pcs := (pcs s)(i := Check)\<rparr>)"
| set_error: "pcs s i = Idle \<Longrightarrow> lock_step s (s\<lparr>pcs := (pcs s)(i := Acquired False)\<rparr>)"
| mine: "pcs s i = Check \<Longrightarrow> holder s = Some i \<Longrightarrow> lock_step s (s\<lparr>pcs := (pcs s)(i := Renew)\<rparr>)"
| not_mine: "pcs s i = Check \<Longrightarrow> holder s \<noteq> Some i \<Longrightarrow> lock_step s (s\<lparr>pcs := (pcs s)(i := Acquired False)\<rparr>)"
| get_error: "pcs s i = Check \<Longrightarrow> lock_step s (s\<lparr>pcs := (pcs s)(i := Acquired False)\<rparr>)"
| renewed: "pcs s i = Renew \<Longrightarrow> lock_step s (s\<lparr>pcs := (pcs s)(i := Acquired True)\<rparr>)"
| again: "pcs s i = Acquired b \<Longrightarrow> lock_step s (s\<lparr>pcs := (pcs s)(i := Idle)\<rparr>)"
| expires: "lock_step s (s\<lparr>holder := None\<rparr>)"

inductive lock_steps :: "Lock \<Rightarrow> Lock \<Rightarrow> bool" where
  refl: "lock_steps s s"
| step: "lock_step s s1 \<Longrightarrow> lock_steps s1 s2 \<Longrightarrow> lock_steps s s2"

end
