(* ===== verification/Service_Properties.thy ===== *)
theory Service_Properties
  imports Accounts Api_Errors Funds
begin

text \<open>
  What the account and funds services, the limiter and the error path of the servers do. Each property is followed by a witness.
\<close>

subsection \<open>Requests that take effect once\<close>

text \<open>Calls on one key, one after the other; each has its faults, its hash and its work.\<close>

type_synonym ('a, 'd) call = "Faults \<times> bytes \<times> ('d \<Rightarrow> (goerror + 'a) \<times> 'd)"

fun run_calls ::
  "('a \<Rightarrow> bytes option) \<Rightarrow> (bytes \<Rightarrow> goerror + 'a) \<Rightarrow> string \<Rightarrow> string \<Rightarrow> ('a, 'd) call list \<Rightarrow> 'd DB \<Rightarrow>
   (goerror + 'a) list \<times> 'd DB" where
  "run_calls m u s r [] db = ([], db)"
| "run_calls m u s r ((f, h, fn) # cs) db =
     (let (a, db1) = DoOnceTx m u f s r h fn db; (as, db2) = run_calls m u s r cs db1 in (a # as, db2))"

definition committed_row :: "('a \<Rightarrow> bytes option) \<Rightarrow> bytes \<Rightarrow> 'a \<Rightarrow> IdemRow" where
  "committed_row m h x = \<lparr>request_hash = h, status = 2, response_json = m x, error_msg = Some ''''\<rparr>"

lemma once_first:
  assumes "idempotency db (s, r) = None"
  shows "(\<exists>e. DoOnceTx m u f s r h fn db = (Inl e, db)) \<or>
    (\<exists>x d a. fn (rest db) = (Inr x, d) \<and> (a = Inr x \<or> (\<exists>e. a = Inl e)) \<and>
       DoOnceTx m u f s r h fn db = (a, db\<lparr>idempotency := (idempotency db)((s, r) \<mapsto> committed_row m h x), rest := d\<rparr>))"
proof (cases "fn (rest db)")
  case (Pair a d)
  then show ?thesis using assms
    by (cases a) (auto simp: DoOnceTx_def Let_def answer_again_def committed_row_def split: option.splits)
qed

lemma once_again:
  assumes "idempotency db (s, r) = Some row"
  shows "DoOnceTx m u f s r h fn db =
    ((case begin_err f of Some e \<Rightarrow> Inl e | None \<Rightarrow> answer_again u (select_err f) (Some row) h), db)"
  using assms by (simp add: DoOnceTx_def Let_def split: option.split)

lemma answer_committed:
  assumes "\<And>b. m x = Some b \<Longrightarrow> u b = Inr x"
  shows "answer_again u se (Some (committed_row m h' x)) h = Inr x \<or> (\<exists>e. answer_again u se (Some (committed_row m h' x)) h = Inl e)"
  using assms by (auto simp: answer_again_def committed_row_def split: option.splits)

lemma run_calls_again:
  assumes "\<And>b. m x = Some b \<Longrightarrow> u b = Inr x" and "idempotency db (s, r) = Some (committed_row m h x)"
  shows "snd (run_calls m u s r cs db) = db \<and> (\<forall>a \<in> set (fst (run_calls m u s r cs db)). a = Inr x \<or> (\<exists>e. a = Inl e))"
proof (induction cs)
  case (Cons c cs)
  obtain f g fn where c: "c = (f, g, fn)" by (cases c)
  show ?case using Cons answer_committed[of m x u "select_err f" h g] assms(1)
    by (auto simp: c once_again[OF assms(2)] Let_def split_beta split: option.splits)
qed simp

text \<open>
  C31. Whatever fails, and however often a request is repeated, with the same parameters or with others,
  its work is committed at most once, and every answer that is not an error is the result of that one run.
\<close>

theorem once_only:
  assumes "\<And>x b. m x = Some b \<Longrightarrow> u b = Inr x" and "idempotency db (s, r) = None"
  shows "(snd (run_calls m u s r cs db) = db \<and> (\<forall>a \<in> set (fst (run_calls m u s r cs db)). \<exists>e. a = Inl e)) \<or>
    (\<exists>k < length cs. \<exists>x. snd (snd (cs ! k)) (rest db) = (Inr x, rest (snd (run_calls m u s r cs db))) \<and>
      (\<forall>a \<in> set (fst (run_calls m u s r cs db)). a = Inr x \<or> (\<exists>e. a = Inl e)))"
  using assms(2)
proof (induction cs)
  case (Cons c cs)
  obtain f h fn where c: "c = (f, h, fn)" by (cases c)
  from once_first[OF Cons.prems, of m u f h fn] show ?case
  proof (elim disjE exE conjE)
    fix e assume "DoOnceTx m u f s r h fn db = (Inl e, db)"
    then show ?thesis using Cons.IH[OF Cons.prems]
      by (auto simp: c Let_def split_beta)
  next
    fix x d a
    let ?db = "db\<lparr>idempotency := (idempotency db)((s, r) \<mapsto> committed_row m h x), rest := d\<rparr>"
    assume fn: "fn (rest db) = (Inr x, d)" and a: "DoOnceTx m u f s r h fn db = (a, ?db)" "a = Inr x"
    have "idempotency ?db (s, r) = Some (committed_row m h x)" by simp
    from run_calls_again[where u = u and cs = cs, OF assms(1) this]
    have R: "snd (run_calls m u s r cs ?db) = ?db"
      "\<forall>a \<in> set (fst (run_calls m u s r cs ?db)). a = Inr x \<or> (\<exists>e. a = Inl e)" by simp_all
    show ?thesis using R fn a by (intro disjI2 exI[of _ 0]) (auto simp: c Let_def split_beta)
  next
    fix x d a e
    let ?db = "db\<lparr>idempotency := (idempotency db)((s, r) \<mapsto> committed_row m h x), rest := d\<rparr>"
    assume fn: "fn (rest db) = (Inr x, d)" and a: "DoOnceTx m u f s r h fn db = (a, ?db)" "a = Inl e"
    have "idempotency ?db (s, r) = Some (committed_row m h x)" by simp
    from run_calls_again[where u = u and cs = cs, OF assms(1) this]
    have R: "snd (run_calls m u s r cs ?db) = ?db"
      "\<forall>a \<in> set (fst (run_calls m u s r cs ?db)). a = Inr x \<or> (\<exists>e. a = Inl e)" by simp_all
    show ?thesis using R fn a by (intro disjI2 exI[of _ 0]) (auto simp: c Let_def split_beta)
  qed
qed simp

definition ok_fn :: "int \<Rightarrow> (goerror + int) \<times> int" where
  "ok_fn d = (Inr (d + 1), d + 1)"

definition no_rows :: "int DB" where
  "no_rows = \<lparr>idempotency = Map.empty, rest = 41\<rparr>"

text \<open>A toy encoding of numbers, for witnesses.\<close>

definition json_byte :: "int \<Rightarrow> bytes option" where
  "json_byte n = (if 0 \<le> n \<and> n < 256 then Some [of_int n] else None)"

definition byte_json :: "bytes \<Rightarrow> goerror + int" where
  "byte_json b = (case b of [w] \<Rightarrow> Inr (uint w) | _ \<Rightarrow> Inl ''json'')"

lemma json_byte_law: "json_byte x = Some b \<Longrightarrow> byte_json b = Inr x"
  by (auto simp: json_byte_def byte_json_def uint_word_of_int split: if_splits)

theorem once_only_witness:
  "rest (snd (run_calls json_byte byte_json ''user:1'' ''req'' [(no_faults, replicate 32 7, ok_fn), (no_faults, replicate 32 7, ok_fn)] no_rows)) = 42"
proof -
  let ?r = "run_calls json_byte byte_json ''user:1'' ''req'' [(no_faults, replicate 32 7, ok_fn), (no_faults, replicate 32 7, ok_fn)] no_rows"
  have "snd ?r \<noteq> no_rows"
    by (simp add: no_rows_def DoOnceTx_def no_faults_def ok_fn_def Let_def json_byte_def fun_eq_iff)
  then obtain k x where "k < length [(no_faults, replicate 32 7, ok_fn), (no_faults, replicate 32 7, ok_fn)]"
    "snd (snd ([(no_faults, replicate 32 (7 :: 8 word), ok_fn), (no_faults, replicate 32 7, ok_fn)] ! k)) (rest no_rows) = (Inr x, rest (snd ?r))"
    using once_only[where m = json_byte and u = byte_json and db = no_rows and s = "''user:1''" and r = "''req''"
        and cs = "[(no_faults, replicate 32 7, ok_fn), (no_faults, replicate 32 7, ok_fn)]", OF json_byte_law]
    by (auto simp: no_rows_def)
  then show ?thesis by (auto simp: ok_fn_def no_rows_def less_Suc_eq)
qed

text \<open>
  C32. A repeated request is answered from the table and changes nothing: with the stored response when the
  parameters are the same, with a conflict when they are not. A response that could not be encoded is stored
  as nothing, and such a request answers that it is in progress for ever.
\<close>

theorem retry_answers:
  assumes "\<And>x b. m x = Some b \<Longrightarrow> u b = Inr x"
    and "DoOnceTx m u no_faults s r h fn db = (Inr x, db1)" and "idempotency db (s, r) = None" and "length h = 32"
  shows "DoOnceTx m u no_faults s r h' fn' db1 =
    (if h' \<noteq> h then Inl ErrConflict else if m x = None then Inl ErrInProgress else Inr x, db1)"
proof -
  from once_first[OF assms(3), of m u no_faults h fn]
  have "idempotency db1 (s, r) = Some (committed_row m h x)" using assms(2) by auto
  from once_again[OF this, of m u no_faults h' fn'] show ?thesis using assms(1)[of x] assms(4)
    by (auto simp: no_faults_def answer_again_def committed_row_def copy32_def split: option.splits)
qed

theorem retry_answers_witness:
  "DoOnceTx json_byte byte_json no_faults ''user:1'' ''req'' (replicate 32 8) ok_fn
     (snd (DoOnceTx json_byte byte_json no_faults ''user:1'' ''req'' (replicate 32 7) ok_fn no_rows)) =
   (Inl ErrConflict, snd (DoOnceTx json_byte byte_json no_faults ''user:1'' ''req'' (replicate 32 7) ok_fn no_rows))"
proof -
  let ?c = "DoOnceTx json_byte byte_json no_faults ''user:1'' ''req'' (replicate 32 7) ok_fn no_rows"
  have c: "?c = (Inr 42, snd ?c)" by (simp add: no_rows_def DoOnceTx_def no_faults_def ok_fn_def Let_def)
  have "hd (replicate 32 (8 :: 8 word)) \<noteq> hd (replicate 32 7)" by simp
  then have ne: "replicate 32 (8 :: 8 word) \<noteq> replicate 32 7" by metis
  show ?thesis
    using retry_answers[where m = json_byte and u = byte_json and h' = "replicate 32 8" and fn' = ok_fn, OF json_byte_law c] ne
    by (simp add: no_rows_def)
qed

subsection \<open>Currencies\<close>

lemma pow10_loop_power:
  "0 \<le> i \<Longrightarrow> i \<le> p \<Longrightarrow> i \<le> 18 \<Longrightarrow>
   pow10_loop p i (10 ^ nat i) = (if p \<le> 18 then Inr (10 ^ nat p) else Inl ''error'')"
proof (induction "nat (p - i)" arbitrary: i rule: less_induct)
  case less
  have d: "go_div 9223372036854775807 10 = 922337203685477580" by (simp add: go_div_def)
  show ?case
  proof (cases "i < p \<and> i < 18")
    case True
    have p17: "(10 :: int) ^ nat i \<le> 10 ^ 17" by (rule power_increasing) (use True less(2) in auto)
    then have le: "\<not> 10 ^ nat i > (922337203685477580 :: int)" by simp
    have s: "nat (i + 1) = Suc (nat i)" using less(2) by simp
    have w: "i64 (10 ^ nat i * 10) = 10 ^ nat (i + 1)"
      using p17 by (subst i64_id) (auto simp: is_i64_def s intro: order_trans[of _ 0])
    have "pow10_loop p i (10 ^ nat i) = pow10_loop p (i + 1) (10 ^ nat (i + 1))"
      using True le by (subst pow10_loop.simps) (simp add: d w)
    then show ?thesis using less(1)[of "i + 1"] True less(2) by simp
  next
    case False
    then have "i = p \<or> i = 18 \<and> i < p" using less(3,4) by linarith
    then show ?thesis
    proof
      assume "i = p"
      then show ?thesis using less(4) by (subst pow10_loop.simps) simp
    next
      assume "i = 18 \<and> i < p"
      then show ?thesis by (subst pow10_loop.simps) (simp add: d)
    qed
  qed
qed

text \<open>
  A currency has a symbol, a precision between 0 and 18 and, as its scale, that power of ten, which fits
  an \<open>int64\<close>; everything else is refused. The loop returns for every precision, with an error above 18.
\<close>

theorem currency_scale:
  "(NewCurrency symbol p = Inr c \<longleftrightarrow>
      symbol \<noteq> '''' \<and> 0 \<le> p \<and> p \<le> 18 \<and> c = \<lparr>curSymbol = symbol, Precision = p, curScale = 10 ^ nat p\<rparr>) \<and>
   (NewCurrency symbol p = Inr c \<longrightarrow> is_i64 (curScale c)) \<and>
   pow10i64 p = (if p \<le> 18 then Inr (10 ^ nat p) else Inl ''error'')"
proof -
  have p: "pow10i64 p = (if p \<le> 18 then Inr (10 ^ nat p) else Inl ''error'')"
    using pow10_loop_power[of 0 p] by (cases "p < 0") (auto simp: pow10i64_def pow10_loop.simps[of p 0])
  have "is_i64 (10 ^ nat p)" if "p \<le> 18"
  proof -
    define n :: int where "n = 10 ^ nat p"
    have "n \<le> 10 ^ 18" unfolding n_def using that by (intro power_increasing) auto
    moreover have "0 \<le> n" by (simp add: n_def)
    ultimately show ?thesis by (simp add: is_i64_def flip: n_def)
  qed
  then show ?thesis by (auto simp: NewCurrency_def p)
qed

theorem currency_scale_witness: "NewCurrency ''BTC'' 8 = Inr \<lparr>curSymbol = ''BTC'', Precision = 8, curScale = 100000000\<rparr>"
  using currency_scale[of "''BTC''" 8 "\<lparr>curSymbol = ''BTC'', Precision = 8, curScale = 100000000\<rparr>"] by simp

subsection \<open>The cache of balances\<close>

text \<open>
  Events may be reordered and repeated: after any of them the cache of the key holds one of the newest
  versions, and no other key is touched.
\<close>

theorem events_newest:
  assumes "vs \<noteq> []" and "c (cacheKey key) = None"
  shows "(\<exists>v \<in> set vs. fold (OnBalanceChangedEvent key) vs c (cacheKey key) = Some v \<and> (\<forall>u \<in> set vs. Version u \<le> Version v)) \<and>
    (\<forall>k. k \<noteq> cacheKey key \<longrightarrow> fold (OnBalanceChangedEvent key) vs c k = c k)"
  using assms(1)
proof (induction vs rule: rev_induct)
  case (snoc v vs)
  show ?case
  proof (cases "vs = []")
    case True
    then show ?thesis using assms(2) by (simp add: OnBalanceChangedEvent_def)
  next
    case False
    let ?c = "fold (OnBalanceChangedEvent key) vs c"
    obtain w where w: "w \<in> set vs" "?c (cacheKey key) = Some w" "\<forall>u \<in> set vs. Version u \<le> Version w"
      and k: "\<forall>k. k \<noteq> cacheKey key \<longrightarrow> ?c k = c k" using snoc.IH[OF False] by blast
    have e: "fold (OnBalanceChangedEvent key) (vs @ [v]) c = (if Version w \<le> Version v then ?c(cacheKey key \<mapsto> v) else ?c)"
      by (simp add: OnBalanceChangedEvent_def[of key v ?c] w(2))
    show ?thesis unfolding e using w k by (cases "Version w \<le> Version v") (auto intro: order_trans)
  qed
qed simp

theorem events_newest_witness:
  "\<exists>v. fold (OnBalanceChangedEvent \<lparr>keyUserID = 1, keyAcct = ''spot'', keySymbol = ''BTC''\<rparr>)
      [\<lparr>Avail = 5, Frozen = 0, Version = 2\<rparr>, \<lparr>Avail = 9, Frozen = 0, Version = 1\<rparr>] Map.empty
      (cacheKey \<lparr>keyUserID = 1, keyAcct = ''spot'', keySymbol = ''BTC''\<rparr>) = Some v \<and> Version v \<ge> 2"
  using events_newest[of "[\<lparr>Avail = 5, Frozen = 0, Version = 2\<rparr>, \<lparr>Avail = 9, Frozen = 0, Version = 1\<rparr>]" Map.empty
      "\<lparr>keyUserID = 1, keyAcct = ''spot'', keySymbol = ''BTC''\<rparr>"] by auto

text \<open>
  A reader that missed the cache stores what it read: an event that came in between is overwritten by the
  older version, although only one reader of a key goes to the database at a time.
\<close>

lemma stale_fill:
  assumes "c (cacheKey key) = None"
  shows "\<exists>c'. bal_steps key (c, None) [Miss old, Event new, Fill] (c', None) \<and> c' (cacheKey key) = Some old"
  by (intro exI conjI, rule bal_steps.more[OF bal_step.miss[of c key]], rule assms,
      rule bal_steps.more[OF bal_step.event], rule bal_steps.more[OF bal_step.fill], rule bal_steps.none) simp

subsection \<open>Errors on their way to a client\<close>

text \<open>
  What gRPC documents of \<open>status.FromError\<close>: it gives the status of a status error and of an error that
  implements \<open>GRPCStatus\<close>, the code of the error inside a wrapped one, and nothing for a plain error.
\<close>

definition grpc_laws :: "from_error \<Rightarrow> bool" where
  "grpc_laws fe \<longleftrightarrow>
     (\<forall>c m. c \<noteq> codes_OK \<longrightarrow> fe (EStatus c m) = Some (c, m)) \<and> (\<forall>x. fe (EBiz x) = Some (GRPCStatus fe x)) \<and>
     (\<forall>s e. map_option fst (fe (EWrap s e)) = map_option fst (fe e)) \<and> (\<forall>s. fe (EText s) = None)"

lemma grpc_lawsD:
  assumes "grpc_laws fe"
  shows "c \<noteq> codes_OK \<Longrightarrow> fe (EStatus c m) = Some (c, m)" "fe (EBiz x) = Some (GRPCStatus fe x)"
    "map_option fst (fe (EWrap s e)) = map_option fst (fe e)" "fe (EText s) = None"
  using assms by (auto simp: grpc_laws_def)

text \<open>A function that has these laws.\<close>

fun status_of :: from_error where
  "status_of (EText s) = None"
| "status_of (EStatus c m) = Some (c, m)"
| "status_of (EWrap s e) = (case status_of e of None \<Rightarrow> None | Some (c, m) \<Rightarrow> Some (c, s))"
| "status_of (EBiz (Error code msg None)) = Some (case asGRPCCode code of Some c \<Rightarrow> c | None \<Rightarrow> codes_Internal, msg)"
| "status_of (EBiz (Error code msg (Some e))) =
     Some (case asGRPCCode code of Some c \<Rightarrow> c
           | None \<Rightarrow> (case status_of e of Some (c, m) \<Rightarrow> c | None \<Rightarrow> codes_Internal), msg)"

lemma grpc_laws_status_of: "grpc_laws status_of"
proof -
  have "status_of (EBiz x) = Some (GRPCStatus status_of x)" for x
    by (cases x; cases "Cause x") (auto simp: GRPCStatus_def split: option.splits)
  then show ?thesis by (auto simp: grpc_laws_def split: option.splits)
qed

definition limited :: "from_error \<Rightarrow> err \<Rightarrow> bool" where
  "limited fe e \<longleftrightarrow> map_option fst (fe e) = Some codes_ResourceExhausted"

lemma ErrorUnary_error:
  "ErrorUnary fe (Inl e) =
     Inl (if limited fe e then e
          else case xerr_As e of
                 Some x \<Rightarrow> EStatus (mapBizToGrpc (Code x)) (Message x)
               | None \<Rightarrow> EStatus codes_Internal ''internal error'')"
  by (auto simp: ErrorUnary_def limited_def split: option.splits)

text \<open>The three business codes that have a status of their own.\<close>

definition biz_http :: "any \<Rightarrow> int option" where
  "biz_http c = map_of [(AInt 1001001, 400), (AInt 1002001, 401), (AInt 1002003, 403)] c"

lemma FailFromGRPC_status:
  assumes "grpc_laws fe" and "c \<noteq> codes_OK"
  shows "FailFromGRPC fe (EStatus c m) = (let (b, msg, s) = mapGrpcToHTTPBiz c m in Fail s b msg)"
  using grpc_lawsD(1)[OF assms] by (simp add: FailFromGRPC_def Let_def split_beta)

text \<open>
  C33. What the gateway answers when a handler behind \<open>ErrorUnary\<close> fails: 429 when it was limited; 400, 401
  and 403 with the business code for the three codes that have one; 500 with code 5000000 for everything
  else, and the client's circuit breaker counts that as a failure of the service.
\<close>

theorem client_answer:
  assumes "grpc_laws fe" and "ErrorUnary fe (Inl e) = Inl e'"
  shows "(rStatus (FailFromGRPC fe e'), rCode (FailFromGRPC fe e')) =
      (if limited fe e then (429, 1003001)
       else case xerr_As e of
              Some (Error (AInt i) msg cause) \<Rightarrow> (case biz_http (AInt i) of Some s \<Rightarrow> (s, i) | None \<Rightarrow> (500, 5000000))
            | _ \<Rightarrow> (500, 5000000)) \<and>
    (isSuccessfulForBreaker fe (Some e') \<longleftrightarrow> \<not> limited fe e \<and> (\<exists>x. xerr_As e = Some x \<and> biz_http (Code x) \<noteq> None))"
proof (cases "limited fe e")
  case True
  then obtain m where m: "fe e = Some (codes_ResourceExhausted, m)" by (auto simp: limited_def)
  then show ?thesis using assms(2) True
    by (simp add: ErrorUnary_error FailFromGRPC_def mapGrpcToHTTPBiz_def Fail_def isSuccessfulForBreaker_def)
next
  case False
  note st = FailFromGRPC_status[OF assms(1)] grpc_lawsD(1)[OF assms(1)]
  show ?thesis
  proof (cases "xerr_As e")
    case None
    then have "e' = EStatus codes_Internal ''internal error''" using assms(2) False by (simp add: ErrorUnary_error)
    then show ?thesis using None False
      by (simp add: st mapGrpcToHTTPBiz_def Fail_def isSuccessfulForBreaker_def)
  next
    case (Some x)
    then have e': "e' = EStatus (mapBizToGrpc (Code x)) (Message x)" using assms(2) False by (simp add: ErrorUnary_error)
    obtain c msg cause where x: "x = Error c msg cause" by (cases x)
    show ?thesis using Some False
      by (cases c)
        (auto simp: e' st x mapBizToGrpc_def mapGrpcToHTTPBiz_def Fail_def isSuccessfulForBreaker_def biz_http_def)
  qed
qed

theorem client_answer_witness:
  "rStatus (FailFromGRPC status_of (EStatus codes_InvalidArgument ''bad'')) = 400 \<and>
   rCode (FailFromGRPC status_of (EStatus codes_InvalidArgument ''bad'')) = 1001001"
  using client_answer[OF grpc_laws_status_of, of "EBiz (xerr_New (AInt 1001001) ''bad'')"]
  by (simp add: ErrorUnary_error limited_def xerr_New_def mapBizToGrpc_def biz_http_def)

text \<open>
  An error made with a gRPC code knows its code and its HTTP status, and \<open>ErrorUnary\<close> loses both unless
  the code is \<open>ResourceExhausted\<close>: a record not found is a 500 for the client and a failure for its breaker.
\<close>

theorem errors_lose_code:
  assumes "grpc_laws fe" and "c \<noteq> codes_ResourceExhausted"
  shows "GRPCCode fe (xerr_New (ACode c) msg) = c \<and> HTTPStatus fe (xerr_New (ACode c) msg) = httpStatusFromGRPC c \<and>
    ErrorUnary fe (Inl (EBiz (xerr_New (ACode c) msg))) = Inl (EStatus codes_Unknown msg) \<and>
    rStatus (FailFromGRPC fe (EStatus codes_Unknown msg)) = 500 \<and>
    \<not> isSuccessfulForBreaker fe (Some (EStatus codes_Unknown msg))"
proof -
  have "\<not> limited fe (EBiz (xerr_New (ACode c) msg))"
    using assms(2) by (simp add: limited_def grpc_lawsD(2)[OF assms(1)] GRPCStatus_def xerr_New_def)
  then show ?thesis
    by (simp add: GRPCCode_def HTTPStatus_def asHTTPStatus_def xerr_New_def ErrorUnary_error mapBizToGrpc_def
        FailFromGRPC_status[OF assms(1)] mapGrpcToHTTPBiz_def Fail_def isSuccessfulForBreaker_def grpc_lawsD(1)[OF assms(1)])
qed

theorem errors_lose_code_witness:
  "HTTPStatus status_of (xerr_New (ACode codes_NotFound) ''no row'') = 404 \<and>
   rStatus (FailFromGRPC status_of (EStatus codes_Unknown ''no row'')) = 500"
  using errors_lose_code[OF grpc_laws_status_of, of codes_NotFound "''no row''"] by (auto simp: httpStatusFromGRPC_def)

subsection \<open>Balances through the cache\<close>

lemma getKey_inj:
  assumes "getKey u a = getKey v b" and "a \<noteq> ''ALL''" and "b \<noteq> ''ALL''"
  shows "u = v \<and> a = b"
proof -
  have "decimal u @ CHR '':'' # (if a = '''' then ''ALL'' else a) = decimal v @ CHR '':'' # (if b = '''' then ''ALL'' else b)"
    using assms(1) by (simp add: getKey_def fmt_d_def)
  from prefix_until[OF decimal_no_colon decimal_no_colon this] show ?thesis
    using decimal_inj assms(2,3) by (auto split: if_splits)
qed

text \<open>Every entry of an asset that is not called \<open>ALL\<close> holds what the database answers for it.\<close>

definition cache_exact :: "(bytes \<Rightarrow> goerror + GetBalancesRes) \<Rightarrow> query \<Rightarrow> redis \<Rightarrow> bool" where
  "cache_exact unmarshal query r \<longleftrightarrow>
     (\<forall>u a b res. a \<noteq> ''ALL'' \<longrightarrow> r (getKey u a) = Some b \<longrightarrow> unmarshal b = Inr res \<longrightarrow>
        (\<exists>rows. Repo_GetBalances query u a = Inr rows \<and> res = map (\<lambda>row. Some (to_pb row)) rows))"

lemma clone_rows: "cloneGetBalancesRes (Some (map (\<lambda>row. Some (to_pb row)) rows)) = map (\<lambda>row. Some (to_pb row)) rows"
  by (induction rows) (auto simp: cloneGetBalancesRes_def)

lemma cache_exact_delete: "cache_exact unmarshal query r \<Longrightarrow> cache_exact unmarshal query (r(k := None))"
  by (auto simp: cache_exact_def)

lemma cache_exact_set:
  assumes "\<And>res b. marshal res = Inr b \<Longrightarrow> unmarshal b = Inr res" and "cache_exact unmarshal query r"
    and "a \<noteq> ''ALL''" and "Repo_GetBalances query u a = Inr rows"
  shows "cache_exact unmarshal query (snd (Cache_SetBalances marshal x u a (map (\<lambda>row. Some (to_pb row)) rows) r))"
proof (cases "marshal (map (\<lambda>row. Some (to_pb row)) rows)")
  case (Inr b)
  show ?thesis
  proof (cases "set_err x")
    case None
    have "cache_exact unmarshal query (r(getKey u a \<mapsto> b))"
      unfolding cache_exact_def
    proof (intro allI impI)
      fix v c b' res
      assume c: "c \<noteq> ''ALL''" and g: "(r(getKey u a \<mapsto> b)) (getKey v c) = Some b'" and m: "unmarshal b' = Inr res"
      show "\<exists>rows. Repo_GetBalances query v c = Inr rows \<and> res = map (\<lambda>row. Some (to_pb row)) rows"
      proof (cases "getKey v c = getKey u a")
        case True
        then have "v = u" "c = a" using getKey_inj[OF _ c assms(3)] by blast+
        then show ?thesis using g m True assms(1)[OF Inr] assms(4) by simp
      next
        case False
        then show ?thesis using g m c assms(2) unfolding cache_exact_def by simp
      qed
    qed
    then show ?thesis using Inr None by (simp add: Cache_SetBalances_def)
  qed (use Inr assms(2) in \<open>simp add: Cache_SetBalances_def\<close>)
qed (use assms(2) in \<open>simp add: Cache_SetBalances_def\<close>)

text \<open>
  C34. While the balances do not change, the cache is invisible: whatever redis answers, a request gets what
  the database holds, or the database's error, and the cache stays exact. This leaves out an asset called
  \<open>ALL\<close>, whose key is that of the request for all assets.
\<close>

theorem cache_invisible:
  assumes "\<And>res b. marshal res = Inr b \<Longrightarrow> unmarshal b = Inr res" and "cache_exact unmarshal query r" and "a \<noteq> ''ALL''"
  shows "(case fst (GetBalances unmarshal marshal query x u a r) of
       Inr res \<Rightarrow> \<exists>rows. Repo_GetBalances query u a = Inr rows \<and> res = map (\<lambda>row. Some (to_pb row)) rows
     | Inl e \<Rightarrow> \<exists>m. Repo_GetBalances query u a = Inl m \<and> e = EStatus codes_Internal m) \<and>
    cache_exact unmarshal query (snd (GetBalances unmarshal marshal query x u a r))"
proof -
  let ?c = "Cache_GetBalances unmarshal x u a r"
  have ex: "cache_exact unmarshal query (snd ?c)"
    using assms(2) cache_exact_delete by (auto simp: Cache_GetBalances_def Let_def split: option.split sum.split)
  show ?thesis
  proof (cases "\<exists>res. fst ?c = Inr (Some res)")
    case True
    then obtain res where c: "?c = (Inr (Some res), snd ?c)" by (metis prod.collapse)
    then obtain b where "r (getKey u a) = Some b" "unmarshal b = Inr res"
      by (auto simp: Cache_GetBalances_def Let_def split: option.splits sum.splits if_splits)
    moreover have "GetBalances unmarshal marshal query x u a r = (Inr res, snd ?c)"
      unfolding GetBalances_def by (subst c) simp
    ultimately show ?thesis using assms(2,3) ex unfolding cache_exact_def by simp
  next
    case False
    then have G: "GetBalances unmarshal marshal query x u a r =
      (case Repo_GetBalances query u a of
         Inl e \<Rightarrow> (Inl (EStatus codes_Internal e), snd ?c)
       | Inr rows \<Rightarrow> (Inr (cloneGetBalancesRes (Some (map (\<lambda>row. Some (to_pb row)) rows))),
           snd (Cache_SetBalances marshal x u a (map (\<lambda>row. Some (to_pb row)) rows) (snd ?c))))"
      unfolding GetBalances_def Let_def
      by (cases ?c; cases "fst ?c"; cases "projr (fst ?c)") (auto split: sum.split simp: split_beta)
    show ?thesis
    proof (cases "Repo_GetBalances query u a")
      case (Inl e)
      then show ?thesis using ex by (simp add: G)
    next
      case (Inr rows)
      then show ?thesis using cache_exact_set[where marshal = marshal and x = x, OF assms(1) ex assms(3) Inr]
        by (simp add: G clone_rows)
    qed
  qed
qed

text \<open>An encoding of some answers, for the witness.\<close>

fun pb_bytes :: "GetBalancesRes \<Rightarrow> goerror + bytes" where
  "pb_bytes [] = Inr []"
| "pb_bytes (None # _) = Inl ''nil''"
| "pb_bytes (Some b # bs) =
     (if pbAsset b = ''A'' \<and> pbBucket b = ''spot'' \<and> UserId b < 256 \<and> 0 \<le> pbAmount b \<and> pbAmount b < 256
      then (case pb_bytes bs of Inl e \<Rightarrow> Inl e | Inr r \<Rightarrow> Inr (of_nat (UserId b) # of_int (pbAmount b) # r))
      else Inl ''range'')"

fun bytes_pb :: "bytes \<Rightarrow> goerror + GetBalancesRes" where
  "bytes_pb [] = Inr []"
| "bytes_pb [_] = Inl ''short''"
| "bytes_pb (u # a # r) =
     (case bytes_pb r of
        Inl e \<Rightarrow> Inl e
      | Inr bs \<Rightarrow> Inr (Some \<lparr>UserId = unat u, pbAsset = ''A'', pbBucket = ''spot'', pbAmount = uint a\<rparr> # bs))"

lemma pb_bytes_law: "pb_bytes res = Inr b \<Longrightarrow> bytes_pb b = Inr res"
proof (induction res arbitrary: b rule: pb_bytes.induct)
  case (3 x bs)
  then show ?case by (auto simp: unat_of_nat uint_word_of_int split: if_splits sum.splits)
qed simp_all

definition one_row :: query where
  "one_row t u a = Inr (if u = 7 then [\<lparr>OwnerType = 1, OwnerID = 7, rowAsset = ''A'', rowBucket = ''spot'', rowAmount = 5\<rparr>] else [])"

definition no_errs :: RedisErrs where
  "no_errs = \<lparr>get_err = None, del_err = None, set_err = None\<rparr>"

theorem cache_invisible_witness:
  "fst (GetBalances bytes_pb pb_bytes one_row no_errs 7 ''A''
      (snd (GetBalances bytes_pb pb_bytes one_row no_errs 7 ''A'' Map.empty))) =
   Inr [Some \<lparr>UserId = 7, pbAsset = ''A'', pbBucket = ''spot'', pbAmount = 5\<rparr>]"
proof -
  have e: "cache_exact bytes_pb one_row Map.empty" by (simp add: cache_exact_def)
  let ?G = "GetBalances bytes_pb pb_bytes one_row no_errs 7 ''A''"
  have once: "(case fst (?G r) of
       Inr res \<Rightarrow> \<exists>rows. Repo_GetBalances one_row 7 ''A'' = Inr rows \<and> res = map (\<lambda>row. Some (to_pb row)) rows
     | Inl e \<Rightarrow> \<exists>m. Repo_GetBalances one_row 7 ''A'' = Inl m \<and> e = EStatus codes_Internal m) \<and>
    cache_exact bytes_pb one_row (snd (?G r))" if "cache_exact bytes_pb one_row r" for r
    by (rule cache_invisible) (use pb_bytes_law that in simp_all)
  have "cache_exact bytes_pb one_row (snd (?G Map.empty))" using once[OF e] by simp
  from once[OF this] show ?thesis
    by (auto simp: Repo_GetBalances_def one_row_def to_pb_def split: sum.splits)
qed

text \<open>A request for the asset \<open>ALL\<close> is answered with the entry of the request for all assets.\<close>

lemma all_shares_key:
  assumes "r (getKey u '''') = Some b" and "unmarshal b = Inr res" and "get_err x = None"
  shows "GetBalances unmarshal marshal query x u ''ALL'' r = (Inr res, r)"
proof -
  have "getKey u ''ALL'' = getKey u ''''" by (simp add: getKey_def)
  then show ?thesis using assms by (simp add: GetBalances_def Cache_GetBalances_def Let_def)
qed

lemma withJitter_bounds:
  assumes "\<And>j. 0 < j \<Longrightarrow> 0 \<le> rnd j \<and> rnd j < j" and "0 < t" and "0 < j" and "t + j \<le> 2 ^ 62"
  shows "t \<le> withJitter rnd t j \<and> withJitter rnd t j < t + j"
proof -
  have "0 \<le> rnd j" "rnd j < j" using assms(1)[OF assms(3)] by auto
  moreover have "is_i64 (t + rnd j)" using assms(2,4) calculation by (simp add: is_i64_def)
  ultimately show ?thesis using assms(2,3) by (simp add: withJitter_def i64_id)
qed

subsection \<open>Rate limits\<close>

text \<open>Requests at their times and turns of the janitor, and the answers that one key gets.\<close>

datatype lim_ev = Req int string | Clean int

fun run_limiter :: "'l \<Rightarrow> (int \<Rightarrow> 'l \<Rightarrow> bool \<times> 'l) \<Rightarrow> string \<Rightarrow> lim_ev list \<Rightarrow> 'l Store \<Rightarrow> bool list" where
  "run_limiter fresh allow k [] s = []"
| "run_limiter fresh allow k (Req t k' # es) s =
     (let (ok, s1) = Store_Allow fresh allow t k' s; oks = run_limiter fresh allow k es s1
      in if k' = k then ok # oks else oks)"
| "run_limiter fresh allow k (Clean t # es) s = run_limiter fresh allow k es (cleanup t s)"

text \<open>One bucket, asked at the times at which the key asks.\<close>

fun bucket_answers :: "(int \<Rightarrow> 'l \<Rightarrow> bool \<times> 'l) \<Rightarrow> int list \<Rightarrow> 'l \<Rightarrow> bool list" where
  "bucket_answers allow [] l = []"
| "bucket_answers allow (t # ts) l = (let (ok, l1) = allow t l in ok # bucket_answers allow ts l1)"

fun times :: "string \<Rightarrow> lim_ev list \<Rightarrow> int list" where
  "times k [] = []"
| "times k (Req t k' # es) = (if k' = k then t # times k es else times k es)"
| "times k (Clean t # es) = times k es"

text \<open>No janitor finds the key idle for longer than the store keeps it.\<close>

fun never_idle :: "int \<Rightarrow> string \<Rightarrow> int option \<Rightarrow> lim_ev list \<Rightarrow> bool" where
  "never_idle d k seen [] \<longleftrightarrow> True"
| "never_idle d k seen (Req t k' # es) \<longleftrightarrow> never_idle d k (if k' = k then Some t else seen) es"
| "never_idle d k seen (Clean t # es) \<longleftrightarrow> (\<forall>s. seen = Some s \<longrightarrow> t - d \<le> s) \<and> never_idle d k seen es"

lemma Store_Allow_facts:
  assumes "Store_Allow fresh allow t k' s = (ok, s1)"
  shows "ttl s1 = ttl s" "distinct (map_keys (entries s)) \<Longrightarrow> distinct (map_keys (entries s1))"
    "k \<noteq> k' \<Longrightarrow> map_get (entries s1) k = map_get (entries s) k"
    "allow t (case map_get (entries s) k' of None \<Rightarrow> fresh | Some e \<Rightarrow> limiter e) = (ok, l) \<Longrightarrow>
     map_get (entries s1) k' = Some \<lparr>limiter = l, lastSeen = t\<rparr>"
    "fst (allow t (case map_get (entries s) k' of None \<Rightarrow> fresh | Some e \<Rightarrow> limiter e)) = ok"
  using assms by (auto simp: Store_Allow_def Let_def split_beta map_get_set distinct_map_ops split: option.splits)

lemma run_limiter_bucket:
  assumes "distinct (map_keys (entries s))" and "never_idle (ttl s) k (map_option lastSeen (map_get (entries s) k)) es"
  shows "run_limiter fresh allow k es s =
    bucket_answers allow (times k es) (case map_get (entries s) k of None \<Rightarrow> fresh | Some e \<Rightarrow> limiter e)"
  using assms
proof (induction es arbitrary: s)
  case (Cons e es)
  show ?case
  proof (cases e)
    case (Req t k')
    obtain ok s1 where A: "Store_Allow fresh allow t k' s = (ok, s1)" by (cases "Store_Allow fresh allow t k' s")
    note F = Store_Allow_facts[OF A]
    show ?thesis
    proof (cases "k' = k")
      case True
      obtain l where l: "allow t (case map_get (entries s) k of None \<Rightarrow> fresh | Some e \<Rightarrow> limiter e) = (ok, l)"
        using F(5) True by (cases "allow t (case map_get (entries s) k of None \<Rightarrow> fresh | Some e \<Rightarrow> limiter e)") simp
      have g: "map_get (entries s1) k = Some \<lparr>limiter = l, lastSeen = t\<rparr>" using F(4)[of l] l True by simp
      show ?thesis using Cons.IH[of s1] Cons.prems F(1,2) Req True A l g by simp
    next
      case False
      then show ?thesis using Cons.IH[of s1] Cons.prems F(1,2) F(3)[of k] Req A by simp
    qed
  next
    case (Clean t)
    have "map_get (entries (cleanup t s)) k = map_get (entries s) k"
      using Cons.prems map_get_filter[OF Cons.prems(1), of "\<lambda>_ e. \<not> lastSeen e < t - ttl s" k] Clean
      by (auto simp: cleanup_def split: option.splits)
    then show ?thesis using Cons.IH[of "cleanup t s"] Cons.prems Clean distinct_map_filter[OF Cons.prems(1)]
      by (simp add: cleanup_def)
  qed
qed simp

text \<open>
  C35. Every key has a token bucket of its own: whatever other keys ask, and whenever the janitor runs, a key
  that is not idle for longer than the store keeps it gets the answers of one bucket asked at its times.
\<close>

theorem limiter_isolated:
  assumes "never_idle (ttl (NewStore d :: 'l Store)) k None es"
  shows "run_limiter fresh allow k es (NewStore d :: 'l Store) = bucket_answers allow (times k es) fresh"
  using run_limiter_bucket[of "NewStore d :: 'l Store" k es fresh allow] assms by (simp add: NewStore_def map_keys_def)

theorem limiter_isolated_witness:
  "run_limiter (1 :: int) (\<lambda>t n. (n > 0, n - 1)) ''a'' [Req 0 ''a'', Req 0 ''b'', Clean 5, Req 6 ''a''] (NewStore 10) = [True, False]"
  using limiter_isolated[where 'l = int and d = 10 and k = "''a''" and fresh = 1 and allow = "\<lambda>t n. (n > 0, n - 1)"
      and es = "[Req 0 ''a'', Req 0 ''b'', Clean 5, Req 6 ''a'']"]
  by (simp add: NewStore_def)

subsection \<open>The master lock\<close>

text \<open>
  The check and the renewal are two commands: when the lock expires between them and another node takes it,
  the first node renews the lock of the other, and both are told that they are the master.
\<close>

lemma two_masters:
  assumes "i \<noteq> j" and "pcs s i = Idle" and "pcs s j = Idle" and "holder s = Some i"
  shows "\<exists>s'. lock_steps s s' \<and> pcs s' i = Acquired True \<and> pcs s' j = Acquired True \<and> holder s' = Some j"
proof -
  let ?s1 = "s\<lparr>pcs := (pcs s)(i := Check)\<rparr>"
  let ?s2 = "?s1\<lparr>pcs := (pcs ?s1)(i := Renew)\<rparr>"
  let ?s3 = "?s2\<lparr>holder := None\<rparr>"
  let ?s4 = "?s3\<lparr>holder := Some j, pcs := (pcs ?s3)(j := Acquired True)\<rparr>"
  let ?s5 = "?s4\<lparr>pcs := (pcs ?s4)(i := Acquired True)\<rparr>"
  have 1: "lock_step s ?s1" by (rule lock_step.taken) (use assms in simp_all)
  have 2: "lock_step ?s1 ?s2" by (rule lock_step.mine) (use assms in simp_all)
  have 3: "lock_step ?s2 ?s3" by (rule lock_step.expires)
  have 4: "lock_step ?s3 ?s4" by (rule lock_step.take_free) (use assms in simp_all)
  have 5: "lock_step ?s4 ?s5" by (rule lock_step.renewed) (use assms in simp_all)
  from 1 2 3 4 5 have "lock_steps s ?s5" by (blast intro: lock_steps.intros)
  then show ?thesis using assms(1) by (intro exI[of _ ?s5]) simp
qed

end
