(* ===== verification/Sources.thy ===== *)
theory Sources
  imports Ws_Hub
begin

text \<open>
  \<^verbatim>\<open>internal/quotes/datasource\<close> and \<^verbatim>\<open>internal/quotes/mdsource\<close>: the messages of two exchanges as trades
  of one model, the reading loop of a connection, and the runner that connects again after an error. JSON and
  the parsing of times are parameters; the case of letters is that of ASCII.
\<close>

subsection \<open>Sides\<close>

definition SideUnknown :: uint8 where "SideUnknown = 1"
definition SideBuy :: uint8 where "SideBuy = 2"
definition SideSell :: uint8 where "SideSell = 3"

definition Side_String :: "uint8 \<Rightarrow> string" where
  "Side_String s = (if s = SideBuy then ''BUY'' else if s = SideSell then ''SELL'' else ''UNKNOWN'')"

definition ToUpper :: "string \<Rightarrow> string" where
  "ToUpper s = map upper s"

subsection \<open>Binance\<close>

record bnAggTrade =
  EventType :: string
  bnSymbol :: string
  AggID :: int
  bnPrice :: string
  bnQty :: string
  TradeTime :: int
  bnM :: bool

definition quotes :: "string list" where
  "quotes =
     [''FDUSD'', ''USDT'', ''USDC'', ''BUSD'', ''TUSD'', ''BTC'', ''ETH'', ''BNB'',
      ''EUR'', ''GBP'', ''TRY'', ''JPY'', ''AUD'', ''BRL'', ''RUB'']"

definition HasSuffix :: "string \<Rightarrow> string \<Rightarrow> bool" where
  "HasSuffix s q \<longleftrightarrow> length q \<le> length s \<and> drop (length s - length q) s = q"

fun split_loop :: "string \<Rightarrow> string list \<Rightarrow> (string \<times> string) option" where
  "split_loop s [] = None"
| "split_loop s (q # qs) =
     (if HasSuffix s q \<and> length s > length q then Some (take (length s - length q) s, q) else split_loop s qs)"

definition splitBinanceSymbol :: "string \<Rightarrow> (string \<times> string) option" where
  "splitBinanceSymbol s = split_loop (ToUpper s) quotes"

definition ParseBinanceAggTradeCombined ::
  "(bytes \<Rightarrow> goerror + bytes) \<Rightarrow> (bytes \<Rightarrow> goerror + bnAggTrade) \<Rightarrow> bytes \<Rightarrow> goerror + MdTrade" where
  "ParseBinanceAggTradeCombined unwrap unmarshal b =
     (case unwrap b of
        Inl e \<Rightarrow> Inl e
      | Inr data \<Rightarrow>
          (case unmarshal data of
             Inl e \<Rightarrow> Inl e
           | Inr a \<Rightarrow>
               if EventType a \<noteq> ''aggTrade'' then Inl ''not aggTrade''
               else (case splitBinanceSymbol (bnSymbol a) of
                       None \<Rightarrow> Inl (''cannot split symbol: '' @ bnSymbol a)
                     | Some (base, quot) \<Rightarrow>
                         Inr \<lparr>Src = ''binance'', Symbol = base @ ''-'' @ quot, Base = base, Quote = quot,
                              PriceStr = bnPrice a, SizeStr = bnQty a,
                              MakerSide = (if bnM a then SideBuy else SideSell),
                              TsUnixMs = TradeTime a, TradeID = fmt_d (AggID a)\<rparr>)))"

subsection \<open>Coinbase\<close>

record cbTrade =
  cbTradeID :: string
  ProductID :: string
  cbPrice :: string
  cbSize :: string
  cbSide :: string
  cbTime :: string

record cbMarketTradesMsg =
  Channel :: string
  Events :: "cbTrade list list"

text \<open>\<open>strings.Split\<close> at a dash.\<close>

fun split_dash :: "string \<Rightarrow> string list" where
  "split_dash [] = [[]]"
| "split_dash (c # s) =
     (if c = CHR ''-'' then [] # split_dash s
      else case split_dash s of p # ps \<Rightarrow> (c # p) # ps | [] \<Rightarrow> [[c]])"

definition splitByDash :: "string \<Rightarrow> (string \<times> string) option" where
  "splitByDash productID = (case split_dash productID of [b, q] \<Rightarrow> Some (b, q) | _ \<Rightarrow> None)"

definition parseSideUpper :: "string \<Rightarrow> uint8" where
  "parseSideUpper s =
     (if ToUpper s = ''BUY'' then SideBuy else if ToUpper s = ''SELL'' then SideSell else SideUnknown)"

text \<open>\<open>nano\<close> and \<open>rfc\<close> parse a time in one of the two layouts, to milliseconds.\<close>

definition cb_trade :: "(string \<Rightarrow> int option) \<Rightarrow> (string \<Rightarrow> int option) \<Rightarrow> cbTrade \<Rightarrow> MdTrade list" where
  "cb_trade nano rfc t =
     (case splitByDash (ProductID t) of
        None \<Rightarrow> []
      | Some (base, quot) \<Rightarrow>
          (case (case nano (cbTime t) of Some ts \<Rightarrow> Some ts | None \<Rightarrow> rfc (cbTime t)) of
             None \<Rightarrow> []
           | Some ts \<Rightarrow>
               [\<lparr>Src = ''coinbase'', Symbol = base @ ''-'' @ quot, Base = base, Quote = quot, PriceStr = cbPrice t,
                 SizeStr = cbSize t, MakerSide = parseSideUpper (cbSide t), TsUnixMs = ts, TradeID = cbTradeID t\<rparr>]))"

text \<open>
  The message is decoded into a pointer to the pooled pointer: \<open>Inr None\<close> is the JSON value \<open>null\<close>, which
  sets the pointer to \<open>nil\<close>.
\<close>

definition ParseCoinbaseMarketTrades ::
  "(string \<Rightarrow> int option) \<Rightarrow> (string \<Rightarrow> int option) \<Rightarrow> (bytes \<Rightarrow> goerror + cbMarketTradesMsg option) \<Rightarrow> bytes \<Rightarrow>
   (goerror + MdTrade list) go" where
  "ParseCoinbaseMarketTrades nano rfc unmarshal b =
     (case unmarshal b of
        Inl e \<Rightarrow> Ret (Inl e)
      | Inr None \<Rightarrow> Panic
      | Inr (Some msg) \<Rightarrow>
          if Channel msg \<noteq> ''market_trades'' then Ret (Inl ''not market_trades'')
          else Ret (Inr (concat (map (\<lambda>ev. concat (map (cb_trade nano rfc) ev)) (Events msg)))))"

subsection \<open>One connection\<close>

text \<open>
  What a connection reads, message by message; when the list ends the context has ended. A message that does
  not parse is skipped.
\<close>

datatype src_end = Cancelled | Failed goerror

fun read_loop :: "(bytes \<Rightarrow> (goerror + MdTrade list) go) \<Rightarrow> (goerror + bytes) list \<Rightarrow> MdTrade list \<Rightarrow> (src_end \<times> MdTrade list) go" where
  "read_loop parse [] out = Ret (Cancelled, out)"
| "read_loop parse (Inl e # reads) out = Ret (Failed e, out)"
| "read_loop parse (Inr b # reads) out =
     andThen (parse b) (\<lambda>r. case r of Inl _ \<Rightarrow> read_loop parse reads out | Inr ts \<Rightarrow> read_loop parse reads (out @ ts))"

text \<open>\<open>dial\<close> and \<open>sub\<close> are the errors of connecting and of subscribing.\<close>

definition coinbase_Run ::
  "(bytes \<Rightarrow> (goerror + MdTrade list) go) \<Rightarrow> goerror option \<Rightarrow> goerror option \<Rightarrow> (goerror + bytes) list \<Rightarrow> MdTrade list \<Rightarrow>
   (src_end \<times> MdTrade list) go" where
  "coinbase_Run parse dial sub reads out =
     (case dial of
        Some e \<Rightarrow> Ret (Failed e, out)
      | None \<Rightarrow> (case sub of Some e \<Rightarrow> Ret (Failed e, out) | None \<Rightarrow> read_loop parse reads out))"

definition binance_Run ::
  "(bytes \<Rightarrow> goerror + MdTrade) \<Rightarrow> goerror option \<Rightarrow> (goerror + bytes) list \<Rightarrow> MdTrade list \<Rightarrow> (src_end \<times> MdTrade list) go" where
  "binance_Run parse dial reads out =
     (case dial of
        Some e \<Rightarrow> Ret (Failed e, out)
      | None \<Rightarrow> read_loop (\<lambda>b. Ret (case parse b of Inl e \<Rightarrow> Inl e | Inr t \<Rightarrow> Inr [t])) reads out)"

subsection \<open>The runner\<close>

record Runner =
  BaseBackoff :: int
  MaxBackoff :: int
  runErr :: "(string \<times> goerror) list"

definition NewRunner :: Runner where
  "NewRunner = \<lparr>BaseBackoff = 300 * Millisecond, MaxBackoff = 5 * Second, runErr = []\<rparr>"

text \<open>
  A turn of \<open>runOne\<close> after a connection has ended with \<open>res\<close> (\<open>None\<close>: no error): the errors reported, the
  time slept and the next backoff, or \<open>None\<close> when the runner returns. \<open>rnd\<close> is \<open>rand.Int63n\<close>, \<open>done\<close>
  says that the context ends while it waits. The channel of errors holds 128.
\<close>

definition run_turn ::
  "(int \<Rightarrow> int) \<Rightarrow> string \<Rightarrow> src_end option \<Rightarrow> bool \<Rightarrow> Runner \<Rightarrow> int \<Rightarrow> Runner \<times> (int \<times> int) option" where
  "run_turn rnd name res done r backoff =
     (case res of
        None \<Rightarrow> (r, None)
      | Some Cancelled \<Rightarrow> (r, None)
      | Some (Failed e) \<Rightarrow>
          let r1 = (if length (runErr r) < 128 then r\<lparr>runErr := runErr r @ [(name, e)]\<rparr> else r);
              sleep0 = i64 (backoff + rnd (go_div backoff 2 + 1));
              sleep = (if sleep0 > MaxBackoff r then MaxBackoff r else sleep0);
              b1 = i64 (backoff * 2);
              b2 = (if b1 > MaxBackoff r then MaxBackoff r else b1)
          in if done then (r1, None) else (r1, Some (sleep, b2)))"

text \<open>A source that fails again and again: the times slept.\<close>

fun sleeps :: "(int \<Rightarrow> int) \<Rightarrow> string \<Rightarrow> goerror list \<Rightarrow> Runner \<Rightarrow> int \<Rightarrow> int list" where
  "sleeps rnd name [] r backoff = []"
| "sleeps rnd name (e # es) r backoff =
     (case run_turn rnd name (Some (Failed e)) False r backoff of
        (r1, Some (sleep, b)) \<Rightarrow> sleep # sleeps rnd name es r1 b
      | (r1, None) \<Rightarrow> [])"

end
