(* ===== verification/Platform.thy ===== *)
theory Platform
  imports Api_Errors
begin

text \<open>
  \<^verbatim>\<open>pkg/register\<close> and \<^verbatim>\<open>pkg/bootstrap\<close>: how a service registers itself and is found, how it starts and
  stops, and the rules it gives to sentinel. Etcd's keys, JSON and the outcome of every step of the start are
  parameters.
\<close>

subsection \<open>Registration\<close>

record Instance =
  insID :: string
  insName :: string
  insAddr :: string

text \<open>Etcd as the service sees it: the keys and values, in the order of the keys.\<close>

type_synonym etcd = "(string, bytes) gomap"

definition reg_key :: "string \<Rightarrow> Instance \<Rightarrow> string" where
  "reg_key basePath ins = basePath @ ''/'' @ insName ins @ ''/'' @ insID ins"

record RegErrs =
  grant_err :: "goerror option"
  put_err :: "goerror option"
  keepalive_err :: "goerror option"
  delete_err :: "goerror option"
  revoke_err :: "goerror option"

definition Etcd_Register :: "(Instance \<Rightarrow> goerror + bytes) \<Rightarrow> RegErrs \<Rightarrow> string \<Rightarrow> Instance \<Rightarrow> etcd \<Rightarrow> goerror option \<times> etcd" where
  "Etcd_Register marshal x basePath ins e =
     (case grant_err x of
        Some er \<Rightarrow> (Some er, e)
      | None \<Rightarrow>
          (case marshal ins of
             Inl er \<Rightarrow> (Some er, e)
           | Inr val \<Rightarrow>
               (case put_err x of
                  Some er \<Rightarrow> (Some er, e)
                | None \<Rightarrow> (keepalive_err x, map_set e (reg_key basePath ins) val))))"

definition Etcd_UnRegister :: "RegErrs \<Rightarrow> string \<Rightarrow> Instance \<Rightarrow> etcd \<Rightarrow> goerror option \<times> etcd" where
  "Etcd_UnRegister x basePath ins e =
     (case delete_err x of
        Some er \<Rightarrow> (Some (''delete instance: '' @ er), e)
      | None \<Rightarrow>
          (case revoke_err x of
             Some er \<Rightarrow> (Some (''Revoke instance: '' @ er), map_delete e (reg_key basePath ins))
           | None \<Rightarrow> (None, map_delete e (reg_key basePath ins))))"

definition HasPrefix :: "string \<Rightarrow> string \<Rightarrow> bool" where
  "HasPrefix s p \<longleftrightarrow> take (length p) s = p"

definition with_prefix :: "string \<Rightarrow> etcd \<Rightarrow> bytes list" where
  "with_prefix p e = map snd (filter (\<lambda>(k, v). HasPrefix k p) e)"

text \<open>\<open>Discovery\<close> asks for the keys that begin with the service; what does not parse is skipped.\<close>

fun decode_all :: "(bytes \<Rightarrow> goerror + Instance) \<Rightarrow> bytes list \<Rightarrow> Instance list" where
  "decode_all unmarshal [] = []"
| "decode_all unmarshal (v # vs) =
     (case unmarshal v of Inl _ \<Rightarrow> decode_all unmarshal vs | Inr i \<Rightarrow> i # decode_all unmarshal vs)"

definition Discovery :: "(bytes \<Rightarrow> goerror + Instance) \<Rightarrow> goerror option \<Rightarrow> string \<Rightarrow> string \<Rightarrow> etcd \<Rightarrow> goerror + Instance list" where
  "Discovery unmarshal er basePath serviceName e =
     (case er of
        Some x \<Rightarrow> Inl x
      | None \<Rightarrow> Inr (decode_all unmarshal (with_prefix (basePath @ ''/'' @ serviceName) e)))"

definition PickOne :: "(nat \<Rightarrow> nat) \<Rightarrow> Instance list \<Rightarrow> Instance option" where
  "PickOne rnd instances = (if instances = [] then None else Some (instances ! rnd (length instances)))"

text \<open>The resolver of gRPC: instances by identity, the last of one identity wins; the addresses it reports.\<close>

record etcdResolver =
  rBasePath :: string
  rServiceName :: string
  rAddresses :: "(string, Instance) gomap"
  rState :: "string list"

definition resolver_prefix :: "etcdResolver \<Rightarrow> string" where
  "resolver_prefix r = rBasePath r @ ''/'' @ rServiceName r @ ''/''"

definition updateAddresses :: "(bytes \<Rightarrow> goerror + Instance) \<Rightarrow> goerror option \<Rightarrow> etcd \<Rightarrow> etcdResolver \<Rightarrow> goerror option \<times> etcdResolver" where
  "updateAddresses unmarshal er e r =
     (case er of
        Some x \<Rightarrow> (Some x, r)
      | None \<Rightarrow>
          let newAddrs = fold (\<lambda>ins m. map_set m (insID ins) ins) (decode_all unmarshal (with_prefix (resolver_prefix r) e)) []
          in (None, r\<lparr>rAddresses := newAddrs, rState := map (\<lambda>(k, ins). insAddr ins) newAddrs\<rparr>))"

text \<open>A turn of \<open>watch\<close>: a change, or an error of the watch.\<close>

definition watch_turn :: "(bytes \<Rightarrow> goerror + Instance) \<Rightarrow> bool \<Rightarrow> goerror option \<Rightarrow> etcd \<Rightarrow> etcdResolver \<Rightarrow> etcdResolver" where
  "watch_turn unmarshal watch_err er e r = (if watch_err then r else snd (updateAddresses unmarshal er e r))"

subsection \<open>Starting and stopping a service\<close>

text \<open>What a start opens and closes, in order.\<close>

datatype resource = Database | Redis | Tracer | EtcdClient | Registration

datatype effect = Open resource | Close resource | Serve | GracefulStop

text \<open>
  The options and the outcome of each step: \<open>None\<close> for a step that is left out, else its error, if any. The
  etcd steps run when the configuration names endpoints.
\<close>

record Start =
  required :: bool
  load_config :: "goerror option"
  init_sentinel :: "goerror option option"
  build_db :: "goerror option option"
  build_redis :: "goerror option option"
  init_tracer :: "goerror option option"
  build_services :: "goerror option"
  register_grpc :: "goerror option"
  etcd_connect :: "goerror option option"
  etcd_register :: "goerror option"

definition step_fails :: "goerror option option \<Rightarrow> goerror option" where
  "step_fails s = (case s of None \<Rightarrow> None | Some e \<Rightarrow> e)"

text \<open>\<open>defers\<close> is the stack of deferred closes, the last on top.\<close>

definition fail :: "string \<Rightarrow> goerror \<Rightarrow> effect list \<Rightarrow> effect list \<Rightarrow> goerror option \<times> effect list" where
  "fail what e acts defers = (Some (what @ e), acts @ defers)"

definition after_etcd :: "Start \<Rightarrow> effect list \<Rightarrow> effect list \<Rightarrow> goerror option \<times> effect list" where
  "after_etcd s acts defers =
     (None, acts @ [Serve] @ (if init_tracer s \<noteq> None then [Close Tracer] else []) @ [GracefulStop] @ defers)"

definition start_etcd :: "Start \<Rightarrow> effect list \<Rightarrow> effect list \<Rightarrow> goerror option \<times> effect list" where
  "start_etcd s acts defers =
     (case etcd_connect s of
        None \<Rightarrow> after_etcd s acts defers
      | Some (Some e) \<Rightarrow> fail ''connect etcd: '' e acts defers
      | Some None \<Rightarrow>
          let acts1 = acts @ [Open EtcdClient]; defers1 = Close EtcdClient # defers
          in case etcd_register s of
               Some e \<Rightarrow> fail ''register etcd: '' e acts1 defers1
             | None \<Rightarrow> after_etcd s (acts1 @ [Open Registration]) (Close Registration # defers1))"

definition start_services :: "Start \<Rightarrow> effect list \<Rightarrow> effect list \<Rightarrow> goerror option \<times> effect list" where
  "start_services s acts defers =
     (case step_fails (init_tracer s) of
        Some e \<Rightarrow> fail ''init tracer: '' e acts defers
      | None \<Rightarrow>
          let acts1 = (if init_tracer s \<noteq> None then acts @ [Open Tracer] else acts)
          in case build_services s of
               Some e \<Rightarrow> fail ''build services: '' e acts1 defers
             | None \<Rightarrow>
                 (case register_grpc s of
                    Some e \<Rightarrow> fail ''register grpc: '' e acts1 defers
                  | None \<Rightarrow> start_etcd s acts1 defers))"

definition start_redis :: "Start \<Rightarrow> effect list \<Rightarrow> effect list \<Rightarrow> goerror option \<times> effect list" where
  "start_redis s acts defers =
     (case step_fails (build_redis s) of
        Some e \<Rightarrow> fail ''init redis: '' e acts defers
      | None \<Rightarrow>
          if build_redis s \<noteq> None then start_services s (acts @ [Open Redis]) (Close Redis # defers)
          else start_services s acts defers)"

definition start_db :: "Start \<Rightarrow> effect list \<Rightarrow> effect list \<Rightarrow> goerror option \<times> effect list" where
  "start_db s acts defers =
     (case step_fails (build_db s) of
        Some e \<Rightarrow> fail ''init db: '' e acts defers
      | None \<Rightarrow>
          if build_db s \<noteq> None then start_redis s (acts @ [Open Database]) (Close Database # defers)
          else start_redis s acts defers)"

definition Bootstrap_Run :: "Start \<Rightarrow> goerror option \<times> effect list" where
  "Bootstrap_Run s =
     (if \<not> required s then (Some ''bootstrap: missing required options'', [])
      else case load_config s of
             Some e \<Rightarrow> fail ''load config: '' e [] []
           | None \<Rightarrow>
               (case step_fails (init_sentinel s) of
                  Some e \<Rightarrow> fail ''init sentinel: '' e [] []
                | None \<Rightarrow> start_db s [] []))"

subsection \<open>The rules of sentinel\<close>

text \<open>\<open>'f\<close> is \<open>float64\<close>: thresholds are handed on as they are.\<close>

record 'f FlowRule =
  flowResource :: string
  flowThreshold :: 'f
  flowStatIntervalMs :: uint32
  flowStrategy :: string
  flowControl :: string
  flowMaxQueueWaitMs :: uint32
  flowWarmUpSec :: uint32
  flowWarmUpColdFactor :: uint32

record 'f BreakerRule =
  brResource :: string
  brStrategy :: string
  brThreshold :: 'f
  brStatIntervalMs :: uint32
  brMinRequestAmount :: uint64
  brRetryTimeoutMs :: uint64

record 'f SentinelCfg =
  scEnabled :: bool
  flowEnabled :: bool
  flowRules :: "'f FlowRule list"
  breakerEnabled :: bool
  breakerRules :: "'f BreakerRule list"

datatype token_strategy = Direct | WarmUp | MemoryAdaptive
datatype control = Reject | Throttling
datatype break_strategy = SlowRequestRatio | ErrorRatio | ErrorCount

text \<open>The library's rules; what the code does not set is zero.\<close>

record 'f flow_Rule =
  fResource :: string
  fThreshold :: 'f
  fStatIntervalInMs :: uint32
  fTokenCalculateStrategy :: token_strategy
  fWarmUpPeriodSec :: uint32
  fWarmUpColdFactor :: uint32
  fControlBehavior :: control
  fMaxQueueingTimeMs :: uint32

record 'f breaker_Rule =
  bResource :: string
  bThreshold :: 'f
  bStatIntervalMs :: uint32
  bMinRequestAmount :: uint64
  bRetryTimeoutMs :: uint32
  bStrategy :: break_strategy

definition lower :: "char \<Rightarrow> char" where
  "lower c = (if CHR ''A'' \<le> c \<and> c \<le> CHR ''Z'' then char_of (of_char c + 32 :: nat) else c)"

definition ToLower :: "string \<Rightarrow> string" where
  "ToLower s = map lower s"

definition flow_rule :: "'f FlowRule \<Rightarrow> 'f flow_Rule" where
  "flow_rule rule =
     (let st = ToLower (flowStrategy rule);
          warm = (st = ''warmup'');
          queue = (ToLower (flowControl rule) = ''throttling'')
      in \<lparr>fResource = flowResource rule, fThreshold = flowThreshold rule, fStatIntervalInMs = flowStatIntervalMs rule,
          fTokenCalculateStrategy = (if warm then WarmUp else if st = ''memory_adaptive'' then MemoryAdaptive else Direct),
          fWarmUpPeriodSec = (if warm then flowWarmUpSec rule else 0),
          fWarmUpColdFactor = (if warm then flowWarmUpColdFactor rule else 0),
          fControlBehavior = (if queue then Throttling else Reject),
          fMaxQueueingTimeMs = (if queue then flowMaxQueueWaitMs rule else 0)\<rparr>)"

definition breaker_rule :: "'f BreakerRule \<Rightarrow> 'f breaker_Rule" where
  "breaker_rule rule =
     \<lparr>bResource = brResource rule, bThreshold = brThreshold rule, bStatIntervalMs = brStatIntervalMs rule,
      bMinRequestAmount = brMinRequestAmount rule, bRetryTimeoutMs = ucast (brRetryTimeoutMs rule),
      bStrategy =
        (if ToLower (brStrategy rule) = ''error_count'' then ErrorCount
         else if ToLower (brStrategy rule) = ''slow_request_ratio'' then SlowRequestRatio else ErrorRatio)\<rparr>"

text \<open>The error, and the rules given to the library: \<open>None\<close> where nothing is loaded.\<close>

definition InitSentinelFromCfg ::
  "goerror option \<Rightarrow> goerror option \<Rightarrow> goerror option \<Rightarrow> 'f SentinelCfg option \<Rightarrow>
   goerror option \<times> 'f flow_Rule list option \<times> 'f breaker_Rule list option" where
  "InitSentinelFromCfg init_err flow_err breaker_err cfg =
     (case cfg of
        None \<Rightarrow> (None, None, None)
      | Some sc \<Rightarrow>
          if \<not> (scEnabled sc \<or> flowEnabled sc \<or> breakerEnabled sc) then (None, None, None)
          else
            (case init_err of
               Some e \<Rightarrow> (Some (''init sentinel: '' @ e), None, None)
             | None \<Rightarrow>
                 let fr = (if flowEnabled sc then map flow_rule (filter (\<lambda>r. flowResource r \<noteq> '''') (flowRules sc)) else []);
                     br = (if breakerEnabled sc then map breaker_rule (filter (\<lambda>r. brResource r \<noteq> '''') (breakerRules sc)) else []);
                     loaded = (if fr = [] then None else Some fr)
                 in if fr \<noteq> [] \<and> flow_err \<noteq> None then (Some (''load flow rules: '' @ the flow_err), None, None)
                    else if br = [] then (None, loaded, None)
                    else (case breaker_err of
                            Some e \<Rightarrow> (Some (''load circuit breaker rules: '' @ e), loaded, None)
                          | None \<Rightarrow> (None, loaded, Some br))))"

subsection \<open>Circuit breakers\<close>

text \<open>
  \<^verbatim>\<open>pkg/ratelimit/circuitbreaker_client.go\<close>: the settings made for the library's breaker. The arithmetic of
  \<open>float64\<close> is a parameter: its zero, whether a rate is positive, and whether failures over requests reach it.
\<close>

record 'f Rule =
  MaxRequests :: uint32
  ruleInterval :: int
  BucketPeriod :: int
  ruleTimeout :: int
  TripConsecutiveFailures :: uint32
  TripFailureRate :: 'f
  TripMinRequests :: uint32

record Counts =
  cRequests :: uint32
  TotalFailures :: uint32
  ConsecutiveFailures :: uint32

text \<open>A breaker is known by its settings: the method and the rule.\<close>

record 'f Manager =
  breakers :: "string \<rightharpoonup> string \<times> 'f Rule"
  defaultRule :: "'f Rule"
  rules :: "string \<rightharpoonup> 'f Rule"

definition NewManager :: "'f \<Rightarrow> 'f Rule \<Rightarrow> (string \<rightharpoonup> 'f Rule) \<Rightarrow> 'f Manager" where
  "NewManager zero d perMethod =
     (let d1 = (if MaxRequests d = 0 then d\<lparr>MaxRequests := 5\<rparr> else d);
          d2 = (if ruleTimeout d1 \<le> 0 then d1\<lparr>ruleTimeout := 3000000000\<rparr> else d1);
          d3 = (if ruleInterval d2 \<le> 0 then d2\<lparr>ruleInterval := 10000000000\<rparr> else d2);
          d4 = (if TripConsecutiveFailures d3 = 0 \<and> TripFailureRate d3 = zero then d3\<lparr>TripConsecutiveFailures := 10\<rparr> else d3);
          d5 = (if TripMinRequests d4 = 0 then d4\<lparr>TripMinRequests := 20\<rparr> else d4)
      in \<lparr>breakers = Map.empty, defaultRule = d5, rules = perMethod\<rparr>)"

definition Manager_Get :: "string \<Rightarrow> 'f Manager \<Rightarrow> (string \<times> 'f Rule) \<times> 'f Manager" where
  "Manager_Get meth m =
     (case breakers m meth of
        Some cb \<Rightarrow> (cb, m)
      | None \<Rightarrow>
          let rule = (case rules m meth of Some r \<Rightarrow> r | None \<Rightarrow> defaultRule m)
          in ((meth, rule), m\<lparr>breakers := (breakers m)(meth \<mapsto> (meth, rule))\<rparr>))"

definition ReadyToTrip :: "('f \<Rightarrow> bool) \<Rightarrow> (uint32 \<Rightarrow> uint32 \<Rightarrow> 'f \<Rightarrow> bool) \<Rightarrow> 'f Rule \<Rightarrow> Counts \<Rightarrow> bool" where
  "ReadyToTrip positive reached rule c =
     (if TripConsecutiveFailures rule > 0 \<and> ConsecutiveFailures c \<ge> TripConsecutiveFailures rule then True
      else if positive (TripFailureRate rule) \<and> cRequests c \<ge> TripMinRequests rule
           then reached (TotalFailures c) (cRequests c) (TripFailureRate rule)
      else False)"

text \<open>
  The interceptor of a client: \<open>rejected\<close> says that the library's breaker is open or has too many requests;
  otherwise the call is made and its error passed on.
\<close>

definition CiruiteBreakUnaryClient :: "bool \<Rightarrow> err option \<Rightarrow> err option" where
  "CiruiteBreakUnaryClient rejected call =
     (if rejected then Some (EBiz (xerr_New (ACode codes_Unavailable) ''circuit breaker open'')) else call)"

end
