(* ===== verification/Platform_Properties.thy ===== *)
theory Platform_Properties
  imports Sources Platform
begin

text \<open>
  What the data sources, the registry and the start of a service do; each property is followed by a witness.
\<close>

subsection \<open>Symbols of an exchange\<close>

lemma lower_code:
  "CHR ''a'' \<le> c \<Longrightarrow> c \<le> CHR ''z'' \<Longrightarrow> of_char (char_of (of_char c - 32 :: nat)) = (of_char c - 32 :: nat)"
  by (subst of_char_of) (auto simp: less_eq_char_def)

lemma upper_facts:
  "upper (upper c) = upper c"
  "CHR ''A'' \<le> c \<Longrightarrow> c \<le> CHR ''Z'' \<Longrightarrow> upper c = c"
proof -
  show "upper (upper c) = upper c"
  proof (cases "CHR ''a'' \<le> c \<and> c \<le> CHR ''z''")
    case True
    then have "\<not> CHR ''a'' \<le> char_of (of_char c - 32 :: nat)" unfolding less_eq_char_def using lower_code[of c] by auto
    then show ?thesis using True by (simp add: upper_def)
  next
    case False
    then have "upper c = c" unfolding upper_def by (rule if_not_P)
    then show ?thesis by simp
  qed
  show "CHR ''A'' \<le> c \<Longrightarrow> c \<le> CHR ''Z'' \<Longrightarrow> upper c = c"
    by (auto simp: upper_def less_eq_char_def)
qed

lemma HasSuffix_append: "HasSuffix s q \<longleftrightarrow> (\<exists>b. s = b @ q)"
proof
  assume h: "HasSuffix s q"
  have "s = take (length s - length q) s @ drop (length s - length q) s" by simp
  then show "\<exists>b. s = b @ q" using h unfolding HasSuffix_def by metis
qed (auto simp: HasSuffix_def)

lemma quotes_apart: "\<forall>p \<in> set quotes. \<forall>q \<in> set quotes. HasSuffix q p \<longrightarrow> p = q"
  by (simp add: quotes_def HasSuffix_def)

lemma quotes_upper: "q \<in> set quotes \<Longrightarrow> ToUpper q = q"
  by (auto simp: quotes_def ToUpper_def upper_def less_eq_char_def)

lemma quotes_unique:
  assumes "p \<in> set quotes" "q \<in> set quotes" "a @ p = b @ q"
  shows "p = q"
proof (cases "length p \<le> length q")
  case True
  then have "HasSuffix q p" using assms(3) by (auto simp: HasSuffix_append append_eq_append_conv2)
  then show ?thesis using quotes_apart assms(1,2) by blast
next
  case False
  then have "HasSuffix p q" using assms(3) by (auto simp: HasSuffix_append append_eq_append_conv2)
  then show ?thesis using quotes_apart assms(1,2) by blast
qed

lemma split_loop_some: "split_loop s qs = Some (b, q) \<Longrightarrow> q \<in> set qs \<and> b @ q = s \<and> b \<noteq> []"
  by (induction qs) (auto simp: HasSuffix_append split: if_splits)

lemma split_loop_none: "split_loop s qs = None \<Longrightarrow> q \<in> set qs \<Longrightarrow> b \<noteq> [] \<Longrightarrow> s \<noteq> b @ q"
  by (induction qs) (auto simp: HasSuffix_append split: if_splits)

lemma splitBinanceSymbol_iff:
  "splitBinanceSymbol s = Some (b, q) \<longleftrightarrow> q \<in> set quotes \<and> b \<noteq> [] \<and> b @ q = ToUpper s"
proof (cases "split_loop (ToUpper s) quotes")
  case None
  then show ?thesis using split_loop_none[OF None, of q b] unfolding splitBinanceSymbol_def by (metis option.distinct(1))
next
  case (Some r)
  obtain b' q' where r: "r = (b', q')" by (cases r)
  note S = split_loop_some[OF Some[unfolded r]]
  have "q = q' \<and> b = b'" if "q \<in> set quotes" "b @ q = ToUpper s"
    using quotes_unique[of q q' b b'] S that by (metis append_same_eq)
  then show ?thesis using S Some r by (auto simp: splitBinanceSymbol_def)
qed

text \<open>Letters and digits.\<close>

definition plain :: "char \<Rightarrow> bool" where
  "plain c \<longleftrightarrow> is_digit c \<or> CHR ''A'' \<le> c \<and> c \<le> CHR ''Z'' \<or> CHR ''a'' \<le> c \<and> c \<le> CHR ''z''"

lemma plain_upper:
  assumes "plain c"
  shows "upper c \<noteq> CHR ''_''" "upper c \<noteq> CHR ''/''" "\<not> is_space (upper c)"
proof -
  have "upper c \<noteq> CHR ''_'' \<and> upper c \<noteq> CHR ''/'' \<and> \<not> is_space (upper c)"
  proof (cases "CHR ''a'' \<le> c \<and> c \<le> CHR ''z''")
    case True
    then have "of_char (upper c) = (of_char c - 32 :: nat)" using lower_code[of c] by (simp add: upper_def)
    moreover have "97 \<le> (of_char c :: nat)" "of_char c \<le> (122 :: nat)" using True by (simp_all add: less_eq_char_def)
    ultimately have u: "65 \<le> (of_char (upper c) :: nat)" "of_char (upper c) \<le> (90 :: nat)" by simp_all
    then show ?thesis by (auto simp: is_space_def less_eq_char_def)
  next
    case False
    then have "upper c = c" by (auto simp: upper_def)
    then show ?thesis using assms False by (auto simp: plain_def is_digit_def is_space_def less_eq_char_def)
  qed
  then show "upper c \<noteq> CHR ''_''" "upper c \<noteq> CHR ''/''" "\<not> is_space (upper c)" by blast+
qed

lemma upper_dash: "upper (CHR ''-'') = CHR ''-''"
  by (simp add: upper_def less_eq_char_def)

lemma normalize_joined:
  assumes "\<forall>c \<in> set b. plain c" and "\<forall>c \<in> set q. plain c" and "b \<noteq> []" and "q \<noteq> []"
  shows "normalizeSymbol (ToUpper b @ ''-'' @ ToUpper q) = ToUpper b @ ''-'' @ ToUpper q"
proof -
  let ?s = "ToUpper b @ ''-'' @ ToUpper q"
  have h: "\<not> is_space (hd ?s)" using assms(1,3) plain_upper(3) by (cases b) (auto simp: ToUpper_def)
  have l: "\<not> is_space (last ?s)" using assms(2,4) plain_upper(3) last_in_set[of q] by (auto simp: ToUpper_def last_map)
  have u: "map upper ?s = ?s" by (simp add: ToUpper_def upper_facts(1) upper_dash)
  have "c \<noteq> CHR ''_'' \<and> c \<noteq> CHR ''/''" if "c \<in> set ?s" for c
    using that assms(1,2) plain_upper(1,2) by (auto simp: ToUpper_def)
  then have m: "map (\<lambda>c. if c = CHR ''_'' then CHR ''-'' else c) ?s = ?s" "map (\<lambda>c. if c = CHR ''/'' then CHR ''-'' else c) ?s = ?s"
    by (intro map_idI; auto)+
  have "TrimSpace ?s = ?s" by (rule TrimSpace_id[OF _ h l]) simp
  then show ?thesis unfolding normalizeSymbol_def Let_def by (simp only: u m)
qed

text \<open>
  C30. A Binance symbol is split at its quote currency, in exactly one way, and the two parts give the symbol
  back; the symbol of the trade is then in the form in which topics are named.
\<close>

theorem symbol_split:
  "(splitBinanceSymbol s = Some (b, q) \<longleftrightarrow> q \<in> set quotes \<and> b \<noteq> [] \<and> b @ q = ToUpper s) \<and>
   ((\<forall>c \<in> set s. plain c) \<longrightarrow> splitBinanceSymbol s = Some (b, q) \<longrightarrow> normalizeSymbol (b @ ''-'' @ q) = b @ ''-'' @ q)"
proof (intro conjI impI)
  show "splitBinanceSymbol s = Some (b, q) \<longleftrightarrow> q \<in> set quotes \<and> b \<noteq> [] \<and> b @ q = ToUpper s"
    by (rule splitBinanceSymbol_iff)
  assume p: "\<forall>c \<in> set s. plain c" and sp: "splitBinanceSymbol s = Some (b, q)"
  then have S: "q \<in> set quotes" "b \<noteq> []" "b @ q = map upper s" by (simp_all add: splitBinanceSymbol_iff ToUpper_def)
  then obtain b0 q0 where s: "s = b0 @ q0" "b = ToUpper b0" "q = ToUpper q0"
    unfolding ToUpper_def by (metis map_eq_append_conv)
  have "q \<noteq> []" using S(1) by (auto simp: quotes_def)
  then show "normalizeSymbol (b @ ''-'' @ q) = b @ ''-'' @ q"
    using normalize_joined[of b0 q0] p s S(2) by (auto simp: ToUpper_def)
qed

theorem symbol_split_witness:
  "splitBinanceSymbol ''btcusdt'' = Some (''BTC'', ''USDT'') \<and> normalizeSymbol ''BTC-USDT'' = ''BTC-USDT''"
proof -
  have "splitBinanceSymbol ''btcusdt'' = Some (''BTC'', ''USDT'')" by code_simp
  then show ?thesis using symbol_split[of "''btcusdt''" "''BTC''" "''USDT''"]
    by (simp add: plain_def is_digit_def less_eq_char_def)
qed

text \<open>A message that is the JSON value \<open>null\<close> ends the program.\<close>

lemma null_message_panics:
  assumes "unmarshal b = Inr None"
  shows "coinbase_Run (ParseCoinbaseMarketTrades nano rfc unmarshal) None None (Inr b # reads) out = Panic"
  using assms by (simp add: coinbase_Run_def ParseCoinbaseMarketTrades_def)

subsection \<open>Connecting again\<close>

lemma run_turn_failed:
  assumes "\<forall>n > 0. 0 \<le> rnd n \<and> rnd n < n" and "0 < b" and "b \<le> MaxBackoff r" and "MaxBackoff r \<le> 2 ^ 61"
  shows "\<exists>r1 s. run_turn rnd name (Some (Failed e)) False r b = (r1, Some (s, min (MaxBackoff r) (2 * b))) \<and>
    MaxBackoff r1 = MaxBackoff r \<and> b \<le> s \<and> s \<le> min (MaxBackoff r) (b + b div 2)"
proof -
  have d: "go_div b 2 = b div 2" using assms(2) by (simp add: go_div_def)
  have r: "0 \<le> rnd (b div 2 + 1)" "rnd (b div 2 + 1) < b div 2 + 1"
    using assms(1)[rule_format, of "b div 2 + 1"] assms(2) by auto
  have w: "i64 (b * 2) = b * 2" "i64 (b + rnd (b div 2 + 1)) = b + rnd (b div 2 + 1)"
    using assms(2-4) r by (auto simp: is_i64_def intro!: i64_id)
  show ?thesis using assms(2,3) r by (auto simp: run_turn_def Let_def d w min_def)
qed

text \<open>
  C29. A source that keeps failing is tried again for ever, with pauses that start at the base, double, stay
  within half of themselves and never exceed the maximum, and no multiplication overflows.
\<close>

theorem runner_backoff:
  assumes "\<forall>n > 0. 0 \<le> rnd n \<and> rnd n < n" and "0 < b" and "b \<le> MaxBackoff r" and "MaxBackoff r \<le> 2 ^ 61"
  shows "length (sleeps rnd name es r b) = length es \<and>
    (\<forall>i < length es. let d = min (MaxBackoff r) (b * 2 ^ i) in
       d \<le> sleeps rnd name es r b ! i \<and> sleeps rnd name es r b ! i \<le> min (MaxBackoff r) (d + d div 2))"
  using assms(2-4)
proof (induction es arbitrary: b r)
  case (Cons e es)
  let ?M = "MaxBackoff r" and ?b = "min (MaxBackoff r) (2 * b)"
  obtain r1 s where T: "run_turn rnd name (Some (Failed e)) False r b = (r1, Some (s, ?b))" "MaxBackoff r1 = ?M"
    "b \<le> s" "s \<le> min ?M (b + b div 2)" using run_turn_failed[OF assms(1) Cons.prems] by blast
  have sl: "sleeps rnd name (e # es) r b = s # sleeps rnd name es r1 ?b" by (simp add: T(1))
  have IH: "length (sleeps rnd name es r1 ?b) = length es \<and>
    (\<forall>i < length es. let d = min ?M (?b * 2 ^ i) in
       d \<le> sleeps rnd name es r1 ?b ! i \<and> sleeps rnd name es r1 ?b ! i \<le> min ?M (d + d div 2))"
    using Cons.IH[of ?b r1] Cons.prems T(2) by simp
  have d: "min ?M (?b * 2 ^ i) = min ?M (b * 2 ^ Suc i)" for i
  proof (cases "2 * b \<le> ?M")
    case False
    have "?M * 1 \<le> ?M * 2 ^ i" using Cons.prems by (intro mult_left_mono) auto
    moreover have "2 * b * 1 \<le> 2 * b * 2 ^ i" using Cons.prems by (intro mult_left_mono) auto
    ultimately show ?thesis using False by (simp add: min_def mult.assoc mult.left_commute)
  qed (simp add: min_def mult.assoc mult.left_commute)
  show ?case unfolding sl
  proof (intro conjI allI impI)
    show "length (s # sleeps rnd name es r1 ?b) = length (e # es)" using IH by simp
    fix i assume i: "i < length (e # es)"
    show "let d = min ?M (b * 2 ^ i) in d \<le> (s # sleeps rnd name es r1 ?b) ! i \<and>
        (s # sleeps rnd name es r1 ?b) ! i \<le> min ?M (d + d div 2)"
    proof (cases i)
      case 0
      then show ?thesis using T(3,4) Cons.prems by (simp add: Let_def)
    next
      case (Suc j)
      then have "j < length es" using i by simp
      with IH have "let d = min ?M (?b * 2 ^ j) in d \<le> sleeps rnd name es r1 ?b ! j \<and>
        sleeps rnd name es r1 ?b ! j \<le> min ?M (d + d div 2)" by blast
      then show ?thesis unfolding d[of j] Suc by simp
    qed
  qed
qed simp

theorem runner_backoff_witness:
  "let s = sleeps (\<lambda>n. n - 1) ''coinbase'' [''eof'', ''eof'', ''eof'', ''eof'', ''eof''] NewRunner (BaseBackoff NewRunner)
   in 2 * BaseBackoff NewRunner \<le> s ! 1 \<and> s ! 4 \<le> 5 * Second"
proof -
  have p: "0 < BaseBackoff NewRunner" "BaseBackoff NewRunner \<le> MaxBackoff NewRunner" "MaxBackoff NewRunner \<le> 2 ^ 61"
    "MaxBackoff NewRunner = 5 * Second" "BaseBackoff NewRunner * 2 \<le> 5 * Second"
    by (simp_all add: NewRunner_def Second_def Millisecond_def)
  have "\<forall>n > 0. 0 \<le> n - 1 \<and> n - 1 < (n :: int)" by simp
  from runner_backoff[OF this p(1-3), of "''coinbase''" "[''eof'', ''eof'', ''eof'', ''eof'', ''eof'']"]
  have "\<forall>i < 5. let d = min (5 * Second) (BaseBackoff NewRunner * 2 ^ i) in
       d \<le> sleeps (\<lambda>n. n - 1) ''coinbase'' [''eof'', ''eof'', ''eof'', ''eof'', ''eof''] NewRunner (BaseBackoff NewRunner) ! i \<and>
       sleeps (\<lambda>n. n - 1) ''coinbase'' [''eof'', ''eof'', ''eof'', ''eof'', ''eof''] NewRunner (BaseBackoff NewRunner) ! i
         \<le> min (5 * Second) (d + d div 2)" by (simp add: p(4))
  from this[rule_format, of 1] this[rule_format, of 4] show ?thesis using p(5) by (simp add: Let_def del: sleeps.simps)
qed

subsection \<open>Registration and discovery\<close>

definition no_reg_errs :: RegErrs where
  "no_reg_errs = \<lparr>grant_err = None, put_err = None, keepalive_err = None, delete_err = None, revoke_err = None\<rparr>"

definition register_all :: "(Instance \<Rightarrow> goerror + bytes) \<Rightarrow> string \<Rightarrow> Instance list \<Rightarrow> etcd" where
  "register_all marshal base is = fold (\<lambda>i e. snd (Etcd_Register marshal no_reg_errs base i e)) is []"

lemma set_map_set: "set (map_set m k v) = {p \<in> set m. fst p \<noteq> k} \<union> {(k, v)}"
  by (auto simp: map_set_def map_delete_def)

lemma set_fold_map_set:
  "inj_on key (set xs) \<Longrightarrow> set (fold (\<lambda>x m. map_set m (key x) (val x)) xs []) = (\<lambda>x. (key x, val x)) ` set xs"
proof (induction xs rule: rev_induct)
  case (snoc x xs)
  have "inj_on key (set xs)" using snoc.prems by (simp add: inj_on_def)
  with snoc have IH: "set (fold (\<lambda>x m. map_set m (key x) (val x)) xs []) = (\<lambda>x. (key x, val x)) ` set xs" by blast
  have "val y = val x" if "y \<in> set xs" "key y = key x" for y using snoc.prems that by (auto simp: inj_on_def)
  then show ?case by (auto simp: set_map_set IH)
qed simp

lemma set_decode_all: "set (decode_all unmarshal vs) = {i. \<exists>v \<in> set vs. unmarshal v = Inr i}"
  by (induction vs) (auto split: sum.split)

text \<open>Names without a slash, and an identity for each instance.\<close>

definition named_apart :: "Instance list \<Rightarrow> bool" where
  "named_apart is \<longleftrightarrow> inj_on insID (set is) \<and> (\<forall>i \<in> set is. CHR ''/'' \<notin> set (insName i))"

lemma until_slash:
  assumes "c \<notin> set xs" and "c \<notin> set ys"
  shows "take (length (xs @ [c])) (ys @ c # vs) = xs @ [c] \<longleftrightarrow> xs = ys"
  using assms
proof (induction xs arbitrary: ys)
  case Nil
  then show ?case by (cases ys) auto
next
  case (Cons x xs)
  then show ?case by (cases ys) auto
qed

lemma reg_key_prefix:
  assumes "CHR ''/'' \<notin> set (insName i)" and "CHR ''/'' \<notin> set n"
  shows "HasPrefix (reg_key base i) (base @ ''/'' @ n @ ''/'') \<longleftrightarrow> insName i = n"
  using until_slash[OF assms(2,1), of "insID i"] by (auto simp: HasPrefix_def reg_key_def)

lemma register_all_values:
  assumes "named_apart is" and "\<forall>i \<in> set is. \<exists>b. marshal i = Inr b"
  shows "set (register_all marshal base is) = (\<lambda>i. (reg_key base i, projr (marshal i))) ` set is"
proof -
  have inj: "inj_on (reg_key base) (set is)"
  proof (rule inj_onI)
    fix i j assume i: "i \<in> set is" "j \<in> set is" "reg_key base i = reg_key base j"
    then have s: "CHR ''/'' \<notin> set (insName i)" "CHR ''/'' \<notin> set (insName j)" using assms(1) by (auto simp: named_apart_def)
    have "HasPrefix (reg_key base i) (base @ ''/'' @ insName i @ ''/'')" by (simp add: HasPrefix_def reg_key_def)
    then have "insName j = insName i" using reg_key_prefix[OF s(2,1), of base] i(3) by simp
    then have "insID i = insID j" using i(3) by (simp add: reg_key_def)
    then show "i = j" using i(1,2) assms(1) by (auto simp: named_apart_def inj_on_def)
  qed
  have "fold (\<lambda>i e. snd (Etcd_Register marshal no_reg_errs base i e)) is e =
      fold (\<lambda>i m. map_set m (reg_key base i) (projr (marshal i))) is e" for e
    using assms(2)
  proof (induction "is" arbitrary: e)
    case (Cons i "is")
    then obtain b where "marshal i = Inr b" by auto
    then show ?case using Cons by (simp add: Etcd_Register_def no_reg_errs_def)
  qed simp
  then show ?thesis using set_fold_map_set[OF inj, of "\<lambda>i. projr (marshal i)"] by (simp add: register_all_def)
qed

lemma with_prefix_values: "set (with_prefix p e) = {v. \<exists>k. (k, v) \<in> set e \<and> HasPrefix k p}"
  by (force simp: with_prefix_def)

text \<open>
  C28. The resolver of a service reports the addresses of the registered instances of that service, all of
  them and no other; \<open>Discovery\<close> reports the instances of every service whose name and identity begin with
  the name it asks for.
\<close>

theorem resolver_finds:
  assumes "named_apart is" and "\<forall>i \<in> set is. \<exists>b. marshal i = Inr b \<and> unmarshal b = Inr i"
    and "CHR ''/'' \<notin> set (rServiceName r)"
  shows "set (rState (snd (updateAddresses unmarshal None (register_all marshal (rBasePath r) is) r))) =
      insAddr ` {i \<in> set is. insName i = rServiceName r} \<and>
    (\<exists>found. Discovery unmarshal None (rBasePath r) n (register_all marshal (rBasePath r) is) = Inr found \<and>
      set found = {i \<in> set is. HasPrefix (insName i @ ''/'' @ insID i) n})"
proof -
  let ?e = "register_all marshal (rBasePath r) is"
  have dec: "unmarshal (projr (marshal i)) = Inr i" if "i \<in> set is" for i using assms(2) that by auto
  have V: "set ?e = (\<lambda>i. (reg_key (rBasePath r) i, projr (marshal i))) ` set is"
    using register_all_values[OF assms(1)] assms(2) by blast
  have slash: "CHR ''/'' \<notin> set (insName i)" if "i \<in> set is" for i using assms(1) that by (simp add: named_apart_def)
  have D: "set (decode_all unmarshal (with_prefix p ?e)) = {i \<in> set is. HasPrefix (reg_key (rBasePath r) i) p}" for p
    unfolding set_decode_all with_prefix_values V using dec by force
  let ?D = "decode_all unmarshal (with_prefix (resolver_prefix r) ?e)"
  have "set ?D = {i \<in> set is. insName i = rServiceName r}"
    unfolding D resolver_prefix_def using reg_key_prefix[OF slash assms(3)] by auto
  moreover have "inj_on insID (set ?D)" using assms(1) unfolding D named_apart_def inj_on_def by blast
  note set_fold_map_set[OF this, of "\<lambda>i. i"]
  ultimately have "set (rState (snd (updateAddresses unmarshal None ?e r))) = insAddr ` {i \<in> set is. insName i = rServiceName r}"
    by (simp add: updateAddresses_def Let_def image_image)
  moreover have "HasPrefix (reg_key (rBasePath r) i) (rBasePath r @ ''/'' @ n) \<longleftrightarrow> HasPrefix (insName i @ ''/'' @ insID i) n" for i
    by (simp add: HasPrefix_def reg_key_def)
  then have "set (decode_all unmarshal (with_prefix (rBasePath r @ ''/'' @ n) ?e)) = {i \<in> set is. HasPrefix (insName i @ ''/'' @ insID i) n}"
    unfolding D by simp
  ultimately show ?thesis by (simp add: Discovery_def)
qed

definition two_services :: "Instance list" where
  "two_services = [\<lparr>insID = ''a'', insName = ''wallet'', insAddr = ''1:1''\<rparr>, \<lparr>insID = ''b'', insName = ''wallet2'', insAddr = ''2:2''\<rparr>]"

definition first_marshal :: "Instance \<Rightarrow> goerror + bytes" where
  "first_marshal i = (if i = two_services ! 0 then Inr [0] else if i = two_services ! 1 then Inr [1] else Inl ''json'')"

definition first_unmarshal :: "bytes \<Rightarrow> goerror + Instance" where
  "first_unmarshal b = (if b = [0] then Inr (two_services ! 0) else if b = [1] then Inr (two_services ! 1) else Inl ''json'')"

theorem resolver_finds_witness:
  "\<exists>found. Discovery first_unmarshal None ''/svc'' ''wallet'' (register_all first_marshal ''/svc'' two_services) = Inr found \<and>
     \<lparr>insID = ''b'', insName = ''wallet2'', insAddr = ''2:2''\<rparr> \<in> set found"
  using resolver_finds[of two_services first_marshal first_unmarshal
      "\<lparr>rBasePath = ''/svc'', rServiceName = ''wallet'', rAddresses = [], rState = []\<rparr>" "''wallet''"]
  by (auto simp: two_services_def named_apart_def first_marshal_def first_unmarshal_def HasPrefix_def)

subsection \<open>Starting and stopping\<close>




subsection \<open>The rules of sentinel\<close>

text \<open>A retry timeout is cut to 32 bits: one of \<open>2 ^ 32\<close> milliseconds becomes none.\<close>

lemma retry_timeout_wraps:
  "unat (bRetryTimeoutMs (breaker_rule rule)) = unat (brRetryTimeoutMs rule) mod 2 ^ 32"
  by (simp add: breaker_rule_def unsigned_ucast_eq take_bit_eq_mod)

subsection \<open>Circuit breakers\<close>

text \<open>
  The default rule always has a limit to trip at; a rule given for a method gets no defaults, and one
  without thresholds never trips, however many calls fail.
\<close>

theorem breaker_rules:
  assumes "\<not> positive zero" and "breakers m = Map.empty" and "m = NewManager zero d per"
  shows "(per meth = None \<longrightarrow> (let rule = snd (fst (Manager_Get meth m)) in
      MaxRequests rule \<noteq> 0 \<and> (TripConsecutiveFailures rule \<noteq> 0 \<or> TripFailureRate rule \<noteq> zero) \<and>
      (TripFailureRate d = zero \<longrightarrow> ConsecutiveFailures c \<ge> max 10 (TripConsecutiveFailures d) \<longrightarrow> ReadyToTrip positive reached rule c))) \<and>
    (\<forall>rule. per meth = Some rule \<longrightarrow> TripConsecutiveFailures rule = 0 \<longrightarrow> TripFailureRate rule = zero \<longrightarrow>
      fst (Manager_Get meth m) = (meth, rule) \<and> \<not> ReadyToTrip positive reached rule c) \<and>
    (\<forall>other. fst (Manager_Get meth (snd (Manager_Get other m))) = fst (Manager_Get meth m))"
proof -
  have pos: "x > (0 :: uint32) \<longleftrightarrow> x \<noteq> 0" for x by (simp add: word_neq_0_conv)
  have "ConsecutiveFailures c \<ge> 10" "ConsecutiveFailures c \<ge> TripConsecutiveFailures d"
    if "ConsecutiveFailures c \<ge> max 10 (TripConsecutiveFailures d)" using that by simp_all
  then show ?thesis using assms(1)
    by (auto simp: assms(3) NewManager_def Manager_Get_def ReadyToTrip_def Let_def pos split: option.splits)
qed

definition no_trip :: "int Rule" where
  "no_trip = \<lparr>MaxRequests = 1, ruleInterval = 0, BucketPeriod = 0, ruleTimeout = 0, TripConsecutiveFailures = 0,
     TripFailureRate = 0, TripMinRequests = 0\<rparr>"

theorem breaker_rules_witness:
  "\<not> ReadyToTrip (\<lambda>r. r > 0) (\<lambda>f n r. True) no_trip \<lparr>cRequests = 1000, TotalFailures = 1000, ConsecutiveFailures = 1000\<rparr>"
  using breaker_rules[of "\<lambda>r. r > 0" "0 :: int" "NewManager 0 no_trip [''m'' \<mapsto> no_trip]" no_trip "[''m'' \<mapsto> no_trip]" "''m''"
      "\<lparr>cRequests = 1000, TotalFailures = 1000, ConsecutiveFailures = 1000\<rparr>" "\<lambda>f n r. True"]
  by (simp add: NewManager_def no_trip_def)

end
