(* ===== verification/Brokers.thy ===== *)
theory Brokers
  imports Ws_Hub
begin

text \<open>
  The interface \<open>Broker\<close> of \<^verbatim>\<open>internal/quotes/gateway/broker.go\<close> and its second implementation, over NATS
  (\<^verbatim>\<open>broker_nats.go\<close>). The client of NATS is a parameter: \<open>nc_Publish\<close>, \<open>subscribe\<close> and \<open>unsubscribe\<close> act on its
  state, \<open>covers\<close> says which subjects a pattern takes in.
\<close>

subsection \<open>The broker over NATS\<close>

text \<open>\<open>strings.ReplaceAll\<close> of one character by another.\<close>

definition replace_char :: "char \<Rightarrow> char \<Rightarrow> string \<Rightarrow> string" where
  "replace_char a b = map (\<lambda>c. if c = a then b else c)"

definition topicToSubject :: "string \<Rightarrow> string" where
  "topicToSubject topic = replace_char CHR '':'' CHR ''.'' topic"

definition subjectToTopic :: "string \<Rightarrow> string" where
  "subjectToTopic subj = replace_char CHR ''.'' CHR '':'' subj"

definition Nats_Publish :: "(string \<Rightarrow> bytes \<Rightarrow> 'n \<Rightarrow> goerror option \<times> 'n) \<Rightarrow> string \<Rightarrow> bytes \<Rightarrow> 'n \<Rightarrow> goerror option \<times> 'n" where
  "Nats_Publish nc_Publish topic payload nc = nc_Publish (topicToSubject topic) payload nc"

text \<open>What the client calls for a message: a full channel drops it, a closed one panics.\<close>

definition nats_callback :: "string \<Rightarrow> bytes \<Rightarrow> Channel \<Rightarrow> Channel go" where
  "nats_callback subject data out =
     (if chan_closed out then Panic
      else if length (queue out) < 8192
      then Ret (out\<lparr>queue := queue out @ [\<lparr>mTopic = subjectToTopic subject, mPayload = data\<rparr>]\<rparr>)
      else Ret out)"

text \<open>An error takes back the subscriptions made so far.\<close>

fun nats_subscribe_loop ::
  "(string \<Rightarrow> 'n \<Rightarrow> (goerror + 's) \<times> 'n) \<Rightarrow> ('s \<Rightarrow> 'n \<Rightarrow> 'n) \<Rightarrow> 's list \<Rightarrow> string list \<Rightarrow> 'n \<Rightarrow> (goerror + 's list) \<times> 'n" where
  "nats_subscribe_loop subscribe unsubscribe held [] nc = (Inr held, nc)"
| "nats_subscribe_loop subscribe unsubscribe held (s # ss) nc =
     (case subscribe (topicToSubject s) nc of
        (Inl err, nc1) \<Rightarrow> (Inl err, fold unsubscribe held nc1)
      | (Inr sub, nc1) \<Rightarrow> nats_subscribe_loop subscribe unsubscribe (held @ [sub]) ss nc1)"

definition Nats_Subscribe ::
  "(string \<Rightarrow> 'n \<Rightarrow> (goerror + 's) \<times> 'n) \<Rightarrow> ('s \<Rightarrow> 'n \<Rightarrow> 'n) \<Rightarrow> string list \<Rightarrow> 'n \<Rightarrow> (goerror + 's list \<times> Channel) \<times> 'n" where
  "Nats_Subscribe subscribe unsubscribe subjects nc =
     (case nats_subscribe_loop subscribe unsubscribe [] subjects nc of
        (Inl err, nc1) \<Rightarrow> (Inl err, nc1)
      | (Inr held, nc1) \<Rightarrow> (Inr (held, \<lparr>queue = [], chan_closed = False\<rparr>), nc1))"

definition nats_done :: "('s \<Rightarrow> 'n \<Rightarrow> 'n) \<Rightarrow> 's list \<Rightarrow> Channel \<times> 'n \<Rightarrow> Channel \<times> 'n" where
  "nats_done unsubscribe held s = ((fst s)\<lparr>chan_closed := True\<rparr>, fold unsubscribe held (snd s))"

definition NewNatsBroker :: "(string \<Rightarrow> goerror + 'n) \<Rightarrow> string \<Rightarrow> goerror + 'n option" where
  "NewNatsBroker connect url = (case connect url of Inl err \<Rightarrow> Inl err | Inr nc \<Rightarrow> Inr (Some nc))"

definition Nats_Close :: "('n \<Rightarrow> 'n) \<Rightarrow> ('n \<Rightarrow> 'n) \<Rightarrow> 'n option \<Rightarrow> goerror option \<times> 'n option" where
  "Nats_Close drain close nc = (None, map_option (close \<circ> drain) nc)"

lemma replace_char_back: "replace_char b a (replace_char a b s) = s \<longleftrightarrow> a = b \<or> b \<notin> set s"
  unfolding replace_char_def by (induction s) auto

text \<open>A topic comes back from NATS as it was exactly if it has no dot.\<close>

lemma nats_topic_round: "subjectToTopic (topicToSubject t) = t \<longleftrightarrow> CHR ''.'' \<notin> set t"
  unfolding subjectToTopic_def topicToSubject_def by (simp add: replace_char_back)

text \<open>
  A subscription that fails has been taken back: with subscriptions kept as a list, what the client holds is
  what it held.
\<close>

lemma nats_subscribe_loop_undone:
  assumes "\<And>s nc nc1 e. subscribe s nc = (Inl e, nc1) \<Longrightarrow> nc1 = nc"
    and "\<And>s nc nc1 x. subscribe s nc = (Inr x, nc1) \<Longrightarrow> nc1 = insert x nc \<and> x \<notin> nc"
    and "\<And>x nc. unsubscribe x nc = nc - {x}"
    and "nats_subscribe_loop subscribe unsubscribe held ss nc = (Inl e, nc1)"
  shows "nc1 = nc - set held"
  using assms(4)
proof (induction ss arbitrary: held nc)
  case (Cons s ss)
  have undo: "fold unsubscribe xs m = m - set xs" for xs m
    by (induction xs arbitrary: m) (auto simp: assms(3))
  obtain r nc2 where r: "subscribe (topicToSubject s) nc = (r, nc2)" by fastforce
  show ?case
  proof (cases r)
    case (Inl a)
    then show ?thesis using Cons.prems assms(1) r undo by fastforce
  next
    case (Inr x)
    then show ?thesis using Cons.IH[of "held @ [x]" nc2] Cons.prems assms(2) r by fastforce
  qed
qed simp

subsection \<open>The interface\<close>

text \<open>
  What a subscriber's channel gets of the publications: those it takes, under their names, while there is room.
\<close>

fun put_all :: "(string \<Rightarrow> bytes \<Rightarrow> Channel \<Rightarrow> Channel go) \<Rightarrow> (string \<times> bytes) list \<Rightarrow> Channel \<Rightarrow> Channel go" where
  "put_all put [] ch = Ret ch"
| "put_all put (m # ms) ch = andThen (put (fst m) (snd m) ch) (put_all put ms)"

locale broker =
  fixes put :: "string \<Rightarrow> bytes \<Rightarrow> Channel \<Rightarrow> Channel go"
    and takes :: "string \<Rightarrow> bool"
    and name :: "string \<Rightarrow> string"
    and cap :: nat
  assumes ignored: "\<not> takes t \<Longrightarrow> put t p ch = Ret ch"
    and stored: "takes t \<Longrightarrow> \<not> chan_closed ch \<Longrightarrow> length (queue ch) < cap \<Longrightarrow>
      put t p ch = Ret (ch\<lparr>queue := queue ch @ [\<lparr>mTopic = name t, mPayload = p\<rparr>]\<rparr>)"
    and dropped: "takes t \<Longrightarrow> \<not> chan_closed ch \<Longrightarrow> cap \<le> length (queue ch) \<Longrightarrow> put t p ch = Ret ch"
    and panics: "takes t \<Longrightarrow> chan_closed ch \<Longrightarrow> put t p ch = Panic"
begin

definition taken :: "(string \<times> bytes) list \<Rightarrow> Message list" where
  "taken ms = map (\<lambda>m. \<lparr>mTopic = name (fst m), mPayload = snd m\<rparr>) (filter (takes \<circ> fst) ms)"

lemma taken_Cons: "taken (m # ms) = (if takes (fst m) then [\<lparr>mTopic = name (fst m), mPayload = snd m\<rparr>] else []) @ taken ms"
  by (simp add: taken_def)

text \<open>Publications fill the channel in order up to its capacity, whatever their number.\<close>

lemma put_all_fills:
  "\<not> chan_closed ch \<Longrightarrow> length (queue ch) \<le> cap \<Longrightarrow>
   put_all put ms ch = Ret (ch\<lparr>queue := take cap (queue ch @ taken ms)\<rparr>)"
proof (induction ms arbitrary: ch)
  case (Cons m ms)
  show ?case
  proof (cases "takes (fst m)")
    case True
    then show ?thesis using Cons by (cases "length (queue ch) < cap") (simp_all add: stored dropped taken_Cons take_Cons' Suc_diff_Suc)
  next
    case False
    then show ?thesis using Cons by (simp add: ignored taken_Cons)
  qed
qed (simp add: taken_def)

text \<open>After the end of the context the first message that is taken panics the publisher.\<close>

lemma put_all_closed:
  "chan_closed ch \<Longrightarrow> put_all put ms ch = (if taken ms = [] then Ret ch else Panic)"
proof (induction ms)
  case (Cons m ms)
  then show ?case by (cases "takes (fst m)") (simp_all add: ignored panics taken_Cons)
qed (simp add: taken_def)

end

text \<open>The channel of topics of the in-memory broker, and that of one pattern of NATS.\<close>

definition mem_put :: "string list \<Rightarrow> string \<Rightarrow> bytes \<Rightarrow> Channel \<Rightarrow> Channel go" where
  "mem_put ts t p ch = (if t \<in> set ts then try_send \<lparr>mTopic = t, mPayload = p\<rparr> ch else Ret ch)"

definition nats_put :: "(string \<Rightarrow> string \<Rightarrow> bool) \<Rightarrow> string \<Rightarrow> string \<Rightarrow> bytes \<Rightarrow> Channel \<Rightarrow> Channel go" where
  "nats_put covers pattern t p ch =
     (if covers (topicToSubject pattern) (topicToSubject t) then nats_callback (topicToSubject t) p ch else Ret ch)"

interpretation memBroker: broker "mem_put ts" "\<lambda>t. t \<in> set ts" "\<lambda>t. t" 4096 for ts
  by unfold_locales (auto simp: mem_put_def try_send_def)

interpretation natsBroker: broker "nats_put covers pattern" "\<lambda>t. covers (topicToSubject pattern) (topicToSubject t)"
  "subjectToTopic \<circ> topicToSubject" 8192 for covers pattern
  by unfold_locales (auto simp: nats_put_def nats_callback_def)


subsection \<open>One broker for the other\<close>

text \<open>
  For a pattern that covers exactly the topics, without dots in them, both brokers hand a subscriber the same
  messages, up to the capacity of the smaller channel; after that the in-memory broker is the one that drops.
\<close>

lemma brokers_agree:
  assumes "\<forall>m \<in> set ms. covers (topicToSubject pattern) (topicToSubject (fst m)) \<longleftrightarrow> fst m \<in> set ts"
    and "\<forall>t \<in> set ts. CHR ''.'' \<notin> set t"
  shows "\<exists>all. put_all (mem_put ts) ms \<lparr>queue = [], chan_closed = False\<rparr> = Ret \<lparr>queue = take 4096 all, chan_closed = False\<rparr> \<and>
    put_all (nats_put covers pattern) ms \<lparr>queue = [], chan_closed = False\<rparr> = Ret \<lparr>queue = take 8192 all, chan_closed = False\<rparr>"
proof -
  have "natsBroker.taken covers pattern ms = memBroker.taken ts ms"
    using assms by (induction ms) (auto simp: natsBroker.taken_Cons memBroker.taken_Cons nats_topic_round
      memBroker.taken_def natsBroker.taken_def)
  then show ?thesis
    using memBroker.put_all_fills[of "\<lparr>queue = [], chan_closed = False\<rparr>" ts ms]
      natsBroker.put_all_fills[of "\<lparr>queue = [], chan_closed = False\<rparr>" covers pattern ms] by auto
qed

text \<open>A topic with a dot reaches the clients of another topic: here the second level of a symbol's name.\<close>

lemma dot_changes_topic:
  assumes "covers (topicToSubject pattern) ''kline.1m.BRK.B''"
  shows "nats_put covers pattern ''kline:1m:BRK.B'' p \<lparr>queue = [], chan_closed = False\<rparr> =
    Ret \<lparr>queue = [\<lparr>mTopic = ''kline:1m:BRK:B'', mPayload = p\<rparr>], chan_closed = False\<rparr>"
  using assms by (simp add: nats_put_def nats_callback_def topicToSubject_def subjectToTopic_def replace_char_def)

text \<open>
  \<open>Unsubscribe\<close> does not wait for a callback that runs: one that comes after the channel is closed panics.
\<close>

lemma late_callback_panics: "nats_callback subject p (fst (nats_done unsubscribe held (out, nc))) = Panic"
  by (simp add: nats_done_def nats_callback_def)

end
