(* ===== verification/Market_Flow.thy ===== *)
theory Market_Flow
  imports Ws_Properties Kline_Properties Brokers
begin

text \<open>
  From trades to clients: the bars of a shard, published as \<^verbatim>\<open>internal/quotes/marketdata/product/main.go\<close> does,
  here to the in-memory broker (\<open>brokers_agree\<close> compares the one over NATS), taken by the gateway and put by the
  hub into the connections. Publishing and the gateway run in any interleaving.
\<close>

subsection \<open>Publisher and gateway, interleaved\<close>

text \<open>
  What is still to publish, and the gateway on its channel. A message is published while the channel has
  room: what happens without is \<open>gateway_forwards\<close>.
\<close>

definition room :: "Gateway \<Rightarrow> bool" where
  "room g \<longleftrightarrow> length (queue (chans (gBroker g) ! 0)) < 4096"

inductive pipe :: "(string \<times> bytes) list \<times> Gateway \<Rightarrow> (string \<times> bytes) list \<times> Gateway \<Rightarrow> bool" where
  publish: "room g \<Longrightarrow> Gateway_Publish t p g = Ret g1 \<Longrightarrow> pipe ((t, p) # ms, g) (ms, g1)"
| forward: "gateway_turn False 0 g = Some g1 \<Longrightarrow> pipe (ms, g) (ms, g1)"


inductive_cases pipe_cases: "pipe (ms, g) s"










subsection \<open>The topics of bars\<close>















subsection \<open>From trades to clients\<close>




end
