(* ===== verification/Ws_Life.thy ===== *)
theory Ws_Life
  imports Ws_Properties
begin

text \<open>
  The life of one connection (\<^verbatim>\<open>internal/quotes/ws/conn.go\<close>): its two goroutines, \<open>readPump\<close> and \<open>writePump\<close>,
  its socket, and the hub, which everybody else uses in the meantime. What a turn meets is its argument: the end
  of the context, a message or the error of \<open>ReadMessage\<close>, the error of a write.
\<close>

subsection \<open>The two pumps\<close>

datatype Pump = Jitter | Looping | Ended

record Life =
  reading :: bool
  writing :: Pump
  sock_open :: bool

definition ServeWS :: "int \<Rightarrow> Life" where
  "ServeWS pingJitter = \<lparr>reading = True, writing = (if pingJitter > 0 then Jitter else Looping), sock_open = True\<rparr>"

text \<open>The deferred calls of \<open>readPump\<close>.\<close>

definition read_end :: "nat \<Rightarrow> Ws \<times> Life \<Rightarrow> Ws \<times> Life" where
  "read_end c s = (RemoveConn c (fst s), (snd s)\<lparr>reading := False, sock_open := False\<rparr>)"

text \<open>\<open>read_turn\<close> holds the call of \<open>RemoveConn\<close> too.\<close>

definition readPump_turn ::
  "(bytes \<Rightarrow> (string \<times> string list) option) \<Rightarrow> nat \<Rightarrow> bool \<Rightarrow> goerror + bytes \<Rightarrow> Ws \<times> Life \<Rightarrow> Ws \<times> Life" where
  "readPump_turn unmarshal c stop message s =
     (if stop then read_end c s
      else case message of
             Inl e \<Rightarrow> read_end c s
           | Inr b \<Rightarrow> (fst (read_turn unmarshal c (Inr b) (fst s)), snd s))"

text \<open>Why \<open>writePump\<close> wakes up.\<close>

datatype wake = Timer | Notified "goerror option" | Ping "goerror option" | Done

definition write_end :: "Life \<Rightarrow> Life" where
  "write_end l = l\<lparr>writing := Ended, sock_open := False\<rparr>"

text \<open>The message written, if any. The wait at the start has no deferred call yet.\<close>

definition writePump_turn :: "nat \<Rightarrow> wake \<Rightarrow> Ws \<times> Life \<Rightarrow> (Ws \<times> Life) \<times> bytes option" where
  "writePump_turn c k s =
     (let (w, l) = s
      in case writing l of
           Jitter \<Rightarrow>
             (case k of
                Timer \<Rightarrow> ((w, l\<lparr>writing := Looping\<rparr>), None)
              | Done \<Rightarrow> ((w, l\<lparr>writing := Ended\<rparr>), None)
              | _ \<Rightarrow> (s, None))
         | Looping \<Rightarrow>
             (case k of
                Notified err \<Rightarrow>
                  (let (r, c1) = write_turn err (conns w ! c); w1 = w\<lparr>conns := (conns w)[c := c1]\<rparr>
                   in case r of Inl e \<Rightarrow> ((w1, write_end l), None) | Inr out \<Rightarrow> ((w1, l), out))
              | Ping None \<Rightarrow> (s, None)
              | Ping (Some e) \<Rightarrow> ((w, write_end l), None)
              | Done \<Rightarrow> ((w, write_end l), None)
              | Timer \<Rightarrow> (s, None))
         | Ended \<Rightarrow> (s, None))"

subsection \<open>Steps\<close>

text \<open>
  A socket that is closed gives errors to whoever reads or writes it. The others do anything to the hub at any
  moment but subscribe this connection.
\<close>

inductive life_step :: "(bytes \<Rightarrow> (string \<times> string list) option) \<Rightarrow> nat \<Rightarrow> Ws \<times> Life \<Rightarrow> Ws \<times> Life \<Rightarrow> bool"
  for unmarshal c where
  reads: "reading l \<Longrightarrow> sock_open l \<or> (\<exists>e. message = Inl e) \<Longrightarrow>
    life_step unmarshal c (w, l) (readPump_turn unmarshal c stop message (w, l))"
| writes: "sock_open l \<or> k \<notin> {Notified None, Ping None} \<Longrightarrow>
    life_step unmarshal c (w, l) (fst (writePump_turn c k (w, l)))"
| others: "act_step w x w1 new \<Longrightarrow> (\<And>ts. x \<noteq> Sub c ts) \<Longrightarrow> life_step unmarshal c (w, l) (w1, l)"

inductive life_steps :: "(bytes \<Rightarrow> (string \<times> string list) option) \<Rightarrow> nat \<Rightarrow> Ws \<times> Life \<Rightarrow> Ws \<times> Life \<Rightarrow> bool"
  for unmarshal c where
  life_refl: "life_steps unmarshal c s s"
| life_more: "life_steps unmarshal c s s1 \<Longrightarrow> life_step unmarshal c s1 s2 \<Longrightarrow> life_steps unmarshal c s s2"

text \<open>A reader that has ended leaves nothing behind, and only a pump that has ended closes the socket.\<close>

definition life_inv :: "nat \<Rightarrow> Ws \<times> Life \<Rightarrow> bool" where
  "life_inv c s \<longleftrightarrow> hub_inv (hub (fst s)) \<and>
     (\<not> reading (snd s) \<longrightarrow> \<not> sock_open (snd s) \<and> (\<forall>t. \<not> subscribed (hub (fst s)) c t)) \<and>
     (\<not> sock_open (snd s) \<longrightarrow> \<not> reading (snd s) \<or> writing (snd s) = Ended)"

lemma hub_inv_more: "hub_inv (h\<lparr>lastMsg := m\<rparr>) = hub_inv h" "subscribed (h\<lparr>lastMsg := m\<rparr>) c t = subscribed h c t"
  by (simp_all add: hub_inv_def subscribed_def)

lemma RemoveConn_none:
  assumes "hub_inv (hub w)"
  shows "hub_inv (hub (RemoveConn c w))" "\<not> subscribed (hub (RemoveConn c w)) c t"
    "c' \<noteq> c \<Longrightarrow> subscribed (hub (RemoveConn c w)) c' t = subscribed (hub w) c' t"
  using unsub_all_inv[OF assms, of c "map_keys (subs (hub w))"] subscribed_keys by (auto simp: RemoveConn_def)

lemma Unsubscribe_less:
  assumes "hub_inv (hub w)"
  shows "hub_inv (hub (Unsubscribe c' ts w))" "subscribed (hub (Unsubscribe c' ts w)) c t \<Longrightarrow> subscribed (hub w) c t"
  using unsub_all_inv[OF assms, of c' ts] by (auto simp: Unsubscribe_def)

lemma Subscribe_inv: "hub_inv (hub w) \<Longrightarrow> hub_inv (hub (Subscribe c ts w))"
  using sub_record_inv[of "hub w" c ts] by (simp add: Subscribe_def Let_def snapshot_hub)

lemma read_turn_inv: "hub_inv (hub w) \<Longrightarrow> hub_inv (hub (fst (read_turn unmarshal c (Inr b) w)))"
  by (auto simp: read_turn_def Subscribe_inv Unsubscribe_less split: option.split)

lemma others_inv:
  assumes "act_step w x w1 new" and "\<And>ts. x \<noteq> Sub c ts" and "hub_inv (hub w)"
  shows "hub_inv (hub w1) \<and> (\<forall>t. subscribed (hub w1) c t \<longrightarrow> subscribed (hub w) c t)"
  using assms(1)
proof cases
  case (sub h c' ts)
  then show ?thesis using sub_record_inv[OF assms(3), of c' ts] assms(2)[of ts] by auto
next
  case (unsub c' ts)
  then show ?thesis using Unsubscribe_less[OF assms(3)] by auto
next
  case (remove c')
  then show ?thesis using RemoveConn_none[OF assms(3)] by (cases "c' = c") auto
qed (simp_all add: assms(3) hub_inv_more)

lemma life_keeps:
  assumes "life_step unmarshal c s s1" and "life_inv c s"
  shows "life_inv c s1"
  using assms(1)
proof cases
  case (reads l message w stop)
  then show ?thesis using assms(2)
    by (auto simp: life_inv_def readPump_turn_def read_end_def RemoveConn_none read_turn_inv split: sum.split)
next
  case (writes l k w)
  then show ?thesis using assms(2)
    by (auto simp: life_inv_def writePump_turn_def write_end_def Let_def split: Pump.split wake.split option.split sum.split prod.split)
next
  case (others w x w1 new l)
  then show ?thesis using others_inv[OF others(3,4)] assms(2) unfolding life_inv_def by auto
qed

lemma life_invariant: "life_steps unmarshal c s s1 \<Longrightarrow> life_inv c s \<Longrightarrow> life_inv c s1"
  by (induction rule: life_steps.induct) (auto intro: life_keeps)


lemma no_wait_keeps:
  assumes "life_step unmarshal c s s1" and "writing (snd s) \<noteq> Jitter" and "writing (snd s) = Ended \<longrightarrow> \<not> sock_open (snd s)"
  shows "writing (snd s1) \<noteq> Jitter \<and> (writing (snd s1) = Ended \<longrightarrow> \<not> sock_open (snd s1))"
  using assms(1)
proof cases
  case (reads l message w stop)
  then show ?thesis using assms(2,3) by (auto simp: readPump_turn_def read_end_def split: sum.split)
next
  case (writes l k w)
  then show ?thesis using assms(2,3)
    by (auto simp: writePump_turn_def write_end_def Let_def split: Pump.split wake.split option.split sum.split prod.split)
qed (use assms(2,3) in simp_all)

lemma no_wait:
  "life_steps unmarshal c s s1 \<Longrightarrow> writing (snd s) \<noteq> Jitter \<Longrightarrow> (writing (snd s) = Ended \<longrightarrow> \<not> sock_open (snd s)) \<Longrightarrow>
   writing (snd s1) \<noteq> Jitter \<and> (writing (snd s1) = Ended \<longrightarrow> \<not> sock_open (snd s1))"
  by (induction rule: life_steps.induct) (use no_wait_keeps in blast)+

lemma reader_of_others:
  assumes "hub_inv (hub w)" and "c' \<noteq> c"
  shows "subscribed (hub (fst (readPump_turn unmarshal c stop message (w, l)))) c' t = subscribed (hub w) c' t"
  using assms RemoveConn_none(3)[OF assms] sub_record_inv[OF assms(1)] unsub_all_inv[OF assms(1)]
  by (auto simp: readPump_turn_def read_end_def read_turn_def Subscribe_def Unsubscribe_def Let_def snapshot_hub
      split: sum.split option.split)

subsection \<open>The end of a connection\<close>

text \<open>
  C39. Whatever the clients, the socket, the end of the service and the users of the hub do, in any order: a reader
  that has ended has closed the socket and left no subscription of its connection in the hub, for good; a closed
  socket ends at least one pump; without a wait at the start the socket is open exactly while both pumps run; and
  what a reader does never touches the subscriptions of another connection.
\<close>

theorem connection_ends:
  assumes "hub_inv (hub w)" and "life_steps unmarshal c (w, ServeWS jitter) (w1, l)"
  shows "hub_inv (hub w1) \<and>
    (\<not> reading l \<longrightarrow> \<not> sock_open l \<and> (\<forall>t. \<not> subscribed (hub w1) c t)) \<and>
    (\<not> sock_open l \<longrightarrow> \<not> reading l \<or> writing l = Ended) \<and>
    (jitter \<le> 0 \<longrightarrow> (sock_open l \<longleftrightarrow> reading l \<and> writing l = Looping)) \<and>
    (\<forall>stop message c' t. c' \<noteq> c \<longrightarrow>
       subscribed (hub (fst (readPump_turn unmarshal c stop message (w1, l)))) c' t = subscribed (hub w1) c' t)"
proof -
  have "life_inv c (w, ServeWS jitter)" using assms(1) by (simp add: life_inv_def ServeWS_def)
  then have I: "life_inv c (w1, l)" using life_invariant[OF assms(2)] by simp
  have "writing l \<noteq> Jitter \<and> (writing l = Ended \<longrightarrow> \<not> sock_open l)" if "jitter \<le> 0"
    using no_wait[OF assms(2)] that by (simp add: ServeWS_def)
  then have "jitter \<le> 0 \<longrightarrow> (sock_open l \<longleftrightarrow> reading l \<and> writing l = Looping)"
    using I by (cases "writing l") (auto simp: life_inv_def)
  then show ?thesis using I reader_of_others[of w1 _ c] by (auto simp: life_inv_def)
qed

text \<open>A client that subscribes and goes away.\<close>

theorem connection_ends_witness:
  "\<exists>w1 l. life_steps (\<lambda>_. Some (''sub'', [''t''])) 0 (two_conns, ServeWS 0) (w1, l) \<and> \<not> reading l \<and> \<not> sock_open l \<and>
     \<not> subscribed (hub w1) 0 ''t''"
proof -
  let ?u = "\<lambda>_ :: bytes. Some (''sub'', [''t''])"
  let ?s = "readPump_turn ?u 0 False (Inr []) (two_conns, ServeWS 0)"
  let ?e = "readPump_turn ?u 0 False (Inl ''EOF'') (fst ?s, snd ?s)"
  have 1: "life_step ?u 0 (two_conns, ServeWS 0) ?s" by (rule life_step.reads) (simp_all add: ServeWS_def)
  have 2: "life_step ?u 0 (fst ?s, snd ?s) ?e"
    by (rule life_step.reads) (simp_all add: ServeWS_def readPump_turn_def)
  have r: "life_steps ?u 0 (two_conns, ServeWS 0) (fst ?e, snd ?e)"
    using life_steps.life_more[OF life_steps.life_more[OF life_steps.life_refl 1], of ?e] 2 by simp
  have "\<not> reading (snd ?e)" by (simp add: readPump_turn_def read_end_def)
  then show ?thesis using connection_ends[OF two_conns_facts(1) r] r by blast
qed

text \<open>
  With the wait a service that ends during it stops the writer with the socket open: the reader stays in
  \<open>ReadMessage\<close> until its deadline.
\<close>

lemma wait_leaves_open:
  "\<exists>s. life_steps unmarshal c (w, ServeWS 100) s \<and> reading (snd s) \<and> sock_open (snd s) \<and> writing (snd s) = Ended"
proof -
  have "life_step unmarshal c (w, ServeWS 100) (fst (writePump_turn c Done (w, ServeWS 100)))"
    by (rule life_step.writes) (simp add: ServeWS_def)
  from life_steps.life_more[OF life_steps.life_refl this] show ?thesis
    by (intro exI[of _ "fst (writePump_turn c Done (w, ServeWS 100))"]) (simp add: writePump_turn_def ServeWS_def)
qed

text \<open>
  No code ever sets \<open>closed\<close>, so \<open>Conn_Offer\<close> never refuses: a publication under way stores payloads in a connection
  whose pumps have ended.
\<close>

lemma offered_after_end:
  assumes "c < length (conns w)" and "\<not> conn_closed (conns w ! c)" and "c \<in> set (sets (hub w) ! a)"
  shows "\<exists>w1. act_step w (Fan a [] t b) w1 [Fan a [c] t b] \<and> waiting w1 c t = Some b"
  using act_step.visit[of c w a "[]" t b] assms by (intro exI[of _ "offer_to c t b w"]) (simp add: offer_to_waiting is_open_def)

end
