(* ===== verification/Request_Ids.thy ===== *)
theory Request_Ids
  imports Api_Errors
begin

text \<open>
  The request identifier on its way from the gateway through the services: \<^verbatim>\<open>pkg/middleware/requestID.go\<close>,
  \<^verbatim>\<open>pkg/interceptor/requestID.go\<close>, \<^verbatim>\<open>timeout.go\<close>, \<^verbatim>\<open>pkg/common/reqid.go\<close> and the gateway's own
  \<^verbatim>\<open>rpcclient/conn.go\<close>. A new identifier and what gRPC makes of the metadata of a call are parameters.
\<close>

subsection \<open>Contexts\<close>

text \<open>
  The key of a value has a type besides its name: plain \<open>string\<close>, the \<open>ctxKey\<close> of \<open>interceptor\<close>, and that of
  \<open>rpcclient\<close>. A value is anything; the code asks whether it is a string.
\<close>

datatype ctx_key = StringKey string | InterceptorKey string | RpcclientKey string

datatype ctx_value = VString string | VOther

record Ctx =
  vals :: "ctx_key \<rightharpoonup> ctx_value"
  incoming :: "(string \<Rightarrow> string list) option"
  outgoing :: "(string \<times> string) list"
  deadline :: "int option"

definition WithValue :: "ctx_key \<Rightarrow> string \<Rightarrow> Ctx \<Rightarrow> Ctx" where
  "WithValue k v ctx = ctx\<lparr>vals := (vals ctx)(k \<mapsto> VString v)\<rparr>"

definition AppendToOutgoing :: "string \<Rightarrow> string \<Rightarrow> Ctx \<Rightarrow> Ctx" where
  "AppendToOutgoing k v ctx = ctx\<lparr>outgoing := outgoing ctx @ [(k, v)]\<rparr>"

definition MetaRequestID :: string where "MetaRequestID = ''x-request-id''"

definition CtxKeyRequestID :: string where "CtxKeyRequestID = ''request_id''"

text \<open>The string under a key, empty if there is none.\<close>

definition string_at :: "ctx_value option \<Rightarrow> string" where
  "string_at v = (case v of Some (VString s) \<Rightarrow> s | _ \<Rightarrow> '''')"

text \<open>The first identifier of the incoming metadata, empty if there is none.\<close>

definition first_incoming :: "Ctx \<Rightarrow> string" where
  "first_incoming ctx =
     (case incoming ctx of
        None \<Rightarrow> ''''
      | Some md \<Rightarrow> (case md MetaRequestID of [] \<Rightarrow> '''' | v # _ \<Rightarrow> v))"

subsection \<open>The gateway\<close>

record Gin =
  header :: string
  gin_keys :: "string \<rightharpoonup> ctx_value"
  req_ctx :: Ctx

definition ReqId :: "string \<Rightarrow> Gin \<Rightarrow> Gin" where
  "ReqId new c =
     (let rid = (if header c = '''' then new else header c)
      in c\<lparr>gin_keys := (gin_keys c)(CtxKeyRequestID \<mapsto> VString rid),
           req_ctx := WithValue (StringKey CtxKeyRequestID) rid (req_ctx c)\<rparr>)"

definition RequestIDFromGin :: "Gin \<Rightarrow> string" where
  "RequestIDFromGin c = string_at (gin_keys c CtxKeyRequestID)"

definition WithRequestID :: "string \<Rightarrow> Ctx \<Rightarrow> Ctx" where
  "WithRequestID rid ctx = WithValue (RpcclientKey CtxKeyRequestID) rid ctx"

text \<open>A client interceptor is what it makes of the context it hands to the call.\<close>

definition RequestIDUnaryClient :: "Ctx \<Rightarrow> Ctx" where
  "RequestIDUnaryClient ctx =
     (let rid = string_at (vals ctx (RpcclientKey CtxKeyRequestID))
      in if rid \<noteq> '''' then AppendToOutgoing MetaRequestID rid ctx else ctx)"

subsection \<open>Interceptors\<close>

definition RequestIDUnary :: "Ctx \<Rightarrow> Ctx" where
  "RequestIDUnary ctx =
     (let rid0 = string_at (vals ctx (StringKey CtxKeyRequestID));
          rid = (if rid0 = '''' then first_incoming ctx else rid0)
      in if rid \<noteq> '''' then AppendToOutgoing MetaRequestID rid ctx else ctx)"

definition RequestIDServerUnary :: "string \<Rightarrow> Ctx \<Rightarrow> Ctx" where
  "RequestIDServerUnary new ctx =
     (let rid0 = first_incoming ctx; rid = (if rid0 = '''' then new else rid0)
      in WithValue (StringKey CtxKeyRequestID) rid (WithValue (InterceptorKey CtxKeyRequestID) rid ctx))"

definition RequestIDFromCtx :: "Ctx \<Rightarrow> string" where
  "RequestIDFromCtx ctx = string_at (vals ctx (InterceptorKey CtxKeyRequestID))"

definition TimeOutInterceptor :: "int \<Rightarrow> int \<Rightarrow> Ctx \<Rightarrow> Ctx" where
  "TimeOutInterceptor now defaultTimeout ctx =
     (if deadline ctx = None then ctx\<lparr>deadline := Some (now + defaultTimeout)\<rparr> else ctx)"

lemmas request_id_defs = ReqId_def RequestIDFromGin_def WithRequestID_def RequestIDUnaryClient_def RequestIDUnary_def
  RequestIDServerUnary_def RequestIDFromCtx_def TimeOutInterceptor_def WithValue_def AppendToOutgoing_def
  string_at_def first_incoming_def Let_def

subsection \<open>The way of an identifier\<close>

text \<open>
  What gRPC documents of a call: the server's context has the metadata of the call and none of the values
  of the client's context.
\<close>

definition transports :: "(Ctx \<Rightarrow> Ctx) \<Rightarrow> bool" where
  "transports arrive \<longleftrightarrow>
     (\<forall>ctx. vals (arrive ctx) = Map.empty \<and> outgoing (arrive ctx) = [] \<and>
       incoming (arrive ctx) = Some (\<lambda>k. map snd (filter (\<lambda>m. fst m = k) (outgoing ctx))))"

text \<open>The chain of the gateway's client.\<close>

abbreviation call :: "int \<Rightarrow> Ctx \<Rightarrow> Ctx" where
  "call now ctx \<equiv> TimeOutInterceptor now 3000000000 (RequestIDUnary ctx)"

lemma server_id:
  assumes "transports arrive" and "outgoing ctx = []"
    and "string_at (vals ctx (StringKey CtxKeyRequestID)) = rid" and "rid \<noteq> ''''"
  shows "RequestIDFromCtx (RequestIDServerUnary new (arrive (call now ctx))) = rid"
    "string_at (vals (RequestIDServerUnary new (arrive (call now ctx))) (StringKey CtxKeyRequestID)) = rid"
    "outgoing (RequestIDServerUnary new (arrive (call now ctx))) = []"
  using assms by (auto simp: request_id_defs transports_def)

text \<open>
  The identifier of a request, its own or a new one, is that of the handlers of the gateway, of the service it calls,
  and of the service that one calls with its context.
\<close>

theorem request_id_travels:
  assumes "transports arrive" and "outgoing (req_ctx g) = []" and "new \<noteq> ''''"
  shows "let rid = if header g = '''' then new else header g;
      service = RequestIDServerUnary n1 (arrive (call t1 (req_ctx (ReqId new g))))
    in RequestIDFromGin (ReqId new g) = rid \<and> RequestIDFromCtx service = rid \<and>
       RequestIDFromCtx (RequestIDServerUnary n2 (arrive (call t2 service))) = rid"
proof -
  define rid where "rid = (if header g = '''' then new else header g)"
  have r: "rid \<noteq> ''''" using assms(3) by (simp add: rid_def)
  have o: "outgoing (req_ctx (ReqId new g)) = []" using assms(2) by (simp add: request_id_defs)
  have v: "string_at (vals (req_ctx (ReqId new g)) (StringKey CtxKeyRequestID)) = rid"
    by (simp add: request_id_defs rid_def)
  have "RequestIDFromGin (ReqId new g) = rid" by (simp add: request_id_defs rid_def)
  with server_id[OF assms(1) o v r, of n1 t1] server_id(1)[OF assms(1) _ _ r] show ?thesis
    by (simp add: Let_def rid_def)
qed

definition wire :: "Ctx \<Rightarrow> Ctx" where
  "wire ctx = \<lparr>vals = Map.empty, incoming = Some (\<lambda>k. map snd (filter (\<lambda>m. fst m = k) (outgoing ctx))), outgoing = [],
     deadline = None\<rparr>"

theorem request_id_travels_witness:
  "RequestIDFromCtx (RequestIDServerUnary ''b'' (wire (call 0 (req_ctx (ReqId ''new''
     \<lparr>header = ''abc'', gin_keys = Map.empty,
       req_ctx = \<lparr>vals = Map.empty, incoming = None, outgoing = [], deadline = None\<rparr>\<rparr>))))) = ''abc''"
  using request_id_travels[of wire "\<lparr>header = ''abc'', gin_keys = Map.empty,
       req_ctx = \<lparr>vals = Map.empty, incoming = None, outgoing = [], deadline = None\<rparr>\<rparr>" "''new''" "''b''" 0]
  by (simp add: transports_def wire_def Let_def)

text \<open>
  The interceptors in front of \<open>RequestIDServerUnary\<close>, in the services those that log panics and errors, run with the
  context that arrives: the identifier they read is empty.
\<close>

lemma outer_interceptors_blind: "transports arrive \<Longrightarrow> RequestIDFromCtx (arrive ctx) = ''''"
  by (simp add: transports_def RequestIDFromCtx_def string_at_def)

text \<open>
  An identifier stored by \<open>WithRequestID\<close> is read by \<open>RequestIDUnaryClient\<close> only, which no client installs: the
  interceptor installed does not see it.
\<close>

lemma rpcclient_id_lost:
  shows "outgoing (RequestIDUnary (WithRequestID rid ctx)) = outgoing (RequestIDUnary ctx)"
    "rid \<noteq> '''' \<Longrightarrow> outgoing (RequestIDUnaryClient (WithRequestID rid ctx)) = outgoing ctx @ [(MetaRequestID, rid)]"
  by (simp_all add: request_id_defs)

lemma timeout_kept: "deadline ctx = Some d \<Longrightarrow> TimeOutInterceptor now t ctx = ctx"
  by (simp add: TimeOutInterceptor_def)

end
