(* ===== verification/Event_Flow.thy ===== *)
theory Event_Flow
  imports Engine_Recovery
begin

text \<open>
  From commands to events: what the abstract exchange answers to each command, and that the actor of a symbol, with
  its heap book and its event outbox, writes exactly these answers to the outbox file, in order.
\<close>

subsection \<open>The abstract exchange\<close>

definition order_of :: "Command \<Rightarrow> Order" where
  "order_of c = \<lparr>ID = cOrderID c, Side = cSide c, Price = cPrice c, Qty = cQty c, UserID = cUserID c\<rparr>"

text \<open>The events without the number of the command and their own, which \<open>stamp\<close> adds.\<close>

definition accepted_event :: "Command \<Rightarrow> Event" where
  "accepted_event c = empty_Event\<lparr>eType := EvAccepted, eReqID := cReqID c, eOrderID := cOrderID c, eUserID := cUserID c\<rparr>"

definition added_event :: "Command \<Rightarrow> Event" where
  "added_event c = empty_Event\<lparr>eType := EvAdded, eReqID := cReqID c, eOrderID := cOrderID c, eUserID := cUserID c\<rparr>"

definition rejected_event :: "uint64 \<Rightarrow> uint64 \<Rightarrow> uint64 \<Rightarrow> Event" where
  "rejected_event req i u = empty_Event\<lparr>eType := EvRejected, eReqID := req, eOrderID := i, eUserID := u\<rparr>"

definition cancelled_event :: "Command \<Rightarrow> Event" where
  "cancelled_event c = empty_Event\<lparr>eType := EvCancelled, eReqID := cReqID c, eOrderID := cCancelOrderID c\<rparr>"

definition trade_event :: "Command \<Rightarrow> Trade \<Rightarrow> Event" where
  "trade_event c t = empty_Event\<lparr>eType := EvTrade, eReqID := cReqID c, eMakerOrderID := MakerID t,
     eTakerOrderID := TakerID t, ePrice := TradePrice t, eQty := TradeQty t\<rparr>"

definition end_event :: "uint64 \<Rightarrow> Event" where
  "end_event s = empty_Event\<lparr>eType := EvCmdEnd, eSeq := s, eIdx := 0\<rparr>"

definition submit_reply :: "Command \<Rightarrow> abook \<Rightarrow> Event list" where
  "submit_reply c ab =
     (let (ts, r, _) = spec_match (order_of c) ab
      in accepted_event c # map (trade_event c) ts @ (if r > 0 then [added_event c] else []))"

text \<open>A cancel of an order that does not rest is rejected twice.\<close>

definition market_reply :: "Command \<Rightarrow> abook \<Rightarrow> Event list \<times> abook" where
  "market_reply c ab =
     (if cType c = CmdSubmitLimit then
        if valid_cmd c then (submit_reply c ab, snd (spec_submit (order_of c) ab))
        else ([rejected_event (cReqID c) (cOrderID c) (cUserID c)], ab)
      else if cType c = CmdCancel then
        if \<not> valid_cmd c then ([rejected_event (cReqID c) 0 0], ab)
        else if cCancelOrderID c \<in> book_ids ab then ([cancelled_event c], spec_cancel (cCancelOrderID c) ab)
        else (replicate 2 (rejected_event (cReqID c) (cCancelOrderID c) 0), ab)
      else ([rejected_event (cReqID c) (cOrderID c) (cUserID c)], ab))"

text \<open>Malformed submits and cancels get no end mark.\<close>

definition marked :: "Command \<Rightarrow> bool" where
  "marked c \<longleftrightarrow> valid_cmd c \<or> cType c \<noteq> CmdSubmitLimit \<and> cType c \<noteq> CmdCancel"

fun stamp :: "uint64 \<Rightarrow> uint16 \<Rightarrow> Event list \<Rightarrow> Event list" where
  "stamp s i [] = []"
| "stamp s i (ev # evs) = ev\<lparr>eSeq := s, eIdx := i\<rparr> # stamp s (i + 1) evs"

definition reply_records :: "Command \<Rightarrow> uint64 \<Rightarrow> abook \<Rightarrow> Event list" where
  "reply_records c s ab = stamp s 0 (fst (market_reply c ab)) @ (if marked c then [end_event s] else [])"

fun market_run :: "(Command \<times> uint64) list \<Rightarrow> abook \<Rightarrow> Event list \<times> abook" where
  "market_run [] ab = ([], ab)"
| "market_run ((c, s) # cs) ab =
     (let (evs, ab1) = market_run cs (snd (market_reply c ab)) in (reply_records c s ab @ evs, ab1))"

text \<open>The numbers the actor gives.\<close>

fun numbered :: "uint64 \<Rightarrow> Command list \<Rightarrow> (Command \<times> uint64) list" where
  "numbered s [] = []"
| "numbered s (c # cs) = (c, s + 1) # numbered (s + 1) cs"






subsection \<open>One command\<close>


lemma emitter_fields [simp]:
  "Accepted (outboxEmitter ob) = out_Accepted ob" "Rejected (outboxEmitter ob) = out_Rejected ob"
  "Added (outboxEmitter ob) = out_Added ob" "Cancelled (outboxEmitter ob) = out_Cancelled ob"
  "emitTrade (outboxEmitter ob) = out_Trade ob"
  by (simp_all add: outboxEmitter_def)





subsection \<open>What reaches the file\<close>






















subsection \<open>One round of the actor\<close>




lemma Flush_err: "Flush w = (err, w1) \<Longrightarrow> err = None \<longleftrightarrow> \<not> werr w1"
  by (auto simp: Flush_def Let_def)












subsection \<open>The events can be read back\<close>













subsection \<open>The life of an actor\<close>


text \<open>What the exchange answers to commands from the start.\<close>

definition answers :: "Command list \<Rightarrow> Event list" where
  "answers cs = fst (market_run (numbered 0 cs) empty_abook)"


















text \<open>A sell order and a larger buy order at a better price.\<close>

definition sell_5 :: Command where
  "sell_5 = empty_Command\<lparr>cType := CmdSubmitLimit, cReqID := 1, cOrderID := 1, cSide := Sell, cPrice := 100, cQty := 5\<rparr>"

definition buy_7 :: Command where
  "buy_7 = empty_Command\<lparr>cType := CmdSubmitLimit, cReqID := 2, cOrderID := 2, cSide := Buy, cPrice := 101, cQty := 7\<rparr>"


lemma two_answers:
  "map (\<lambda>ev. (eType ev, eSeq ev, eIdx ev, ePrice ev, eQty ev)) (answers [sell_5, buy_7]) =
     [(EvAccepted, 1, 0, 0, 0), (EvAdded, 1, 1, 0, 0), (EvCmdEnd, 1, 0, 0, 0),
      (EvAccepted, 2, 0, 0, 0), (EvTrade, 2, 1, 100, 5), (EvAdded, 2, 2, 0, 0), (EvCmdEnd, 2, 0, 0, 0)]"
  by code_simp


end
