(* ===== verification/Event_Recovery.thy ===== *)
theory Event_Recovery
  imports Event_Flow
begin

text \<open>
  A restart after a crash: the commands are in the command log, the outbox file holds only the first records of their
  answers. The engine cuts the outbox behind the last complete command, replays the log, and the actor it starts is
  one that has given every answer once.
\<close>

subsection \<open>Where the outbox is cut\<close>

















subsection \<open>The log is replayed\<close>












subsection \<open>The engine starts again\<close>













subsection \<open>A torn command log\<close>

text \<open>
  Replay accepts a log whose last record is torn, but the engine appends behind the torn bytes: what it logs from
  then on is taken for the rest of the torn record, and the next replay fails.
\<close>

lemma torn_log_poisoned:
  "let torn = take 9 (record_of [1, 2]); (_, w) = Append [3] (OpenWrite torn None 64); (err, w1) = Flush w;
       opts = \<lparr>MaxPayload = 64, AllowTruncatedTail = True\<rparr>; keep = (\<lambda>p ps. (None, ps @ [p]))
   in err = None \<and> content w1 = torn @ record_of [3] \<and>
     fst (snd (Replay (Some torn) opts keep [])) = None \<and>
     fst (snd (Replay (Some (content w1)) opts keep [])) = Some ErrChecksumMismatch"
  by code_simp

end
