(* ===== verification/Scan_Ack.thy ===== *)
theory Scan_Ack
  imports Watcher_Types Kline_Fixed
begin

text \<open>
  \<^verbatim>\<open>learn/eth/scan\<close>: scanning the blocks of a chain into a stream of redis, with a cursor in a table. This theory:
  the cursor (\<^verbatim>\<open>repo.go\<close>, \<^verbatim>\<open>util.go\<close>) and the handler of \<^verbatim>\<open>handler3.go\<close>, whose master, push worker, ack manager and
  retries run beside each other over bounded channels. Redis, the node behind the interface \<open>Chair\<close> and JSON are
  parameters.
\<close>

subsection \<open>The cursor\<close>

text \<open>The table \<open>scans\<close>; an update of a symbol without a row changes nothing and reports nothing.\<close>

definition Scan_GetLastCursor :: "goerror option \<Rightarrow> scans \<Rightarrow> string \<Rightarrow> goerror + int" where
  "Scan_GetLastCursor db_err tab symbol =
     (case db_err of
        Some e \<Rightarrow> Inl (''query cursor failed: '' @ e)
      | None \<Rightarrow> (case tab symbol of None \<Rightarrow> Inr 0 | Some h \<Rightarrow> Inr h))"

definition Scan_UpdateCursor :: "goerror option \<Rightarrow> scans \<Rightarrow> string \<Rightarrow> int \<Rightarrow> goerror + scans" where
  "Scan_UpdateCursor db_err tab symbol h =
     (case db_err of
        Some e \<Rightarrow> Inl (''update cursor failed: '' @ e)
      | None \<Rightarrow> Inr (if tab symbol = None then tab else tab(symbol \<mapsto> h)))"

definition cursorInt64ToUint64 :: "int \<Rightarrow> goerror + uint64" where
  "cursorInt64ToUint64 cursor =
     (if cursor < 0 then Inl (''cursor must be >= 0, got '' @ fmt_d cursor) else Inr (word_of_int cursor))"

definition cursorUint64ToInt64 :: "uint64 \<Rightarrow> goerror + int" where
  "cursorUint64ToInt64 cursor =
     (if uint cursor > 2 ^ 63 - 1 then Inl (''cursor overflows int64: '' @ fmt_d (uint cursor)) else Inr (i64 (uint cursor)))"

subsection \<open>The stream\<close>

text \<open>An \<open>XADD\<close> of a pipeline, with its fixed identifier.\<close>

record XAdd =
  xStream :: string
  xID :: string
  xData :: string
  xType :: string

text \<open>
  The client: a pipeline's error, the errors of its commands and the new state; and \<open>XRANGE\<close> of a single identifier as
  the number of its entries.
\<close>

record 'r Redis =
  pipe_exec :: "XAdd list \<Rightarrow> 'r \<Rightarrow> goerror option \<times> goerror option list \<times> 'r"
  xrange :: "string \<Rightarrow> string \<Rightarrow> 'r \<Rightarrow> goerror + nat"

definition isRedisXAddIDTooSmallErr :: "goerror option \<Rightarrow> bool" where
  "isRedisXAddIDTooSmallErr err =
     (case err of None \<Rightarrow> False | Some e \<Rightarrow> contains e ''equal or smaller than the target stream top item'')"

definition xaddIDExists :: "'r Redis \<Rightarrow> string \<Rightarrow> string \<Rightarrow> 'r \<Rightarrow> goerror + bool" where
  "xaddIDExists R stream i r = (case xrange R stream i r of Inl e \<Rightarrow> Inl e | Inr n \<Rightarrow> Inr (n > 0))"

text \<open>What redis promises: a command without an error has put its entry into the stream, entries stay, and a range
  finds only entries that are there. \<open>entry r stream i\<close>: the stream has an entry \<open>i\<close>.\<close>

definition stream_laws :: "'r Redis \<Rightarrow> ('r \<Rightarrow> string \<Rightarrow> string \<Rightarrow> bool) \<Rightarrow> bool" where
  "stream_laws R entry \<longleftrightarrow>
     (\<forall>cmds r err errs r'. pipe_exec R cmds r = (err, errs, r') \<longrightarrow>
        length errs = length cmds \<and> (\<forall>st i. entry r st i \<longrightarrow> entry r' st i) \<and>
        (err = None \<longrightarrow> (\<forall>x \<in> set errs. x = None)) \<and>
        (\<forall>k < length cmds. errs ! k = None \<longrightarrow> entry r' (xStream (cmds ! k)) (xID (cmds ! k)))) \<and>
     (\<forall>st i r n. xrange R st i r = Inr n \<and> 0 < n \<longrightarrow> entry r st i)"

subsection \<open>The third handler\<close>

record Handler3Cfg =
  hSymbol :: string
  hStream :: string
  hMasterInterval :: int
  hFlushInterval :: int
  hBatchSize :: int
  hBackoff :: int
  hPushWorkers :: int
  hMaxRetries :: int

record 'b pushJob =
  jHeight :: uint64
  jBlock :: 'b
  jAttempt :: int

type_synonym 'b ackResult = "'b pushJob \<times> goerror option"

text \<open>
  The handler's channels, the locals of its goroutines, the table and redis. \<open>nextEnqueue\<close> and \<open>hExpected\<close> are \<open>None\<close>
  until the master and the ack manager have read the cursor; \<open>chasing\<close> is the height the master is catching up to;
  \<open>sending\<close> are the acks a flush still has to hand over; \<open>given_up\<close> are jobs no goroutine has any more.
\<close>

record ('b, 'r) Handler3 =
  nextEnqueue :: "uint64 option"
  chasing :: "uint64 option"
  jobCh :: "'b pushJob list"
  wBatch :: "'b pushJob list"
  wTimer :: bool
  sending :: "'b ackResult list"
  ackCh :: "'b ackResult list"
  hExpected :: "uint64 option"
  hPending :: "uint64 \<rightharpoonup> 'b ackResult"
  retrying :: "'b pushJob list"
  given_up :: "'b pushJob list"
  hScans :: scans
  hRedis :: 'r
  ctxDone :: bool
  masterEnded :: bool
  workerEnded :: bool
  ackEnded :: bool

text \<open>Times in milliseconds. More than one worker is not allowed.\<close>

definition handler3_cfg :: "Handler3Cfg \<Rightarrow> Handler3Cfg" where
  "handler3_cfg cfg =
     (let c1 = (if hMasterInterval cfg \<le> 0 then cfg\<lparr>hMasterInterval := 1000\<rparr> else cfg);
          c2 = (if hFlushInterval c1 \<le> 0 then c1\<lparr>hFlushInterval := 100\<rparr> else c1);
          c3 = (if hBatchSize c2 \<le> 0 then c2\<lparr>hBatchSize := 100\<rparr> else c2);
          c4 = (if hBackoff c3 \<le> 0 then c3\<lparr>hBackoff := 200\<rparr> else c3);
          c5 = (if hPushWorkers c4 \<le> 0 then c4\<lparr>hPushWorkers := 1\<rparr> else c4);
          c6 = (if hStream c5 = [] then c5\<lparr>hStream := ''stream:scans''\<rparr> else c5)
      in if hPushWorkers c6 > 1 then c6\<lparr>hPushWorkers := 1\<rparr> else c6)"

definition NewHandler3 :: "scans \<Rightarrow> 'r \<Rightarrow> ('b, 'r) Handler3" where
  "NewHandler3 tab r =
     \<lparr>nextEnqueue = None, chasing = None, jobCh = [], wBatch = [], wTimer = False, sending = [], ackCh = [],
      hExpected = None, hPending = (\<lambda>_. None), retrying = [], given_up = [], hScans = tab, hRedis = r,
      ctxDone = False, masterEnded = False, workerEnded = False, ackEnded = False\<rparr>"

definition chan_cap :: "Handler3Cfg \<Rightarrow> int" where
  "chan_cap cfg = hBatchSize cfg * 4"

definition h3_room :: "Handler3Cfg \<Rightarrow> 'a list \<Rightarrow> bool" where
  "h3_room cfg xs \<longleftrightarrow> int (length xs) < chan_cap cfg"

subsubsection \<open>The master\<close>

definition master_read :: "Handler3Cfg \<Rightarrow> goerror option \<Rightarrow> ('b, 'r) Handler3 \<Rightarrow> ('b, 'r) Handler3" where
  "master_read cfg db_err s =
     (case Scan_GetLastCursor db_err (hScans s) (hSymbol cfg) of
        Inl _ \<Rightarrow> s
      | Inr cursor \<Rightarrow>
          (case cursorInt64ToUint64 cursor of
             Inl _ \<Rightarrow> s\<lparr>masterEnded := True\<rparr>
           | Inr n \<Rightarrow> s\<lparr>nextEnqueue := Some n\<rparr>))"

text \<open>\<open>enqueueBlocks\<close> asks for the height once, then runs its loop; a turn that cannot get the block, or finds the
  channel full, is made again.\<close>

definition h3_master_tick :: "goerror + uint64 \<Rightarrow> ('b, 'r) Handler3 \<Rightarrow> ('b, 'r) Handler3" where
  "h3_master_tick height s = (case height of Inl _ \<Rightarrow> s | Inr latest \<Rightarrow> s\<lparr>chasing := Some latest\<rparr>)"

definition enqueue_turn :: "Handler3Cfg \<Rightarrow> goerror + 'b \<Rightarrow> uint64 \<Rightarrow> uint64 \<Rightarrow> ('b, 'r) Handler3 \<Rightarrow> ('b, 'r) Handler3" where
  "enqueue_turn cfg block latest n s =
     (if n < latest then
        (case block of
           Inl _ \<Rightarrow> s
         | Inr b \<Rightarrow>
             if h3_room cfg (jobCh s)
             then s\<lparr>jobCh := jobCh s @ [\<lparr>jHeight = n, jBlock = b, jAttempt = 0\<rparr>], nextEnqueue := Some (n + 1)\<rparr>
             else s)
      else s\<lparr>chasing := None\<rparr>)"

subsubsection \<open>The push worker\<close>

definition block_id :: "string \<Rightarrow> uint64 \<Rightarrow> string" where
  "block_id symbol h = symbol @ ''-'' @ fmt_d (uint h) @ ''-0''"

fun push_cmds :: "('b \<Rightarrow> goerror + string) \<Rightarrow> Handler3Cfg \<Rightarrow> 'b pushJob list \<Rightarrow> goerror + XAdd list" where
  "push_cmds marshal cfg [] = Inr []"
| "push_cmds marshal cfg (job # jobs) =
     (case marshal (jBlock job) of
        Inl e \<Rightarrow> Inl (''marshal block '' @ fmt_d (uint (jHeight job)) @ '': '' @ e)
      | Inr json \<Rightarrow>
          (case push_cmds marshal cfg jobs of
             Inl e \<Rightarrow> Inl e
           | Inr cmds \<Rightarrow> Inr (\<lparr>xStream = hStream cfg, xID = block_id (hSymbol cfg) (jHeight job), xData = json,
               xType = ''native''\<rparr> # cmds)))"

text \<open>After a failed pipeline: an entry that is there already counts as pushed.\<close>

fun check_cmds :: "'r Redis \<Rightarrow> (XAdd \<times> goerror option) list \<Rightarrow> 'r \<Rightarrow> goerror option" where
  "check_cmds R [] r = None"
| "check_cmds R ((cmd, err) # rest) r =
     (case err of
        None \<Rightarrow> check_cmds R rest r
      | Some e \<Rightarrow>
          if isRedisXAddIDTooSmallErr err then
            (case xaddIDExists R (xStream cmd) (xID cmd) r of
               Inl x \<Rightarrow> Some (''xrange '' @ xStream cmd @ '' '' @ xID cmd @ '': '' @ x)
             | Inr True \<Rightarrow> check_cmds R rest r
             | Inr False \<Rightarrow> Some (''xadd '' @ xID cmd @ '' failed: '' @ e))
          else Some (''xadd '' @ xID cmd @ '' failed: '' @ e))"

definition push3 :: "'r Redis \<Rightarrow> ('b \<Rightarrow> goerror + string) \<Rightarrow> Handler3Cfg \<Rightarrow> 'b pushJob list \<Rightarrow> 'r \<Rightarrow> goerror option \<times> 'r" where
  "push3 R marshal cfg jobs r =
     (case push_cmds marshal cfg jobs of
        Inl e \<Rightarrow> (Some e, r)
      | Inr cmds \<Rightarrow>
          (let (err, errs, r1) = pipe_exec R cmds r
           in if err = None then (None, r1) else (check_cmds R (zip cmds errs) r1, r1)))"

definition worker_flush :: "'r Redis \<Rightarrow> ('b \<Rightarrow> goerror + string) \<Rightarrow> Handler3Cfg \<Rightarrow> ('b, 'r) Handler3 \<Rightarrow> ('b, 'r) Handler3" where
  "worker_flush R marshal cfg s =
     (if wBatch s = [] then s
      else let (err, r) = push3 R marshal cfg (wBatch s) (hRedis s)
           in s\<lparr>hRedis := r, sending := map (\<lambda>job. (job, err)) (wBatch s), wBatch := [], wTimer := False\<rparr>)"

definition worker_receive :: "'r Redis \<Rightarrow> ('b \<Rightarrow> goerror + string) \<Rightarrow> Handler3Cfg \<Rightarrow> ('b, 'r) Handler3 \<Rightarrow> ('b, 'r) Handler3" where
  "worker_receive R marshal cfg s =
     (case jobCh s of
        [] \<Rightarrow> s
      | job # jobs \<Rightarrow>
          (let batch = wBatch s @ [job];
               s1 = s\<lparr>jobCh := jobs, wBatch := batch, wTimer := (wTimer s \<or> length batch = 1)\<rparr>
           in if int (length batch) \<ge> hBatchSize cfg then worker_flush R marshal cfg s1 else s1))"

definition worker_send :: "('b, 'r) Handler3 \<Rightarrow> ('b, 'r) Handler3" where
  "worker_send s = (case sending s of [] \<Rightarrow> s | a # as1 \<Rightarrow> s\<lparr>sending := as1, ackCh := ackCh s @ [a]\<rparr>)"

subsubsection \<open>The ack manager\<close>

definition ack_read :: "Handler3Cfg \<Rightarrow> goerror option \<Rightarrow> ('b, 'r) Handler3 \<Rightarrow> ('b, 'r) Handler3" where
  "ack_read cfg db_err s =
     (case Scan_GetLastCursor db_err (hScans s) (hSymbol cfg) of
        Inl _ \<Rightarrow> s
      | Inr cursor \<Rightarrow>
          (case cursorInt64ToUint64 cursor of
             Inl _ \<Rightarrow> s\<lparr>ackEnded := True\<rparr>
           | Inr n \<Rightarrow> s\<lparr>hExpected := Some n\<rparr>))"

text \<open>The inner loop goes on while the expected height has been pushed.\<close>

definition can_advance :: "('b, 'r) Handler3 \<Rightarrow> bool" where
  "can_advance s =
     (case hExpected s of
        None \<Rightarrow> False
      | Some e \<Rightarrow> (case hPending s e of None \<Rightarrow> False | Some (_, err) \<Rightarrow> err = None))"

definition ack_advance :: "Handler3Cfg \<Rightarrow> goerror option \<Rightarrow> ('b, 'r) Handler3 \<Rightarrow> ('b, 'r) Handler3" where
  "ack_advance cfg db_err s =
     (case hExpected s of
        None \<Rightarrow> s
      | Some e \<Rightarrow>
          (case cursorUint64ToInt64 (e + 1) of
             Inl _ \<Rightarrow> s\<lparr>ackEnded := True\<rparr>
           | Inr nextCursor \<Rightarrow>
               (case Scan_UpdateCursor db_err (hScans s) (hSymbol cfg) nextCursor of
                  Inl _ \<Rightarrow> s
                | Inr tab \<Rightarrow> s\<lparr>hScans := tab, hPending := (hPending s)(e := None), hExpected := Some (e + 1)\<rparr>)))"

definition h3_ack_receive :: "Handler3Cfg \<Rightarrow> ('b, 'r) Handler3 \<Rightarrow> ('b, 'r) Handler3" where
  "h3_ack_receive cfg s =
     (case (ackCh s, hExpected s) of
        ((job, err) # rest, Some e) \<Rightarrow>
          (let s1 = s\<lparr>ackCh := rest\<rparr>
           in if err \<noteq> None then
                if hMaxRetries cfg = 0 \<or> jAttempt job < hMaxRetries cfg
                then s1\<lparr>retrying := retrying s @ [job\<lparr>jAttempt := i64 (jAttempt job + 1)\<rparr>]\<rparr>
                else s1\<lparr>given_up := given_up s @ [job]\<rparr>
              else if jHeight job < e then s1
              else s1\<lparr>hPending := (hPending s)(jHeight job \<mapsto> (job, err))\<rparr>)
      | _ \<Rightarrow> s)"

text \<open>A goroutine that has waited puts its job back, or ends with the context.\<close>

definition drop_nth :: "nat \<Rightarrow> 'a list \<Rightarrow> 'a list" where
  "drop_nth i xs = take i xs @ drop (Suc i) xs"

definition retry_enqueue :: "nat \<Rightarrow> ('b, 'r) Handler3 \<Rightarrow> ('b, 'r) Handler3" where
  "retry_enqueue i s = s\<lparr>jobCh := jobCh s @ [retrying s ! i], retrying := drop_nth i (retrying s)\<rparr>"

definition retry_end :: "nat \<Rightarrow> ('b, 'r) Handler3 \<Rightarrow> ('b, 'r) Handler3" where
  "retry_end i s = s\<lparr>given_up := given_up s @ [retrying s ! i], retrying := drop_nth i (retrying s)\<rparr>"

subsection \<open>The handler as a system\<close>

text \<open>
  One step of any of the goroutines, with any answers of the table, the node and redis; a context that is done may end
  each of them. Other clients of redis may add entries.
\<close>

inductive h3_step :: "'r Redis \<Rightarrow> ('r \<Rightarrow> string \<Rightarrow> string \<Rightarrow> bool) \<Rightarrow> ('b \<Rightarrow> goerror + string) \<Rightarrow> Handler3Cfg \<Rightarrow>
    ('b, 'r) Handler3 \<Rightarrow> ('b, 'r) Handler3 \<Rightarrow> bool" for R entry marshal cfg where
  m_read: "nextEnqueue s = None \<Longrightarrow> \<not> masterEnded s \<Longrightarrow> h3_step R entry marshal cfg s (master_read cfg db_err s)"
| m_tick: "nextEnqueue s = Some n \<Longrightarrow> chasing s = None \<Longrightarrow> \<not> masterEnded s \<Longrightarrow>
    h3_step R entry marshal cfg s (h3_master_tick height s)"
| m_turn: "nextEnqueue s = Some n \<Longrightarrow> chasing s = Some latest \<Longrightarrow> \<not> masterEnded s \<Longrightarrow>
    h3_step R entry marshal cfg s (enqueue_turn cfg block latest n s)"
| w_receive: "sending s = [] \<Longrightarrow> \<not> workerEnded s \<Longrightarrow> h3_step R entry marshal cfg s (worker_receive R marshal cfg s)"
| w_timer: "sending s = [] \<Longrightarrow> \<not> workerEnded s \<Longrightarrow> wTimer s \<Longrightarrow> h3_step R entry marshal cfg s (worker_flush R marshal cfg s)"
| w_send: "h3_room cfg (ackCh s) \<Longrightarrow> h3_step R entry marshal cfg s (worker_send s)"
| a_read: "hExpected s = None \<Longrightarrow> \<not> ackEnded s \<Longrightarrow> h3_step R entry marshal cfg s (ack_read cfg db_err s)"
| a_receive: "\<not> can_advance s \<Longrightarrow> \<not> ackEnded s \<Longrightarrow> h3_step R entry marshal cfg s (h3_ack_receive cfg s)"
| a_advance: "can_advance s \<Longrightarrow> \<not> ackEnded s \<Longrightarrow> h3_step R entry marshal cfg s (ack_advance cfg db_err s)"
| r_enqueue: "i < length (retrying s) \<Longrightarrow> h3_room cfg (jobCh s) \<Longrightarrow> h3_step R entry marshal cfg s (retry_enqueue i s)"
| cancel: "h3_step R entry marshal cfg s (s\<lparr>ctxDone := True\<rparr>)"
| m_end: "ctxDone s \<Longrightarrow> h3_step R entry marshal cfg s (s\<lparr>masterEnded := True\<rparr>)"
| w_end: "ctxDone s \<Longrightarrow> sending s = [] \<Longrightarrow> \<not> workerEnded s \<Longrightarrow>
    h3_step R entry marshal cfg s ((worker_flush R marshal cfg s)\<lparr>workerEnded := True\<rparr>)"
| a_end: "ctxDone s \<Longrightarrow> h3_step R entry marshal cfg s (s\<lparr>ackEnded := True\<rparr>)"
| r_end: "ctxDone s \<Longrightarrow> i < length (retrying s) \<Longrightarrow> h3_step R entry marshal cfg s (retry_end i s)"
| others: "\<forall>st i. entry (hRedis s) st i \<longrightarrow> entry r st i \<Longrightarrow> h3_step R entry marshal cfg s (s\<lparr>hRedis := r\<rparr>)"

inductive h3_reach :: "'r Redis \<Rightarrow> ('r \<Rightarrow> string \<Rightarrow> string \<Rightarrow> bool) \<Rightarrow> ('b \<Rightarrow> goerror + string) \<Rightarrow> Handler3Cfg \<Rightarrow>
    scans \<Rightarrow> ('b, 'r) Handler3 \<Rightarrow> bool" for R entry marshal cfg tab where
  new: "h3_reach R entry marshal cfg tab (NewHandler3 tab r)"
| step: "h3_reach R entry marshal cfg tab s \<Longrightarrow> h3_step R entry marshal cfg s s' \<Longrightarrow> h3_reach R entry marshal cfg tab s'"

subsection \<open>Ranges of heights\<close>

definition heights :: "uint64 \<Rightarrow> uint64 \<Rightarrow> uint64 set" where
  "heights a b = {h. a \<le> h \<and> h < b}"

lemma heights_empty [simp]: "heights a a = {}"
  by (auto simp: heights_def)

lemma word_inc: "(n :: uint64) < l \<Longrightarrow> h < n + 1 \<longleftrightarrow> h \<le> n" "(n :: uint64) < l \<Longrightarrow> n + 1 \<le> h \<longleftrightarrow> n < h"
  "(n :: uint64) < l \<Longrightarrow> unat (n + 1) = unat n + 1"
proof -
  assume "n < l"
  then have "unat n < unat l" by (simp add: word_less_nat_alt)
  then have "unat n + 1 < 2 ^ 64" using unsigned_less[where 'a = nat, of l] by simp
  then show u: "unat (n + 1) = unat n + 1" by (simp add: unat_word_ariths)
  then show "h < n + 1 \<longleftrightarrow> h \<le> n" "n + 1 \<le> h \<longleftrightarrow> n < h"
    by (auto simp: word_less_nat_alt word_le_nat_alt)
qed

lemma heights_more:
  assumes "a \<le> b" and "b < l"
  shows "heights a (b + 1) = insert b (heights a b)" "b \<notin> heights a b" "a \<le> b + 1"
proof -
  have "a < b + 1" using assms word_inc(1)[OF assms(2), of a] by simp
  then show "a \<le> b + 1" by simp
  show "b \<notin> heights a b" by (simp add: heights_def)
  show "heights a (b + 1) = insert b (heights a b)" using assms(1) by (auto simp: heights_def word_inc(1)[OF assms(2)])
qed

lemma heights_less:
  assumes "a < b"
  shows "heights (a + 1) b = heights a b - {a}" "a \<in> heights a b" "a + 1 \<le> b" "a < a + 1"
proof -
  show "a + 1 \<le> b" using assms by (simp add: word_inc(2)[OF assms])
  show "a < a + 1" by (simp add: word_inc(1)[OF assms])
  show "a \<in> heights a b" using assms by (simp add: heights_def)
  show "heights (a + 1) b = heights a b - {a}" by (auto simp: heights_def word_inc(2)[OF assms])
qed

subsection \<open>The invariant\<close>

definition start_at :: "Handler3Cfg \<Rightarrow> scans \<Rightarrow> uint64" where
  "start_at cfg tab = (case tab (hSymbol cfg) of None \<Rightarrow> 0 | Some c \<Rightarrow> word_of_int c)"

text \<open>The heights to record next and to enqueue next; before it is read the cursor stands for them.\<close>

definition recorded :: "uint64 \<Rightarrow> ('b, 'r) Handler3 \<Rightarrow> uint64" where
  "recorded st s = (case hExpected s of None \<Rightarrow> st | Some e \<Rightarrow> e)"

definition enqueued :: "uint64 \<Rightarrow> ('b, 'r) Handler3 \<Rightarrow> uint64" where
  "enqueued st s = (case nextEnqueue s of None \<Rightarrow> st | Some n \<Rightarrow> n)"

text \<open>Where the jobs are; the pending acks are kept by height.\<close>

definition on_the_way :: "('b, 'r) Handler3 \<Rightarrow> uint64 multiset" where
  "on_the_way s = image_mset jHeight (mset (jobCh s @ wBatch s @ map fst (sending s) @ map fst (ackCh s) @ retrying s))"

definition conserved :: "uint64 \<Rightarrow> ('b, 'r) Handler3 \<Rightarrow> bool" where
  "conserved st s \<longleftrightarrow> st \<le> recorded st s \<and> recorded st s \<le> enqueued st s \<and>
     on_the_way s + image_mset jHeight (mset (given_up s)) + mset_set (dom (hPending s)) =
       mset_set (heights (recorded st s) (enqueued st s))"

definition in_stream :: "('r \<Rightarrow> string \<Rightarrow> string \<Rightarrow> bool) \<Rightarrow> Handler3Cfg \<Rightarrow> ('b, 'r) Handler3 \<Rightarrow> uint64 \<Rightarrow> bool" where
  "in_stream entry cfg s h \<longleftrightarrow> entry (hRedis s) (hStream cfg) (block_id (hSymbol cfg) h)"

definition acks_true :: "('r \<Rightarrow> string \<Rightarrow> string \<Rightarrow> bool) \<Rightarrow> Handler3Cfg \<Rightarrow> uint64 \<Rightarrow> ('b, 'r) Handler3 \<Rightarrow> bool" where
  "acks_true entry cfg st s \<longleftrightarrow>
     (\<forall>x \<in> set (sending s) \<union> set (ackCh s). snd x = None \<longrightarrow> in_stream entry cfg s (jHeight (fst x))) \<and>
     (\<forall>h \<in> dom (hPending s). in_stream entry cfg s h) \<and> (\<forall>h \<in> heights st (recorded st s). in_stream entry cfg s h)"

definition table_kept :: "Handler3Cfg \<Rightarrow> scans \<Rightarrow> ('b, 'r) Handler3 \<Rightarrow> bool" where
  "table_kept cfg tab s \<longleftrightarrow>
     hScans s = (if tab (hSymbol cfg) = None then tab else tab(hSymbol cfg \<mapsto> uint (recorded (start_at cfg tab) s)))"

text \<open>A symbol's cursor in the table is an \<open>int64\<close> that is not negative.\<close>

definition table_ok :: "Handler3Cfg \<Rightarrow> scans \<Rightarrow> bool" where
  "table_ok cfg tab \<longleftrightarrow> (\<forall>c. tab (hSymbol cfg) = Some c \<longrightarrow> 0 \<le> c \<and> c < 2 ^ 63)"

subsection \<open>Pushing\<close>

lemma push_cmds_ids:
  "push_cmds marshal cfg jobs = Inr cmds \<Longrightarrow>
   map (\<lambda>c. (xStream c, xID c)) cmds = map (\<lambda>j. (hStream cfg, block_id (hSymbol cfg) (jHeight j))) jobs"
  by (induction jobs arbitrary: cmds) (auto split: sum.splits)

lemma check_cmds_entries:
  assumes L: "stream_laws R entry"
  shows "check_cmds R xs r = None \<Longrightarrow> (cmd, err) \<in> set xs \<Longrightarrow> err = None \<or> entry r (xStream cmd) (xID cmd)"
proof (induction xs)
  case (Cons x xs)
  have "entry r st i" if "xaddIDExists R st i r = Inr True" for st i
    using L that by (auto simp: xaddIDExists_def stream_laws_def split: sum.splits)
  then show ?case using Cons by (cases x) (auto split: option.splits if_splits sum.splits bool.splits)
qed simp

lemma push_entries:
  assumes L: "stream_laws R entry" and p: "push3 R marshal cfg jobs r = (err, r1)"
  shows "entry r st i \<Longrightarrow> entry r1 st i"
    and "err = None \<Longrightarrow> j \<in> set jobs \<Longrightarrow> entry r1 (hStream cfg) (block_id (hSymbol cfg) (jHeight j))"
proof -
  have keep: "entry r' st i" if "pipe_exec R cmds r = (x, errs, r')" "entry r st i" for cmds x errs r' st i
    using L that unfolding stream_laws_def by blast
  show "entry r st i \<Longrightarrow> entry r1 st i"
    using p keep by (auto simp: push3_def Let_def split: sum.splits prod.splits if_splits)
  assume e: "err = None" and j: "j \<in> set jobs"
  obtain cmds x errs where c: "push_cmds marshal cfg jobs = Inr cmds" "pipe_exec R cmds r = (x, errs, r1)"
    and ok: "x = None \<or> check_cmds R (zip cmds errs) r1 = None"
    using p e by (auto simp: push3_def Let_def split: sum.splits prod.splits if_splits)
  note l = L[unfolded stream_laws_def, THEN conjunct1, rule_format, OF c(2)]
  note ids = push_cmds_ids[OF c(1)]
  obtain k where k: "k < length jobs" "j = jobs ! k" using j by (auto simp: in_set_conv_nth)
  have n: "length cmds = length jobs" using ids by (metis length_map)
  have i: "xStream (cmds ! k) = hStream cfg" "xID (cmds ! k) = block_id (hSymbol cfg) (jHeight j)"
    using arg_cong[OF ids, of "\<lambda>xs. xs ! k"] k n by simp_all
  have "errs ! k = None \<or> entry r1 (xStream (cmds ! k)) (xID (cmds ! k))"
  proof (cases "x = None")
    case True
    then show ?thesis using l k(1) n by simp
  next
    case False
    have "(cmds ! k, errs ! k) \<in> set (zip cmds errs)" using l k(1) n by (auto simp: in_set_zip)
    then show ?thesis using check_cmds_entries[OF L] ok False by blast
  qed
  then show "entry r1 (hStream cfg) (block_id (hSymbol cfg) (jHeight j))" using l k(1) n i by auto
qed

lemma flush_facts:
  assumes "sending s = []"
  shows "recorded st (worker_flush R marshal cfg s) = recorded st s" "enqueued st (worker_flush R marshal cfg s) = enqueued st s"
    "on_the_way (worker_flush R marshal cfg s) = on_the_way s" "given_up (worker_flush R marshal cfg s) = given_up s"
    "hPending (worker_flush R marshal cfg s) = hPending s" "hScans (worker_flush R marshal cfg s) = hScans s"
    "ctxDone (worker_flush R marshal cfg s) = ctxDone s"
  using assms by (simp_all add: worker_flush_def recorded_def enqueued_def on_the_way_def comp_def split: prod.split del: mset_map)

lemma receive_facts:
  assumes "sending s = []"
  shows "recorded st (worker_receive R marshal cfg s) = recorded st s" "enqueued st (worker_receive R marshal cfg s) = enqueued st s"
    "on_the_way (worker_receive R marshal cfg s) = on_the_way s" "given_up (worker_receive R marshal cfg s) = given_up s"
    "hPending (worker_receive R marshal cfg s) = hPending s" "hScans (worker_receive R marshal cfg s) = hScans s"
    "ctxDone (worker_receive R marshal cfg s) = ctxDone s"
proof -
  define s1 where "s1 = (case jobCh s of [] \<Rightarrow> s | job # jobs \<Rightarrow>
    s\<lparr>jobCh := jobs, wBatch := wBatch s @ [job], wTimer := (wTimer s \<or> wBatch s = [])\<rparr>)"
  have r: "worker_receive R marshal cfg s = s1 \<or> worker_receive R marshal cfg s = worker_flush R marshal cfg s1"
    by (auto simp: s1_def worker_receive_def Let_def split: list.split)
  have s1: "sending s1 = []" "recorded st s1 = recorded st s" "enqueued st s1 = enqueued st s" "on_the_way s1 = on_the_way s"
    "given_up s1 = given_up s" "hPending s1 = hPending s" "hScans s1 = hScans s" "ctxDone s1 = ctxDone s"
    using assms by (auto simp: s1_def recorded_def enqueued_def on_the_way_def split: list.split)
  note f = flush_facts[OF s1(1)]
  show "recorded st (worker_receive R marshal cfg s) = recorded st s" "enqueued st (worker_receive R marshal cfg s) = enqueued st s"
    "on_the_way (worker_receive R marshal cfg s) = on_the_way s" "given_up (worker_receive R marshal cfg s) = given_up s"
    "hPending (worker_receive R marshal cfg s) = hPending s" "hScans (worker_receive R marshal cfg s) = hScans s"
    "ctxDone (worker_receive R marshal cfg s) = ctxDone s"
    using r f s1 by metis+
qed

lemma send_facts:
  "recorded st (worker_send s) = recorded st s" "enqueued st (worker_send s) = enqueued st s"
  "on_the_way (worker_send s) = on_the_way s" "given_up (worker_send s) = given_up s"
  "hPending (worker_send s) = hPending s" "hScans (worker_send s) = hScans s" "ctxDone (worker_send s) = ctxDone s"
  by (auto simp: worker_send_def recorded_def enqueued_def on_the_way_def split: list.split)

lemma drop_nth_mset: "i < length xs \<Longrightarrow> add_mset (xs ! i) (mset (drop_nth i xs)) = mset xs"
  by (simp add: drop_nth_def) (metis Cons_nth_drop_Suc id_take_nth_drop mset.simps(2) mset_append union_mset_add_mset_right)

lemma retry_facts:
  assumes "i < length (retrying s)"
  shows "on_the_way (retry_enqueue i s) = on_the_way s"
    "on_the_way (retry_end i s) + image_mset jHeight (mset (given_up (retry_end i s))) =
       on_the_way s + image_mset jHeight (mset (given_up s))"
  using arg_cong[OF drop_nth_mset[OF assms], of "image_mset jHeight"]
  by (auto simp: on_the_way_def retry_enqueue_def retry_end_def)

subsection \<open>Every step keeps it\<close>

lemma master_keeps:
  assumes c: "conserved st s" and t: "table_kept cfg tab s" and ok: "table_ok cfg tab" and st: "st = start_at cfg tab"
    and n: "nextEnqueue s = None"
  shows "conserved st (master_read cfg db_err s)"
proof -
  have e: "recorded st s = st" using c n by (auto simp: conserved_def enqueued_def)
  have r: "recorded st (master_read cfg db_err s) = recorded st s" "on_the_way (master_read cfg db_err s) = on_the_way s"
    "given_up (master_read cfg db_err s) = given_up s" "hPending (master_read cfg db_err s) = hPending s"
    by (auto simp: master_read_def recorded_def on_the_way_def split: sum.splits)
  have "enqueued st (master_read cfg db_err s) = enqueued st s"
    using e t ok n st
    by (auto simp: master_read_def enqueued_def Scan_GetLastCursor_def cursorInt64ToUint64_def table_kept_def start_at_def
        table_ok_def split: option.splits sum.splits if_splits)
  then show ?thesis using c r by (simp add: conserved_def)
qed

lemma ack_read_keeps:
  assumes c: "conserved st s" and t: "table_kept cfg tab s" and ok: "table_ok cfg tab" and st: "st = start_at cfg tab"
    and n: "hExpected s = None"
  shows "recorded st (ack_read cfg db_err s) = recorded st s"
  using t ok n st
  by (auto simp: ack_read_def recorded_def Scan_GetLastCursor_def cursorInt64ToUint64_def table_kept_def start_at_def
      table_ok_def split: option.splits sum.splits if_splits)

lemma turn_keeps:
  assumes c: "conserved st s" and n: "nextEnqueue s = Some n"
  shows "conserved st (enqueue_turn cfg block latest n s)"
proof (cases "n < latest \<and> (\<exists>b. block = Inr b) \<and> h3_room cfg (jobCh s)")
  case True
  then obtain b where b: "block = Inr b" by blast
  let ?s = "enqueue_turn cfg block latest n s"
  have s: "recorded st ?s = recorded st s" "enqueued st ?s = n + 1" "given_up ?s = given_up s" "hPending ?s = hPending s"
    "on_the_way ?s = add_mset n (on_the_way s)" "enqueued st s = n"
    using True b n by (auto simp: enqueue_turn_def recorded_def enqueued_def on_the_way_def)
  have e: "recorded st s \<le> n" using c s(6) by (simp add: conserved_def)
  note h = heights_more[OF e conjunct1[OF True]]
  have "mset_set (heights (recorded st s) (n + 1)) = add_mset n (mset_set (heights (recorded st s) n))"
    using h by simp
  then show ?thesis using c s h(3) by (simp add: conserved_def)
next
  case False
  then show ?thesis using c n
    by (auto simp: enqueue_turn_def conserved_def recorded_def enqueued_def on_the_way_def split: sum.splits)
qed


lemma conserved_range:
  assumes "conserved st s" and "h \<in># on_the_way s + mset_set (dom (hPending s))"
  shows "recorded st s \<le> h" "h < enqueued st s"
proof -
  have "h \<in># mset_set (heights (recorded st s) (enqueued st s))"
    using assms by (metis conserved_def union_iff)
  then show "recorded st s \<le> h" "h < enqueued st s" by (simp_all add: heights_def)
qed

lemma conserved_once:
  assumes "conserved st s" and "h \<in># on_the_way s"
  shows "hPending s h = None"
proof (rule ccontr)
  assume "hPending s h \<noteq> None"
  then have "count (mset_set (dom (hPending s))) h = 1" by (simp add: domIff)
  moreover have "0 < count (on_the_way s) h" using assms(2) by simp
  moreover have "count (on_the_way s + image_mset jHeight (mset (given_up s)) + mset_set (dom (hPending s))) h =
      count (mset_set (heights (recorded st s) (enqueued st s))) h"
    using assms(1) by (simp only: conserved_def)
  moreover have "count (mset_set (heights (recorded st s) (enqueued st s))) h \<le> 1" by (simp add: count_mset_set')
  ultimately show False unfolding count_union by linarith
qed

lemma ack_receive_keeps:
  assumes c: "conserved st s"
  shows "conserved st (h3_ack_receive cfg s)" "recorded st (h3_ack_receive cfg s) = recorded st s"
    "hScans (h3_ack_receive cfg s) = hScans s"
proof -
  show r: "recorded st (h3_ack_receive cfg s) = recorded st s"
    by (auto simp: h3_ack_receive_def recorded_def Let_def split: list.split option.split prod.split)
  show "hScans (h3_ack_receive cfg s) = hScans s"
    by (auto simp: h3_ack_receive_def Let_def split: list.split option.split prod.split)
  have n: "enqueued st (h3_ack_receive cfg s) = enqueued st s"
    by (auto simp: h3_ack_receive_def enqueued_def Let_def split: list.split option.split prod.split)
  show "conserved st (h3_ack_receive cfg s)"
  proof (cases "ackCh s = [] \<or> hExpected s = None")
    case True
    then have "h3_ack_receive cfg s = s" by (auto simp: h3_ack_receive_def split: list.split)
    then show ?thesis using c by simp
  next
    case False
    then obtain job err rest e where a: "ackCh s = (job, err) # rest" "hExpected s = Some e"
      by (cases "ackCh s") auto
    have w: "on_the_way s = add_mset (jHeight job) (on_the_way (s\<lparr>ackCh := rest\<rparr>))" by (simp add: on_the_way_def a(1))
    then have h: "jHeight job \<in># on_the_way s" by simp
    have e: "recorded st s = e" by (simp add: recorded_def a(2))
    have "e \<le> jHeight job" using conserved_range(1)[OF c, of "jHeight job"] h e by simp
    moreover have "mset_set (insert (jHeight job) (dom (hPending s))) = add_mset (jHeight job) (mset_set (dom (hPending s)))"
      using conserved_once[OF c h] by (intro mset_set.insert) (auto simp: domIff)
    ultimately show ?thesis using c w r n
      by (auto simp: conserved_def h3_ack_receive_def a Let_def on_the_way_def)
  qed
qed

lemma can_advance_at:
  assumes "conserved st s" and "can_advance s"
  shows "\<exists>e. hExpected s = Some e \<and> hPending s e \<noteq> None \<and> e < enqueued st s \<and> recorded st s = e"
proof -
  obtain e where e: "hExpected s = Some e" "hPending s e \<noteq> None"
    using assms(2) by (auto simp: can_advance_def split: option.splits)
  then have "e \<in># on_the_way s + mset_set (dom (hPending s))" by (simp add: domIff)
  from conserved_range(2)[OF assms(1) this] show ?thesis using e by (simp add: recorded_def)
qed

lemma cursor_fits: "cursorUint64ToInt64 c = Inr n \<Longrightarrow> n = uint c"
proof -
  assume "cursorUint64ToInt64 c = Inr n"
  then have "n = i64 (uint c)" "uint c \<le> 2 ^ 63 - 1" by (auto simp: cursorUint64ToInt64_def split: if_splits)
  moreover have "- (2 ^ 63) \<le> uint c" by (rule order_trans[of _ 0]) simp_all
  ultimately show ?thesis by (simp add: is_i64_def i64_id del: unsigned_greater_eq)
qed

lemma ack_advance_keeps:
  assumes c: "conserved (start_at cfg tab) s" and a: "can_advance s" and t: "table_kept cfg tab s"
  shows "conserved (start_at cfg tab) (ack_advance cfg db_err s)" "table_kept cfg tab (ack_advance cfg db_err s)"
proof -
  let ?st = "start_at cfg tab"
  obtain e where e: "hExpected s = Some e" "hPending s e \<noteq> None" "e < enqueued ?st s" "recorded ?st s = e"
    using can_advance_at[OF c a] by blast
  note h = heights_less[OF e(3)]
  have d: "mset_set (dom (hPending s)) = add_mset e (mset_set (dom (hPending s) - {e}))"
    using e(2) by (intro mset_set.remove) (auto simp: domIff)
  have r: "mset_set (heights e (enqueued ?st s)) = add_mset e (mset_set (heights e (enqueued ?st s) - {e}))"
    using h(2) by (intro mset_set.remove) auto
  have sum: "on_the_way s + image_mset jHeight (mset (given_up s)) + mset_set (dom (hPending s) - {e}) =
      mset_set (heights (e + 1) (enqueued ?st s))"
    using c d r h(1) by (simp add: conserved_def e(4))
  have "conserved ?st (ack_advance cfg db_err s) \<and> table_kept cfg tab (ack_advance cfg db_err s)"
  proof (cases "cursorUint64ToInt64 (e + 1)")
    case Inl
    then show ?thesis using c t
      by (simp add: ack_advance_def e(1) conserved_def table_kept_def recorded_def enqueued_def on_the_way_def)
  next
    case (Inr nextCursor)
    then have n: "nextCursor = uint (e + 1)" by (rule cursor_fits)
    show ?thesis
    proof (cases "Scan_UpdateCursor db_err (hScans s) (hSymbol cfg) nextCursor")
      case Inl
      then show ?thesis using c t Inr by (simp add: ack_advance_def e(1))
    next
      case (Inr tab')
      let ?s = "s\<lparr>hScans := tab', hPending := (hPending s)(e := None), hExpected := Some (e + 1)\<rparr>"
      have s: "ack_advance cfg db_err s = ?s" using Inr \<open>cursorUint64ToInt64 (e + 1) = Inr nextCursor\<close>
        by (simp add: ack_advance_def e(1))
      have "table_kept cfg tab ?s"
        using Inr t n by (auto simp: table_kept_def recorded_def Scan_UpdateCursor_def split: option.splits)
      moreover have "conserved ?st ?s"
        using sum c h(3,4) e(4) by (auto simp: conserved_def recorded_def enqueued_def on_the_way_def)
      ultimately show ?thesis using s by simp
    qed
  qed
  then show "conserved ?st (ack_advance cfg db_err s)" "table_kept cfg tab (ack_advance cfg db_err s)" by simp_all
qed

subsection \<open>Acks are true\<close>

lemma acks_frame:
  assumes "acks_true entry cfg st s" and "\<forall>st i. entry (hRedis s) st i \<longrightarrow> entry (hRedis s') st i"
    and "set (sending s') \<union> set (ackCh s') \<subseteq> set (sending s) \<union> set (ackCh s)" and "dom (hPending s') \<subseteq> dom (hPending s)"
    and "recorded st s' = recorded st s"
  shows "acks_true entry cfg st s'"
  unfolding acks_true_def in_stream_def
proof (intro conjI ballI impI)
  show "entry (hRedis s') (hStream cfg) (block_id (hSymbol cfg) (jHeight (fst x)))"
    if "x \<in> set (sending s') \<union> set (ackCh s')" "snd x = None" for x
    using that assms(1-3) by (auto simp: acks_true_def in_stream_def)
  show "entry (hRedis s') (hStream cfg) (block_id (hSymbol cfg) h)" if "h \<in> dom (hPending s')" for h
    using subsetD[OF assms(4) that] assms(1,2) by (simp add: acks_true_def in_stream_def)
  show "entry (hRedis s') (hStream cfg) (block_id (hSymbol cfg) h)" if "h \<in> heights st (recorded st s')" for h
    using that assms(1,2,5) by (simp add: acks_true_def in_stream_def)
qed

lemma flush_true:
  assumes L: "stream_laws R entry" and a: "acks_true entry cfg st s" and e: "sending s = []"
  shows "acks_true entry cfg st (worker_flush R marshal cfg s)"
proof (cases "wBatch s = []")
  case True
  then show ?thesis using a by (simp add: worker_flush_def)
next
  case False
  obtain err r where p: "push3 R marshal cfg (wBatch s) (hRedis s) = (err, r)" by fastforce
  note k = push_entries[OF L p]
  have s: "worker_flush R marshal cfg s =
      s\<lparr>hRedis := r, sending := map (\<lambda>job. (job, err)) (wBatch s), wBatch := [], wTimer := False\<rparr>"
    using False p by (simp add: worker_flush_def)
  have "recorded st (worker_flush R marshal cfg s) = recorded st s" by (rule flush_facts(1)[OF e])
  then have "recorded st (s\<lparr>hRedis := r, sending := map (\<lambda>job. (job, err)) (wBatch s), wBatch := [], wTimer := False\<rparr>) =
      recorded st s" by (simp add: s)
  then show ?thesis using a k e unfolding s acks_true_def in_stream_def by fastforce
qed

lemma receive_true:
  assumes L: "stream_laws R entry" and a: "acks_true entry cfg st s" and e: "sending s = []"
  shows "acks_true entry cfg st (worker_receive R marshal cfg s)"
proof (cases "jobCh s")
  case Nil
  then show ?thesis using a by (simp add: worker_receive_def)
next
  case (Cons job jobs)
  let ?s = "s\<lparr>jobCh := jobs, wBatch := wBatch s @ [job], wTimer := (wTimer s \<or> length (wBatch s @ [job]) = 1)\<rparr>"
  have "acks_true entry cfg st ?s" using a by (simp add: acks_true_def in_stream_def recorded_def)
  then show ?thesis using flush_true[OF L, of cfg st ?s marshal] e by (simp add: worker_receive_def Cons Let_def)
qed

lemma send_true: "acks_true entry cfg st s \<Longrightarrow> acks_true entry cfg st (worker_send s)"
  by (auto simp: worker_send_def acks_true_def in_stream_def recorded_def split: list.split)

lemma ack_receive_true:
  assumes a: "acks_true entry cfg st s"
  shows "acks_true entry cfg st (h3_ack_receive cfg s)"
proof (cases "ackCh s = [] \<or> hExpected s = None")
  case True
  then have "h3_ack_receive cfg s = s" by (auto simp: h3_ack_receive_def split: list.split)
  then show ?thesis using a by simp
next
  case False
  then obtain job err rest e where c: "ackCh s = (job, err) # rest" "hExpected s = Some e"
    by (cases "ackCh s") auto
  then show ?thesis using a by (auto simp: h3_ack_receive_def Let_def acks_true_def in_stream_def recorded_def)
qed

lemma advance_true:
  assumes a: "acks_true entry cfg st s" and c: "conserved st s" and v: "can_advance s"
  shows "acks_true entry cfg st (ack_advance cfg db_err s)"
proof -
  obtain e where e: "hExpected s = Some e" "hPending s e \<noteq> None" "e < enqueued st s" "recorded st s = e"
    using can_advance_at[OF c v] by blast
  have st: "st \<le> e" using c e(4) by (simp add: conserved_def)
  have h: "heights st (e + 1) = insert e (heights st e)" by (rule heights_more(1)[OF st e(3)])
  have "in_stream entry cfg s e" using a e(2) by (auto simp: acks_true_def)
  moreover have "\<forall>h \<in> heights st e. in_stream entry cfg s h" using a e(4) by (simp add: acks_true_def)
  ultimately show ?thesis using a h e(1,4)
    by (auto simp: ack_advance_def acks_true_def in_stream_def recorded_def split: sum.split)
qed

subsection \<open>All runs\<close>

definition h3_inv :: "('r \<Rightarrow> string \<Rightarrow> string \<Rightarrow> bool) \<Rightarrow> Handler3Cfg \<Rightarrow> scans \<Rightarrow> ('b, 'r) Handler3 \<Rightarrow> bool" where
  "h3_inv entry cfg tab s \<longleftrightarrow> conserved (start_at cfg tab) s \<and> table_kept cfg tab s \<and>
     acks_true entry cfg (start_at cfg tab) s \<and> (hMaxRetries cfg = 0 \<and> \<not> ctxDone s \<longrightarrow> given_up s = [])"

text \<open>A step that leaves the counters, the jobs, the table and the acks alone.\<close>

lemma h3_frame:
  assumes "h3_inv entry cfg tab s" and "\<And>st. recorded st s' = recorded st s" "\<And>st. enqueued st s' = enqueued st s"
    and "on_the_way s' + image_mset jHeight (mset (given_up s')) = on_the_way s + image_mset jHeight (mset (given_up s))"
    and "hPending s' = hPending s" "hScans s' = hScans s" and "acks_true entry cfg (start_at cfg tab) s'"
    and "hMaxRetries cfg = 0 \<and> \<not> ctxDone s' \<Longrightarrow> \<not> ctxDone s \<and> given_up s' = given_up s"
  shows "h3_inv entry cfg tab s'"
  using assms by (auto simp: h3_inv_def conserved_def table_kept_def)

lemma quiet_frame:
  assumes "h3_inv entry cfg tab s" and "on_the_way s' = on_the_way s" "given_up s' = given_up s" "hPending s' = hPending s"
    "hScans s' = hScans s" "hExpected s' = hExpected s" "nextEnqueue s' = nextEnqueue s" "hRedis s' = hRedis s"
    "sending s' = sending s" "ackCh s' = ackCh s" "ctxDone s \<longrightarrow> ctxDone s'"
  shows "h3_inv entry cfg tab s'"
  by (rule h3_frame[OF assms(1)])
    (use assms in \<open>auto simp: recorded_def enqueued_def h3_inv_def acks_true_def in_stream_def\<close>)

lemma ack_receive_ctx: "ctxDone (h3_ack_receive cfg s) = ctxDone s"
  "hMaxRetries cfg = 0 \<Longrightarrow> given_up (h3_ack_receive cfg s) = given_up s"
  by (auto simp: h3_ack_receive_def Let_def split: list.split option.split prod.split)

lemma ack_advance_ctx: "ctxDone (ack_advance cfg db_err s) = ctxDone s" "given_up (ack_advance cfg db_err s) = given_up s"
  by (auto simp: ack_advance_def split: option.split sum.split)

lemma h3_step_keeps:
  assumes L: "stream_laws R entry" and ok: "table_ok cfg tab"
  shows "h3_step R entry marshal cfg s s' \<Longrightarrow> h3_inv entry cfg tab s \<Longrightarrow> h3_inv entry cfg tab s'"
proof (induction rule: h3_step.induct)
  case (m_read s db_err)
  have c: "conserved (start_at cfg tab) (master_read cfg db_err s)"
    using master_keeps[OF _ _ ok refl m_read(1)] m_read(3) by (simp add: h3_inv_def)
  then show ?case using m_read(3)
    by (auto simp: h3_inv_def master_read_def table_kept_def acks_true_def in_stream_def recorded_def split: sum.splits)
next
  case (m_tick s n height)
  then show ?case by (intro quiet_frame[OF m_tick(4)]) (auto simp: h3_master_tick_def on_the_way_def split: sum.split)
next
  case (m_turn s n latest block)
  have c: "conserved (start_at cfg tab) (enqueue_turn cfg block latest n s)"
    using turn_keeps[OF _ m_turn(1)] m_turn(4) by (simp add: h3_inv_def)
  then show ?case using m_turn(4)
    by (auto simp: h3_inv_def enqueue_turn_def table_kept_def acks_true_def in_stream_def recorded_def split: sum.splits if_splits)
next
  case (w_receive s)
  then show ?case
    by (intro h3_frame[OF w_receive(3)]) (simp_all add: receive_facts receive_true[OF L] h3_inv_def)
next
  case (w_timer s)
  then show ?case
    by (intro h3_frame[OF w_timer(4)]) (simp_all add: flush_facts flush_true[OF L] h3_inv_def)
next
  case (w_send s)
  then show ?case by (intro h3_frame[OF w_send(2)]) (simp_all add: send_facts send_true h3_inv_def)
next
  case (a_read s db_err)
  have r: "recorded (start_at cfg tab) (ack_read cfg db_err s) = recorded (start_at cfg tab) s"
    using ack_read_keeps[OF _ _ ok refl a_read(1)] a_read(3) by (simp add: h3_inv_def)
  then show ?case using a_read(3)
    by (auto simp: h3_inv_def ack_read_def conserved_def table_kept_def acks_true_def in_stream_def enqueued_def on_the_way_def
        split: sum.splits)
next
  case (a_receive s)
  then show ?case using ack_receive_keeps[of "start_at cfg tab" s cfg] ack_receive_true[of entry cfg "start_at cfg tab" s]
    by (auto simp: h3_inv_def table_kept_def ack_receive_ctx)
next
  case (a_advance s db_err)
  then show ?case using ack_advance_keeps[of cfg tab s db_err] advance_true[of entry cfg "start_at cfg tab" s db_err]
    by (auto simp: h3_inv_def ack_advance_ctx)
next
  case (r_enqueue i s)
  then show ?case
    by (intro h3_frame[OF r_enqueue(3)])
      (auto simp: retry_facts(1), auto simp: retry_enqueue_def recorded_def enqueued_def h3_inv_def acks_true_def in_stream_def)
next
  case (r_end s i)
  then show ?case
    by (intro h3_frame[OF r_end(3)])
      (auto simp: retry_facts(2), auto simp: retry_end_def recorded_def enqueued_def h3_inv_def acks_true_def in_stream_def)
next
  case (w_end s)
  have "h3_inv entry cfg tab (worker_flush R marshal cfg s)"
    using w_end by (intro h3_frame[OF w_end(4)]) (simp_all add: flush_facts flush_true[OF L] h3_inv_def)
  then show ?case by (rule quiet_frame) (simp_all add: on_the_way_def)
next
  case (others s r)
  then show ?case
    by (intro h3_frame[OF others(2)]) (auto simp: on_the_way_def recorded_def enqueued_def h3_inv_def acks_true_def in_stream_def)
qed (auto intro: quiet_frame simp: on_the_way_def)

lemma h3_new: 
  assumes ok: "table_ok cfg tab"
  shows "h3_inv entry cfg tab (NewHandler3 tab r)"
proof -
  have "uint (start_at cfg tab) = c" if "tab (hSymbol cfg) = Some c" for c
    using ok that by (simp add: start_at_def table_ok_def uint_word_of_int)
  then show ?thesis
    by (auto simp: h3_inv_def conserved_def table_kept_def acks_true_def NewHandler3_def recorded_def enqueued_def
        on_the_way_def fun_eq_iff)
qed

lemma h3_invariant:
  assumes "stream_laws R entry" and "table_ok cfg tab" and "h3_reach R entry marshal cfg tab s"
  shows "h3_inv entry cfg tab s"
  using assms(3) by (induction rule: h3_reach.induct) (auto intro: h3_new assms(2) h3_step_keeps[OF assms(1,2)])

subsection \<open>The cursor and the stream\<close>

text \<open>
  C36. The cursor never passes a block that is not in the stream. Whatever the node, the table and redis answer, and in
  every interleaving of the master, the worker, the ack manager, the retries and a cancellation: all heights below the
  expected one are in the stream, the table holds exactly the expected height once its row exists, and every height
  enqueued is recorded or at exactly one place on its way, none twice; with unlimited retries none is given up.
\<close>

theorem cursor_behind_stream:
  assumes "stream_laws R entry" and "table_ok cfg tab" and "h3_reach R entry marshal cfg tab s" and "st = start_at cfg tab"
  shows "(\<forall>h. st \<le> h \<and> h < recorded st s \<longrightarrow> in_stream entry cfg s h) \<and>
    hScans s = (if tab (hSymbol cfg) = None then tab else tab(hSymbol cfg \<mapsto> uint (recorded st s))) \<and>
    on_the_way s + image_mset jHeight (mset (given_up s)) + mset_set (dom (hPending s)) =
      mset_set (heights (recorded st s) (enqueued st s)) \<and>
    (hMaxRetries cfg = 0 \<and> \<not> ctxDone s \<longrightarrow> given_up s = [])"
  using h3_invariant[OF assms(1-3)] assms(4)
  by (auto simp: h3_inv_def conserved_def table_kept_def acks_true_def heights_def)

text \<open>A redis that takes every identifier once and stores nothing else.\<close>

definition any_redis :: "(string \<times> string) list Redis" where
  "any_redis = \<lparr>pipe_exec = (\<lambda>cmds r. (None, replicate (length cmds) None, r @ map (\<lambda>c. (xStream c, xID c)) cmds)),
     xrange = (\<lambda>st i r. Inr (count_list r (st, i)))\<rparr>"

definition listed :: "(string \<times> string) list \<Rightarrow> string \<Rightarrow> string \<Rightarrow> bool" where
  "listed r st i \<longleftrightarrow> (st, i) \<in> set r"

text \<open>A redis that looks at the identifiers.\<close>

definition id_error :: goerror where
  "id_error = ''ERR Invalid stream ID specified as stream command argument''"

definition strict_redis :: "(string \<times> string) list Redis" where
  "strict_redis = \<lparr>pipe_exec = (\<lambda>cmds r.
       let bad = (\<lambda>c. 1 < count_list (xID c) (CHR ''-''))
       in (if \<exists>c \<in> set cmds. bad c then Some id_error else None, map (\<lambda>c. if bad c then Some id_error else None) cmds,
           r @ map (\<lambda>c. (xStream c, xID c)) (filter (\<lambda>c. \<not> bad c) cmds))),
     xrange = (\<lambda>st i r. if 1 < count_list i (CHR ''-'') then Inl id_error else Inr (count_list r (st, i)))\<rparr>"

definition strict_entry :: "(string \<times> string) list \<Rightarrow> string \<Rightarrow> string \<Rightarrow> bool" where
  "strict_entry r st i \<longleftrightarrow> (st, i) \<in> set r \<and> count_list i (CHR ''-'') \<le> 1"

lemma counted: "0 < count_list r x \<Longrightarrow> x \<in> set r"
  by (rule ccontr) simp

lemma any_redis_laws: "stream_laws any_redis listed"
  by (auto simp: stream_laws_def any_redis_def listed_def dest: counted)

lemma strict_redis_laws: "stream_laws strict_redis strict_entry"
proof -
  have A: "length errs = length cmds \<and> (\<forall>st i. strict_entry r st i \<longrightarrow> strict_entry r' st i) \<and>
      (err = None \<longrightarrow> (\<forall>x \<in> set errs. x = None)) \<and>
      (\<forall>k < length cmds. errs ! k = None \<longrightarrow> strict_entry r' (xStream (cmds ! k)) (xID (cmds ! k)))"
    if "pipe_exec strict_redis cmds r = (err, errs, r')" for cmds r err errs r'
  proof -
    let ?bad = "\<lambda>c. 1 < count_list (xID c) (CHR ''-'')"
    have e: "err = (if \<exists>c \<in> set cmds. ?bad c then Some id_error else None)"
      "errs = map (\<lambda>c. if ?bad c then Some id_error else None) cmds"
      "r' = r @ map (\<lambda>c. (xStream c, xID c)) (filter (\<lambda>c. \<not> ?bad c) cmds)"
      using that by (simp_all add: strict_redis_def Let_def)
    have "strict_entry r' (xStream (cmds ! k)) (xID (cmds ! k))" if "k < length cmds" "errs ! k = None" for k
    proof -
      have k: "cmds ! k \<in> set cmds" "\<not> ?bad (cmds ! k)" using that by (auto simp: e(2) split: if_splits)
      then have "cmds ! k \<in> set (filter (\<lambda>c. \<not> ?bad c) cmds)" by simp
      then show ?thesis using k(2) unfolding e(3) strict_entry_def set_append set_map by (simp add: not_less)
    qed
    moreover have "length errs = length cmds" by (simp add: e(2))
    moreover have "strict_entry r' st i" if "strict_entry r st i" for st i using that by (simp add: strict_entry_def e(3))
    moreover have "\<forall>x \<in> set errs. x = None" if "err = None" using that by (auto simp: e(1,2) split: if_splits)
    ultimately show ?thesis by blast
  qed
  have B: "strict_entry r st i" if "xrange strict_redis st i r = Inr n" "0 < n" for st i r n
    using that by (auto simp: strict_redis_def strict_entry_def dest: counted split: if_splits)
  show ?thesis unfolding stream_laws_def
    by (rule conjI; intro allI impI) (erule A, elim conjE, erule (1) B)
qed

definition one_cfg :: Handler3Cfg where
  "one_cfg = handler3_cfg \<lparr>hSymbol = ''eth'', hStream = [], hMasterInterval = 0, hFlushInterval = 0, hBatchSize = 0,
     hBackoff = 0, hPushWorkers = 4, hMaxRetries = 0\<rparr>"

text \<open>One block goes all the way, if redis takes it.\<close>

definition one_run :: "(string \<times> string) list Redis \<Rightarrow> ((string, (string \<times> string) list) Handler3 \<Rightarrow> (string, (string \<times> string) list) Handler3) list" where
  "one_run R = [master_read one_cfg None, h3_master_tick (Inr 6), enqueue_turn one_cfg (Inr ''block'') 6 5,
     worker_receive R Inr one_cfg, worker_flush R Inr one_cfg, worker_send, ack_read one_cfg None,
     h3_ack_receive one_cfg, ack_advance one_cfg None]"

definition one_block :: "(string \<times> string) list Redis \<Rightarrow> nat \<Rightarrow> (string, (string \<times> string) list) Handler3" where
  "one_block R k = foldl (\<lambda>s f. f s) (NewHandler3 [''eth'' \<mapsto> 5] []) (take k (one_run R))"

lemma one_block_step: "k < 9 \<Longrightarrow> one_block R (Suc k) = (one_run R ! k) (one_block R k)"
proof -
  assume "k < 9"
  then have "take (Suc k) (one_run R) = take k (one_run R) @ [one_run R ! k]"
    by (intro take_Suc_conv_app_nth) (simp add: one_run_def)
  then show ?thesis by (simp add: one_block_def)
qed

text \<open>The steps may be made.\<close>

definition run_ok :: "(string \<times> string) list Redis \<Rightarrow> bool" where
  "run_ok R \<longleftrightarrow> h3_room one_cfg (ackCh (one_block R 5)) \<and> hExpected (one_block R 6) = None \<and> \<not> ackEnded (one_block R 6) \<and>
     \<not> can_advance (one_block R 7) \<and> \<not> ackEnded (one_block R 7)"

lemma run_before:
  "nextEnqueue (one_block R 0) = None \<and> \<not> masterEnded (one_block R 0)"
  "nextEnqueue (one_block R 1) = Some 5 \<and> chasing (one_block R 1) = None \<and> \<not> masterEnded (one_block R 1)"
  "nextEnqueue (one_block R 2) = Some 5 \<and> chasing (one_block R 2) = Some 6 \<and> \<not> masterEnded (one_block R 2)"
  "sending (one_block R 3) = [] \<and> \<not> workerEnded (one_block R 3)"
  "sending (one_block R 4) = [] \<and> \<not> workerEnded (one_block R 4) \<and> wTimer (one_block R 4)"
  by (simp_all add: one_block_def one_run_def NewHandler3_def master_read_def Scan_GetLastCursor_def cursorInt64ToUint64_def
      one_cfg_def handler3_cfg_def h3_master_tick_def enqueue_turn_def h3_room_def chan_cap_def worker_receive_def)

lemma one_block_reach:
  assumes ok: "run_ok R"
  shows "h3_reach R entry Inr one_cfg [''eth'' \<mapsto> 5] (one_block R 8)"
proof -
  let ?r = "h3_reach R entry Inr one_cfg [''eth'' \<mapsto> 5]"
  note n = run_before[of R] ok[unfolded run_ok_def]
  note s = one_block_step[of 0 R] one_block_step[of 1 R] one_block_step[of 2 R] one_block_step[of 3 R] one_block_step[of 4 R]
    one_block_step[of 5 R] one_block_step[of 6 R] one_block_step[of 7 R]
  note e = s[simplified one_run_def, simplified]
  have 0: "?r (one_block R 0)" using h3_reach.new by (simp add: one_block_def)
  have 1: "?r (one_block R 1)" using h3_reach.step[OF 0 h3_step.m_read] n e(1) by simp
  have 2: "?r (one_block R 2)" using h3_reach.step[OF 1 h3_step.m_tick] n e(2) by (simp add: numeral_2_eq_2)
  have 3: "?r (one_block R 3)" using h3_reach.step[OF 2 h3_step.m_turn] n e(3) by simp
  have 4: "?r (one_block R 4)" using h3_reach.step[OF 3 h3_step.w_receive] n e(4) by simp
  have 5: "?r (one_block R 5)" using h3_reach.step[OF 4 h3_step.w_timer] n e(5) by simp
  have 6: "?r (one_block R 6)" using h3_reach.step[OF 5 h3_step.w_send] n e(6) by simp
  have 7: "?r (one_block R 7)" using h3_reach.step[OF 6 h3_step.a_read] n e(7) by simp
  show "?r (one_block R 8)" using h3_reach.step[OF 7 h3_step.a_receive] n e(8) by simp
qed

lemma runs_ok: "run_ok any_redis"
  by code_simp

theorem cursor_behind_stream_witness:
  "in_stream listed one_cfg (one_block any_redis 9) 5 \<and> hScans (one_block any_redis 9) = [''eth'' \<mapsto> 6]"
proof -
  have s: "start_at one_cfg [''eth'' \<mapsto> 5] = 5" "hSymbol one_cfg = ''eth''" by code_simp+
  have r: "recorded 5 (one_block any_redis 9) = 6" by code_simp
  have a: "can_advance (one_block any_redis 8)" "\<not> ackEnded (one_block any_redis 8)" by code_simp+
  have "one_block any_redis 9 = ack_advance one_cfg None (one_block any_redis 8)"
    using one_block_step[of 8 any_redis] by (simp add: one_run_def)
  then have reach: "h3_reach any_redis listed Inr one_cfg [''eth'' \<mapsto> 5] (one_block any_redis 9)"
    using h3_reach.step[OF one_block_reach[OF runs_ok] h3_step.a_advance[OF a]] by simp
  have "table_ok one_cfg [''eth'' \<mapsto> 5]" by (simp add: table_ok_def s(2))
  from cursor_behind_stream[OF any_redis_laws this reach s(1)[symmetric]] show ?thesis by (simp add: r s(2))
qed

text \<open>
  C37. The identifiers are not identifiers. Redis takes an identifier of a stream only if it has at most two parts, which
  are numbers; the handler's has the symbol before them. So no block is ever stored, nor is the cursor ever moved,
  whatever happens and however often the jobs are tried again.
\<close>

theorem fixed_ids_refused:
  assumes "stream_laws R entry" and "table_ok cfg tab" and "h3_reach R entry marshal cfg tab s"
    and "\<forall>r st i. entry r st i \<longrightarrow> count_list i (CHR ''-'') \<le> 1"
  shows "recorded (start_at cfg tab) s = start_at cfg tab \<and> hScans s = tab \<and> dom (hPending s) = {}"
proof -
  let ?st = "start_at cfg tab"
  have I: "h3_inv entry cfg tab s" by (rule h3_invariant[OF assms(1-3)])
  have no: "\<not> in_stream entry cfg s h" for h
    using assms(4)[rule_format, of "hRedis s" "hStream cfg" "block_id (hSymbol cfg) h"]
    by (auto simp: in_stream_def block_id_def)
  have "?st \<le> recorded ?st s" using I by (simp add: h3_inv_def conserved_def)
  moreover have "\<not> ?st < recorded ?st s" using I no by (auto simp: h3_inv_def acks_true_def heights_def)
  ultimately have r: "recorded ?st s = ?st" by simp
  have "uint ?st = c" if "tab (hSymbol cfg) = Some c" for c
    using assms(2) that by (simp add: start_at_def table_ok_def uint_word_of_int)
  then show ?thesis using I r no by (auto simp: h3_inv_def table_kept_def acks_true_def fun_eq_iff)
qed

text \<open>The block of the strict redis is refused, whatever it answers.\<close>

lemma strict_push: "\<exists>e. push3 strict_redis Inr one_cfg [\<lparr>jHeight = 5, jBlock = ''block'', jAttempt = 0\<rparr>] [] = (Some e, [])"
proof -
  have b: "1 < count_list (block_id (hSymbol one_cfg) 5) (CHR ''-'')" by (simp add: block_id_def)
  then show ?thesis
    by (simp add: push3_def strict_redis_def xaddIDExists_def Let_def)
qed

lemma strict_run: "run_ok strict_redis" "map jHeight (retrying (one_block strict_redis 8)) = [5]"
proof -
  obtain e where e: "push3 strict_redis Inr one_cfg [\<lparr>jHeight = 5, jBlock = ''block'', jAttempt = 0\<rparr>] [] = (Some e, [])"
    using strict_push by blast
  note d = one_block_def one_run_def NewHandler3_def master_read_def Scan_GetLastCursor_def cursorInt64ToUint64_def
      handler3_cfg_def h3_master_tick_def enqueue_turn_def h3_room_def chan_cap_def worker_receive_def worker_flush_def
      worker_send_def ack_read_def h3_ack_receive_def can_advance_def
  have c: "hSymbol one_cfg = ''eth''" "hBatchSize one_cfg = 100" "hMaxRetries one_cfg = 0"
    by (simp_all add: one_cfg_def handler3_cfg_def)
  show "run_ok strict_redis" "map jHeight (retrying (one_block strict_redis 8)) = [5]"
    by (simp_all add: run_ok_def d c e)
qed

theorem fixed_ids_refused_witness:
  "hScans (one_block strict_redis 8) = [''eth'' \<mapsto> 5] \<and> map jHeight (retrying (one_block strict_redis 8)) = [5]"
proof -
  have s: "hSymbol one_cfg = ''eth''" by code_simp
  have ok: "table_ok one_cfg [''eth'' \<mapsto> 5]" by (simp add: table_ok_def s)
  have ids: "\<forall>r st i. strict_entry r st i \<longrightarrow> count_list i (CHR ''-'') \<le> 1" by (simp add: strict_entry_def)
  show ?thesis using fixed_ids_refused[OF strict_redis_laws ok one_block_reach[OF strict_run(1)] ids] strict_run(2) by simp
qed

end
