(* ===== verification/Scan_Catchup.thy ===== *)
theory Scan_Catchup
  imports Scan_Ack
begin

text \<open>
  \<^verbatim>\<open>learn/eth/scan\<close>: the three handlers before the one of \<open>Scan_Ack\<close>. The first (\<^verbatim>\<open>handler.go\<close>) hands blocks to a
  goroutine that pushes them some time; the next two (\<^verbatim>\<open>handler1.go\<close>, \<^verbatim>\<open>handler2.go\<close>) wait for each push before they
  move the cursor, and differ in what a repeated push leaves in the stream.
\<close>

subsection \<open>Pushing without an identifier\<close>

text \<open>
  Redis numbers the entries itself; \<open>pipe\<close> is the pipeline's error and the new state after adding entries with these
  data. A block that cannot be encoded keeps the whole batch back.
\<close>

fun scan_marshal_all :: "('b \<Rightarrow> goerror + string) \<Rightarrow> 'b list \<Rightarrow> goerror + string list" where
  "scan_marshal_all marshal [] = Inr []"
| "scan_marshal_all marshal (b # bs) =
     (case marshal b of
        Inl e \<Rightarrow> Inl (''marshal chain transfer: '' @ e)
      | Inr json \<Rightarrow> (case scan_marshal_all marshal bs of Inl e \<Rightarrow> Inl e | Inr jsons \<Rightarrow> Inr (json # jsons)))"

definition push1 :: "(string list \<Rightarrow> 'r \<Rightarrow> goerror option \<times> 'r) \<Rightarrow> ('b \<Rightarrow> goerror + string) \<Rightarrow> 'b list \<Rightarrow> 'r \<Rightarrow>
    goerror option \<times> 'r" where
  "push1 pipe marshal bs r =
     (case scan_marshal_all marshal bs of
        Inl e \<Rightarrow> (Some e, r)
      | Inr jsons \<Rightarrow> (case pipe jsons r of (None, r1) \<Rightarrow> (None, r1) | (Some e, r1) \<Rightarrow> (Some (''pipeline exec: '' @ e), r1)))"

subsection \<open>The first handler\<close>

text \<open>Its channel holds 100 blocks; the pusher keeps what it has pushed. \<open>hCursor\<close> is the master's local.\<close>

record ('b, 'r) Handler =
  hCursor :: int
  dataChan :: "'b list"
  hBlocks :: "'b list"
  hTab :: scans
  hStore :: 'r
  hEnded :: bool

definition NewHandler :: "scans \<Rightarrow> 'r \<Rightarrow> ('b, 'r) Handler" where
  "NewHandler tab r = \<lparr>hCursor = 0, dataChan = [], hBlocks = [], hTab = tab, hStore = r, hEnded = False\<rparr>"

text \<open>The master: reading the cursor ends the program on an error; so does a height that cannot be read end the master.\<close>

definition Handler_start :: "goerror option \<Rightarrow> string \<Rightarrow> ('b, 'r) Handler \<Rightarrow> ('b, 'r) Handler" where
  "Handler_start db_err symbol s =
     (case Scan_GetLastCursor db_err (hTab s) symbol of Inl _ \<Rightarrow> s\<lparr>hEnded := True\<rparr> | Inr c \<Rightarrow> s\<lparr>hCursor := c\<rparr>)"

text \<open>One turn of the loop below the height. \<open>None\<close>: the turn blocks on the full channel, context or not.\<close>

definition Handler_turn :: "goerror + 'b \<Rightarrow> goerror option \<Rightarrow> string \<Rightarrow> ('b, 'r) Handler \<Rightarrow> ('b, 'r) Handler option" where
  "Handler_turn block db_err symbol s =
     (case block of
        Inl _ \<Rightarrow> Some s
      | Inr b \<Rightarrow>
          if length (dataChan s) < 100 then
            (let s1 = s\<lparr>dataChan := dataChan s @ [b]\<rparr>
             in case Scan_UpdateCursor db_err (hTab s1) symbol (i64 (hCursor s1 + 1)) of
                  Inl _ \<Rightarrow> Some s1
                | Inr tab \<Rightarrow> Some (s1\<lparr>hTab := tab, hCursor := i64 (hCursor s1 + 1)\<rparr>))
          else None)"

definition Handler_tick :: "goerror + uint64 \<Rightarrow> ('b, 'r) Handler \<Rightarrow> bool \<times> ('b, 'r) Handler" where
  "Handler_tick height s =
     (case height of
        Inl _ \<Rightarrow> (False, s\<lparr>hEnded := True\<rparr>)
      | Inr h \<Rightarrow> (word_of_int (hCursor s) < h, s))"

definition pushRedis_timer :: "(string list \<Rightarrow> 'r \<Rightarrow> goerror option \<times> 'r) \<Rightarrow> ('b \<Rightarrow> goerror + string) \<Rightarrow>
    ('b, 'r) Handler \<Rightarrow> ('b, 'r) Handler" where
  "pushRedis_timer pipe marshal s =
     (if length (hBlocks s) > 0 then s\<lparr>hStore := snd (push1 pipe marshal (hBlocks s) (hStore s))\<rparr> else s)"

definition pushRedis_data :: "(string list \<Rightarrow> 'r \<Rightarrow> goerror option \<times> 'r) \<Rightarrow> ('b \<Rightarrow> goerror + string) \<Rightarrow>
    ('b, 'r) Handler \<Rightarrow> ('b, 'r) Handler" where
  "pushRedis_data pipe marshal s =
     (case dataChan s of
        [] \<Rightarrow> s
      | b # bs \<Rightarrow>
          (let s1 = s\<lparr>dataChan := bs, hBlocks := hBlocks s @ [b]\<rparr>
           in if length (hBlocks s1) \<ge> 50 then s1\<lparr>hStore := snd (push1 pipe marshal (hBlocks s1) (hStore s1))\<rparr> else s1))"

text \<open>
  The pusher never lets go of a block: with a redis that takes everything, \<open>n\<close> timers after a block has arrived it is in
  the stream \<open>n\<close> times, and the cursor was moved before the first.
\<close>

definition list_pipe :: "string list \<Rightarrow> string list \<Rightarrow> goerror option \<times> string list" where
  "list_pipe jsons r = (None, r @ jsons)"

lemma blocks_pushed_again:
  assumes "hBlocks s = b # bs" and "scan_marshal_all marshal (b # bs) = Inr jsons"
  shows "hStore ((pushRedis_timer list_pipe marshal ^^ n) s) = hStore s @ concat (replicate n jsons)"
    "hBlocks ((pushRedis_timer list_pipe marshal ^^ n) s) = b # bs"
proof (induction n)
  case (Suc n)
  case 1
  have r: "concat (replicate n jsons) @ jsons = jsons @ concat (replicate n jsons)" by (induction n) simp_all
  show ?case using assms Suc by (simp add: pushRedis_timer_def push1_def list_pipe_def r)
  case 2
  show ?case using Suc by (simp add: pushRedis_timer_def)
qed (use assms in simp_all)

lemma cursor_before_push:
  "Handler_turn (Inr b) None ''eth'' (Handler_start None ''eth'' (NewHandler [''eth'' \<mapsto> 7] [])) =
     Some \<lparr>hCursor = 8, dataChan = [b], hBlocks = [], hTab = [''eth'' \<mapsto> 8], hStore = [], hEnded = False\<rparr>"
  by (simp add: Handler_turn_def Handler_start_def NewHandler_def Scan_GetLastCursor_def Scan_UpdateCursor_def i64_def)

subsection \<open>Waiting for the push\<close>

record HandlerCfg =
  gSymbol :: string
  gStream :: string
  gMasterInterval :: int
  gFlushInterval :: int
  gBatchSize :: int
  gBackoff :: int

definition handler1_cfg :: "HandlerCfg \<Rightarrow> HandlerCfg" where
  "handler1_cfg cfg =
     (let c1 = (if gMasterInterval cfg \<le> 0 then cfg\<lparr>gMasterInterval := 1000\<rparr> else cfg);
          c2 = (if gFlushInterval c1 \<le> 0 then c1\<lparr>gFlushInterval := 2000\<rparr> else c1);
          c3 = (if gBatchSize c2 \<le> 0 then c2\<lparr>gBatchSize := 50\<rparr> else c2)
      in if gBackoff c3 \<le> 0 then c3\<lparr>gBackoff := 1000\<rparr> else c3)"

definition handler2_cfg :: "HandlerCfg \<Rightarrow> HandlerCfg" where
  "handler2_cfg cfg =
     (let c1 = (if gMasterInterval cfg \<le> 0 then cfg\<lparr>gMasterInterval := 1000\<rparr> else cfg);
          c2 = (if gFlushInterval c1 \<le> 0 then c1\<lparr>gFlushInterval := 200\<rparr> else c1);
          c3 = (if gBatchSize c2 \<le> 0 then c2\<lparr>gBatchSize := 50\<rparr> else c2);
          c4 = (if gBackoff c3 \<le> 0 then c3\<lparr>gBackoff := 1000\<rparr> else c3)
      in if gStream c4 = [] then c4\<lparr>gStream := ''stream:scans''\<rparr> else c4)"

text \<open>The push loop: the batch so far, and the answers a flush sends to the waiting requests, in order.\<close>

type_synonym ('q, 'r) loop = "'q list \<times> 'r"

definition loop_flush :: "('q list \<Rightarrow> 'r \<Rightarrow> goerror option \<times> 'r) \<Rightarrow> ('q, 'r) loop \<Rightarrow> goerror option list \<times> ('q, 'r) loop" where
  "loop_flush push l =
     (let (batch, r) = l
      in if batch = [] then ([], l)
         else let (err, r1) = push batch r in (map (\<lambda>_. err) batch, ([], r1)))"

definition loop_receive :: "('q list \<Rightarrow> 'r \<Rightarrow> goerror option \<times> 'r) \<Rightarrow> HandlerCfg \<Rightarrow> 'q \<Rightarrow> ('q, 'r) loop \<Rightarrow>
    goerror option list \<times> ('q, 'r) loop" where
  "loop_receive push cfg req l =
     (let (batch, r) = l; l1 = (batch @ [req], r)
      in if int (length (fst l1)) \<ge> gBatchSize cfg then loop_flush push l1 else ([], l1))"

text \<open>
  A request: the loop takes it, and answers at once if the batch is full, otherwise when the timer fires. A loop that has
  ended with the context takes nothing, and the request waits for ever.
\<close>

definition request :: "('q list \<Rightarrow> 'r \<Rightarrow> goerror option \<times> 'r) \<Rightarrow> HandlerCfg \<Rightarrow> bool \<Rightarrow> 'q \<Rightarrow> 'r \<Rightarrow> (goerror option \<times> 'r) go" where
  "request push cfg loop_ended req r =
     (if loop_ended then Hang
      else let (res, l) = loop_receive push cfg req ([], r)
           in case res of
                err # _ \<Rightarrow> Ret (err, snd l)
              | [] \<Rightarrow> (case loop_flush push l of (err # _, l1) \<Rightarrow> Ret (err, snd l1) | ([], _) \<Rightarrow> Hang))"

lemma request_pushes: "request push cfg False req r = Ret (push [req] r)"
  by (auto simp: request_def loop_receive_def loop_flush_def Let_def split: prod.splits)

text \<open>What the surroundings do in one turn of \<open>catchUp\<close>: the block, whether the context lets the master send and wait,
  whether the push loop has ended, and the table.\<close>

record 'b Turn =
  tBlock :: "goerror + 'b"
  tSends :: bool
  tLoopEnded :: bool
  tDb :: "goerror option"
  tWaits :: bool

definition ctx_err :: goerror where "ctx_err = ''context canceled''"

text \<open>
  \<open>catchUp\<close> takes one element of the list for each turn; \<open>None\<close>: the list was too short. The master's cursor, the table
  and redis are the state.
\<close>

fun catchUp1 :: "('b list \<Rightarrow> 'r \<Rightarrow> goerror option \<times> 'r) \<Rightarrow> HandlerCfg \<Rightarrow> uint64 \<Rightarrow> 'b Turn list \<Rightarrow>
    uint64 \<times> scans \<times> 'r \<Rightarrow> (goerror option \<times> uint64 \<times> scans \<times> 'r) go option" where
  "catchUp1 push cfg height [] (cursor, tab, r) = (if cursor < height then None else Some (Ret (None, cursor, tab, r)))"
| "catchUp1 push cfg height (t # ts) (cursor, tab, r) =
     (if \<not> cursor < height then Some (Ret (None, cursor, tab, r))
      else case tBlock t of
        Inl _ \<Rightarrow> if tWaits t then catchUp1 push cfg height ts (cursor, tab, r) else Some (Ret (Some ctx_err, cursor, tab, r))
      | Inr b \<Rightarrow>
          if \<not> tSends t then Some (Ret (Some ctx_err, cursor, tab, r))
          else (case request push cfg (tLoopEnded t) b r of
                  Ret (err, r1) \<Rightarrow>
                    if err \<noteq> None then
                      (if tWaits t then catchUp1 push cfg height ts (cursor, tab, r1)
                       else Some (Ret (Some ctx_err, cursor, tab, r1)))
                    else (case Scan_UpdateCursor (tDb t) tab (gSymbol cfg) (i64 (i64 (uint cursor) + 1)) of
                            Inl _ \<Rightarrow> if tWaits t then catchUp1 push cfg height ts (cursor, tab, r1)
                                     else Some (Ret (Some ctx_err, cursor, tab, r1))
                          | Inr tab1 \<Rightarrow> catchUp1 push cfg height ts (cursor + 1, tab1, r1))
                | Panic \<Rightarrow> Some Panic
                | Hang \<Rightarrow> Some Hang))"

text \<open>The second handler sends the height too, and checks that the next cursor fits.\<close>

fun catchUp2 :: "((uint64 \<times> 'b) list \<Rightarrow> 'r \<Rightarrow> goerror option \<times> 'r) \<Rightarrow> HandlerCfg \<Rightarrow> uint64 \<Rightarrow> 'b Turn list \<Rightarrow>
    uint64 \<times> scans \<times> 'r \<Rightarrow> (goerror option \<times> uint64 \<times> scans \<times> 'r) go option" where
  "catchUp2 push cfg height [] (cursor, tab, r) = (if cursor < height then None else Some (Ret (None, cursor, tab, r)))"
| "catchUp2 push cfg height (t # ts) (cursor, tab, r) =
     (if \<not> cursor < height then Some (Ret (None, cursor, tab, r))
      else case tBlock t of
        Inl _ \<Rightarrow> if tWaits t then catchUp2 push cfg height ts (cursor, tab, r) else Some (Ret (Some ctx_err, cursor, tab, r))
      | Inr b \<Rightarrow>
          if \<not> tSends t then Some (Ret (Some ctx_err, cursor, tab, r))
          else (case request push cfg (tLoopEnded t) (cursor, b) r of
                  Ret (err, r1) \<Rightarrow>
                    if err \<noteq> None then
                      (if tWaits t then catchUp2 push cfg height ts (cursor, tab, r1)
                       else Some (Ret (Some ctx_err, cursor, tab, r1)))
                    else (case cursorUint64ToInt64 (cursor + 1) of
                            Inl e \<Rightarrow> Some (Ret (Some (''cursor convert: '' @ e), cursor, tab, r1))
                          | Inr nextCursor \<Rightarrow>
                              (case Scan_UpdateCursor (tDb t) tab (gSymbol cfg) nextCursor of
                                 Inl _ \<Rightarrow> if tWaits t then catchUp2 push cfg height ts (cursor, tab, r1)
                                          else Some (Ret (Some ctx_err, cursor, tab, r1))
                               | Inr tab1 \<Rightarrow> catchUp2 push cfg height ts (cursor + 1, tab1, r1)))
                | Panic \<Rightarrow> Some Panic
                | Hang \<Rightarrow> Some Hang))"

text \<open>
  The masters read the cursor before that, and ask for the height each time. A cancelled loop of the first handler may
  also answer with the context's error; the master then returns as if it had not sent.
\<close>

definition Handler1_read :: "goerror option \<Rightarrow> HandlerCfg \<Rightarrow> scans \<Rightarrow> goerror + uint64" where
  "Handler1_read db_err cfg tab =
     (case Scan_GetLastCursor db_err tab (gSymbol cfg) of Inl e \<Rightarrow> Inl e | Inr c \<Rightarrow> Inr (word_of_int c))"

definition Handler2_read :: "goerror option \<Rightarrow> HandlerCfg \<Rightarrow> scans \<Rightarrow> goerror + uint64" where
  "Handler2_read db_err cfg tab =
     (case Scan_GetLastCursor db_err tab (gSymbol cfg) of Inl e \<Rightarrow> Inl e | Inr c \<Rightarrow> cursorInt64ToUint64 c)"

definition Handler1_catchUp :: "('b list \<Rightarrow> 'r \<Rightarrow> goerror option \<times> 'r) \<Rightarrow> HandlerCfg \<Rightarrow> goerror + uint64 \<Rightarrow> 'b Turn list \<Rightarrow>
    uint64 \<times> scans \<times> 'r \<Rightarrow> (goerror option \<times> uint64 \<times> scans \<times> 'r) go option" where
  "Handler1_catchUp push cfg height ts st =
     (case height of Inl e \<Rightarrow> Some (Ret (Some (''get height: '' @ e), st)) | Inr h \<Rightarrow> catchUp1 push cfg h ts st)"

definition Handler2_catchUp :: "((uint64 \<times> 'b) list \<Rightarrow> 'r \<Rightarrow> goerror option \<times> 'r) \<Rightarrow> HandlerCfg \<Rightarrow> goerror + uint64 \<Rightarrow> 'b Turn list \<Rightarrow>
    uint64 \<times> scans \<times> 'r \<Rightarrow> (goerror option \<times> uint64 \<times> scans \<times> 'r) go option" where
  "Handler2_catchUp push cfg height ts st =
     (case height of Inl e \<Rightarrow> Some (Ret (Some (''get height: '' @ e), st)) | Inr h \<Rightarrow> catchUp2 push cfg h ts st)"

text \<open>A negative cursor stops the second handler; the first goes on from a height no chain has.\<close>

lemma negative_cursor:
  assumes "tab (gSymbol cfg) = Some (- 1)"
  shows "Handler1_read None cfg tab = Inr (- 1)" "\<exists>e. Handler2_read None cfg tab = Inl e"
    "catchUp1 push cfg height ts (- 1, tab, r) = Some (Ret (None, - 1, tab, r))"
proof -
  have "\<not> (- 1 :: uint64) < height" by (simp add: not_less word_order.extremum)
  then show "catchUp1 push cfg height ts (- 1, tab, r) = Some (Ret (None, - 1, tab, r))" by (cases ts) simp_all
qed (use assms in \<open>simp_all add: Handler1_read_def Handler2_read_def Scan_GetLastCursor_def cursorInt64ToUint64_def\<close>)

text \<open>The second handler pushes with the identifiers of \<open>Scan_Ack\<close>.\<close>

definition as_cfg3 :: "HandlerCfg \<Rightarrow> Handler3Cfg" where
  "as_cfg3 cfg = \<lparr>hSymbol = gSymbol cfg, hStream = gStream cfg, hMasterInterval = gMasterInterval cfg,
     hFlushInterval = gFlushInterval cfg, hBatchSize = gBatchSize cfg, hBackoff = gBackoff cfg, hPushWorkers = 1,
     hMaxRetries = 0\<rparr>"

definition push2 :: "'r Redis \<Rightarrow> ('b \<Rightarrow> goerror + string) \<Rightarrow> HandlerCfg \<Rightarrow> (uint64 \<times> 'b) list \<Rightarrow> 'r \<Rightarrow> goerror option \<times> 'r" where
  "push2 R marshal cfg reqs =
     push3 R marshal (as_cfg3 cfg) (map (\<lambda>(h, b). \<lparr>jHeight = h, jBlock = b, jAttempt = 0\<rparr>) reqs)"

subsection \<open>No block is left out\<close>

text \<open>\<open>there r h\<close>: the block of height \<open>h\<close> has been stored. What a push without an error has stored stays.\<close>

definition push_keeps :: "('r \<Rightarrow> uint64 \<Rightarrow> bool) \<Rightarrow> ('q \<Rightarrow> 'r \<Rightarrow> goerror option \<times> 'r) \<Rightarrow> ('q \<Rightarrow> uint64 \<Rightarrow> bool) \<Rightarrow> bool" where
  "push_keeps there push of_height \<longleftrightarrow> (\<forall>q r err r1. push q r = (err, r1) \<longrightarrow>
     (\<forall>h. there r h \<longrightarrow> there r1 h) \<and> (err = None \<longrightarrow> (\<forall>h. of_height q h \<longrightarrow> there r1 h)))"

definition caught_up :: "('r \<Rightarrow> uint64 \<Rightarrow> bool) \<Rightarrow> HandlerCfg \<Rightarrow> uint64 \<Rightarrow> uint64 \<Rightarrow> scans \<Rightarrow> 'r \<Rightarrow>
    goerror option \<times> uint64 \<times> scans \<times> 'r \<Rightarrow> bool" where
  "caught_up there cfg height cursor tab r res \<longleftrightarrow>
     (let (err, cursor', tab', r') = res
      in cursor \<le> cursor' \<and> (cursor < cursor' \<longrightarrow> cursor' \<le> height) \<and> (\<forall>h. there r h \<longrightarrow> there r' h) \<and>
         (\<forall>h \<in> heights cursor cursor'. there r' h) \<and>
         tab' = (if cursor' = cursor \<or> tab (gSymbol cfg) = None then tab else tab(gSymbol cfg \<mapsto> uint cursor')) \<and>
         (err = None \<longrightarrow> height \<le> cursor'))"

lemma caught_up_stop: "err \<noteq> None \<or> height \<le> cursor \<Longrightarrow> (\<forall>h. there r h \<longrightarrow> there r1 h) \<Longrightarrow>
   caught_up there cfg height cursor tab r (err, cursor, tab, r1)"
  by (auto simp: caught_up_def)

lemma caught_up_mono: "caught_up there cfg height cursor tab r1 res \<Longrightarrow> \<forall>h. there r h \<longrightarrow> there r1 h \<Longrightarrow>
   caught_up there cfg height cursor tab r res"
  by (auto simp: caught_up_def split: prod.splits)

lemma caught_up_step:
  assumes "cursor < height" and "there r1 cursor" and "\<forall>h. there r h \<longrightarrow> there r1 h"
    and "Scan_UpdateCursor db_err tab (gSymbol cfg) (uint (cursor + 1)) = Inr tab1"
    and "caught_up there cfg height (cursor + 1) tab1 r1 res"
  shows "caught_up there cfg height cursor tab r res"
proof -
  obtain err c' tab' r' where res: "res = (err, c', tab', r')" by (cases res)
  note w = word_inc[OF assms(1)]
  have c: "cursor < c'" "cursor < cursor + 1" "cursor + 1 \<le> height" "cursor + 1 < c' \<longrightarrow> c' \<le> height"
    "\<forall>h. there r1 h \<longrightarrow> there r' h" "\<forall>h \<in> heights (cursor + 1) c'. there r' h" "err = None \<longrightarrow> height \<le> c'"
    "tab' = (if c' = cursor + 1 \<or> tab1 (gSymbol cfg) = None then tab1 else tab1(gSymbol cfg \<mapsto> uint c'))" "cursor + 1 \<le> c'"
    using assms(1,5) w by (auto simp: res caught_up_def)
  have "heights cursor c' = insert cursor (heights (cursor + 1) c')"
    using heights_less[OF c(1)] by auto
  then have h: "\<forall>h \<in> heights cursor c'. there r' h" using assms(2) c(5,6) by auto
  have "tab' = (if tab (gSymbol cfg) = None then tab else tab(gSymbol cfg \<mapsto> uint c'))"
    using c(8) assms(4) by (auto simp: Scan_UpdateCursor_def split: option.splits if_splits)
  moreover have "c' \<le> height" using c(3,4,9) by (cases "cursor + 1 = c'") auto
  ultimately show ?thesis using c h assms(3) by (auto simp: res caught_up_def)
qed

lemma catchUp2_catches_up:
  assumes P: "push_keeps there push (\<lambda>q h. h \<in> fst ` set q)"
  shows "catchUp2 push cfg height ts (cursor, tab, r) = Some (Ret res) \<Longrightarrow> caught_up there cfg height cursor tab r res"
proof (induction ts arbitrary: cursor tab r)
  case Nil
  then show ?case by (auto intro: caught_up_stop split: if_splits)
next
  case (Cons t ts)
  show ?case
  proof (cases "cursor < height \<and> (\<exists>b. tBlock t = Inr b) \<and> tSends t \<and> \<not> tLoopEnded t")
    case False
    then show ?thesis using Cons
      by (auto simp: request_def intro!: caught_up_stop split: if_splits sum.splits go.splits)
  next
    case True
    then obtain b where b: "tBlock t = Inr b" by blast
    obtain err r1 where p: "push [(cursor, b)] r = (err, r1)" by fastforce
    have k: "\<forall>h. there r h \<longrightarrow> there r1 h" "err = None \<longrightarrow> there r1 cursor"
      using P p unfolding push_keeps_def by (blast, fastforce)
    have q: "request push cfg (tLoopEnded t) (cursor, b) r = Ret (err, r1)" using True p by (simp add: request_pushes)
    have again: "caught_up there cfg height cursor tab r res"
      if "(if tWaits t then catchUp2 push cfg height ts (cursor, tab, r1) else Some (Ret (Some ctx_err, cursor, tab, r1))) = Some (Ret res)"
      using that Cons.IH[of cursor tab r1] k(1) by (auto intro: caught_up_stop caught_up_mono split: if_splits)
    show ?thesis
    proof (cases "err = None \<and> (\<exists>n tab1. cursorUint64ToInt64 (cursor + 1) = Inr n \<and> Scan_UpdateCursor (tDb t) tab (gSymbol cfg) n = Inr tab1)")
      case False
      then show ?thesis using Cons.prems True b q k(1) again
        by (auto intro!: caught_up_stop split: sum.splits if_splits)
    next
      case True
      then obtain n tab1 where n: "cursorUint64ToInt64 (cursor + 1) = Inr n" "Scan_UpdateCursor (tDb t) tab (gSymbol cfg) n = Inr tab1" by blast
      have "n = uint (cursor + 1)" by (rule cursor_fits[OF n(1)])
      moreover have "catchUp2 push cfg height ts (cursor + 1, tab1, r1) = Some (Ret res)"
        using Cons.prems True \<open>cursor < height \<and> _\<close> b q n by simp
      ultimately show ?thesis using caught_up_step[OF _ _ k(1), of cursor height "tDb t" tab cfg tab1 res] Cons.IH n k(2) True
        \<open>cursor < height \<and> _\<close> by blast
    qed
  qed
qed

lemma push2_keeps:
  assumes L: "stream_laws R entry"
  shows "push_keeps (\<lambda>r h. entry r (gStream cfg) (block_id (gSymbol cfg) h)) (push2 R marshal cfg) (\<lambda>q h. h \<in> fst ` set q)"
  unfolding push_keeps_def
proof (intro allI impI conjI)
  fix q r err r1 h
  assume p: "push2 R marshal cfg q r = (err, r1)"
  note k = push_entries[OF L p[unfolded push2_def]]
  show "entry r1 (gStream cfg) (block_id (gSymbol cfg) h)" if "entry r (gStream cfg) (block_id (gSymbol cfg) h)"
    using k(1) that by blast
  show "entry r1 (gStream cfg) (block_id (gSymbol cfg) h)" if e: "err = None" and h: "h \<in> fst ` set q"
  proof -
    obtain b where "(h, b) \<in> set q" using h by auto
    then have "\<lparr>jHeight = h, jBlock = b, jAttempt = 0\<rparr> \<in> set (map (\<lambda>(h, b). \<lparr>jHeight = h, jBlock = b, jAttempt = 0\<rparr>) q)" by force
    from k(2)[OF e this] show ?thesis by (simp add: as_cfg3_def)
  qed
qed

text \<open>Whatever fails, a catch-up that returns has stored every block below its cursor, and saved the cursor.\<close>

lemma second_handler_no_gap:
  assumes "stream_laws R entry" and "catchUp2 (push2 R marshal cfg) cfg height ts (cursor, tab, r) = Some (Ret res)"
  shows "caught_up (\<lambda>r h. entry r (gStream cfg) (block_id (gSymbol cfg) h)) cfg height cursor tab r res"
  by (rule catchUp2_catches_up[OF push2_keeps[OF assms(1)] assms(2)])

text \<open>If nothing fails it returns, after one turn for each height.\<close>

definition good_turn :: "'b Turn \<Rightarrow> bool" where
  "good_turn t \<longleftrightarrow> (\<exists>b. tBlock t = Inr b) \<and> tSends t \<and> \<not> tLoopEnded t \<and> tDb t = None"

lemma catchUp2_finishes:
  assumes "\<forall>q r. fst (push q r) = None" and "uint height < 2 ^ 63"
  shows "\<forall>t \<in> set ts. good_turn t \<Longrightarrow> cursor \<le> height \<Longrightarrow> unat height - unat cursor \<le> length ts \<Longrightarrow>
    \<exists>tab' r'. catchUp2 push cfg height ts (cursor, tab, r) = Some (Ret (None, height, tab', r'))"
proof (induction ts arbitrary: cursor tab r)
  case Nil
  then show ?case by (auto simp: word_le_nat_alt word_less_nat_alt word_unat_eq_iff)
next
  case (Cons t ts)
  show ?case
  proof (cases "cursor < height")
    case False
    then show ?thesis using Cons.prems(2) by auto
  next
    case True
    obtain b where b: "tBlock t = Inr b" "tSends t" "\<not> tLoopEnded t" "tDb t = None"
      using Cons.prems(1) by (auto simp: good_turn_def)
    obtain r1 where p: "push [(cursor, b)] r = (None, r1)" using assms(1) by (metis prod.collapse)
    note w = word_inc(2)[OF True, of height] word_inc(1)[OF True, of cursor]
    have n: "unat (cursor + 1) = unat cursor + 1" by (rule word_inc(3)[OF True])
    have "uint (cursor + 1) \<le> uint height" using w(1) True by (simp add: word_le_def)
    then have "cursorUint64ToInt64 (cursor + 1) = Inr (i64 (uint (cursor + 1)))"
      using assms(2) by (simp add: cursorUint64ToInt64_def)
    then show ?thesis using Cons.IH[of "cursor + 1"] Cons.prems True b p n w(1)
      by (simp add: request_pushes Scan_UpdateCursor_def)
  qed
qed

text \<open>After the context is done the push loop may end first: the request is sent and never answered.\<close>

lemma cancelled_catch_up_hangs:
  assumes "cursor < height" and "tBlock t = Inr b" "tSends t" "tLoopEnded t"
  shows "catchUp1 push1' cfg height (t # ts) (cursor, tab, r) = Some Hang"
    "catchUp2 push2' cfg height (t # ts) (cursor, tab, r) = Some Hang"
  using assms by (simp_all add: request_def)

text \<open>
  The table fails once after the push: the first of the two leaves the block twice in the stream, the second, whose
  identifier is refused the second time, once.
\<close>

definition small_id :: goerror where
  "small_id = ''ERR The ID specified in XADD is '' @ ''equal or smaller than the target stream top item''"

definition once_redis :: "string list Redis" where
  "once_redis = \<lparr>pipe_exec = (\<lambda>cmds r.
       if \<exists>c \<in> set cmds. xID c \<in> set r
       then (Some small_id, map (\<lambda>c. if xID c \<in> set r then Some small_id else None) cmds, r)
       else (None, map (\<lambda>_. None) cmds, r @ map xID cmds)),
     xrange = (\<lambda>st i r. Inr (count_list r i))\<rparr>"

lemma small_id_too_small: "isRedisXAddIDTooSmallErr (Some small_id)"
proof -
  have "contains (a @ sub) sub" for a sub
    unfolding contains_def by (rule bexI[of _ "length a"]) simp_all
  then show ?thesis by (simp only: isRedisXAddIDTooSmallErr_def small_id_def option.case)
qed

definition turn :: "goerror option \<Rightarrow> string Turn" where
  "turn db_err = \<lparr>tBlock = Inr ''b'', tSends = True, tLoopEnded = False, tDb = db_err, tWaits = True\<rparr>"

definition eth_cfg :: HandlerCfg where
  "eth_cfg = handler2_cfg \<lparr>gSymbol = ''eth'', gStream = [], gMasterInterval = 0, gFlushInterval = 0, gBatchSize = 0, gBackoff = 0\<rparr>"

lemma failed_update_duplicates:
  "catchUp1 (push1 list_pipe Inr) eth_cfg 6 [turn (Some ''down''), turn None] (5, [''eth'' \<mapsto> 5], []) =
     Some (Ret (None, 6, [''eth'' \<mapsto> 6], [''b'', ''b'']))"
  "catchUp2 (push2 once_redis Inr eth_cfg) eth_cfg 6 [turn (Some ''down''), turn None] (5, [''eth'' \<mapsto> 5], []) =
     Some (Ret (None, 6, [''eth'' \<mapsto> 6], [block_id ''eth'' 5]))"
  by (simp_all add: request_pushes turn_def push1_def list_pipe_def eth_cfg_def handler2_cfg_def Scan_UpdateCursor_def i64_def
      push2_def push3_def as_cfg3_def once_redis_def cursorUint64ToInt64_def small_id_too_small xaddIDExists_def)

end
