(* ===== verification/Scan_Chairs.thy ===== *)
theory Scan_Chairs
  imports Watcher_Types
begin

text \<open>
  \<^verbatim>\<open>learn/eth/scan/interfaces\<close>: the three chains behind the interface \<open>Chair\<close>, as blocks of transfers. The nodes, their
  encodings and decimals are parameters; the data types are those of \<open>Watcher_Types\<close>, which has the same ones.
\<close>

text \<open>What the handlers ask of a chain.\<close>

record 'd Chair =
  GetHeight :: "goerror + uint64"
  GetBlockByHeight :: "uint64 \<Rightarrow> goerror + 'd StandardBlock"

subsection \<open>Bitcoin\<close>

definition btc_chair_output :: "'d \<Rightarrow> (string \<Rightarrow> 's option) \<Rightarrow> ('s \<Rightarrow> string list option) \<Rightarrow> ('f \<Rightarrow> 'd) \<Rightarrow>
    uint64 \<Rightarrow> int \<Rightarrow> string \<Rightarrow> 'f Vout \<Rightarrow> 'd ChainTransfer list" where
  "btc_chair_output zero decode_hex addresses of_float height i txid vout =
     (case decode_hex (PkHex vout) of
        None \<Rightarrow> []
      | Some script \<Rightarrow>
          (case addresses script of
             None \<Rightarrow> []
           | Some addrs \<Rightarrow>
               if addrs = [] then []
               else [\<lparr>TxHash = txid, LogIndex = i, BlockHeight = i64 (uint height), FromAddress = '''',
                      ToAddress = hd addrs, tChain = ''BTC'', tSymbol = ''BTC'', Amount = of_float (Value vout),
                      Contract = '''', Data = '''', tStatus = TransactionStatusPending, GasUsed = zero, MsgId = ''''\<rparr>]))"

definition Btc_GetBlockByHeight :: "'d \<Rightarrow> (string \<Rightarrow> 's option) \<Rightarrow> ('s \<Rightarrow> string list option) \<Rightarrow> ('f \<Rightarrow> 'd) \<Rightarrow>
    (int \<Rightarrow> goerror + 'h) \<Rightarrow> ('h \<Rightarrow> goerror + 'f BtcBlock) \<Rightarrow> uint64 \<Rightarrow> goerror + 'd StandardBlock" where
  "Btc_GetBlockByHeight zero decode_hex addresses of_float block_hash block_of height =
     (case block_hash (i64 (uint height)) of
        Inl e \<Rightarrow> Inl e
      | Inr hash \<Rightarrow>
          (case block_of hash of
             Inl e \<Rightarrow> Inl e
           | Inr block \<Rightarrow>
               Inr \<lparr>Height = btcHeight block, Hash = btcHash block, PrevHash = PreviousHash block, Time = btcTime block,
                    Transactions = concat (map (\<lambda>(i, tx).
                      concat (map (btc_chair_output zero decode_hex addresses of_float height i (Txid tx)) (Vouts tx)))
                      (zip (map int [0..<length (Tx block)]) (Tx block)))\<rparr>))"

definition Btc_GetHeight :: "int \<times> goerror option \<Rightarrow> uint64 \<times> goerror option" where
  "Btc_GetHeight answer = (word_of_int (fst answer), snd answer)"

subsection \<open>Ethereum\<close>

text \<open>The error of the sender is dropped, which leaves the zero address; a transaction without recipient panics.\<close>

definition Eth_transfer :: "'d \<Rightarrow> (int \<Rightarrow> 'd) \<Rightarrow> string \<Rightarrow> int \<Rightarrow> EthTx \<Rightarrow> 'd ChainTransfer go" where
  "Eth_transfer zero wei18 zero_address height tx =
     andThen (deref (txTo tx)) (\<lambda>recipient.
       Ret \<lparr>TxHash = txHash tx, LogIndex = 0, BlockHeight = height,
            FromAddress = (case txSender tx of None \<Rightarrow> zero_address | Some s \<Rightarrow> s), ToAddress = recipient,
            tChain = ''ETH'', tSymbol = ''ETH'', Amount = wei18 (txValue tx), Contract = '''', Data = '''',
            tStatus = TransactionStatusPending, GasUsed = zero, MsgId = ''''\<rparr>)"

fun Eth_transfers :: "'d \<Rightarrow> (int \<Rightarrow> 'd) \<Rightarrow> string \<Rightarrow> int \<Rightarrow> EthTx list \<Rightarrow> 'd ChainTransfer list go" where
  "Eth_transfers zero wei18 zero_address height [] = Ret []"
| "Eth_transfers zero wei18 zero_address height (tx # txs) =
     andThen (Eth_transfer zero wei18 zero_address height tx) (\<lambda>t.
       andThen (Eth_transfers zero wei18 zero_address height txs) (\<lambda>ts. Ret (t # ts)))"

text \<open>The node's block: number, hash, parent hash, time and transactions.\<close>

definition Eth_GetBlockByHeight :: "'d \<Rightarrow> (int \<Rightarrow> 'd) \<Rightarrow> string \<Rightarrow>
    (int \<Rightarrow> goerror + int \<times> string \<times> string \<times> uint64 \<times> EthTx list) \<Rightarrow> uint64 \<Rightarrow> (goerror + 'd StandardBlock) go" where
  "Eth_GetBlockByHeight zero wei18 zero_address block_by_number height =
     (case block_by_number (i64 (uint height)) of
        Inl e \<Rightarrow> Ret (Inl e)
      | Inr (number, hash, parent, time, txs) \<Rightarrow>
          andThen (Eth_transfers zero wei18 zero_address number txs) (\<lambda>ts.
            Ret (Inr \<lparr>Height = number, Hash = hash, PrevHash = parent, Time = sint time, Transactions = ts\<rparr>)))"

lemma Eth_transfers_length: "Eth_transfers zero wei18 za h txs = Ret ts \<Longrightarrow> length ts = length txs"
  by (induction txs arbitrary: ts) (auto simp: andThen_eq_Ret)

text \<open>A block with the creation of a contract, which has no recipient, ends the program.\<close>

lemma creation_panics: "tx \<in> set txs \<Longrightarrow> txTo tx = None \<Longrightarrow> Eth_transfers zero wei18 za h txs = Panic"
proof (induction txs)
  case (Cons t txs)
  then show ?case by (cases "txTo t") (auto simp: Eth_transfer_def)
qed simp

subsection \<open>Solana\<close>

text \<open>The system program's transfers, with their amount and the two accounts, if given.\<close>

datatype SysInst =
    SolTransfer "uint64 option" "string option" "string option"
  | SolTransferWithSeed "uint64 option" "string option" "string option"
  | OtherInst

record SolInst =
  ProgramIDIndex :: nat
  instData :: string

record SolTx =
  Signatures :: "string list"
  AccountKeys :: "string list"
  Instructions :: "SolInst list"

definition accountMetaString :: "string option \<Rightarrow> string" where
  "accountMetaString acc = (case acc of None \<Rightarrow> '''' | Some key \<Rightarrow> key)"

definition sol_transfer :: "'d \<Rightarrow> (uint64 \<Rightarrow> 'd) \<Rightarrow> int \<Rightarrow> uint64 option \<Rightarrow> string option \<Rightarrow> string option \<Rightarrow>
    'd ChainTransfer list" where
  "sol_transfer zero lamportsToDecimal height lamports from to =
     (case lamports of
        None \<Rightarrow> []
      | Some n \<Rightarrow> [\<lparr>TxHash = '''', LogIndex = 0, BlockHeight = height, FromAddress = accountMetaString from,
          ToAddress = accountMetaString to, tChain = ''SOL'', tSymbol = ''SOL'', Amount = lamportsToDecimal n,
          Contract = '''', Data = '''', tStatus = TransactionStatusPending, GasUsed = zero, MsgId = ''''\<rparr>])"

text \<open>\<open>resolve\<close> and \<open>decode\<close> are the library's; an instruction of another program decodes to nothing of the system's.\<close>

definition sol_instruction :: "'d \<Rightarrow> (uint64 \<Rightarrow> 'd) \<Rightarrow> (SolTx \<Rightarrow> SolInst \<Rightarrow> 'a option) \<Rightarrow>
    (string \<Rightarrow> 'a \<Rightarrow> string \<Rightarrow> goerror + SysInst option) \<Rightarrow> int \<Rightarrow> SolTx \<Rightarrow> SolInst \<Rightarrow> 'd ChainTransfer list" where
  "sol_instruction zero lamportsToDecimal resolve decode height tx inst =
     (if ProgramIDIndex inst \<ge> length (AccountKeys tx) then []
      else case resolve tx inst of
        None \<Rightarrow> []
      | Some accounts \<Rightarrow>
          (case decode (AccountKeys tx ! ProgramIDIndex inst) accounts (instData inst) of
             Inl _ \<Rightarrow> []
           | Inr None \<Rightarrow> []
           | Inr (Some (SolTransfer n from to)) \<Rightarrow> sol_transfer zero lamportsToDecimal height n from to
           | Inr (Some (SolTransferWithSeed n from to)) \<Rightarrow> sol_transfer zero lamportsToDecimal height n from to
           | Inr (Some OtherInst) \<Rightarrow> []))"

definition extractSolTransfers :: "'d \<Rightarrow> (uint64 \<Rightarrow> 'd) \<Rightarrow> (SolTx \<Rightarrow> SolInst \<Rightarrow> 'a option) \<Rightarrow>
    (string \<Rightarrow> 'a \<Rightarrow> string \<Rightarrow> goerror + SysInst option) \<Rightarrow> SolTx \<Rightarrow> int \<Rightarrow> 'd ChainTransfer list" where
  "extractSolTransfers zero lamportsToDecimal resolve decode tx height =
     concat (map (sol_instruction zero lamportsToDecimal resolve decode height tx) (Instructions tx))"

text \<open>A transaction of a block: what it decodes to, and whether its metadata, if any, has an error.\<close>

record SolEntry =
  solTx :: "goerror + SolTx"
  solMeta :: "bool option"

definition sol_entry :: "'d \<Rightarrow> (uint64 \<Rightarrow> 'd) \<Rightarrow> (SolTx \<Rightarrow> SolInst \<Rightarrow> 'a option) \<Rightarrow>
    (string \<Rightarrow> 'a \<Rightarrow> string \<Rightarrow> goerror + SysInst option) \<Rightarrow> int \<Rightarrow> SolEntry \<Rightarrow> 'd ChainTransfer list" where
  "sol_entry zero lamportsToDecimal resolve decode height x =
     (case solTx x of
        Inl _ \<Rightarrow> []
      | Inr tx \<Rightarrow>
          (let hash = (case Signatures tx of [] \<Rightarrow> '''' | s # _ \<Rightarrow> s);
               status = (case solMeta x of None \<Rightarrow> TransactionStatusPending | Some False \<Rightarrow> TransactionConfirmed
                         | Some True \<Rightarrow> TransactionFailed);
               ts = extractSolTransfers zero lamportsToDecimal resolve decode tx height
           in if ts = [] then
                [\<lparr>TxHash = hash, LogIndex = 0, BlockHeight = height, FromAddress = '''', ToAddress = '''',
                  tChain = ''SOL'', tSymbol = ''SOL'', Amount = zero, Contract = '''', Data = '''', tStatus = status,
                  GasUsed = zero, MsgId = ''''\<rparr>]
              else map (\<lambda>t. t\<lparr>TxHash := hash, BlockHeight := height, tStatus := status\<rparr>) ts))"

text \<open>The node's block: its height and time, if given, the two hashes and the transactions.\<close>

record SolBlock =
  solHeight :: "uint64 option"
  solTime :: "int option"
  Blockhash :: string
  PreviousBlockhash :: string
  solTxs :: "SolEntry list"

definition Sol_GetBlockByHeight :: "'d \<Rightarrow> (uint64 \<Rightarrow> 'd) \<Rightarrow> (SolTx \<Rightarrow> SolInst \<Rightarrow> 'a option) \<Rightarrow>
    (string \<Rightarrow> 'a \<Rightarrow> string \<Rightarrow> goerror + SysInst option) \<Rightarrow> (uint64 \<Rightarrow> goerror + SolBlock) \<Rightarrow> uint64 \<Rightarrow>
    goerror + 'd StandardBlock" where
  "Sol_GetBlockByHeight zero lamportsToDecimal resolve decode get_block height =
     (case get_block height of
        Inl e \<Rightarrow> Inl e
      | Inr b \<Rightarrow>
          (let h = (case solHeight b of None \<Rightarrow> i64 (uint height) | Some n \<Rightarrow> i64 (uint n));
               t = (case solTime b of None \<Rightarrow> 0 | Some n \<Rightarrow> n)
           in Inr \<lparr>Height = h, Hash = Blockhash b, PrevHash = PreviousBlockhash b, Time = t,
                Transactions = concat (map (sol_entry zero lamportsToDecimal resolve decode h) (solTxs b))\<rparr>))"

text \<open>Every transaction that decodes is in the block: with a transfer each, or once with the amount zero.\<close>

lemma sol_entry_some:
  assumes "solTx x = Inr tx"
  shows "sol_entry zero lam resolve decode h x \<noteq> []"
    "\<forall>t \<in> set (sol_entry zero lam resolve decode h x). BlockHeight t = h \<and> tChain t = ''SOL''"
proof -
  have "\<forall>t \<in> set (extractSolTransfers zero lam resolve decode tx h). tChain t = ''SOL''"
    by (auto simp: extractSolTransfers_def sol_instruction_def sol_transfer_def
        split: if_split_asm option.split_asm sum.split_asm SysInst.split_asm)
  then show "sol_entry zero lam resolve decode h x \<noteq> []"
    "\<forall>t \<in> set (sol_entry zero lam resolve decode h x). BlockHeight t = h \<and> tChain t = ''SOL''"
    using assms by (auto simp: sol_entry_def Let_def)
qed

end
