(* ===== verification/Ws_Demo.thy ===== *)
theory Ws_Demo
  imports Go_Prelude
begin

text \<open>
  \<^verbatim>\<open>deploy/wsdemo_steps/05_slow_client_backpressure\<close>: a hub in shards whose connections keep the latest payload of
  each topic and are closed when they hold too many bytes. Connections are numbers; the JSON of a client's message and
  the socket's errors are parameters; times are nanoseconds.
\<close>

subsection \<open>Topics\<close>

type_synonym registry = "string \<rightharpoonup> uint32"

text \<open>The identifier of a topic, a new one if need be. \<open>len\<close> is the length of the map.\<close>

definition reg_ID :: "string \<Rightarrow> registry \<times> nat \<Rightarrow> uint32 \<times> registry \<times> nat" where
  "reg_ID topic r =
     (let (byName, len) = r
      in case byName topic of
           Some i \<Rightarrow> (i, r)
         | None \<Rightarrow> (let i = word_of_nat (len + 1) in (i, byName(topic \<mapsto> i), len + 1)))"

subsection \<open>The mailbox of a connection\<close>

definition maxPendingBytes :: int where "maxPendingBytes = 256 * 1024"
definition d_maxFlush :: nat where "d_maxFlush = 256"

text \<open>\<open>dSubs\<close> are the topics of the connection, \<open>wakeup\<close> the channel of one place that wakes the writer.\<close>

record DConn =
  latest :: "uint32 \<rightharpoonup> bytes"
  dirty :: "uint32 list"
  dirtySet :: "uint32 set"
  pendingBytes :: int
  wakeup :: bool
  dSubs :: "uint32 set"
  dClosed :: bool
  lastWrite :: int
  lastPong :: int

definition NewDConn :: "int \<Rightarrow> DConn" where
  "NewDConn now = \<lparr>latest = (\<lambda>_. None), dirty = [], dirtySet = {}, pendingBytes = 0, wakeup = False, dSubs = {},
     dClosed = False, lastWrite = now, lastPong = now\<rparr>"

text \<open>The part of \<open>Enqueue\<close> under the lock, and the number of bytes it leaves.\<close>

definition put_latest :: "uint32 \<Rightarrow> bytes \<Rightarrow> DConn \<Rightarrow> DConn" where
  "put_latest i payload c =
     (let old = latest c i;
          c1 = c\<lparr>latest := (latest c)(i \<mapsto> payload)\<rparr>;
          c2 = (if i \<in> dirtySet c1 then c1 else c1\<lparr>dirtySet := insert i (dirtySet c1), dirty := dirty c1 @ [i]\<rparr>);
          delta = int (length payload) - (case old of None \<Rightarrow> 0 | Some p \<Rightarrow> int (length p))
      in c2\<lparr>pendingBytes := pendingBytes c2 + delta\<rparr>)"

text \<open>Taking up to \<open>m\<close> payloads: the topics in the order in which they became dirty.\<close>

fun d_flush_loop :: "nat \<Rightarrow> uint32 list \<Rightarrow> DConn \<Rightarrow> bytes list \<times> DConn" where
  "d_flush_loop m [] c = ([], c\<lparr>dirty := []\<rparr>)"
| "d_flush_loop 0 (i # is) c = ([], c\<lparr>dirty := i # is\<rparr>)"
| "d_flush_loop (Suc m) (i # is) c =
     (let c1 = c\<lparr>dirtySet := dirtySet c - {i}, latest := (latest c)(i := None)\<rparr>
      in case latest c i of
           None \<Rightarrow> d_flush_loop (Suc m) is c1
         | Some p \<Rightarrow> (let (batch, c2) = d_flush_loop m is (c1\<lparr>pendingBytes := pendingBytes c1 - int (length p)\<rparr>)
                     in (p # batch, c2)))"

definition DConn_flush :: "nat \<Rightarrow> DConn \<Rightarrow> bytes list \<times> DConn" where
  "DConn_flush m c = d_flush_loop m (dirty c) c"

subsection \<open>The hub\<close>

record hubShard =
  shSubs :: "uint32 \<rightharpoonup> nat set"
  shLast :: "uint32 \<rightharpoonup> bytes"

record DHub =
  dReg :: "registry \<times> nat"
  shards :: "hubShard list"
  dConns :: "nat \<Rightarrow> DConn"

definition NewDHub :: "int \<Rightarrow> (nat \<Rightarrow> DConn) \<Rightarrow> DHub" where
  "NewDHub n cs = \<lparr>dReg = (\<lambda>_. None, 0), shards = replicate (if n \<le> 0 then 8 else nat n) \<lparr>shSubs = (\<lambda>_. None), shLast = (\<lambda>_. None)\<rparr>,
     dConns = cs\<rparr>"

definition d_shard :: "uint32 \<Rightarrow> DHub \<Rightarrow> nat" where
  "d_shard i h = unat i mod length (shards h)"

definition on_shard :: "uint32 \<Rightarrow> (hubShard \<Rightarrow> hubShard) \<Rightarrow> DHub \<Rightarrow> DHub" where
  "on_shard i f h = h\<lparr>shards := (shards h)[d_shard i h := f (shards h ! d_shard i h)]\<rparr>"

definition on_conn :: "nat \<Rightarrow> (DConn \<Rightarrow> DConn) \<Rightarrow> DHub \<Rightarrow> DHub" where
  "on_conn c f h = h\<lparr>dConns := (dConns h)(c := f (dConns h c))\<rparr>"

definition drop_sub :: "nat \<Rightarrow> uint32 \<Rightarrow> hubShard \<Rightarrow> hubShard" where
  "drop_sub c i sh =
     (case shSubs sh i of
        None \<Rightarrow> sh
      | Some s \<Rightarrow> sh\<lparr>shSubs := (shSubs sh)(i := (if s - {c} = {} then None else Some (s - {c})))\<rparr>)"

text \<open>The topics are taken out of the connection first, in the order \<open>ids\<close> in which the map is ranged over.\<close>

definition DHub_RemoveConn :: "nat \<Rightarrow> uint32 list \<Rightarrow> DHub \<Rightarrow> DHub" where
  "DHub_RemoveConn c ids h = fold (\<lambda>i. on_shard i (drop_sub c i)) ids (on_conn c (\<lambda>x. x\<lparr>dSubs := {}\<rparr>) h)"

definition DConn_Close :: "nat \<Rightarrow> uint32 list \<Rightarrow> DHub \<Rightarrow> DHub" where
  "DConn_Close c ids h =
     (if dClosed (dConns h c) then h else DHub_RemoveConn c ids (on_conn c (\<lambda>x. x\<lparr>dClosed := True\<rparr>) h))"

definition Enqueue :: "nat \<Rightarrow> uint32 list \<Rightarrow> uint32 \<Rightarrow> bytes \<Rightarrow> DHub \<Rightarrow> bool \<times> DHub" where
  "Enqueue c ids i payload h =
     (if dClosed (dConns h c) then (False, h)
      else let h1 = on_conn c (put_latest i payload) h
           in if pendingBytes (dConns h1 c) > maxPendingBytes then (False, DConn_Close c ids h1)
              else (True, on_conn c (\<lambda>x. x\<lparr>wakeup := True\<rparr>) h1))"

fun DHub_Subscribe :: "nat \<Rightarrow> uint32 list \<Rightarrow> string list \<Rightarrow> DHub \<Rightarrow> DHub" where
  "DHub_Subscribe c ids [] h = h"
| "DHub_Subscribe c ids (t # ts) h =
     (let (i, r) = reg_ID t (dReg h);
          h1 = on_conn c (\<lambda>x. x\<lparr>dSubs := insert i (dSubs x)\<rparr>) (h\<lparr>dReg := r\<rparr>);
          h2 = on_shard i (\<lambda>sh. sh\<lparr>shSubs := (shSubs sh)(i \<mapsto> insert c (case shSubs sh i of None \<Rightarrow> {} | Some s \<Rightarrow> s))\<rparr>) h1;
          h3 = (case shLast (shards h2 ! d_shard i h2) i of
                  None \<Rightarrow> h2
                | Some snap \<Rightarrow> if snap = [] then h2 else snd (Enqueue c ids i snap h2))
      in DHub_Subscribe c ids ts h3)"

text \<open>\<open>order\<close> is the order in which the set of subscribers is ranged over, \<open>ids\<close> that of each connection's topics.\<close>

definition DHub_Publish :: "(nat set \<Rightarrow> nat list) \<Rightarrow> (nat \<Rightarrow> uint32 list) \<Rightarrow> string \<Rightarrow> bytes \<Rightarrow> DHub \<Rightarrow> DHub" where
  "DHub_Publish order ids topic payload h =
     (let (i, r) = reg_ID topic (dReg h);
          h1 = on_shard i (\<lambda>sh. sh\<lparr>shLast := (shLast sh)(i \<mapsto> payload)\<rparr>) (h\<lparr>dReg := r\<rparr>);
          conns = (case shSubs (shards h1 ! d_shard i h1) i of None \<Rightarrow> [] | Some s \<Rightarrow> order s)
      in fold (\<lambda>c h. snd (Enqueue c (ids c) i payload h)) conns h1)"

subsection \<open>The pumps\<close>

definition pongWait :: int where "pongWait = 40 * 1000000000"
definition maxWriteLag :: int where "maxWriteLag = 10 * 1000000000"

text \<open>One message of the client; \<open>None\<close> is a read error, which ends the reader. \<open>unmarshal\<close> is the JSON of the type and topics.\<close>

definition readPump_step :: "(bytes \<Rightarrow> (string \<times> string list) option) \<Rightarrow> nat \<Rightarrow> uint32 list \<Rightarrow> bytes option \<Rightarrow> DHub \<Rightarrow>
    bool \<times> DHub" where
  "readPump_step unmarshal c ids msg h =
     (case msg of
        None \<Rightarrow> (False, DConn_Close c ids h)
      | Some b \<Rightarrow>
          (case unmarshal b of
             None \<Rightarrow> (True, h)
           | Some (ty, topics) \<Rightarrow> (True, if ty = ''sub'' then DHub_Subscribe c ids topics h else h)))"

fun d_join_lines :: "bytes list \<Rightarrow> bytes" where
  "d_join_lines [] = []"
| "d_join_lines [p] = p"
| "d_join_lines (p # ps) = p @ 10 # d_join_lines ps"

text \<open>One wake-up of the writer: the message it writes, if any, and whether it goes on.\<close>

definition writePump_wake :: "nat \<Rightarrow> uint32 list \<Rightarrow> int \<Rightarrow> bool \<Rightarrow> DHub \<Rightarrow> bool \<times> bytes list \<times> DHub" where
  "writePump_wake c ids now write_ok h =
     (let (batch, x) = DConn_flush d_maxFlush ((dConns h c)\<lparr>wakeup := False\<rparr>);
          h1 = on_conn c (\<lambda>_. x) h
      in if batch = [] then (True, [], h1)
         else let h2 = on_conn c (\<lambda>y. y\<lparr>lastWrite := now\<rparr>) h1
              in if write_ok then (True, [d_join_lines batch], h2) else (False, [], DConn_Close c ids h2))"

text \<open>A tick of the ping timer.\<close>

definition writePump_tick :: "nat \<Rightarrow> uint32 list \<Rightarrow> int \<Rightarrow> bool \<Rightarrow> DHub \<Rightarrow> bool \<times> DHub" where
  "writePump_tick c ids now ping_ok h =
     (if now - lastPong (dConns h c) > pongWait then (False, DConn_Close c ids h)
      else if now - lastWrite (dConns h c) > maxWriteLag then (False, DConn_Close c ids h)
      else if ping_ok then (True, h) else (False, DConn_Close c ids h))"

subsection \<open>The mailbox keeps the latest payloads\<close>

text \<open>The abstract mailbox: topics with their payloads, each once; a new payload replaces that of its topic in place.\<close>

fun mail_put :: "uint32 \<Rightarrow> bytes \<Rightarrow> (uint32 \<times> bytes) list \<Rightarrow> (uint32 \<times> bytes) list" where
  "mail_put i p [] = [(i, p)]"
| "mail_put i p ((j, q) # ms) = (if j = i then (i, p) # ms else (j, q) # mail_put i p ms)"

definition mail_of :: "DConn \<Rightarrow> (uint32 \<times> bytes) list" where
  "mail_of c = map (\<lambda>i. (i, the (latest c i))) (dirty c)"

definition mail_bytes :: "(uint32 \<times> bytes) list \<Rightarrow> int" where
  "mail_bytes ms = sum_list (map (\<lambda>(_, p). int (length p)) ms)"

definition mail_ok :: "DConn \<Rightarrow> bool" where
  "mail_ok c \<longleftrightarrow> distinct (dirty c) \<and> dirtySet c = set (dirty c) \<and> dom (latest c) = set (dirty c) \<and>
     pendingBytes c = mail_bytes (mail_of c)"

lemma mail_put_new: "i \<notin> fst ` set ms \<Longrightarrow> mail_put i p ms = ms @ [(i, p)]"
  by (induction ms) auto

lemma mail_put_old:
  "distinct is \<Longrightarrow> i \<in> set is \<Longrightarrow> mail_put i p (map (\<lambda>i. (i, the (f i))) is) = map (\<lambda>j. (j, the ((f(i \<mapsto> p)) j))) is"
  by (induction "is") (auto cong: map_cong)

lemma mail_bytes_put:
  "distinct (map fst ms) \<Longrightarrow> mail_bytes (mail_put i p ms) =
     mail_bytes ms + int (length p) - (case map_of ms i of None \<Rightarrow> 0 | Some q \<Rightarrow> int (length q))"
  by (induction ms rule: mail_put.induct) (auto simp: mail_bytes_def)

lemma NewDConn_mail: "mail_ok (NewDConn now)" "mail_of (NewDConn now) = []"
  by (simp_all add: NewDConn_def mail_ok_def mail_of_def mail_bytes_def)

text \<open>\<open>Enqueue\<close> puts, and the number of bytes is that of the payloads waiting.\<close>

lemma put_latest_mail:
  assumes "mail_ok c"
  shows "mail_of (put_latest i p c) = mail_put i p (mail_of c)" "mail_ok (put_latest i p c)"
proof -
  let ?c = "put_latest i p c"
  have o: "distinct (dirty c)" "dirtySet c = set (dirty c)" "dom (latest c) = set (dirty c)" "pendingBytes c = mail_bytes (mail_of c)"
    using assms by (simp_all add: mail_ok_def)
  have l: "latest ?c = (latest c)(i \<mapsto> p)" "dirty ?c = (if i \<in> set (dirty c) then dirty c else dirty c @ [i])"
    "dirtySet ?c = insert i (dirtySet c)"
    using o(2) by (auto simp: put_latest_def Let_def)
  have keys: "map fst (mail_of c) = dirty c" by (simp add: mail_of_def comp_def)
  show m: "mail_of ?c = mail_put i p (mail_of c)"
  proof (cases "i \<in> set (dirty c)")
    case True
    then show ?thesis using mail_put_old[OF o(1) True, of p "latest c"] by (simp add: mail_of_def l)
  next
    case False
    then have "mail_put i p (mail_of c) = mail_of c @ [(i, p)]"
      by (intro mail_put_new) (auto simp: mail_of_def)
    moreover have "mail_of ?c = mail_of c @ [(i, p)]" using False by (auto simp: mail_of_def l)
    ultimately show ?thesis by simp
  qed
  have D: "latest c i \<noteq> None \<longleftrightarrow> i \<in> set (dirty c)" using o(3) by (metis domIff)
  have find: "map_of (mail_of c) i = latest c i"
    using D by (cases "latest c i") (auto simp: mail_of_def map_of_map_restrict)
  have "pendingBytes ?c = pendingBytes c + int (length p) - (case latest c i of None \<Rightarrow> 0 | Some q \<Rightarrow> int (length q))"
    by (auto simp: put_latest_def Let_def)
  then have "pendingBytes ?c = mail_bytes (mail_of ?c)"
    using mail_bytes_put[of "mail_of c" i p] o(1,4) find by (simp add: keys m)
  then show "mail_ok ?c" using o l by (auto simp: mail_ok_def)
qed

text \<open>A flush takes the first payloads.\<close>

lemma flush_loop_mail:
  "distinct is \<Longrightarrow> set is = dom (latest c) \<Longrightarrow> dirtySet c = set is \<Longrightarrow>
   pendingBytes c = mail_bytes (map (\<lambda>i. (i, the (latest c i))) is) \<Longrightarrow> d_flush_loop m is c = (batch, c') \<Longrightarrow>
   batch = take m (map (\<lambda>i. the (latest c i)) is) \<and> mail_ok c' \<and> mail_of c' = drop m (map (\<lambda>i. (i, the (latest c i))) is) \<and>
   wakeup c' = wakeup c \<and> dClosed c' = dClosed c \<and> dSubs c' = dSubs c"
proof (induction m "is" c arbitrary: batch c' rule: d_flush_loop.induct)
  case (1 m c)
  then have "latest c = (\<lambda>_. None)" by (metis dom_eq_empty_conv list.set(1))
  then show ?case using 1 by (auto simp: mail_ok_def mail_of_def)
next
  case (2 i js c)
  then show ?case by (auto simp: mail_ok_def mail_of_def)
next
  case (3 m i js c)
  let ?c = "c\<lparr>dirtySet := dirtySet c - {i}, latest := (latest c)(i := None)\<rparr>"
  obtain p where p: "latest c i = Some p" using 3(4) by auto
  obtain b1 c1 where r: "d_flush_loop m js (?c\<lparr>pendingBytes := pendingBytes ?c - int (length p)\<rparr>) = (b1, c1)" by fastforce
  have res: "batch = p # b1" "c' = c1" using 3(7) p r by (simp_all add: Let_def)
  have i: "i \<notin> set js" "distinct js" using 3(3) by auto
  let ?d = "?c\<lparr>pendingBytes := pendingBytes ?c - int (length p)\<rparr>"
  have same: "map (\<lambda>j. (j, the (latest ?d j))) js = map (\<lambda>j. (j, the (latest c j))) js"
    "map (\<lambda>j. the (latest ?d j)) js = map (\<lambda>j. the (latest c j)) js" using i by auto
  have d: "set js = dom (latest ?d)" "dirtySet ?d = set js" using 3(4,5) i by auto
  have "pendingBytes ?d = mail_bytes (map (\<lambda>j. (j, the (latest c j))) js)"
    using 3(6) p by (simp add: mail_bytes_def)
  then have n: "pendingBytes ?d = mail_bytes (map (\<lambda>j. (j, the (latest ?d j))) js)" by (simp only: same)
  have "b1 = take m (map (\<lambda>j. the (latest c j)) js) \<and> mail_ok c1 \<and>
      mail_of c1 = drop m (map (\<lambda>j. (j, the (latest c j))) js) \<and> wakeup c1 = wakeup ?d \<and> dClosed c1 = dClosed ?d \<and> dSubs c1 = dSubs ?d"
    using 3(2)[OF refl p i(2) d n r] by (simp only: same)
  then show ?case by (simp add: res p)
qed

lemma DConn_flush_mail:
  assumes "mail_ok c" and "DConn_flush m c = (batch, c')"
  shows "batch = take m (map snd (mail_of c))" "mail_of c' = drop m (mail_of c)" "mail_ok c'" "wakeup c' = wakeup c"
  using flush_loop_mail[of "dirty c" c m batch c'] assms
  by (auto simp: mail_ok_def mail_of_def DConn_flush_def comp_def)

subsection \<open>What a slow client costs\<close>

definition hub_bounded :: "DHub \<Rightarrow> bool" where
  "hub_bounded h \<longleftrightarrow> (\<forall>c. mail_ok (dConns h c) \<and> (\<not> dClosed (dConns h c) \<longrightarrow> pendingBytes (dConns h c) \<le> maxPendingBytes))"

lemma on_shard_conns [simp]: "dConns (on_shard i f h) = dConns h"
  by (simp add: on_shard_def)

lemma fold_on_shard [simp]: "dConns (fold (\<lambda>i. on_shard i (f i)) ids h) = dConns h"
  by (induction ids arbitrary: h) simp_all

text \<open>A connection that keeps its mailbox and whether it is closed.\<close>

definition same_mail :: "DConn \<Rightarrow> DConn \<Rightarrow> bool" where
  "same_mail x y \<longleftrightarrow> latest x = latest y \<and> dirty x = dirty y \<and> dirtySet x = dirtySet y \<and> pendingBytes x = pendingBytes y"

lemma same_mail_ok: "same_mail x y \<Longrightarrow> mail_ok y \<Longrightarrow> mail_ok x"
  by (simp add: same_mail_def mail_ok_def mail_of_def)

lemma bounded_on_conn:
  "hub_bounded h \<Longrightarrow> mail_ok (f (dConns h c)) \<Longrightarrow>
   (\<not> dClosed (f (dConns h c)) \<longrightarrow> pendingBytes (f (dConns h c)) \<le> maxPendingBytes) \<Longrightarrow> hub_bounded (on_conn c f h)"
  by (simp add: hub_bounded_def on_conn_def)

lemma bounded_conns: "hub_bounded h \<Longrightarrow> dConns h' = dConns h \<Longrightarrow> hub_bounded h'"
  by (simp add: hub_bounded_def)

lemma bounded_same:
  assumes "hub_bounded h" and "same_mail (f (dConns h c)) (dConns h c)" and "dClosed (dConns h c) \<longrightarrow> dClosed (f (dConns h c))"
  shows "hub_bounded (on_conn c f h)"
  using assms same_mail_ok[OF assms(2)] by (intro bounded_on_conn) (auto simp: hub_bounded_def same_mail_def)

lemma close_bounded:
  assumes "\<And>d. mail_ok (dConns h d)" and "\<And>d. d \<noteq> c \<Longrightarrow> \<not> dClosed (dConns h d) \<Longrightarrow> pendingBytes (dConns h d) \<le> maxPendingBytes"
  shows "hub_bounded (DConn_Close c ids h)"
proof (cases "dClosed (dConns h c)")
  case True
  then have "hub_bounded h" unfolding hub_bounded_def using assms by metis
  then show ?thesis using True by (simp add: DConn_Close_def)
next
  case False
  let ?x = "(dConns h c)\<lparr>dClosed := True, dSubs := {}\<rparr>"
  have "dConns (DConn_Close c ids h) = (dConns h)(c := ?x)"
    using False by (simp add: DConn_Close_def DHub_RemoveConn_def on_conn_def)
  moreover have "mail_ok ?x" using assms(1)[of c] by (simp add: mail_ok_def mail_of_def)
  ultimately show ?thesis using assms by (simp add: hub_bounded_def)
qed

lemma close_bounded': "hub_bounded h \<Longrightarrow> hub_bounded (DConn_Close c ids h)"
  by (rule close_bounded) (auto simp: hub_bounded_def)

lemma enqueue_bounded:
  assumes "hub_bounded h"
  shows "hub_bounded (snd (Enqueue c ids i p h))"
proof -
  have m: "mail_ok (put_latest i p (dConns h c))" using put_latest_mail(2) assms by (simp add: hub_bounded_def)
  let ?h = "on_conn c (put_latest i p) h"
  have a: "mail_ok (dConns ?h d)" for d using m assms by (simp add: on_conn_def hub_bounded_def)
  have b: "\<not> dClosed (dConns ?h d) \<longrightarrow> pendingBytes (dConns ?h d) \<le> maxPendingBytes" if "d \<noteq> c" for d
    using that assms by (simp add: on_conn_def hub_bounded_def)
  show ?thesis
  proof (cases "dClosed (dConns h c)")
    case True
    then show ?thesis using assms by (simp add: Enqueue_def)
  next
    case open1: False
    show ?thesis
    proof (cases "pendingBytes (dConns ?h c) > maxPendingBytes")
      case True
      then show ?thesis using close_bounded[of ?h c ids] a b open1 by (simp add: Enqueue_def Let_def)
    next
      case False
      then have "hub_bounded ?h" unfolding hub_bounded_def using a b by (metis not_less)
      then have "hub_bounded (on_conn c (\<lambda>x. x\<lparr>wakeup := True\<rparr>) ?h)" by (rule bounded_same) (simp_all add: same_mail_def)
      then show ?thesis using False open1 by (simp add: Enqueue_def Let_def)
    qed
  qed
qed

lemma subscribe_bounded: "hub_bounded h \<Longrightarrow> hub_bounded (DHub_Subscribe c ids ts h)"
proof (induction c ids ts h rule: DHub_Subscribe.induct)
  case (2 c ids t ts h)
  obtain i r where ir: "reg_ID t (dReg h) = (i, r)" by (rule prod.exhaust)
  let ?h1 = "on_conn c (\<lambda>x. x\<lparr>dSubs := insert i (dSubs x)\<rparr>) (h\<lparr>dReg := r\<rparr>)"
  let ?h2 = "on_shard i (\<lambda>sh. sh\<lparr>shSubs := (shSubs sh)(i \<mapsto> insert c (case shSubs sh i of None \<Rightarrow> {} | Some s \<Rightarrow> s))\<rparr>) ?h1"
  have "hub_bounded (h\<lparr>dReg := r\<rparr>)" using bounded_conns[OF 2(2)] by simp
  then have "hub_bounded ?h1" by (rule bounded_same) (simp_all add: same_mail_def)
  then have h2: "hub_bounded ?h2" by (rule bounded_conns) simp
  then have "hub_bounded (snd (Enqueue c ids i snap ?h2))" for snap by (rule enqueue_bounded)
  then show ?case using 2(1)[OF ir[symmetric] refl refl refl refl] h2
    by (auto simp: ir Let_def split: option.split)
qed simp

lemma fold_bounded: "(\<And>x h. hub_bounded h \<Longrightarrow> hub_bounded (f x h)) \<Longrightarrow> hub_bounded h \<Longrightarrow> hub_bounded (fold f xs h)"
  by (induction xs arbitrary: h) auto

lemma publish_bounded:
  assumes "hub_bounded h"
  shows "hub_bounded (DHub_Publish ord ids topic p h)"
proof -
  obtain i r where ir: "reg_ID topic (dReg h) = (i, r)" by (rule prod.exhaust)
  have "hub_bounded (on_shard i (\<lambda>sh. sh\<lparr>shLast := (shLast sh)(i \<mapsto> p)\<rparr>) (h\<lparr>dReg := r\<rparr>))"
    using assms by (rule bounded_conns) simp
  then show ?thesis unfolding DHub_Publish_def ir Let_def prod.case by (intro fold_bounded enqueue_bounded)
qed

lemma mail_bytes_drop: "mail_bytes (drop k ms) \<le> mail_bytes ms"
proof (induction ms arbitrary: k)
  case (Cons m ms)
  show ?case using Cons.IH[of "k - 1"] by (cases k) (auto simp: mail_bytes_def split: prod.split)
qed simp

lemma wake_bounded:
  assumes "hub_bounded h"
  shows "hub_bounded (snd (snd (writePump_wake c ids now ok h)))"
proof -
  obtain batch x where f: "DConn_flush d_maxFlush ((dConns h c)\<lparr>wakeup := False\<rparr>) = (batch, x)" by fastforce
  have m: "mail_ok ((dConns h c)\<lparr>wakeup := False\<rparr>)" using assms by (simp add: hub_bounded_def mail_ok_def mail_of_def)
  note g = DConn_flush_mail[OF m f]
  have "dClosed x = dClosed (dConns h c)" "pendingBytes x \<le> pendingBytes (dConns h c)"
  proof -
    show "dClosed x = dClosed (dConns h c)"
      using flush_loop_mail[of "dirty (dConns h c)" "(dConns h c)\<lparr>wakeup := False\<rparr>" d_maxFlush batch x] m f
      by (auto simp: mail_ok_def mail_of_def DConn_flush_def)
    show "pendingBytes x \<le> pendingBytes (dConns h c)"
      using g(2,3) m mail_bytes_drop[of d_maxFlush "mail_of (dConns h c)"] by (simp add: mail_ok_def mail_of_def)
  qed
  then have h1: "hub_bounded (on_conn c (\<lambda>_. x) h)" using assms g(3) by (intro bounded_on_conn) (auto simp: hub_bounded_def)
  then have h2: "hub_bounded (on_conn c (\<lambda>y. y\<lparr>lastWrite := now\<rparr>) (on_conn c (\<lambda>_. x) h))"
    by (rule bounded_same) (simp_all add: same_mail_def)
  then show ?thesis using h1 close_bounded'[OF h2] by (auto simp: writePump_wake_def f Let_def)
qed

text \<open>
  Whatever clients, publishers and writers do, a connection that is not closed holds at most 256 KiB, counted exactly,
  one payload for each topic.
\<close>

inductive demo_reach :: "DHub \<Rightarrow> bool" where
  new: "(\<forall>c. \<exists>now. cs c = NewDConn now) \<Longrightarrow> demo_reach (NewDHub n cs)"
| read: "demo_reach h \<Longrightarrow> demo_reach (snd (readPump_step unmarshal c ids msg h))"
| publish: "demo_reach h \<Longrightarrow> demo_reach (DHub_Publish order ids topic p h)"
| wake: "demo_reach h \<Longrightarrow> wakeup (dConns h c) \<Longrightarrow> demo_reach (snd (snd (writePump_wake c ids now ok h)))"
| tick: "demo_reach h \<Longrightarrow> demo_reach (snd (writePump_tick c ids now ok h))"
| pong: "demo_reach h \<Longrightarrow> demo_reach (on_conn c (\<lambda>x. x\<lparr>lastPong := now\<rparr>) h)"
| ended: "demo_reach h \<Longrightarrow> demo_reach (DConn_Close c ids h)"

lemma demo_bounded: "demo_reach h \<Longrightarrow> hub_bounded h"
proof (induction rule: demo_reach.induct)
  case (new cs n)
  have "mail_ok (cs c) \<and> pendingBytes (cs c) = 0" for c
    using new[rule_format, of c] NewDConn_mail by (auto simp: NewDConn_def)
  then show ?case by (simp add: hub_bounded_def NewDHub_def maxPendingBytes_def)
next
  case (read h unmarshal c ids msg)
  then show ?case using close_bounded' subscribe_bounded by (auto simp: readPump_step_def split: option.split)
next
  case (publish h order ids topic p)
  then show ?case by (intro publish_bounded)
next
  case (wake h c ids now ok)
  then show ?case by (intro wake_bounded)
next
  case (tick h c ids now ok)
  then show ?case using close_bounded' by (auto simp: writePump_tick_def)
next
  case (pong h c now)
  then show ?case by (intro bounded_same) (simp_all add: same_mail_def)
next
  case (ended h c ids)
  then show ?case by (intro close_bounded')
qed

text \<open>Only data counts as a write: a client that was sent nothing for ten seconds is closed at the next tick.\<close>

lemma idle_client_closed:
  "now - lastWrite (dConns h c) > maxWriteLag \<Longrightarrow> writePump_tick c ids now ping_ok h = (False, DConn_Close c ids h)"
  by (simp add: writePump_tick_def)

text \<open>A wake-up that leaves payloads behind leaves no other wake-up for them.\<close>

lemma wake_strands:
  assumes "mail_ok (dConns h c)" and "length (dirty (dConns h c)) > d_maxFlush" and "writePump_wake c ids now True h = (True, out, h')"
  shows "dirty (dConns h' c) \<noteq> [] \<and> \<not> wakeup (dConns h' c)"
proof -
  let ?x = "(dConns h c)\<lparr>wakeup := False\<rparr>"
  obtain batch x where f: "DConn_flush d_maxFlush ?x = (batch, x)" by fastforce
  have m: "mail_ok ?x" "mail_of ?x = mail_of (dConns h c)" using assms(1) by (simp_all add: mail_ok_def mail_of_def)
  note g = DConn_flush_mail[OF m(1) f]
  have "length (mail_of x) = length (dirty (dConns h c)) - d_maxFlush" by (simp add: g(2) m(2)) (simp add: mail_of_def)
  then have "dirty x \<noteq> []" using assms(2) by (auto simp: mail_of_def)
  then show ?thesis using assms(3) g(4) by (auto simp: writePump_wake_def f Let_def on_conn_def split: if_splits)
qed

end
