(* ===== verification/Deposit_Repo.thy ===== *)
theory Deposit_Repo
  imports Go_Prelude
begin

text \<open>
  \<^verbatim>\<open>internal/account/repo/mysql/deposits_repo.go\<close>: taking confirmed deposits to credit, and marking them. The table is a
  list of rows with distinct ids; the database's errors and the rows that other transactions have locked are parameters.
\<close>

definition DepositPending :: int where "DepositPending = 0"
definition DepositConfirmed :: int where "DepositConfirmed = 1"

record Deposit =
  dID :: int
  dChain :: string
  dSymbol :: string
  dTxHash :: string
  dLogIndex :: int
  dToAddress :: string
  dToUID :: int
  dAmount :: string
  dBlockHeight :: int
  dStatus :: int
  CreditTxnID :: string
  CreditedAt :: "int option"
  dCreatedAt :: int
  dUpdatedAt :: int

text \<open>\<open>FOR UPDATE SKIP LOCKED\<close>; a negative limit is none.\<close>

definition AcquireConfirmedDepositsForUpdate :: "goerror option \<Rightarrow> (int \<Rightarrow> bool) \<Rightarrow> int \<Rightarrow> Deposit list \<Rightarrow>
    Deposit list \<times> goerror option" where
  "AcquireConfirmedDepositsForUpdate db_err locked limit tab =
     (case db_err of
        Some e \<Rightarrow> ([], Some e)
      | None \<Rightarrow>
          (let rows = sort_key dID (filter (\<lambda>d. dStatus d = DepositConfirmed \<and> CreditedAt d = None \<and> \<not> locked (dID d)) tab)
           in (if limit < 0 then rows else take (nat limit) rows, None)))"

text \<open>The number of rows that the update has changed is not looked at.\<close>

definition MarkDepositCredited :: "goerror option \<Rightarrow> int \<Rightarrow> int \<Rightarrow> string \<Rightarrow> Deposit list \<Rightarrow> goerror option \<times> Deposit list" where
  "MarkDepositCredited db_err now depositID txnID tab =
     (case db_err of
        Some e \<Rightarrow> (Some e, tab)
      | None \<Rightarrow>
          (None, map (\<lambda>d. if dID d = depositID \<and> CreditedAt d = None
                          then d\<lparr>CreditTxnID := txnID, CreditedAt := Some now, dUpdatedAt := now\<rparr> else d) tab))"

lemma mark_ids: "map dID (snd (MarkDepositCredited db_err now i txn tab)) = map dID tab"
  by (auto simp: MarkDepositCredited_def split: option.split)

definition open_deposit :: "(int \<Rightarrow> bool) \<Rightarrow> Deposit \<Rightarrow> bool" where
  "open_deposit locked d \<longleftrightarrow> dStatus d = DepositConfirmed \<and> CreditedAt d = None \<and> \<not> locked (dID d)"

lemma acquired_eq:
  assumes "AcquireConfirmedDepositsForUpdate None locked limit tab = (rows, None)"
  shows "rows = take (if limit < 0 then length tab else nat limit) (sort_key dID (filter (open_deposit locked) tab))"
proof -
  have "length (sort_key dID (filter (open_deposit locked) tab)) \<le> length tab" by simp
  then show ?thesis using assms
    by (auto simp: AcquireConfirmedDepositsForUpdate_def open_deposit_def[abs_def] Let_def)
qed

lemma acquired_rows:
  assumes "AcquireConfirmedDepositsForUpdate None locked limit tab = (rows, None)"
  shows "set rows \<subseteq> set tab" "\<forall>d \<in> set rows. open_deposit locked d" "sorted (map dID rows)"
    "0 \<le> limit \<Longrightarrow> int (length rows) \<le> limit"
proof -
  let ?all = "sort_key dID (filter (open_deposit locked) tab)"
  note r = acquired_eq[OF assms]
  have s: "set rows \<subseteq> set ?all" by (simp only: r set_take_subset)
  then show "set rows \<subseteq> set tab" "\<forall>d \<in> set rows. open_deposit locked d" by auto
  have "sorted (map dID ?all)" by (rule sorted_sort_key)
  then show "sorted (map dID rows)" unfolding r take_map[symmetric] by (rule sorted_wrt_take)
  show "0 \<le> limit \<Longrightarrow> int (length rows) \<le> limit" using arg_cong[OF r, of length] by (simp add: min_def split: if_splits)
qed

text \<open>Two workers whose transactions are open at the same time take different deposits.\<close>

lemma workers_disjoint:
  assumes "AcquireConfirmedDepositsForUpdate None (\<lambda>i. locked i \<or> i \<in> dID ` set rows) m tab = (rows2, None)"
    and "d2 \<in> set rows2"
  shows "dID d2 \<notin> dID ` set rows"
proof -
  have "open_deposit (\<lambda>i. locked i \<or> i \<in> dID ` set rows) d2" using acquired_rows(2)[OF assms(1)] assms(2) by (rule bspec)
  then show ?thesis unfolding open_deposit_def by blast
qed

text \<open>A deposit that has been marked is taken by nobody, and marking it again keeps the first transaction but reports success.\<close>

lemma marked_not_acquired:
  assumes "AcquireConfirmedDepositsForUpdate None locked n (snd (MarkDepositCredited None now i txn tab)) = (rows, None)"
    and "d \<in> set rows"
  shows "dID d \<noteq> i"
proof
  assume i: "dID d = i"
  have "d \<in> set (snd (MarkDepositCredited None now i txn tab))" using acquired_rows(1)[OF assms(1)] assms(2) by blast
  then obtain d0 where "d = (if dID d0 = i \<and> CreditedAt d0 = None
      then d0\<lparr>CreditTxnID := txn, CreditedAt := Some now, dUpdatedAt := now\<rparr> else d0)"
    by (simp only: MarkDepositCredited_def option.case snd_conv set_map) (erule imageE, rule that)
  then have "CreditedAt d \<noteq> None" using i by (cases "dID d0 = i \<and> CreditedAt d0 = None") auto
  then show False using acquired_rows(2)[OF assms(1)] assms(2) by (auto simp: open_deposit_def)
qed

lemma mark_again:
  "MarkDepositCredited None now2 i txn2 (snd (MarkDepositCredited None now i txn tab)) =
     (None, snd (MarkDepositCredited None now i txn tab))"
  by (simp add: MarkDepositCredited_def)

end
