(* ===== verification/Frame_Server.thy ===== *)
theory Frame_Server
  imports Engine_Types "HOL-Library.Sublist"
begin

text \<open>
  \<^verbatim>\<open>exec/networks/exec\<close>: frames of a length and a body over TCP, with the server's heartbeat, echo and push loops and
  its writer, and the client. What a connection delivers is a list of bytes and read deadlines that passed; its end is
  the end of the connection. The answers of the socket to a write are parameters.
\<close>

subsection \<open>Reading\<close>

datatype arrival = Byte uint8 | DeadlinePassed

datatype read_error = ReadEOF | ReadUnexpectedEOF | ReadTimeout | FrameTooLarge uint32

text \<open>\<open>io.ReadFull\<close>: the bytes read before an error are gone. \<open>got\<close>: some were.\<close>

fun io_ReadFull :: "bool \<Rightarrow> nat \<Rightarrow> arrival list \<Rightarrow> (read_error + bytes) \<times> arrival list" where
  "io_ReadFull got 0 inp = (Inr [], inp)"
| "io_ReadFull got (Suc n) [] = (Inl (if got then ReadUnexpectedEOF else ReadEOF), [])"
| "io_ReadFull got (Suc n) (DeadlinePassed # inp) = (Inl ReadTimeout, inp)"
| "io_ReadFull got (Suc n) (Byte b # inp) =
     (case io_ReadFull True n inp of (Inr bs, rest) \<Rightarrow> (Inr (b # bs), rest) | (Inl e, rest) \<Rightarrow> (Inl e, rest))"

text \<open>Big-endian numbers of four bytes.\<close>

definition be32 :: "uint32 \<Rightarrow> bytes" where
  "be32 v = rev (le32 v)"

definition BigEndian_Uint32 :: "bytes \<Rightarrow> uint32" where
  "BigEndian_Uint32 hdr = Uint32 (rev hdr) 0"

definition hdrSize :: nat where "hdrSize = 4"

definition readFull :: "int \<Rightarrow> arrival list \<Rightarrow> (read_error + bytes) \<times> arrival list" where
  "readFull maxFrame inp =
     (case io_ReadFull False hdrSize inp of
        (Inl e, rest) \<Rightarrow> (Inl e, rest)
      | (Inr hdr, rest) \<Rightarrow>
          (let n = BigEndian_Uint32 hdr
           in if n > word_of_int maxFrame then (Inl (FrameTooLarge n), rest)
              else io_ReadFull False (unat n) rest))"

definition makeFrame :: "uint8 \<Rightarrow> bytes \<Rightarrow> bytes" where
  "makeFrame typ payload = be32 (word_of_nat (1 + length payload)) @ typ # payload"

definition makeFull :: "bytes \<Rightarrow> bytes" where
  "makeFull payload = be32 (word_of_nat (length payload)) @ payload"

definition safeASCII :: "bytes \<Rightarrow> bytes" where
  "safeASCII b = map (\<lambda>x. if 32 \<le> x \<and> x \<le> 126 then x else 46) b"

subsection \<open>A connection\<close>

definition tPing :: uint8 where "tPing = 1"
definition tPong :: uint8 where "tPong = 2"
definition tData :: uint8 where "tData = 3"

text \<open>The queue of the writer, whether the connection was closed, and the bytes handed to the socket.\<close>

record connState =
  sendQ :: "bytes list"
  sendCap :: nat
  isDone :: bool
  wire :: bytes

definition newConnState :: "nat \<Rightarrow> connState" where
  "newConnState cap = \<lparr>sendQ = [], sendCap = cap, isDone = False, wire = []\<rparr>"

definition conn_close :: "connState \<Rightarrow> connState" where
  "conn_close s = s\<lparr>isDone := True\<rparr>"

text \<open>Where both cases of the select are ready, \<open>pick\<close> says which is taken.\<close>

definition trySend :: "bool \<Rightarrow> bytes \<Rightarrow> connState \<Rightarrow> bool \<times> connState" where
  "trySend pick b s =
     (if length (sendQ s) < sendCap s \<and> (isDone s \<longrightarrow> pick) then (True, s\<lparr>sendQ := sendQ s @ [b]\<rparr>) else (False, s))"

text \<open>
  Writing all of a buffer: each call of the socket takes some bytes or fails. The result has the error and the bytes that
  went out; \<open>None\<close>: the list of answers was too short.
\<close>

fun writeAll :: "(nat \<times> goerror option) list \<Rightarrow> bytes \<Rightarrow> (goerror option \<times> bytes) option" where
  "writeAll as [] = Some (None, [])"
| "writeAll [] (b # bs) = None"
| "writeAll ((n, err) # as) (b # bs) =
     (case err of
        Some e \<Rightarrow> Some (Some e, take n (b # bs))
      | None \<Rightarrow> (case writeAll as (drop n (b # bs)) of
                   None \<Rightarrow> None
                 | Some (e, out) \<Rightarrow> Some (e, take n (b # bs) @ out)))"

text \<open>A turn of the writer: whether it goes on.\<close>

definition writer_turn :: "bool \<Rightarrow> (nat \<times> goerror option) list \<Rightarrow> connState \<Rightarrow> (bool \<times> connState) option" where
  "writer_turn pick as s =
     (if isDone s \<and> \<not> (pick \<and> sendQ s \<noteq> []) then Some (False, s)
      else case sendQ s of
             [] \<Rightarrow> Some (True, s)
           | b # bs \<Rightarrow>
               (case writeAll as b of
                  None \<Rightarrow> None
                | Some (err, out) \<Rightarrow>
                    (let s1 = s\<lparr>sendQ := bs, wire := wire s @ out\<rparr>
                     in if err \<noteq> None then Some (False, conn_close s1) else Some (True, s1))))"

subsection \<open>The server's loops\<close>

definition maxBody :: int where "maxBody = 4 * 2 ^ 20"

definition ping :: bytes where "ping = [112, 105, 110, 103]"
definition pong :: bytes where "pong = [112, 111, 110, 103]"

text \<open>One turn of the heartbeat, given what \<open>readFull\<close> returned: whether it goes on, and the missed beats.\<close>

definition heartbeat_turn :: "int \<Rightarrow> bool \<Rightarrow> read_error + bytes \<Rightarrow> int \<times> connState \<Rightarrow> bool \<times> int \<times> connState" where
  "heartbeat_turn missMax pick msg st =
     (let (miss, s) = st
      in case msg of
           Inl ReadTimeout \<Rightarrow>
             (let miss1 = i64 (miss + 1); (ok, s1) = trySend pick (makeFrame tPing ping) s
              in if \<not> ok then (False, miss1, s1)
                 else if miss1 \<ge> missMax then (False, miss1, s1)
                 else (True, miss1, s1))
         | Inl _ \<Rightarrow> (False, miss, s)
         | Inr [] \<Rightarrow> (True, miss, s)
         | Inr (typ # payload) \<Rightarrow>
             if typ = tPing then
               (let (ok, s1) = trySend pick (makeFrame tPong pong) s in (ok, 0, s1))
             else (True, 0, s))"

definition echo_turn :: "bool \<Rightarrow> read_error + bytes \<Rightarrow> connState \<Rightarrow> bool \<times> connState" where
  "echo_turn pick msg s =
     (case msg of
        Inl ReadTimeout \<Rightarrow> (True, s)
      | Inl _ \<Rightarrow> (False, s)
      | Inr m \<Rightarrow> trySend pick (makeFull m) s)"

text \<open>The push loop: the frame it sends, made once, and a tick, which counts the frames.\<close>

definition push_every :: "int \<Rightarrow> int" where
  "push_every every = (if every \<le> 0 then 1000000 else every)"

definition push_frame :: "int \<Rightarrow> bytes" where
  "push_frame payloadSize = makeFrame tData (replicate (if payloadSize < 0 then 0 else nat payloadSize) 65)"

definition push_tick :: "bool \<Rightarrow> bytes \<Rightarrow> uint64 \<times> connState \<Rightarrow> bool \<times> uint64 \<times> connState" where
  "push_tick pick frame st =
     (let (n, s) = st; (ok, s1) = trySend pick frame s in if ok then (True, n + 1, s1) else (False, n, s1))"

subsection \<open>The client\<close>

text \<open>\<open>writeFrame\<close> makes three writes into a buffer that the goroutine for data and the reader share.\<close>

definition frame_writes :: "uint8 \<Rightarrow> bytes \<Rightarrow> bytes list" where
  "frame_writes typ payload = [be32 (word_of_nat (1 + length payload)), [typ], payload]"

definition writeFrame :: "bytes \<Rightarrow> uint8 \<Rightarrow> bytes \<Rightarrow> bytes" where
  "writeFrame buf typ payload = fold (\<lambda>w b. b @ w) (frame_writes typ payload) buf"

text \<open>A turn of the client: a ping is answered. \<open>None\<close> ends it.\<close>

definition client_turn :: "read_error + bytes \<Rightarrow> bytes \<Rightarrow> bytes option" where
  "client_turn msg out =
     (case msg of
        Inl ReadTimeout \<Rightarrow> Some out
      | Inl _ \<Rightarrow> None
      | Inr [] \<Rightarrow> Some out
      | Inr (typ # payload) \<Rightarrow> Some (if typ = tPing then writeFrame out tPong pong else out))"

subsection \<open>Frames survive the way\<close>

lemma be32_length [simp]: "length (be32 v) = 4"
  by (simp add: be32_def)

lemma BigEndian_be32: "BigEndian_Uint32 (be32 v) = v"
  using Uint32_le32[of 0 "[]" v "[]"] by (simp add: BigEndian_Uint32_def be32_def)

lemma io_ReadFull_bytes: "io_ReadFull got (length bs) (map Byte bs @ inp) = (Inr bs, inp)"
  by (induction bs arbitrary: got) simp_all

lemma read_bytes: "n = length bs \<Longrightarrow> io_ReadFull got n (map Byte bs @ inp) = (Inr bs, inp)"
  using io_ReadFull_bytes by simp

text \<open>A deadline that passes between the bytes of a frame, and what is left then.\<close>

lemma io_ReadFull_late: "length bs < n \<Longrightarrow> io_ReadFull got n (map Byte bs @ DeadlinePassed # inp) = (Inl ReadTimeout, inp)"
proof (induction bs arbitrary: got n)
  case Nil
  then show ?case by (cases n) auto
next
  case (Cons b bs)
  then show ?case by (cases n) auto
qed

definition body_fits :: "int \<Rightarrow> bytes \<Rightarrow> bool" where
  "body_fits maxFrame body \<longleftrightarrow> int (length body) \<le> maxFrame \<and> maxFrame < 2 ^ 32"

lemma fits_word:
  assumes "body_fits m body"
  shows "unat (word_of_nat (length body) :: uint32) = length body" "\<not> (word_of_nat (length body) :: uint32) > word_of_int m"
proof -
  have l: "length body < 2 ^ 32" using assms by (simp add: body_fits_def)
  then show u: "unat (word_of_nat (length body) :: uint32) = length body" by (simp add: unsigned_of_nat take_bit_nat_eq_self)
  have "uint (word_of_int m :: uint32) = m" using assms by (simp add: body_fits_def uint_word_of_int)
  moreover have "uint (word_of_nat (length body) :: uint32) = int (length body)" using u by (metis uint_nat)
  ultimately show "\<not> (word_of_nat (length body) :: uint32) > word_of_int m"
    using assms by (simp add: word_less_def body_fits_def)
qed

lemma readFull_makeFull:
  assumes "body_fits m body"
  shows "readFull m (map Byte (makeFull body) @ inp) = (Inr body, inp)"
proof -
  have h: "io_ReadFull False hdrSize (map Byte (makeFull body) @ inp) = (Inr (be32 (word_of_nat (length body))), map Byte body @ inp)"
    using read_bytes[of hdrSize "be32 (word_of_nat (length body))" False "map Byte body @ inp"]
    by (simp add: makeFull_def hdrSize_def)
  show ?thesis using fits_word[OF assms] by (simp add: readFull_def h BigEndian_be32 read_bytes)
qed

lemma makeFrame_makeFull: "makeFrame typ payload = makeFull (typ # payload)"
  by (simp add: makeFrame_def makeFull_def)

lemma readFull_makeFrame:
  "body_fits m (typ # payload) \<Longrightarrow> readFull m (map Byte (makeFrame typ payload) @ inp) = (Inr (typ # payload), inp)"
  by (simp only: makeFrame_makeFull readFull_makeFull)

text \<open>The frames of a stream, read one after the other up to the first error.\<close>

lemma io_ReadFull_length: "io_ReadFull got n inp = (res, rest) \<Longrightarrow> length rest + (case res of Inr bs \<Rightarrow> length bs | Inl _ \<Rightarrow> 0) \<le> length inp"
proof (induction got n inp arbitrary: res rest rule: io_ReadFull.induct)
  case (4 got n b inp)
  then show ?case by (fastforce split: prod.splits sum.splits)
qed auto

lemma io_ReadFull_got: "io_ReadFull got n inp = (Inr bs, rest) \<Longrightarrow> length bs = n"
proof (induction got n inp arbitrary: bs rule: io_ReadFull.induct)
  case (4 got n b inp)
  then show ?case by (auto split: prod.splits sum.splits)
qed auto

lemma readFull_shorter: "readFull m inp = (Inr body, rest) \<Longrightarrow> length rest < length inp"
proof -
  assume r: "readFull m inp = (Inr body, rest)"
  then obtain hdr mid where h: "io_ReadFull False hdrSize inp = (Inr hdr, mid)"
    by (auto simp: readFull_def split: prod.splits sum.splits)
  then have "io_ReadFull False (unat (BigEndian_Uint32 hdr)) mid = (Inr body, rest)"
    using r by (simp add: readFull_def Let_def split: if_splits)
  then have "length rest \<le> length mid" using io_ReadFull_length by fastforce
  moreover have "length mid < length inp" using io_ReadFull_length[OF h] io_ReadFull_got[OF h] by (simp add: hdrSize_def)
  ultimately show ?thesis by simp
qed

function frames_of :: "int \<Rightarrow> arrival list \<Rightarrow> bytes list \<times> read_error" where
  "frames_of m inp =
     (case readFull m inp of
        (Inl e, rest) \<Rightarrow> ([], e)
      | (Inr body, rest) \<Rightarrow> (let (bodies, e) = frames_of m rest in (body # bodies, e)))"
  by pat_completeness auto
termination by (relation "measure (\<lambda>(m, inp). length inp)") (auto dest: readFull_shorter[OF sym])

declare frames_of.simps [simp del]

text \<open>Whatever was framed is read again, body by body, and then the end of the connection.\<close>

lemma frames_round:
  assumes "\<forall>b \<in> set bodies. body_fits m b"
  shows "frames_of m (map Byte (concat (map makeFull bodies))) = (bodies, ReadEOF)"
  using assms
proof (induction bodies)
  case Nil
  show ?case by (subst frames_of.simps) (simp add: readFull_def hdrSize_def numeral_eq_Suc)
next
  case (Cons b bs)
  then show ?case
    by (subst frames_of.simps) (simp add: readFull_makeFull)
qed

subsection \<open>Echoes\<close>

text \<open>What a peer does: it sends a whole frame, or is quiet until the deadline passes.\<close>

datatype item = Whole bytes | Quiet

fun arrivals :: "item list \<Rightarrow> arrival list" where
  "arrivals [] = []"
| "arrivals (Whole b # is) = map Byte (makeFull b) @ arrivals is"
| "arrivals (Quiet # is) = DeadlinePassed # arrivals is"

fun bodies_of :: "item list \<Rightarrow> bytes list" where
  "bodies_of [] = []"
| "bodies_of (Whole b # is) = b # bodies_of is"
| "bodies_of (Quiet # is) = bodies_of is"

text \<open>The echo server beside its writer: what is left to read, whether each has ended, and the bodies echoed so far.\<close>

record echo =
  eInput :: "arrival list"
  eEnded :: bool
  eWriterEnded :: bool
  eConn :: connState

inductive echo_reach :: "arrival list \<Rightarrow> nat \<Rightarrow> bytes list \<Rightarrow> echo \<Rightarrow> bool" for inp cap where
  start: "echo_reach inp cap [] \<lparr>eInput = inp, eEnded = False, eWriterEnded = False, eConn = newConnState cap\<rparr>"
| turn: "echo_reach inp cap bs e \<Longrightarrow> \<not> eEnded e \<Longrightarrow> readFull maxBody (eInput e) = (msg, rest) \<Longrightarrow>
    echo_turn pick msg (eConn e) = (True, s) \<Longrightarrow>
    echo_reach inp cap (case msg of Inr b \<Rightarrow> bs @ [b] | Inl _ \<Rightarrow> bs) (e\<lparr>eInput := rest, eConn := s\<rparr>)"
| last: "echo_reach inp cap bs e \<Longrightarrow> \<not> eEnded e \<Longrightarrow> readFull maxBody (eInput e) = (msg, rest) \<Longrightarrow>
    echo_turn pick msg (eConn e) = (False, s) \<Longrightarrow>
    echo_reach inp cap bs (e\<lparr>eInput := rest, eEnded := True, eConn := conn_close s\<rparr>)"
| writer: "echo_reach inp cap bs e \<Longrightarrow> \<not> eWriterEnded e \<Longrightarrow> writer_turn pick as (eConn e) = Some (on, s) \<Longrightarrow>
    echo_reach inp cap bs (e\<lparr>eWriterEnded := \<not> on, eConn := s\<rparr>)"

text \<open>What the socket takes is a first part of the buffer, all of it without an error.\<close>

lemma writeAll_prefix: "writeAll as b = Some (err, out) \<Longrightarrow> \<exists>rest. b = out @ rest \<and> (err = None \<longrightarrow> rest = [])"
proof (induction as b arbitrary: out rule: writeAll.induct)
  case (3 n e0 as b bs)
  show ?case
  proof (cases e0)
    case None
    then obtain out' where o: "writeAll as (drop n (b # bs)) = Some (err, out')" "out = take n (b # bs) @ out'"
      using 3(2) by (auto split: option.split_asm)
    then show ?thesis using 3(1)[OF None o(1)] by (metis append.assoc append_take_drop_id)
  qed (use 3 in \<open>auto intro!: exI[of _ "drop n (b # bs)"]\<close>)
qed auto

definition echoes :: "bytes list \<Rightarrow> bytes" where
  "echoes bs = concat (map makeFull bs)"

lemma echoes_simps [simp]: "echoes [] = []" "echoes (bs @ [b]) = echoes bs @ makeFull b"
  by (simp_all add: echoes_def)

lemma bodies_of_append: "bodies_of (xs @ ys) = bodies_of xs @ bodies_of ys"
  by (induction xs rule: bodies_of.induct) auto

text \<open>What a whole step of the peer makes \<open>readFull\<close> return.\<close>

lemma read_items:
  "readFull maxBody (arrivals []) = (Inl ReadEOF, [])"
  "readFull maxBody (arrivals (Quiet # is)) = (Inl ReadTimeout, arrivals is)"
  "body_fits maxBody b \<Longrightarrow> readFull maxBody (arrivals (Whole b # is)) = (Inr b, arrivals is)"
  by (simp_all add: readFull_makeFull) (simp_all add: readFull_def hdrSize_def numeral_eq_Suc)

definition read_so_far :: "item list \<Rightarrow> bytes list \<Rightarrow> bool \<Rightarrow> arrival list \<Rightarrow> bool" where
  "read_so_far items bs ended inp \<longleftrightarrow>
     (\<exists>items1 items2. items = items1 @ items2 \<and> (if ended then prefix bs (bodies_of items1)
        else inp = arrivals items2 \<and> bs = bodies_of items1))"

lemma read_so_farI: "items = items1 @ items2 \<Longrightarrow> bs = bodies_of items1 \<Longrightarrow> read_so_far items bs False (arrivals items2)"
  by (auto simp: read_so_far_def)

definition echo_inv :: "item list \<Rightarrow> nat \<Rightarrow> bytes list \<Rightarrow> echo \<Rightarrow> bool" where
  "echo_inv items cap bs e \<longleftrightarrow> read_so_far items bs (eEnded e) (eInput e) \<and>
     (if eWriterEnded e then prefix (wire (eConn e)) (echoes bs)
      else wire (eConn e) @ concat (sendQ (eConn e)) = echoes bs) \<and>
     sendCap (eConn e) = cap \<and> length (sendQ (eConn e)) \<le> cap"

lemma echo_turn_cases:
  "echo_turn pick msg s = (on, s1) \<Longrightarrow>
     (on \<and> s1 = s \<and> msg = Inl ReadTimeout) \<or>
     (on \<and> (\<exists>b. msg = Inr b \<and> s1 = s\<lparr>sendQ := sendQ s @ [makeFull b]\<rparr> \<and> length (sendQ s) < sendCap s)) \<or>
     (\<not> on \<and> s1 = s)"
  by (auto simp: echo_turn_def trySend_def split: sum.splits read_error.splits if_splits)

lemma echo_inv_turn:
  assumes inv: "echo_inv items cap bs e" and fits: "\<forall>b. Whole b \<in> set items \<longrightarrow> body_fits maxBody b" and "\<not> eEnded e"
    and rd: "readFull maxBody (eInput e) = (msg, rest)" and t: "echo_turn pick msg (eConn e) = (True, s)"
  shows "echo_inv items cap (case msg of Inr b \<Rightarrow> bs @ [b] | Inl _ \<Rightarrow> bs) (e\<lparr>eInput := rest, eConn := s\<rparr>)"
proof -
  obtain items1 items2 where it: "items = items1 @ items2" "eInput e = arrivals items2" "bs = bodies_of items1"
    using inv assms(3) by (auto simp: echo_inv_def read_so_far_def)
  show ?thesis
  proof (cases "items2" rule: arrivals.cases)
    case 1
    then show ?thesis using rd t it read_items(1) by (auto simp: echo_turn_def)
  next
    case (2 b more)
    then have m: "msg = Inr b" "rest = arrivals more" using rd it read_items(3)[of b more] fits by auto
    then have s: "s = (eConn e)\<lparr>sendQ := sendQ (eConn e) @ [makeFull b]\<rparr>" "length (sendQ (eConn e)) < sendCap (eConn e)"
      using echo_turn_cases[OF t] by auto
    have "read_so_far items (bs @ [b]) False rest" unfolding m(2)
      by (rule read_so_farI[of _ "items1 @ [Whole b]"]) (use it 2 in \<open>simp_all add: bodies_of_append\<close>)
    then show ?thesis using inv assms(3) s by (auto simp: m echo_inv_def prefix_def)
  next
    case (3 more)
    then have m: "msg = Inl ReadTimeout" "rest = arrivals more" using rd it read_items(2)[of more] by auto
    then have s: "s = eConn e" using echo_turn_cases[OF t] by auto
    have "read_so_far items bs False rest" unfolding m(2)
      by (rule read_so_farI[of _ "items1 @ [Quiet]"]) (use it 3 in \<open>simp_all add: bodies_of_append\<close>)
    then show ?thesis using inv assms(3) s by (auto simp: m echo_inv_def)
  qed
qed

lemma writer_turn_wire:
  assumes "writer_turn pick as s = Some (on, s1)"
  shows "sendCap s1 = sendCap s" "length (sendQ s1) \<le> length (sendQ s)"
    "if on then wire s1 @ concat (sendQ s1) = wire s @ concat (sendQ s) else prefix (wire s1) (wire s @ concat (sendQ s))"
proof -
  have *: "\<exists>rest. b = out @ rest \<and> (err = None \<longrightarrow> rest = [])" if "writeAll as b = Some (err, out)" for b err out
    using writeAll_prefix[OF that] .
  show "sendCap s1 = sendCap s" "length (sendQ s1) \<le> length (sendQ s)"
    using assms by (auto simp: writer_turn_def conn_close_def Let_def split: if_splits list.splits option.splits prod.splits)
  show "if on then wire s1 @ concat (sendQ s1) = wire s @ concat (sendQ s) else prefix (wire s1) (wire s @ concat (sendQ s))"
    using assms by (auto simp: writer_turn_def conn_close_def Let_def prefix_def dest!: * split: if_splits list.splits option.splits prod.splits)
qed

lemma echo_invariant:
  assumes "\<forall>b. Whole b \<in> set items \<longrightarrow> body_fits maxBody b" and "echo_reach (arrivals items) cap bs e"
  shows "echo_inv items cap bs e"
  using assms(2)
proof (induction rule: echo_reach.induct)
  case start
  have "read_so_far items [] False (arrivals items)" by (rule read_so_farI[of _ "[]"]) simp_all
  then show ?case by (simp add: echo_inv_def newConnState_def)
next
  case (turn bs e msg rest pick s)
  then show ?case using assms(1) by (intro echo_inv_turn)
next
  case (last bs e msg rest pick s)
  then have "s = eConn e" using echo_turn_cases by blast
  moreover have "read_so_far items bs True rest" using last(2,5)
    by (auto simp: echo_inv_def read_so_far_def)
  ultimately show ?case using last by (auto simp: echo_inv_def conn_close_def)
next
  case (writer bs e pick as on s)
  then show ?case using writer_turn_wire[OF writer(3)] by (auto simp: echo_inv_def)
qed

text \<open>
  Whatever the socket does, and however long the peer is quiet between its frames, the server's bytes are the first of the
  frames it got, whole and in order, and its queue stays bounded; once everything is read and written, the peer reads
  back what it sent.
\<close>

lemma echo_answers:
  assumes "\<forall>b. Whole b \<in> set items \<longrightarrow> body_fits maxBody b" and "echo_reach (arrivals items) cap bs e"
  shows "prefix bs (bodies_of items)" "prefix (wire (eConn e)) (echoes bs)" "length (sendQ (eConn e)) \<le> cap"
    "\<not> eEnded e \<Longrightarrow> \<not> eWriterEnded e \<Longrightarrow> eInput e = [] \<Longrightarrow> sendQ (eConn e) = [] \<Longrightarrow>
       frames_of maxBody (map Byte (wire (eConn e))) = (bodies_of items, ReadEOF)"
proof -
  note inv = echo_invariant[OF assms]
  show "prefix bs (bodies_of items)" using inv by (auto simp: echo_inv_def read_so_far_def bodies_of_append prefix_def split: if_splits)
  have "prefix (wire (eConn e)) (wire (eConn e) @ concat (sendQ (eConn e)))" by simp
  then show "prefix (wire (eConn e)) (echoes bs)" using inv by (metis echo_inv_def)
  show "length (sendQ (eConn e)) \<le> cap" using inv by (simp add: echo_inv_def)
  assume *: "\<not> eEnded e" "\<not> eWriterEnded e" "eInput e = []" "sendQ (eConn e) = []"
  have nil: "[] = arrivals is \<Longrightarrow> is = []" for "is"
    by (cases "is" rule: arrivals.cases) (auto simp: makeFull_def dest: arg_cong[of _ _ length])
  have "wire (eConn e) = echoes (bodies_of items)" using inv * by (auto simp: echo_inv_def read_so_far_def bodies_of_append dest!: nil)
  moreover have "\<forall>b \<in> set (bodies_of items). body_fits maxBody b"
    using assms(1) by (induction items rule: bodies_of.induct) auto
  ultimately show "frames_of maxBody (map Byte (wire (eConn e))) = (bodies_of items, ReadEOF)"
    by (simp add: echoes_def frames_round)
qed

text \<open>
  The end of the input closes the connection at once: what is queued then need not be written any more, so a peer that
  sends a frame and ends its side may get nothing.
\<close>

lemma echo_lost_at_end:
  assumes "body_fits maxBody b"
  shows "\<exists>e. echo_reach (arrivals [Whole b]) 32 [b] e \<and> eEnded e \<and> eWriterEnded e \<and> wire (eConn e) = []"
proof -
  let ?e = "\<lparr>eInput = arrivals [Whole b], eEnded = False, eWriterEnded = False, eConn = newConnState 32\<rparr>"
  let ?s = "(newConnState 32)\<lparr>sendQ := [makeFull b]\<rparr>"
  have "echo_turn True (Inr b) (newConnState 32) = (True, ?s)" by (simp add: echo_turn_def trySend_def newConnState_def)
  then have "echo_reach (arrivals [Whole b]) 32 [b] (?e\<lparr>eInput := [], eConn := ?s\<rparr>)"
    using echo_reach.turn[OF echo_reach.start, where msg = "Inr b" and rest = "[]" and pick = True and s = ?s and inp = "arrivals [Whole b]" and cap = 32] read_items(3)[OF assms, of "[]"]
    by simp
  then have "echo_reach (arrivals [Whole b]) 32 [b] (?e\<lparr>eInput := [], eEnded := True, eConn := conn_close ?s\<rparr>)"
    using echo_reach.last[of "arrivals [Whole b]" 32 "[b]" "?e\<lparr>eInput := [], eConn := ?s\<rparr>" "Inl ReadEOF" "[]" True ?s] read_items(1)
    by (simp add: echo_turn_def)
  then have "echo_reach (arrivals [Whole b]) 32 [b]
      (?e\<lparr>eInput := [], eEnded := True, eConn := conn_close ?s, eWriterEnded := True\<rparr>)"
    using echo_reach.writer[of "arrivals [Whole b]" 32 "[b]" "?e\<lparr>eInput := [], eEnded := True, eConn := conn_close ?s\<rparr>" False "[]" False "conn_close ?s"]
    by (simp add: writer_turn_def conn_close_def)
  then show ?thesis by (rule exI[of _ "?e\<lparr>eInput := [], eEnded := True, eConn := conn_close ?s, eWriterEnded := True\<rparr>", OF conjI])
    (simp add: conn_close_def newConnState_def)
qed

subsection \<open>Deadlines\<close>

text \<open>
  A deadline that passes inside a frame makes the bytes read so far disappear: the next read takes the rest of the frame
  for a new one. The loops go on after a timeout as if no byte had been sent.
\<close>

lemma late_frame:
  assumes "body_fits m body" and "k < length (makeFull body)"
  shows "readFull m (map Byte (take k (makeFull body)) @ DeadlinePassed # inp) = (Inl ReadTimeout, inp)"
proof (cases "k < 4")
  case True
  then show ?thesis using assms(2) by (simp add: readFull_def io_ReadFull_late hdrSize_def)
next
  case False
  let ?hdr = "be32 (word_of_nat (length body))" and ?part = "take (k - 4) body"
  have t: "map Byte (take k (makeFull body)) @ DeadlinePassed # inp = map Byte ?hdr @ map Byte ?part @ DeadlinePassed # inp"
    using False by (simp add: makeFull_def)
  have "io_ReadFull False hdrSize (map Byte ?hdr @ map Byte ?part @ DeadlinePassed # inp) = (Inr ?hdr, map Byte ?part @ DeadlinePassed # inp)"
    by (rule read_bytes) (simp add: hdrSize_def)
  moreover have "length ?part < length body" using assms(2) False by (simp add: makeFull_def)
  ultimately show ?thesis unfolding t
    using fits_word[OF assms(1)] by (simp add: readFull_def BigEndian_be32 io_ReadFull_late)
qed

text \<open>The heartbeat alone, with a queue that is not read from.\<close>

lemma readFull_timeout_shorter: "readFull m inp = (Inl ReadTimeout, rest) \<Longrightarrow> length rest < length inp"
proof -
  have *: "io_ReadFull got n inp = (Inl ReadTimeout, rest) \<Longrightarrow> length rest < length inp" for got n inp
  proof (induction got n inp rule: io_ReadFull.induct)
    case (4 got n b inp)
    then show ?case by (auto split: prod.splits sum.splits)
  qed (auto split: if_splits)
  assume r: "readFull m inp = (Inl ReadTimeout, rest)"
  show ?thesis
  proof (cases "io_ReadFull False hdrSize inp")
    case (Pair res mid)
    show ?thesis
    proof (cases res)
      case (Inl e)
      then show ?thesis using Pair r * by (simp add: readFull_def)
    next
      case (Inr hdr)
      then have "io_ReadFull False (unat (BigEndian_Uint32 hdr)) mid = (Inl ReadTimeout, rest)"
        using r Pair by (simp add: readFull_def Let_def split: if_splits)
      moreover have "length mid \<le> length inp" using io_ReadFull_length[OF Pair] by linarith
      ultimately show ?thesis using * less_le_trans by blast
    qed
  qed
qed

function heartbeat_run :: "int \<Rightarrow> arrival list \<Rightarrow> int \<times> connState \<Rightarrow> arrival list \<times> int \<times> connState" where
  "heartbeat_run missMax inp st =
     (case readFull maxBody inp of
        (Inl ReadTimeout, rest) \<Rightarrow>
          (let (on, st1) = heartbeat_turn missMax True (Inl ReadTimeout) st
           in if on then heartbeat_run missMax rest st1 else (rest, st1))
      | (Inr body, rest) \<Rightarrow>
          (let (on, st1) = heartbeat_turn missMax True (Inr body) st
           in if on then heartbeat_run missMax rest st1 else (rest, st1))
      | (Inl e, rest) \<Rightarrow> (rest, snd (heartbeat_turn missMax True (Inl e) st)))"
  by pat_completeness auto
termination
  by (relation "measure (\<lambda>(missMax, inp, st). length inp)")
    (auto dest: readFull_shorter[OF sym] readFull_timeout_shorter[OF sym])

declare heartbeat_run.simps [simp del]

text \<open>Quiet deadlines count up to the limit, a ping for each, and then the connection is given up.\<close>

lemma heartbeat_quiet:
  assumes "0 \<le> miss" "miss < missMax" "missMax < 2 ^ 62" "length (sendQ s) + nat (missMax - miss) \<le> sendCap s"
  shows "heartbeat_run missMax (replicate (nat (missMax - miss)) DeadlinePassed @ inp) (miss, s) =
    (inp, missMax, s\<lparr>sendQ := sendQ s @ replicate (nat (missMax - miss)) (makeFrame tPing ping)\<rparr>)"
  using assms
proof (induction "nat (missMax - miss)" arbitrary: miss s)
  case (Suc n)
  have w: "i64 (miss + 1) = miss + 1" using Suc(3-5) by (intro i64_id) (simp add: is_i64_def)
  have r: "readFull maxBody (DeadlinePassed # xs) = (Inl ReadTimeout, xs)" for xs
    by (simp add: readFull_def hdrSize_def numeral_eq_Suc)
  have n: "n = nat (missMax - (miss + 1))" "nat (missMax - miss) = Suc n" using Suc(2) by simp_all
  let ?s = "s\<lparr>sendQ := sendQ s @ [makeFrame tPing ping]\<rparr>"
  have t: "heartbeat_turn missMax True (Inl ReadTimeout) (miss, s) = (miss + 1 < missMax, miss + 1, ?s)"
    using Suc(6) n by (auto simp: heartbeat_turn_def trySend_def w Let_def)
  show ?case
  proof (cases "miss + 1 < missMax")
    case True
    then show ?thesis using Suc(1)[OF n(1), of ?s] Suc(3,5,6)
      by (subst heartbeat_run.simps) (simp add: n(2) r t n(1)[symmetric])
  next
    case False
    then have "missMax = miss + 1" "n = 0" using Suc(4) n(1) by simp_all
    then show ?thesis using t by (subst heartbeat_run.simps) (simp add: r)
  qed
qed simp

text \<open>A frame without a body reaches the server and leaves the count as it is, although any frame is meant to reset it.\<close>

lemma empty_frame_no_beat:
  "readFull maxBody (map Byte (makeFull []) @ inp) = (Inr [], inp) \<and> heartbeat_turn missMax pick (Inr []) (miss, s) = (True, miss, s)"
  using readFull_makeFull[of maxBody "[]" inp] by (simp add: heartbeat_turn_def body_fits_def maxBody_def)

text \<open>A peer whose frame is cut by a deadline is closed: the letters that are left are read as a length.\<close>

lemma late_frame_kills:
  "let frame = makeFrame tData (replicate 8 65)
   in frames_of maxBody (map Byte (take 6 frame) @ DeadlinePassed # map Byte (drop 6 frame)) = ([], ReadTimeout) \<and>
      readFull maxBody (map Byte (drop 6 frame)) = (Inl (FrameTooLarge 0x41414141), [Byte 65, Byte 65, Byte 65])"
  by code_simp

text \<open>Two goroutines of the client write into one buffer: a pong between the parts of a data frame spoils the stream.\<close>

lemma client_race:
  "let d = frame_writes tData [104, 105]; buf = writeFrame (d ! 0) tPong pong @ d ! 1 @ d ! 2
   in fst (frames_of maxBody (map Byte buf)) \<noteq> [tData # [104, 105], tPong # pong] \<and>
      fst (frames_of maxBody (map Byte buf)) \<noteq> [tPong # pong, tData # [104, 105]] \<and>
      fst (frames_of maxBody (map Byte (writeFrame (writeFrame [] tData [104, 105]) tPong pong))) = [tData # [104, 105], tPong # pong]"
  by code_simp

lemma writeFrame_makeFrame: "writeFrame buf typ payload = buf @ makeFrame typ payload"
  by (simp add: writeFrame_def frame_writes_def makeFrame_def)

text \<open>What is printed of a body is printable.\<close>

lemma safeASCII_printable: "x \<in> set (safeASCII b) \<Longrightarrow> 32 \<le> x \<and> x \<le> 126"
  by (auto simp: safeASCII_def split: if_splits)

end
