(* ===== verification/Exec_Md.thy ===== *)
theory Exec_Md
  imports Kline_Fixed Platform
begin

text \<open>
  \<^verbatim>\<open>exec/networks\<close>: a client of Coinbase's stream (\<^verbatim>\<open>coinbase/adapter.go\<close>, \<^verbatim>\<open>md/wsclient.go\<close>, \<^verbatim>\<open>client/client.go\<close>),
  bars from its trades (\<^verbatim>\<open>md/kline_agg.go\<close>), a hub for subscribers (\<^verbatim>\<open>md/hub.go\<close>) and the parameters of a subscription
  (\<^verbatim>\<open>wsapi/server.go\<close>). JSON and the parsing of times are parameters; times are nanoseconds.
\<close>

subsection \<open>Events\<close>

record TradeEvent =
  teExchange :: string
  teSymbol :: string
  teTradeID :: string
  teSide :: string
  tePrice :: int
  teSize :: int
  teTs :: int

record BBOEvent =
  bboExchange :: string
  bboSymbol :: string
  bboTs :: int
  bboLast :: int
  BidPx :: int
  BidQty :: int
  AskPx :: int
  AskQty :: int

datatype md_event = Heartbeat string string int | BBO BBOEvent | ATrade TradeEvent

subsection \<open>Decimal numbers\<close>

text \<open>One loop over the characters; \<open>dot\<close>: the point was seen.\<close>

fun scaled_loop :: "string \<Rightarrow> bool \<Rightarrow> int \<Rightarrow> int \<Rightarrow> nat \<Rightarrow> (int \<times> int \<times> nat) option" where
  "scaled_loop [] dot ip fp d = Some (ip, fp, d)"
| "scaled_loop (c # cs) dot ip fp d =
     (if c = CHR ''.'' then (if dot then None else scaled_loop cs True ip fp d)
      else if \<not> is_digit c then None
      else if \<not> dot then scaled_loop cs dot (i64 (i64 (ip * 10) + digit_val c)) fp d
      else if d < 8 then scaled_loop cs dot ip (i64 (i64 (fp * 10) + digit_val c)) (d + 1)
      else scaled_loop cs dot ip fp d)"

definition parseScaled :: "string \<Rightarrow> int \<times> bool" where
  "parseScaled s =
     (if s = [] then (0, False)
      else let neg = (hd s = CHR ''-''); s1 = (if neg then tl s else s)
           in case scaled_loop s1 False 0 0 0 of
                None \<Rightarrow> (0, False)
              | Some (ip, fp, d) \<Rightarrow>
                  (let v = i64 (i64 (ip * Scale) + pad_frac fp d) in (if neg then i64 (- v) else v, True)))"

subsection \<open>Messages\<close>

record json_trade =
  jtTradeID :: string
  jtProductID :: string
  jtPrice :: string
  jtSize :: string
  jtSide :: string
  jtTime :: string

record json_ticker =
  jkProductID :: string
  jkPrice :: string
  jkBestBid :: string
  jkBestBidQty :: string
  jkBestAsk :: string
  jkBestAskQty :: string

text \<open>The four ways a message is decoded, each of which may fail, and the two formats of times.\<close>

record json =
  un_envelope :: "bytes \<Rightarrow> goerror + string \<times> string"
  un_trades :: "bytes \<Rightarrow> goerror + json_trade list list"
  un_heartbeats :: "bytes \<Rightarrow> goerror + string list"
  un_tickers :: "bytes \<Rightarrow> goerror + json_ticker list list"
  time_nano :: "string \<Rightarrow> int option"
  time_rfc :: "string \<Rightarrow> int option"
  zero_time :: int

definition time_or_zero :: "json \<Rightarrow> int option \<Rightarrow> int" where
  "time_or_zero J t = (case t of None \<Rightarrow> zero_time J | Some n \<Rightarrow> n)"

definition decode_trade :: "json \<Rightarrow> json_trade \<Rightarrow> md_event list" where
  "decode_trade J t =
     (let (px, ok1) = parseScaled (jtPrice t); (sz, ok2) = parseScaled (jtSize t)
      in if \<not> (ok1 \<and> ok2) then []
         else let ts = (case time_nano J (jtTime t) of Some n \<Rightarrow> n | None \<Rightarrow> time_or_zero J (time_rfc J (jtTime t)))
              in [ATrade \<lparr>teExchange = ''coinbase'', teSymbol = jtProductID t, teTradeID = jtTradeID t, teSide = jtSide t,
                    tePrice = px, teSize = sz, teTs = ts\<rparr>])"

definition decode_ticker :: "int \<Rightarrow> json_ticker \<Rightarrow> md_event list" where
  "decode_ticker ts t =
     (let (last, ok1) = parseScaled (jkPrice t); (bp, ok2) = parseScaled (jkBestBid t); (bq, ok3) = parseScaled (jkBestBidQty t);
          (ap, ok4) = parseScaled (jkBestAsk t); (aq, ok5) = parseScaled (jkBestAskQty t)
      in if \<not> (ok1 \<and> ok2 \<and> ok3 \<and> ok4 \<and> ok5) then []
         else [BBO \<lparr>bboExchange = ''coinbase'', bboSymbol = jkProductID t, bboTs = ts, bboLast = last, BidPx = bp, BidQty = bq,
                 AskPx = ap, AskQty = aq\<rparr>])"

definition coinbase_Decode :: "json \<Rightarrow> bytes \<Rightarrow> goerror + md_event list" where
  "coinbase_Decode J raw =
     (case un_envelope J raw of
        Inl e \<Rightarrow> Inl e
      | Inr (channel, stamp) \<Rightarrow>
          (case un_trades J raw of
             Inl e \<Rightarrow> Inl e
           | Inr events \<Rightarrow>
               (let ts = time_or_zero J (time_nano J stamp)
                in if channel = ''heartbeats'' then
                     (case un_heartbeats J raw of
                        Inl e \<Rightarrow> Inl e
                      | Inr [] \<Rightarrow> Inr []
                      | Inr (counter # _) \<Rightarrow> Inr [Heartbeat ''coinbase'' counter ts])
                   else if channel = ''market_trades'' then Inr (concat (map (\<lambda>ev. concat (map (decode_trade J) ev)) events))
                   else if channel = ''ticker'' then
                     (case un_tickers J raw of
                        Inl e \<Rightarrow> Inl e
                      | Inr evs \<Rightarrow> Inr (concat (map (\<lambda>ev. concat (map (decode_ticker ts) ev)) evs)))
                   else Inr [])))"

subsection \<open>Bars\<close>

record MdKline =
  kExchange :: string
  kSymbol :: string
  kInterval :: int
  OpenTime :: int
  kOpen :: int
  kHigh :: int
  kLow :: int
  kClose :: int
  kVol :: int
  kCount :: int
  UpdatedAt :: int

type_synonym kkey = "string \<times> string \<times> int"

text \<open>\<open>has_emit\<close>: a callback was given.\<close>

record MdKlineAgg =
  kCur :: "kkey \<rightharpoonup> MdKline"
  Intervals :: "int list"
  has_emit :: bool
  EmitEvery :: int
  nextEmit :: "kkey \<rightharpoonup> int"

definition NewKlineAgg :: "int list \<Rightarrow> bool \<Rightarrow> MdKlineAgg" where
  "NewKlineAgg ivs emit = \<lparr>kCur = Map.empty, Intervals = ivs, has_emit = emit, EmitEvery = 0, nextEmit = Map.empty\<rparr>"

definition md_bucketStart :: "int \<Rightarrow> int \<Rightarrow> int go" where
  "md_bucketStart ts iv = (if iv = 0 then Panic else Ret (go_div ts iv * iv))"

definition md_new_bar :: "TradeEvent \<Rightarrow> int \<Rightarrow> int \<Rightarrow> MdKline" where
  "md_new_bar t iv openTime =
     \<lparr>kExchange = teExchange t, kSymbol = teSymbol t, kInterval = iv, OpenTime = openTime, kOpen = tePrice t,
      kHigh = tePrice t, kLow = tePrice t, kClose = tePrice t, kVol = teSize t, kCount = 1, UpdatedAt = teTs t\<rparr>"

definition md_add_trade :: "TradeEvent \<Rightarrow> MdKline \<Rightarrow> MdKline" where
  "md_add_trade t k =
     (let k1 = (if tePrice t > kHigh k then k\<lparr>kHigh := tePrice t\<rparr> else k);
          k2 = (if tePrice t < kLow k1 then k1\<lparr>kLow := tePrice t\<rparr> else k1)
      in k2\<lparr>kClose := tePrice t, kVol := i64 (kVol k2 + teSize t), kCount := i64 (kCount k2 + 1), UpdatedAt := teTs t\<rparr>)"

text \<open>The bars handed to the callback, in order, and the new state. The last call of the callback is not guarded.\<close>

definition onTradeInterval :: "int \<Rightarrow> TradeEvent \<Rightarrow> int \<Rightarrow> MdKlineAgg \<Rightarrow> (MdKline list \<times> MdKlineAgg) go" where
  "onTradeInterval now t iv a =
     andThen (md_bucketStart (teTs t) iv) (\<lambda>openTime.
       let key = (teExchange t, teSymbol t, iv);
           fresh = (\<lambda>flushed.
             let nk = md_new_bar t iv openTime
             in Ret ((if has_emit a then flushed @ [nk] else []),
                     a\<lparr>nextEmit := (nextEmit a)(key := None), kCur := (kCur a)(key \<mapsto> nk)\<rparr>))
       in case kCur a key of
            None \<Rightarrow> fresh []
          | Some k \<Rightarrow>
              if OpenTime k \<noteq> openTime then fresh [k]
              else
                (let k1 = md_add_trade t k;
                     a1 = a\<lparr>kCur := (kCur a)(key \<mapsto> k1)\<rparr>;
                     out = (if has_emit a then [k1] else []);
                     due = (case nextEmit a key of None \<Rightarrow> True | Some next \<Rightarrow> \<not> now < next)
                 in if \<not> due then Ret (out, a1)
                    else if \<not> has_emit a then Panic
                    else Ret (out @ [k1], a1\<lparr>nextEmit := (nextEmit a)(key \<mapsto> now + EmitEvery a)\<rparr>)))"

text \<open>One interval after the other, each at its own instant.\<close>

fun on_trade_loop :: "(int \<times> int) list \<Rightarrow> TradeEvent \<Rightarrow> MdKlineAgg \<Rightarrow> (MdKline list \<times> MdKlineAgg) go" where
  "on_trade_loop [] t a = Ret ([], a)"
| "on_trade_loop ((iv, now) # ivs) t a =
     andThen (onTradeInterval now t iv a) (\<lambda>(out, a1).
       andThen (on_trade_loop ivs t a1) (\<lambda>(outs, a2). Ret (out @ outs, a2)))"

definition OnTrade :: "int list \<Rightarrow> TradeEvent \<Rightarrow> MdKlineAgg \<Rightarrow> (MdKline list \<times> MdKlineAgg) go" where
  "OnTrade nows t a = on_trade_loop (zip (Intervals a) nows) t a"

subsection \<open>The hub\<close>

type_synonym Topic = "string \<times> string \<times> int"

text \<open>Subscribers are numbers; each has a channel of the same capacity. A topic's set of subscribers is shared by reference.\<close>

record MdHub =
  mdSubs :: "Topic \<rightharpoonup> nat set"
  mdChan :: "nat \<Rightarrow> MdKline list"
  mdClosed :: "nat set"
  mdNext :: nat
  qsize :: nat

definition NewMdHub :: "nat \<Rightarrow> MdHub" where
  "NewMdHub q = \<lparr>mdSubs = Map.empty, mdChan = (\<lambda>_. []), mdClosed = {}, mdNext = 0, qsize = q\<rparr>"

definition MdHub_Subscribe :: "Topic \<Rightarrow> MdHub \<Rightarrow> nat \<times> MdHub" where
  "MdHub_Subscribe t h =
     (let s = mdNext h; m = (case mdSubs h t of None \<Rightarrow> {} | Some m \<Rightarrow> m)
      in (s, h\<lparr>mdNext := s + 1, mdChan := (mdChan h)(s := []), mdSubs := (mdSubs h)(t \<mapsto> insert s m)\<rparr>))"

definition MdHub_Unsubscribe :: "Topic \<Rightarrow> nat \<Rightarrow> MdHub \<Rightarrow> MdHub go" where
  "MdHub_Unsubscribe t s h =
     (let h1 = (case mdSubs h t of
                  None \<Rightarrow> h
                | Some m \<Rightarrow> h\<lparr>mdSubs := (mdSubs h)(t := (if m - {s} = {} then None else Some (m - {s})))\<rparr>)
      in if s \<in> mdClosed h1 then Panic else Ret (h1\<lparr>mdClosed := insert s (mdClosed h1)\<rparr>))"

text \<open>\<open>Publish\<close>: the send to one subscriber, then to those of the topic in the order in which the set is ranged over.\<close>

definition md_send :: "MdKline \<Rightarrow> nat \<Rightarrow> MdHub \<Rightarrow> MdHub go" where
  "md_send k s h =
     (if s \<in> mdClosed h then Panic
      else if length (mdChan h s) < qsize h then Ret (h\<lparr>mdChan := (mdChan h)(s := mdChan h s @ [k])\<rparr>)
      else Ret h)"

fun md_send_all :: "MdKline \<Rightarrow> nat list \<Rightarrow> MdHub \<Rightarrow> MdHub go" where
  "md_send_all k [] h = Ret h"
| "md_send_all k (s # ss) h = andThen (md_send k s h) (md_send_all k ss)"

definition MdHub_Publish :: "(nat set \<Rightarrow> nat list) \<Rightarrow> Topic \<Rightarrow> MdKline \<Rightarrow> MdHub \<Rightarrow> MdHub go" where
  "MdHub_Publish order t k h = md_send_all k (case mdSubs h t of None \<Rightarrow> [] | Some m \<Rightarrow> order m) h"

text \<open>The topic a client asks for; \<open>interval\<close> is the duration its parameter stands for.\<close>

definition serve_topic :: "string \<Rightarrow> string \<Rightarrow> int option \<Rightarrow> string + Topic" where
  "serve_topic exchange symbol interval =
     (let ex = (let e = ToLower exchange in if e = [] then ''coinbase'' else e)
      in if symbol = [] then Inl ''missing symbol''
         else case interval of
                None \<Rightarrow> Inl ''interval must be 1s or 1m''
              | Some iv \<Rightarrow>
                  if iv \<noteq> 1000000000 \<and> iv \<noteq> 60 * 1000000000 then Inl ''interval must be 1s or 1m''
                  else Inr (ex, symbol, iv))"

subsection \<open>Connecting\<close>

text \<open>A turn of the loop: the dial fails, or the connection is served for some time.\<close>

datatype attempt = DialFails goerror | Served int

definition minDur :: "int \<Rightarrow> int \<Rightarrow> int" where
  "minDur a b = (if a < b then a else b)"

definition minBackoff :: int where "minBackoff = 200000000"
definition maxBackoff :: int where "maxBackoff = 10 * 1000000000"

text \<open>The pause before the next turn, if any, and the backoff; \<open>jitter\<close> draws the pause.\<close>

definition wsclient_turn :: "(int \<Rightarrow> int) \<Rightarrow> int \<Rightarrow> attempt \<Rightarrow> int \<Rightarrow> int option \<times> int" where
  "wsclient_turn jitter stableReset at backoff =
     (case at of
        DialFails _ \<Rightarrow> (Some (jitter backoff), minDur (i64 (backoff * 2)) maxBackoff)
      | Served d \<Rightarrow> (None, if d \<ge> stableReset then minBackoff else backoff))"

text \<open>Sleeping under a context that is done returns at once, with false.\<close>

definition sleepCtx :: "bool \<Rightarrow> bool" where
  "sleepCtx done_before = (\<not> done_before)"

text \<open>
  \<^verbatim>\<open>client/client.go\<close> sleeps under the context of the dial, which it has cancelled before: \<open>Inl\<close> is the return.
\<close>

definition client_run_turn :: "int \<Rightarrow> attempt \<Rightarrow> int \<Rightarrow> goerror + int" where
  "client_run_turn stableReset at backoff =
     (case at of
        DialFails e \<Rightarrow> if \<not> sleepCtx True then Inl e else Inr (min (i64 (backoff * 2)) maxBackoff)
      | Served d \<Rightarrow> Inr (if d \<ge> stableReset then minBackoff else backoff))"

subsection \<open>Parsing agrees with the product's\<close>

lemma scaled_frac:
  "scaled_loop cs True ip fp d = Some (ip', fp', d') \<Longrightarrow> ip' = ip \<and> parse_frac cs fp d = Some (fp', d') \<and> (\<forall>c \<in> set cs. is_digit c)"
proof (induction cs arbitrary: fp d)
  case (Cons c cs)
  then have c: "is_digit c" "c \<noteq> CHR ''.''" by (auto split: if_splits)
  show ?case
  proof (cases "d < 8")
    case True
    then show ?thesis using Cons.IH[of _ "d + 1"] Cons.prems c by simp
  next
    case False
    have stop: "parse_frac xs fp d = Some (fp, d)" for xs using False by (cases xs) auto
    have "scaled_loop cs True ip fp d = Some (ip', fp', d')" using Cons.prems c False by simp
    note r = Cons.IH[OF this]
    have "Some (fp, d) = Some (fp', d')" using r stop[of cs] by (simp only:)
    then show ?thesis using r stop[of "c # cs"] c by (simp only: list.set insert_iff) blast
  qed
qed simp

lemma scaled_int:
  "scaled_loop cs False ip 0 0 = Some (ip', fp', d') \<Longrightarrow>
     parse_int (takeWhile (\<lambda>c. c \<noteq> CHR ''.'') cs) ip = Some ip' \<and>
     parse_frac (tl (dropWhile (\<lambda>c. c \<noteq> CHR ''.'') cs)) 0 0 = Some (fp', d') \<and>
     (\<forall>c \<in> set cs. is_digit c \<or> c = CHR ''.'')"
proof (induction cs arbitrary: ip)
  case (Cons c cs)
  show ?case
  proof (cases "c = CHR ''.''")
    case True
    then show ?thesis using scaled_frac[of cs ip 0 0] Cons.prems by auto
  next
    case False
    then have "is_digit c" using Cons.prems by (auto split: if_splits)
    then show ?thesis using Cons.IH Cons.prems False by simp
  qed
qed simp

text \<open>Both look at the characters behind the sign.\<close>

definition unsigned_part :: "string \<Rightarrow> string" where
  "unsigned_part s = (if hd s = CHR ''-'' then tl s else s)"

definition fixed_value :: "string \<Rightarrow> int \<Rightarrow> int \<Rightarrow> nat \<Rightarrow> int" where
  "fixed_value s ip fp d = (let v = i64 (i64 (ip * Scale) + pad_frac fp d) in if hd s = CHR ''-'' then i64 (- v) else v)"

lemma parseScaled_unsigned:
  "s \<noteq> [] \<Longrightarrow> parseScaled s = (case scaled_loop (unsigned_part s) False 0 0 0 of None \<Rightarrow> (0, False)
     | Some (ip, fp, d) \<Rightarrow> (fixed_value s ip fp d, True))"
  by (simp add: parseScaled_def unsigned_part_def fixed_value_def Let_def split: option.split)

lemma ParseFixed_unsigned:
  assumes "TrimSpace s = s" and "s \<noteq> []" and "parse_int (takeWhile (\<lambda>c. c \<noteq> CHR ''.'') (unsigned_part s)) 0 = Some ip"
    and "parse_frac (tl (dropWhile (\<lambda>c. c \<noteq> CHR ''.'') (unsigned_part s))) 0 0 = Some (fp, d)"
  shows "ParseFixed s = (fixed_value s ip fp d, True)"
proof -
  have "ParseFixed s = (case parse_int (takeWhile (\<lambda>c. c \<noteq> CHR ''.'') (unsigned_part s)) 0 of None \<Rightarrow> (0, False)
      | Some ip \<Rightarrow> (case parse_frac (tl (dropWhile (\<lambda>c. c \<noteq> CHR ''.'') (unsigned_part s))) 0 0 of None \<Rightarrow> (0, False)
        | Some (fp, d) \<Rightarrow> (fixed_value s ip fp d, True)))"
    by (simp only: ParseFixed_def assms(1) Let_def if_not_P[OF assms(2)]) (simp only: fixed_value_def unsigned_part_def Let_def)
  then show ?thesis by (simp only: assms(3,4) option.case prod.case)
qed

text \<open>What the study reads, the product reads as the same number; it may accept more (spaces, letters behind eight digits).\<close>

lemma parseScaled_ParseFixed:
  assumes "parseScaled s = (v, True)"
  shows "ParseFixed s = (v, True)"
proof -
  have ne: "s \<noteq> []"
  proof
    assume "s = []"
    then show False using assms by (simp add: parseScaled_def)
  qed
  obtain ip fp d where L: "scaled_loop (unsigned_part s) False 0 0 0 = Some (ip, fp, d)" "v = fixed_value s ip fp d"
    using assms by (auto simp: parseScaled_unsigned[OF ne] split: option.splits)
  note p = scaled_int[OF L(1)]
  have u: "\<not> is_space c" if "c \<in> set (unsigned_part s)" for c
  proof -
    have "is_digit c \<or> c = CHR ''.''" using that p by blast
    then show ?thesis
    proof
      assume "c = CHR ''.''"
      then show ?thesis by (simp add: is_space_def less_eq_char_def)
    qed (rule digit_not_space)
  qed
  have "\<not> is_space c" if c: "c \<in> set s" for c
  proof (cases "c \<in> set (unsigned_part s)")
    case False
    then have "c = CHR ''-''" using c by (cases s) (auto simp: unsigned_part_def split: if_splits)
    then show ?thesis by (simp add: is_space_def less_eq_char_def)
  qed (rule u)
  then have t: "TrimSpace s = s" using ne by (intro TrimSpace_id) simp_all
  show ?thesis unfolding L(2) by (rule ParseFixed_unsigned[OF t ne conjunct1[OF p] conjunct1[OF conjunct2[OF p]]])
qed

text \<open>Numbers the product has printed are read.\<close>

lemma scaled_frac_some: "\<forall>c \<in> set fs. is_digit c \<Longrightarrow> scaled_loop fs True ip fp d \<noteq> None"
  by (induction fs arbitrary: fp d) (auto simp: not_digits)

lemma scaled_some:
  "\<forall>c \<in> set ds. is_digit c \<Longrightarrow> \<forall>c \<in> set fs. is_digit c \<Longrightarrow> scaled_loop (ds @ CHR ''.'' # fs) False ip fp d \<noteq> None"
proof (induction ds arbitrary: ip)
  case (Cons c ds)
  then have "is_digit c" "c \<noteq> CHR ''.''" using not_digits by auto
  then show ?case using Cons by simp
qed (simp add: scaled_frac_some)

lemma parseScaled_FormatFixed:
  assumes "is_i64 v" and "v \<noteq> - (2 ^ 63)"
  shows "parseScaled (FormatFixed v) = (v, True)"
proof -
  define a where "a = (if v < 0 then i64 (- v) else v)"
  define ds where "ds = fmt_d (go_div a Scale)"
  define fs where "fs = fmt_0d 8 (go_mod a Scale)"
  have a: "0 \<le> a" using assms by (auto simp: a_def is_i64_def i64_id)
  have dm: "go_div a Scale = a div Scale" "go_mod a Scale = a mod Scale" "0 \<le> a div Scale"
    using a by (simp_all add: go_div_nonneg go_mod_nonneg Scale_def pos_imp_zdiv_nonneg_iff)
  have ds: "\<forall>c \<in> set ds. is_digit c" "ds \<noteq> []"
    using dm decimal_digits decimal_Nil by (simp_all add: ds_def fmt_d_def)
  have fs: "\<forall>c \<in> set fs. is_digit c" unfolding fs_def dm(2) by (rule fmt_0d_8(2)) (simp_all add: Scale_def)
  have F: "FormatFixed v = (if v < 0 then CHR ''-'' # ds @ CHR ''.'' # fs else ds @ CHR ''.'' # fs)"
    by (simp add: FormatFixed_def Let_def a_def ds_def fs_def)
  have "hd ds \<noteq> CHR ''-''" using ds not_digits by (cases ds) auto
  then have "unsigned_part (FormatFixed v) = ds @ CHR ''.'' # fs" using ds(2) by (simp add: F unsigned_part_def)
  then have "snd (parseScaled (FormatFixed v))"
    using scaled_some[OF ds(1) fs, of 0 0 0] by (subst parseScaled_unsigned) (auto simp: F)
  then have "parseScaled (FormatFixed v) = (fst (parseScaled (FormatFixed v)), True)" by (simp add: prod_eq_iff)
  from this parseScaled_ParseFixed[OF this] parse_format[OF assms] show ?thesis by simp
qed

subsection \<open>What a bar holds\<close>

text \<open>The bar of the trades of one bucket: the first, the extremes, the last, and the sums.\<close>

definition bar_of_trades :: "int \<Rightarrow> int \<Rightarrow> TradeEvent list \<Rightarrow> MdKline" where
  "bar_of_trades iv openTime ts =
     \<lparr>kExchange = teExchange (hd ts), kSymbol = teSymbol (hd ts), kInterval = iv, OpenTime = openTime,
      kOpen = tePrice (hd ts), kHigh = Max (set (map tePrice ts)), kLow = Min (set (map tePrice ts)),
      kClose = tePrice (last ts), kVol = i64 (sum_list (map teSize ts)), kCount = i64 (int (length ts)), UpdatedAt = teTs (last ts)\<rparr>"

lemma new_bar_is: "is_i64 (teSize t) \<Longrightarrow> md_new_bar t iv b = bar_of_trades iv b [t]"
  by (simp add: md_new_bar_def bar_of_trades_def i64_id) (simp add: i64_def)

lemma md_add_trade_eq: "md_add_trade t k = k\<lparr>kHigh := max (kHigh k) (tePrice t), kLow := min (kLow k) (tePrice t),
   kClose := tePrice t, kVol := i64 (kVol k + teSize t), kCount := i64 (kCount k + 1), UpdatedAt := teTs t\<rparr>"
  by (cases k) (simp add: md_add_trade_def Let_def max_def min_def)

lemma add_trade_is:
  assumes "ts \<noteq> []"
  shows "md_add_trade t (bar_of_trades iv b ts) = bar_of_trades iv b (ts @ [t])"
proof -
  let ?P = "set (map tePrice ts)"
  have f: "finite ?P" "?P \<noteq> {}" using assms by simp_all
  have e: "set (map tePrice (ts @ [t])) = insert (tePrice t) ?P" by auto
  have m: "Max (set (map tePrice (ts @ [t]))) = max (Max ?P) (tePrice t)" "Min (set (map tePrice (ts @ [t]))) = min (Min ?P) (tePrice t)"
    unfolding e Max_insert[OF f] Min_insert[OF f] by (rule max.commute, rule min.commute)
  have v: "sum_list (map teSize (ts @ [t])) = sum_list (map teSize ts) + teSize t" "int (length ts) + 1 = 1 + int (length ts)" by simp_all
  show ?thesis using assms
    by (simp add: md_add_trade_eq bar_of_trades_def i64_add m v del: map_append set_map)
qed

text \<open>The trades of a key, one interval: the state after them is the bar of the last bucket.\<close>

fun run_interval :: "int \<Rightarrow> (int \<times> TradeEvent) list \<Rightarrow> MdKlineAgg \<Rightarrow> (MdKline list \<times> MdKlineAgg) go" where
  "run_interval iv [] a = Ret ([], a)"
| "run_interval iv ((now, t) # ts) a =
     andThen (onTradeInterval now t iv a) (\<lambda>(out, a1). andThen (run_interval iv ts a1) (\<lambda>(outs, a2). Ret (out @ outs, a2)))"

lemma onTradeInterval_same:
  assumes "has_emit a" and "kCur a (ex, sy, iv) = Some (bar_of_trades iv b us)" and "us \<noteq> []" and "iv \<noteq> 0"
    and "teExchange t = ex" and "teSymbol t = sy" and "go_div (teTs t) iv * iv = b"
  obtains out a1 where "onTradeInterval now t iv a = Ret (out, a1)" and "has_emit a1"
    and "kCur a1 (ex, sy, iv) = Some (bar_of_trades iv b (us @ [t]))" and "set out = {bar_of_trades iv b (us @ [t])}"
proof -
  have "OpenTime (bar_of_trades iv b us) = b" by (simp add: bar_of_trades_def)
  then have "\<exists>out a1. onTradeInterval now t iv a = Ret (out, a1) \<and> has_emit a1 \<and>
      kCur a1 (ex, sy, iv) = Some (bar_of_trades iv b (us @ [t])) \<and> set out = {bar_of_trades iv b (us @ [t])}"
    using assms add_trade_is[OF assms(3), of t iv b]
    by (simp add: onTradeInterval_def md_bucketStart_def Let_def split: option.split)
  then show ?thesis using that by blast
qed

lemma run_interval_bar:
  assumes "has_emit a" and "kCur a (ex, sy, iv) = Some (bar_of_trades iv b us)" and "us \<noteq> []" and "iv \<noteq> 0"
    and "\<forall>(now, t) \<in> set ts. teExchange t = ex \<and> teSymbol t = sy \<and> go_div (teTs t) iv * iv = b"
  shows "\<exists>outs a1. run_interval iv ts a = Ret (outs, a1) \<and> kCur a1 (ex, sy, iv) = Some (bar_of_trades iv b (us @ map snd ts))"
  using assms
proof (induction ts arbitrary: a us)
  case (Cons x ts)
  obtain now t where x: "x = (now, t)" by (cases x)
  then have t: "teExchange t = ex" "teSymbol t = sy" "go_div (teTs t) iv * iv = b" using Cons.prems(5) by auto
  obtain out a1 where o: "onTradeInterval now t iv a = Ret (out, a1)" "has_emit a1"
      "kCur a1 (ex, sy, iv) = Some (bar_of_trades iv b (us @ [t]))"
    by (rule onTradeInterval_same[OF Cons.prems(1-4) t])
  have "\<exists>outs a2. run_interval iv ts a1 = Ret (outs, a2) \<and> kCur a2 (ex, sy, iv) = Some (bar_of_trades iv b ((us @ [t]) @ map snd ts))"
    by (rule Cons.IH[OF o(2,3) _ Cons.prems(4)]) (use Cons.prems(5) in auto)
  then show ?case by (auto simp: x o(1))
qed auto

text \<open>Without a pause between emissions, as \<open>NewKlineAgg\<close> makes it, an update hands its bar to the callback twice.\<close>

lemma update_emits_twice:
  assumes "has_emit a" and "kCur a (teExchange t, teSymbol t, iv) = Some k" and "iv \<noteq> 0" and "OpenTime k = go_div (teTs t) iv * iv"
    and "nextEmit a (teExchange t, teSymbol t, iv) = None \<or> nextEmit a (teExchange t, teSymbol t, iv) = Some m \<and> m \<le> now"
  shows "\<exists>a1. onTradeInterval now t iv a = Ret ([md_add_trade t k, md_add_trade t k], a1)"
  using assms by (auto simp: onTradeInterval_def md_bucketStart_def Let_def)

text \<open>The pause is none: with any pause the bar of an update is still handed over, by the call before it.\<close>

lemma never_throttled:
  assumes "has_emit a" and "kCur a (teExchange t, teSymbol t, iv) = Some k" and "iv \<noteq> 0" and "OpenTime k = go_div (teTs t) iv * iv"
    and "onTradeInterval now t iv a = Ret (out, a1)"
  shows "out \<noteq> []"
  using assms by (auto simp: onTradeInterval_def md_bucketStart_def Let_def split: if_splits option.splits)

text \<open>Without a callback the second trade of a bucket panics.\<close>

lemma no_callback_panics:
  assumes "\<not> has_emit a" and "kCur a (teExchange t, teSymbol t, iv) = Some k" and "iv \<noteq> 0" and "OpenTime k = go_div (teTs t) iv * iv"
    and "nextEmit a (teExchange t, teSymbol t, iv) = None"
  shows "onTradeInterval now t iv a = Panic"
  using assms by (simp add: onTradeInterval_def md_bucketStart_def Let_def)

subsection \<open>Subscribers\<close>

definition md_bounded :: "MdHub \<Rightarrow> bool" where
  "md_bounded h \<longleftrightarrow> (\<forall>s. length (mdChan h s) \<le> qsize h)"

lemma md_bounded_keeps:
  "md_bounded (NewMdHub q)" "md_bounded h \<Longrightarrow> md_bounded (snd (MdHub_Subscribe t h))"
  "md_bounded h \<Longrightarrow> MdHub_Unsubscribe t s h = Ret h1 \<Longrightarrow> md_bounded h1"
  "md_bounded h \<Longrightarrow> md_send k s h = Ret h1 \<Longrightarrow> md_bounded h1"
  by (auto simp: md_bounded_def NewMdHub_def MdHub_Subscribe_def MdHub_Unsubscribe_def md_send_def Let_def
      split: if_splits option.splits)

lemma md_send_all_eq:
  assumes "distinct ss" and "set ss \<inter> mdClosed h = {}"
  shows "md_send_all k ss h = Ret (h\<lparr>mdChan := (\<lambda>s. if s \<in> set ss \<and> length (mdChan h s) < qsize h then mdChan h s @ [k] else mdChan h s)\<rparr>)"
  using assms
proof (induction ss arbitrary: h)
  case (Cons s ss)
  let ?h = "if length (mdChan h s) < qsize h then h\<lparr>mdChan := (mdChan h)(s := mdChan h s @ [k])\<rparr> else h"
  have "md_send k s h = Ret ?h" using Cons.prems by (simp add: md_send_def)
  moreover have "md_send_all k ss ?h = Ret (?h\<lparr>mdChan := (\<lambda>s. if s \<in> set ss \<and> length (mdChan ?h s) < qsize ?h then mdChan ?h s @ [k] else mdChan ?h s)\<rparr>)"
    by (rule Cons.IH) (use Cons.prems in auto)
  moreover have "?h\<lparr>mdChan := (\<lambda>s. if s \<in> set ss \<and> length (mdChan ?h s) < qsize ?h then mdChan ?h s @ [k] else mdChan ?h s)\<rparr> =
      h\<lparr>mdChan := (\<lambda>u. if u \<in> set (s # ss) \<and> length (mdChan h u) < qsize h then mdChan h u @ [k] else mdChan h u)\<rparr>"
    using Cons.prems(1) by (cases h) (auto simp: fun_eq_iff)
  ultimately show ?case by (simp only: md_send_all.simps andThen.simps)
qed simp

text \<open>A publication reaches every subscriber of its topic that has room, and nobody else.\<close>

lemma MdHub_Publish_delivers:
  assumes "\<And>m. distinct (order m) \<and> set (order m) = m" and "\<forall>t m. mdSubs h t = Some m \<longrightarrow> m \<inter> mdClosed h = {}"
  shows "MdHub_Publish order t k h = Ret (h\<lparr>mdChan := (\<lambda>s. if s \<in> (case mdSubs h t of None \<Rightarrow> {} | Some m \<Rightarrow> m) \<and>
      length (mdChan h s) < qsize h then mdChan h s @ [k] else mdChan h s)\<rparr>)"
proof (cases "mdSubs h t")
  case None
  then show ?thesis by (cases h) (simp add: MdHub_Publish_def)
next
  case (Some m)
  have "m \<inter> mdClosed h = {}" using assms(2) Some by blast
  then have "distinct (order m)" "set (order m) \<inter> mdClosed h = {}" using assms(1)[of m] by simp_all
  from md_send_all_eq[OF this, of k] show ?thesis using assms(1) Some by (simp add: MdHub_Publish_def)
qed

text \<open>A subscriber that leaves while a publication ranges over the set has its channel closed: the send panics, and so
  does leaving twice.\<close>

lemma late_send_panics: "MdHub_Unsubscribe t s h = Ret h1 \<Longrightarrow> md_send k s h1 = Panic \<and> MdHub_Unsubscribe t s h1 = Panic"
  by (auto simp: MdHub_Unsubscribe_def md_send_def Let_def split: option.splits if_splits)

subsection \<open>Backoff\<close>

fun wsclient_fails :: "(int \<Rightarrow> int) \<Rightarrow> int \<Rightarrow> nat \<Rightarrow> int \<Rightarrow> int" where
  "wsclient_fails jitter st 0 b = b"
| "wsclient_fails jitter st (Suc n) b = wsclient_fails jitter st n (snd (wsclient_turn jitter st (DialFails []) b))"

text \<open>Failed dials double the backoff up to ten seconds.\<close>

lemma backoff_doubles:
  "minBackoff \<le> b \<Longrightarrow> b \<le> maxBackoff \<Longrightarrow> wsclient_fails jitter st n b = min (b * 2 ^ n) maxBackoff"
proof (induction n arbitrary: b)
  case (Suc n)
  have b: "0 < b" "b < 2 ^ 60" using Suc.prems by (simp_all add: minBackoff_def maxBackoff_def)
  then have t: "snd (wsclient_turn jitter st (DialFails []) b) = min (b * 2) maxBackoff"
    by (simp add: wsclient_turn_def minDur_def min_def i64_id is_i64_def)
  have "wsclient_fails jitter st n (min (b * 2) maxBackoff) = min (min (b * 2) maxBackoff * 2 ^ n) maxBackoff"
    by (rule Suc.IH) (use Suc.prems b in \<open>auto simp: minBackoff_def maxBackoff_def\<close>)
  moreover have "min (min (b * 2) maxBackoff * 2 ^ n) maxBackoff = min (b * 2 ^ Suc n) maxBackoff"
  proof (cases "b * 2 \<le> maxBackoff")
    case False
    have "1 \<le> (2 :: int) ^ n" by simp
    then have "maxBackoff * 1 \<le> maxBackoff * 2 ^ n" "b * 2 * 1 \<le> b * 2 * 2 ^ n"
      using b(1) by (auto intro!: mult_left_mono simp: maxBackoff_def)
    then show ?thesis using False by (simp add: min_def)
  qed (simp add: mult.assoc)
  ultimately show ?case by (simp add: t)
qed simp

text \<open>
  A connection that ends is dialled again with no pause at all, however short it was: keeping the backoff does not slow
  down a server that accepts and drops. The older client does not even dial twice.
\<close>

lemma no_pause_after_connection: "fst (wsclient_turn jitter st (Served d) b) = None"
  by (simp add: wsclient_turn_def)

lemma first_failure_returns: "client_run_turn st (DialFails e) b = Inl e"
  by (simp add: client_run_turn_def sleepCtx_def)

end
