(* ===== verification/Funds_Start.thy ===== *)
theory Funds_Start
  imports Platform
begin

text \<open>
  The two programs that start the funds service: \<^verbatim>\<open>cmd/funds-service/main.go\<close>, and \<^verbatim>\<open>internal/funds/app/app.go\<close> on top of
  the common start of \<open>Platform\<close>, with the configuration of \<^verbatim>\<open>internal/funds/config.go\<close>. What the libraries answer when
  they connect are parameters; the servers for metrics and profiles are left out.
\<close>

subsection \<open>Configuration\<close>

record DBConfig =
  dbType :: string
  SourceName :: string
  MaxOpenConns :: int
  MaxIdleConns :: int
  ConnMaxLifetimeMinutes :: int

record RedisConfig =
  rcAddr :: string
  rcDatabase :: int
  Auth :: string
  PoolSize :: int
  MinIdleConns :: int

record 'f fundsFlowRule =
  ffResource :: string
  ffThreshold :: 'f
  ffStatIntervalMs :: uint32
  ffStrategy :: string
  ffControl :: string
  ffMaxQueueWaitMs :: uint32
  ffWarmUpSec :: uint32
  ffWarmUpColdFactor :: uint32

record 'f fundsBreakerRule =
  fbResource :: string
  fbStrategy :: string
  fbThreshold :: 'f
  fbStatIntervalMs :: uint32
  fbMinRequestAmount :: uint64
  fbRetryTimeoutMs :: uint64

record 'f fundsSentinel =
  fsEnabled :: bool
  fsFlowEnabled :: bool
  fsFlowRules :: "'f fundsFlowRule list"
  fsBreakerEnabled :: bool
  fsBreakerRules :: "'f fundsBreakerRule list"

record 'f fundsCfg =
  cfgName :: string
  cfgAddr :: string
  cfgDb :: DBConfig
  cfgRedis :: RedisConfig
  otelEnabled :: bool
  otelAddr :: string
  etcdEndpoints :: "string list"
  etcdServicePrefix :: string
  cfgSentinel :: "'f fundsSentinel"

subsection \<open>The rules of sentinel, twice\<close>

definition sentinelEnabled :: "'f fundsCfg \<Rightarrow> bool" where
  "sentinelEnabled cfg =
     (let s = cfgSentinel cfg in fsEnabled s \<or> fsFlowEnabled s \<or> fsBreakerEnabled s)"

text \<open>The loops of \<open>main.go\<close>, each rule filled in field by field as the switches say.\<close>

fun main_flow_rules :: "'f fundsFlowRule list \<Rightarrow> 'f flow_Rule list" where
  "main_flow_rules [] = []"
| "main_flow_rules (rule # rest) =
     (if ffResource rule = '''' then main_flow_rules rest
      else let r = \<lparr>fResource = ffResource rule, fThreshold = ffThreshold rule, fStatIntervalInMs = ffStatIntervalMs rule,
                     fTokenCalculateStrategy = Direct, fWarmUpPeriodSec = 0, fWarmUpColdFactor = 0, fControlBehavior = Reject,
                     fMaxQueueingTimeMs = 0\<rparr>;
               st = ToLower (ffStrategy rule);
               r1 = (if st = ''direct'' then r\<lparr>fTokenCalculateStrategy := Direct\<rparr>
                     else if st = ''warmup'' then r\<lparr>fTokenCalculateStrategy := WarmUp, fWarmUpPeriodSec := ffWarmUpSec rule,
                       fWarmUpColdFactor := ffWarmUpColdFactor rule\<rparr>
                     else if st = ''memory_adaptive'' then r\<lparr>fTokenCalculateStrategy := MemoryAdaptive\<rparr>
                     else r\<lparr>fTokenCalculateStrategy := Direct\<rparr>);
               r2 = (if ToLower (ffControl rule) = ''throttling''
                     then r1\<lparr>fControlBehavior := Throttling, fMaxQueueingTimeMs := ffMaxQueueWaitMs rule\<rparr>
                     else r1\<lparr>fControlBehavior := Reject\<rparr>)
           in r2 # main_flow_rules rest)"

fun main_breaker_rules :: "'f fundsBreakerRule list \<Rightarrow> 'f breaker_Rule list" where
  "main_breaker_rules [] = []"
| "main_breaker_rules (rule # rest) =
     (if fbResource rule = '''' then main_breaker_rules rest
      else let st = ToLower (fbStrategy rule)
           in \<lparr>bResource = fbResource rule, bThreshold = fbThreshold rule, bStatIntervalMs = fbStatIntervalMs rule,
               bMinRequestAmount = fbMinRequestAmount rule, bRetryTimeoutMs = ucast (fbRetryTimeoutMs rule),
               bStrategy = (if st = ''error_count'' then ErrorCount else if st = ''slow_request_ratio'' then SlowRequestRatio
                            else ErrorRatio)\<rparr> # main_breaker_rules rest)"

definition initSentinel :: "goerror option \<Rightarrow> goerror option \<Rightarrow> goerror option \<Rightarrow> 'f fundsCfg \<Rightarrow>
    goerror option \<times> 'f flow_Rule list option \<times> 'f breaker_Rule list option" where
  "initSentinel init_err flow_err breaker_err cfg =
     (if \<not> sentinelEnabled cfg then (None, None, None)
      else case init_err of
        Some e \<Rightarrow> (Some (''init sentinel: '' @ e), None, None)
      | None \<Rightarrow>
          (let s = cfgSentinel cfg;
               fr = (if fsFlowEnabled s then main_flow_rules (fsFlowRules s) else []);
               flow_done = (if fr = [] then Inr None else case flow_err of Some e \<Rightarrow> Inl (''load flow rules: '' @ e) | None \<Rightarrow> Inr (Some fr))
           in case flow_done of
                Inl e \<Rightarrow> (Some e, None, None)
              | Inr loaded \<Rightarrow>
                  if \<not> fsBreakerEnabled s then (None, loaded, None)
                  else (let br = main_breaker_rules (fsBreakerRules s)
                        in if br = [] then (None, loaded, None)
                           else case breaker_err of
                             Some e \<Rightarrow> (Some (''load circuit breaker rules: '' @ e), loaded, None)
                           | None \<Rightarrow> (None, loaded, Some br))))"

text \<open>\<open>app.go\<close> copies the configuration instead.\<close>

definition sentinelCfgFromFunds :: "'f fundsCfg \<Rightarrow> 'f SentinelCfg" where
  "sentinelCfgFromFunds cfg =
     (let s = cfgSentinel cfg
      in \<lparr>scEnabled = fsEnabled s, flowEnabled = fsFlowEnabled s,
          flowRules = map (\<lambda>r. \<lparr>flowResource = ffResource r, flowThreshold = ffThreshold r, flowStatIntervalMs = ffStatIntervalMs r,
            flowStrategy = ffStrategy r, flowControl = ffControl r, flowMaxQueueWaitMs = ffMaxQueueWaitMs r,
            flowWarmUpSec = ffWarmUpSec r, flowWarmUpColdFactor = ffWarmUpColdFactor r\<rparr>) (fsFlowRules s),
          breakerEnabled = fsBreakerEnabled s,
          breakerRules = map (\<lambda>r. \<lparr>brResource = fbResource r, brStrategy = fbStrategy r, brThreshold = fbThreshold r,
            brStatIntervalMs = fbStatIntervalMs r, brMinRequestAmount = fbMinRequestAmount r,
            brRetryTimeoutMs = fbRetryTimeoutMs r\<rparr>) (fsBreakerRules s)\<rparr>)"

lemma flow_rules_same:
  "main_flow_rules rs = map flow_rule (filter (\<lambda>r. flowResource r \<noteq> '''') (map (\<lambda>r. \<lparr>flowResource = ffResource r,
     flowThreshold = ffThreshold r, flowStatIntervalMs = ffStatIntervalMs r, flowStrategy = ffStrategy r, flowControl = ffControl r,
     flowMaxQueueWaitMs = ffMaxQueueWaitMs r, flowWarmUpSec = ffWarmUpSec r, flowWarmUpColdFactor = ffWarmUpColdFactor r\<rparr>) rs))"
  by (induction rs) (simp_all add: flow_rule_def Let_def)

lemma breaker_rules_same:
  "main_breaker_rules rs = map breaker_rule (filter (\<lambda>r. brResource r \<noteq> '''') (map (\<lambda>r. \<lparr>brResource = fbResource r,
     brStrategy = fbStrategy r, brThreshold = fbThreshold r, brStatIntervalMs = fbStatIntervalMs r,
     brMinRequestAmount = fbMinRequestAmount r, brRetryTimeoutMs = fbRetryTimeoutMs r\<rparr>) rs))"
  by (induction rs) (simp_all add: breaker_rule_def Let_def)

text \<open>Both programs load the same rules and report the same errors.\<close>

lemma sentinel_same: "initSentinel ie fe be cfg = InitSentinelFromCfg ie fe be (Some (sentinelCfgFromFunds cfg))"
proof -
  let ?s = "sentinelCfgFromFunds cfg"
  have s: "scEnabled ?s = fsEnabled (cfgSentinel cfg)" "flowEnabled ?s = fsFlowEnabled (cfgSentinel cfg)"
    "breakerEnabled ?s = fsBreakerEnabled (cfgSentinel cfg)"
    "map flow_rule (filter (\<lambda>r. flowResource r \<noteq> '''') (flowRules ?s)) = main_flow_rules (fsFlowRules (cfgSentinel cfg))"
    "map breaker_rule (filter (\<lambda>r. brResource r \<noteq> '''') (breakerRules ?s)) = main_breaker_rules (fsBreakerRules (cfgSentinel cfg))"
    by (simp_all add: sentinelCfgFromFunds_def Let_def flow_rules_same breaker_rules_same)
  show ?thesis
    by (cases ie; cases fe; cases be) (simp_all add: initSentinel_def InitSentinelFromCfg_def sentinelEnabled_def Let_def s)
qed

subsection \<open>Connecting\<close>

record redis_Options =
  oAddr :: string
  oPassword :: string
  oDB :: int
  oPoolSize :: int
  oMinIdleConns :: int

text \<open>The password is always empty.\<close>

definition newRedis :: "goerror option \<Rightarrow> 'f fundsCfg \<Rightarrow> goerror + redis_Options" where
  "newRedis ping_err cfg =
     (let rcfg = cfgRedis cfg
      in case ping_err of
           Some e \<Rightarrow> Inl e
         | None \<Rightarrow> Inr \<lparr>oAddr = rcAddr rcfg, oPassword = '''', oDB = rcDatabase rcfg, oPoolSize = PoolSize rcfg,
             oMinIdleConns = MinIdleConns rcfg\<rparr>)"

record sql_Pool =
  sqlDriver :: string
  sqlSource :: string
  sqlMaxOpen :: int
  sqlMaxIdle :: int
  sqlMaxLifetime :: int

definition newSQLDB :: "goerror option \<Rightarrow> goerror option \<Rightarrow> 'f fundsCfg \<Rightarrow> goerror + sql_Pool" where
  "newSQLDB open_err ping_err cfg =
     (let c = cfgDb cfg
      in case open_err of
           Some e \<Rightarrow> Inl e
         | None \<Rightarrow>
             (case ping_err of
                Some e \<Rightarrow> Inl e
              | None \<Rightarrow> Inr \<lparr>sqlDriver = dbType c, sqlSource = SourceName c, sqlMaxOpen = MaxOpenConns c,
                  sqlMaxIdle = MaxIdleConns c, sqlMaxLifetime = i64 (ConnMaxLifetimeMinutes c * 60000000000)\<rparr>))"

lemma auth_ignored: "newRedis e cfg = newRedis e (cfg\<lparr>cfgRedis := (cfgRedis cfg)\<lparr>Auth := a\<rparr>\<rparr>)"
  by (simp add: newRedis_def Let_def split: option.split)

subsection \<open>Watching the pool\<close>

text \<open>
  \<open>database/sql\<close> counts waits since the pool was opened. The gauges show the last statistics; the counters are added to,
  each tick; durations are nanoseconds.
\<close>

record DBStats =
  OpenConnections :: int
  IdleConns :: int
  InUse :: int
  WaitCount :: int
  WaitDuration :: int

record PoolMetrics =
  DbPoolOpen :: int
  DbPoolIdle :: int
  DbPoolInuse :: int
  DbPoolWaitCount :: int
  DbPoolWaitDuration :: int

definition set_gauges :: "DBStats \<Rightarrow> PoolMetrics \<Rightarrow> PoolMetrics" where
  "set_gauges st m = m\<lparr>DbPoolOpen := OpenConnections st, DbPoolIdle := IdleConns st, DbPoolInuse := InUse st\<rparr>"

definition main_db_tick :: "DBStats \<Rightarrow> PoolMetrics \<Rightarrow> PoolMetrics" where
  "main_db_tick st m =
     (let m1 = set_gauges st m
      in m1\<lparr>DbPoolWaitCount := DbPoolWaitCount m1 + WaitCount st, DbPoolWaitDuration := DbPoolWaitDuration m1 + WaitDuration st\<rparr>)"

definition observeDBStats_tick :: "DBStats \<Rightarrow> int \<times> int \<times> PoolMetrics \<Rightarrow> int \<times> int \<times> PoolMetrics" where
  "observeDBStats_tick st s =
     (let (lastWaitCount, lastWaitDuration, m) = s;
          m1 = set_gauges st m;
          deltaWait = WaitCount st - lastWaitCount;
          (lc, m2) = (if deltaWait > 0 then (WaitCount st, m1\<lparr>DbPoolWaitCount := DbPoolWaitCount m1 + deltaWait\<rparr>) else (lastWaitCount, m1));
          deltaDur = WaitDuration st - lastWaitDuration;
          (ld, m3) = (if deltaDur > 0 then (WaitDuration st, m2\<lparr>DbPoolWaitDuration := DbPoolWaitDuration m2 + deltaDur\<rparr>) else (lastWaitDuration, m2))
      in (lc, ld, m3))"

definition no_metrics :: PoolMetrics where
  "no_metrics = \<lparr>DbPoolOpen = 0, DbPoolIdle = 0, DbPoolInuse = 0, DbPoolWaitCount = 0, DbPoolWaitDuration = 0\<rparr>"

text \<open>The program on top of the common start shows what the pool has counted; \<open>main.go\<close> the sum of all it was ever told.\<close>

lemma observed_waits:
  shows "DbPoolWaitCount (snd (snd (fold observeDBStats_tick sts (c, d, m)))) - fst (fold observeDBStats_tick sts (c, d, m)) =
      DbPoolWaitCount m - c"
    "fst (fold observeDBStats_tick sts (c, d, m)) = fold max (map WaitCount sts) c"
    "DbPoolWaitCount (fold main_db_tick sts m') = DbPoolWaitCount m' + sum_list (map WaitCount sts)"
proof -
  have one: "DbPoolWaitCount (snd (snd (observeDBStats_tick st s))) - fst (observeDBStats_tick st s) = DbPoolWaitCount (snd (snd s)) - fst s"
    "fst (observeDBStats_tick st s) = max (WaitCount st) (fst s)" for st s
    by (auto simp: observeDBStats_tick_def set_gauges_def Let_def split: prod.splits if_splits)
  have "DbPoolWaitCount (snd (snd (fold observeDBStats_tick sts s))) - fst (fold observeDBStats_tick sts s) =
      DbPoolWaitCount (snd (snd s)) - fst s" for s
    by (induction sts arbitrary: s) (simp_all add: one(1))
  from this[of "(c, d, m)"]
  show "DbPoolWaitCount (snd (snd (fold observeDBStats_tick sts (c, d, m)))) - fst (fold observeDBStats_tick sts (c, d, m)) =
      DbPoolWaitCount m - c" by simp
  have "fst (fold observeDBStats_tick sts s) = fold max (map WaitCount sts) (fst s)" for s
    by (induction sts arbitrary: s) (simp_all add: one(2))
  from this[of "(c, d, m)"] show "fst (fold observeDBStats_tick sts (c, d, m)) = fold max (map WaitCount sts) c" by simp
  show "DbPoolWaitCount (fold main_db_tick sts m') = DbPoolWaitCount m' + sum_list (map WaitCount sts)"
    by (induction sts arbitrary: m') (simp_all add: main_db_tick_def set_gauges_def Let_def)
qed

text \<open>Five ticks after a single wait the one counter says one, the other five.\<close>

lemma waits_counted_again:
  "let st = \<lparr>OpenConnections = 1, IdleConns = 0, InUse = 1, WaitCount = 1, WaitDuration = 7\<rparr>
   in DbPoolWaitCount (snd (snd (fold observeDBStats_tick (replicate 5 st) (0, 0, no_metrics)))) = 1 \<and>
      DbPoolWaitCount (fold main_db_tick (replicate 5 st) no_metrics) = 5"
  by code_simp

subsection \<open>Starting\<close>

text \<open>What the surroundings answer; the two programs ask in different orders.\<close>

record surroundings =
  envConfig :: "goerror option"
  envSentinel :: "goerror option"
  envDb :: "goerror option"
  envRedis :: "goerror option"
  envServices :: "goerror option"
  envEtcd :: "goerror option"
  envRegister :: "goerror option"
  envTracer :: "goerror option"

text \<open>\<open>Fatal\<close> ends the process at once: no deferred call runs.\<close>

datatype main_exit = Returns | Fatal goerror | MainPanics goerror

definition fatal :: "string \<Rightarrow> goerror \<Rightarrow> effect list \<Rightarrow> main_exit \<times> effect list" where
  "fatal what e acts = (Fatal (what @ e), acts)"

definition main_serve :: "effect list \<Rightarrow> effect list \<Rightarrow> main_exit \<times> effect list" where
  "main_serve acts defers = (Returns, acts @ [Serve, GracefulStop] @ defers)"

definition main_tracer :: "bool \<Rightarrow> surroundings \<Rightarrow> effect list \<Rightarrow> effect list \<Rightarrow> main_exit \<times> effect list" where
  "main_tracer otel env acts defers =
     (if \<not> otel then main_serve acts defers
      else case envTracer env of
             Some e \<Rightarrow> fatal ''init tracer error'' e acts
           | None \<Rightarrow> main_serve (acts @ [Open Tracer]) (Close Tracer # defers))"

definition main_etcd :: "bool \<Rightarrow> surroundings \<Rightarrow> effect list \<Rightarrow> effect list \<Rightarrow> main_exit \<times> effect list" where
  "main_etcd otel env acts defers =
     (case envEtcd env of
        Some e \<Rightarrow> fatal ''connect etcd: '' e acts
      | None \<Rightarrow>
          (let acts1 = acts @ [Open EtcdClient]; defers1 = Close EtcdClient # defers
           in case envRegister env of
                Some e \<Rightarrow> fatal ''register to etcd error: '' e acts1
              | None \<Rightarrow> main_tracer otel env (acts1 @ [Open Registration]) (Close Registration # defers1)))"

definition main_redis :: "bool \<Rightarrow> bool \<Rightarrow> surroundings \<Rightarrow> effect list \<Rightarrow> effect list \<Rightarrow> main_exit \<times> effect list" where
  "main_redis sentinel otel env acts defers =
     (case envRedis env of
        Some e \<Rightarrow> fatal ''init redis: '' e acts
      | None \<Rightarrow>
          (let acts1 = acts @ [Open Redis]; defers1 = Close Redis # defers
           in case (if sentinel then envSentinel env else None) of
                Some e \<Rightarrow> fatal ''init sentinel: '' e acts1
              | None \<Rightarrow>
                  (case envServices env of
                     Some e \<Rightarrow> fatal ''build services: '' e acts1
                   | None \<Rightarrow> main_etcd otel env acts1 defers1)))"

definition funds_main :: "'f fundsCfg \<Rightarrow> surroundings \<Rightarrow> main_exit \<times> effect list" where
  "funds_main cfg env =
     (case envConfig env of
        Some e \<Rightarrow> (MainPanics e, [])
      | None \<Rightarrow>
          (case envDb env of
             Some e \<Rightarrow> fatal ''init mysql: '' e []
           | None \<Rightarrow> main_redis (sentinelEnabled cfg) (otelEnabled cfg) env [Open Database] [Close Database]))"

text \<open>The options \<open>app.go\<close> gives to the common start.\<close>

definition funds_options :: "'f fundsCfg \<Rightarrow> surroundings \<Rightarrow> Start" where
  "funds_options cfg env =
     \<lparr>required = True, load_config = envConfig env,
      init_sentinel = Some (if sentinelEnabled cfg then envSentinel env else None),
      build_db = Some (envDb env), build_redis = Some (envRedis env),
      init_tracer = (if otelEnabled cfg then Some (envTracer env) else None),
      build_services = envServices env, register_grpc = None,
      etcd_connect = (if etcdEndpoints cfg = [] then None else Some (envEtcd env)), etcd_register = envRegister env\<rparr>"

definition funds_Run :: "'f fundsCfg \<Rightarrow> surroundings \<Rightarrow> goerror option \<times> effect list" where
  "funds_Run cfg env = Bootstrap_Run (funds_options cfg env)"

lemmas main_defs = funds_main_def main_redis_def main_etcd_def main_tracer_def main_serve_def fatal_def
lemmas run_defs = funds_Run_def funds_options_def Bootstrap_Run_def start_db_def start_redis_def start_services_def start_etcd_def
  after_etcd_def fail_def step_fails_def

text \<open>With the same surroundings the two programs serve under the same circumstances, with the same things open.\<close>

lemma same_service:
  assumes "etcdEndpoints cfg \<noteq> []"
  shows "fst (funds_main cfg env) = Returns \<longleftrightarrow> fst (funds_Run cfg env) = None"
    "fst (funds_main cfg env) = Returns \<Longrightarrow> Open r \<in> set (snd (funds_main cfg env)) \<longleftrightarrow> Open r \<in> set (snd (funds_Run cfg env))"
  using assms by (auto simp: main_defs run_defs Let_def split: option.splits if_splits)

text \<open>A start of \<open>main.go\<close> that fails closes nothing; one that ends closes everything, in reverse order.\<close>

lemma main_fatal_closes_nothing:
  "fst (funds_main cfg env) \<noteq> Returns \<Longrightarrow> Close r \<notin> set (snd (funds_main cfg env))"
  by (auto simp: main_defs Let_def split: option.splits if_splits)

lemma main_closes_all:
  assumes "fst (funds_main cfg env) = Returns"
  shows "\<exists>opened. snd (funds_main cfg env) = map Open opened @ [Serve, GracefulStop] @ map Close (rev opened)"
proof -
  let ?os = "[Database, Redis, EtcdClient, Registration] @ (if otelEnabled cfg then [Tracer] else [])"
  have "snd (funds_main cfg env) = map Open ?os @ [Serve, GracefulStop] @ map Close (rev ?os)"
    using assms by (auto simp: main_defs Let_def split: option.splits if_splits)
  then show ?thesis by blast
qed

text \<open>Both take the service out of the registry only after it has stopped: until then clients are sent to it.\<close>

lemma registered_while_stopping:
  assumes "fst (funds_Run cfg env) = None" and "etcdEndpoints cfg \<noteq> []"
  shows "\<exists>xs ys. snd (funds_Run cfg env) = xs @ GracefulStop # ys \<and> Open Registration \<in> set xs \<and>
    Close Registration \<notin> set xs \<and> Close Registration \<in> set ys"
proof -
  have e: "envConfig env = None" "envDb env = None" "envRedis env = None" "envServices env = None" "envEtcd env = None" "envRegister env = None"
    using assms by (auto simp: run_defs Let_def split: option.splits if_splits)
  let ?o = "if otelEnabled cfg then [Open Tracer] else []" and ?c = "if otelEnabled cfg then [Close Tracer] else []"
  have "snd (funds_Run cfg env) = ([Open Database, Open Redis] @ ?o @ [Open EtcdClient, Open Registration, Serve] @ ?c) @
      GracefulStop # [Close Registration, Close EtcdClient, Close Redis, Close Database]"
    using assms e by (auto simp: run_defs Let_def split: option.splits if_splits)
  then show ?thesis by (intro exI conjI, assumption) auto
qed

end
