(* ===== verification/Json_Codecs.thy ===== *)
theory Json_Codecs
  imports Codecs
begin

text \<open>
  \<^verbatim>\<open>internal/engine/json_transfer.go\<close>: the codecs that write commands and events as JSON with a version, behind the
  same interfaces as the binary ones. JSON is a parameter.
\<close>

record cmdJSON =
  jcV :: uint8
  jcSeq :: uint64
  jcCmd :: Command

record evJSON =
  jeV :: uint8
  jeEv :: Event

text \<open>\<open>append(dst, b...)\<close>: here \<open>dst\<close> are the elements of the slice, none for the callers, who pass it cut to length zero.\<close>

definition JSONCmdCodec_Encode :: "(cmdJSON \<Rightarrow> goerror + bytes) \<Rightarrow> uint8 \<Rightarrow> bytes \<Rightarrow> uint64 \<Rightarrow> Command \<Rightarrow> goerror + bytes" where
  "JSONCmdCodec_Encode marshal version dst seq cmd =
     (case marshal \<lparr>jcV = version, jcSeq = seq, jcCmd = cmd\<rparr> of Inl e \<Rightarrow> Inl e | Inr b \<Rightarrow> Inr (dst @ b))"

definition JSONCmdCodec_Decode :: "(bytes \<Rightarrow> goerror + cmdJSON) \<Rightarrow> bytes \<Rightarrow> goerror + uint64 \<times> Command" where
  "JSONCmdCodec_Decode unmarshal payload =
     (case unmarshal payload of Inl e \<Rightarrow> Inl e | Inr r \<Rightarrow> Inr (jcSeq r, jcCmd r))"

definition JSONEvCodec_Encode :: "(evJSON \<Rightarrow> goerror + bytes) \<Rightarrow> uint8 \<Rightarrow> bytes \<Rightarrow> Event \<Rightarrow> goerror + bytes" where
  "JSONEvCodec_Encode marshal version dst ev =
     (case marshal \<lparr>jeV = version, jeEv = ev\<rparr> of Inl e \<Rightarrow> Inl e | Inr b \<Rightarrow> Inr (dst @ b))"

definition JSONEvCodec_Decode :: "(bytes \<Rightarrow> goerror + evJSON) \<Rightarrow> bytes \<Rightarrow> goerror + Event" where
  "JSONEvCodec_Decode unmarshal payload = (case unmarshal payload of Inl e \<Rightarrow> Inl e | Inr r \<Rightarrow> Inr (jeEv r))"

text \<open>What JSON promises: a value it has written is read back.\<close>

definition json_law :: "('a \<Rightarrow> goerror + bytes) \<Rightarrow> (bytes \<Rightarrow> goerror + 'a) \<Rightarrow> ('a \<Rightarrow> bool) \<Rightarrow> bool" where
  "json_law marshal unmarshal plain \<longleftrightarrow> (\<forall>x. plain x \<longrightarrow> (\<exists>b. marshal x = Inr b \<and> unmarshal b = Inr x))"

text \<open>With it the codecs keep the contract of the interfaces, and keep every field, which the binary ones do not.\<close>

lemma json_cmd_codec:
  assumes "json_law marshal unmarshal (\<lambda>r. accepts (jcCmd r))"
  shows "cmd_codec (\<lambda>_. JSONCmdCodec_Encode marshal version []) (JSONCmdCodec_Decode unmarshal) accepts (\<lambda>c. c)"
proof
  fix c :: Command and dst :: bytes and s
  assume "accepts c"
  then have "\<exists>b. marshal \<lparr>jcV = version, jcSeq = s, jcCmd = c\<rparr> = Inr b \<and> unmarshal b = Inr \<lparr>jcV = version, jcSeq = s, jcCmd = c\<rparr>"
    using assms by (simp add: json_law_def)
  then show "\<exists>p. JSONCmdCodec_Encode marshal version [] s c = Inr p \<and> JSONCmdCodec_Decode unmarshal p = Inr (s, c)"
    by (auto simp: JSONCmdCodec_Encode_def JSONCmdCodec_Decode_def)
qed

lemma json_ev_codec:
  assumes "json_law marshal unmarshal (\<lambda>r. accepts (jeEv r))"
  shows "ev_codec (\<lambda>_. JSONEvCodec_Encode marshal version []) (JSONEvCodec_Decode unmarshal) accepts (\<lambda>e. e)"
proof
  fix e :: Event and dst :: bytes
  assume "accepts e"
  then have "\<exists>b. marshal \<lparr>jeV = version, jeEv = e\<rparr> = Inr b \<and> unmarshal b = Inr \<lparr>jeV = version, jeEv = e\<rparr>"
    using assms by (simp add: json_law_def)
  then show "\<exists>p. JSONEvCodec_Encode marshal version [] e = Inr p \<and> JSONEvCodec_Decode unmarshal p = Inr e"
    by (auto simp: JSONEvCodec_Encode_def JSONEvCodec_Decode_def)
qed

text \<open>The version is written and never looked at: a record of another version is accepted, which the binary codec refuses.\<close>

lemma json_version_ignored:
  assumes "unmarshal p = Inr r" and "unmarshal q = Inr (r\<lparr>jcV := v\<rparr>)"
  shows "JSONCmdCodec_Decode unmarshal p = JSONCmdCodec_Decode unmarshal q"
  using assms by (simp add: JSONCmdCodec_Decode_def)

end
