(* ===== verification/Wallet_Keys.thy ===== *)
theory Wallet_Keys
  imports Go_Prelude
begin

text \<open>
  \<^verbatim>\<open>pkg/hdwallet/wallet.go\<close>: addresses derived from one master key. Deriving a child, the private key of a node and the two
  kinds of addresses are the libraries' and parameters.
\<close>

definition HardenedKeyStart :: uint32 where "HardenedKeyStart = 0x80000000"

record ('k, 'p) keys =
  NewMaster :: "string \<Rightarrow> goerror + 'k"
  Derive :: "'k \<Rightarrow> uint32 \<Rightarrow> goerror + 'k"
  ECPrivKey :: "'k \<Rightarrow> goerror + 'p"
  priv_hex :: "'p \<Rightarrow> string"
  segwit_address :: "'p \<Rightarrow> goerror + string"
  eth_address :: "'p \<Rightarrow> string"

text \<open>\<open>New\<close>: the seed of the words; only that there are some is checked.\<close>

definition Wallet_New :: "('k, 'p) keys \<Rightarrow> string \<Rightarrow> goerror + 'k" where
  "Wallet_New K mnemonic = (if mnemonic = '''' then Inl ''mnemonic cannot empty '' else NewMaster K mnemonic)"

definition bip44_path :: "uint32 \<Rightarrow> uint32 \<Rightarrow> uint32 list" where
  "bip44_path coinType accountIdx =
     [44 + HardenedKeyStart, coinType + HardenedKeyStart, 0 + HardenedKeyStart, 0, accountIdx]"

fun derive_path :: "('k, 'p) keys \<Rightarrow> uint32 list \<Rightarrow> 'k \<Rightarrow> goerror + 'k" where
  "derive_path K [] key = Inr key"
| "derive_path K (i # is) key = (case Derive K key i of Inl e \<Rightarrow> Inl e | Inr key1 \<Rightarrow> derive_path K is key1)"

definition GetAddress :: "('k, 'p) keys \<Rightarrow> uint32 \<Rightarrow> 'p \<Rightarrow> goerror + string" where
  "GetAddress K coinType priv =
     (if coinType = 0 then segwit_address K priv
      else if coinType = 60 then Inr (eth_address K priv)
      else Inl ''invalid coin type'')"

definition DeriveAddress :: "('k, 'p) keys \<Rightarrow> 'k \<Rightarrow> uint32 \<Rightarrow> uint32 \<Rightarrow> goerror + string \<times> string" where
  "DeriveAddress K master coinType accountIdx =
     (case derive_path K (bip44_path coinType accountIdx) master of
        Inl e \<Rightarrow> Inl e
      | Inr key \<Rightarrow>
          (case ECPrivKey K key of
             Inl e \<Rightarrow> Inl e
           | Inr priv \<Rightarrow> (case GetAddress K coinType priv of Inl e \<Rightarrow> Inl e | Inr address \<Rightarrow> Inr (address, priv_hex K priv))))"

text \<open>Two accounts never share a path, and the path of a coin is hardened as long as its number is below \<open>2 ^ 31\<close>.\<close>

lemma path_inj: "bip44_path c i = bip44_path c' i' \<longleftrightarrow> c = c' \<and> i = i'"
  by (simp add: bip44_path_def)

lemma path_hardened:
  assumes "c < HardenedKeyStart"
  shows "\<forall>x \<in> set (take 3 (bip44_path c i)). HardenedKeyStart \<le> x"
proof -
  have "unat c + 2 ^ 31 < 2 ^ 32" using assms by (simp add: HardenedKeyStart_def word_less_nat_alt)
  then have "unat (c + HardenedKeyStart) = unat c + 2 ^ 31" by (simp add: HardenedKeyStart_def unat_word_ariths)
  then have "HardenedKeyStart \<le> c + HardenedKeyStart" by (simp add: HardenedKeyStart_def word_le_nat_alt)
  moreover have "HardenedKeyStart \<le> 44 + HardenedKeyStart" by (simp add: HardenedKeyStart_def)
  ultimately show ?thesis by (simp add: bip44_path_def numeral_3_eq_3)
qed

text \<open>An index that is hardened already loses it: the sum wraps.\<close>

lemma path_wraps: "bip44_path 0x80000000 i ! 1 = 0"
  by (simp add: bip44_path_def HardenedKeyStart_def)

text \<open>If the children of a key differ, and keys with different parents differ, so do the keys of two accounts.\<close>

lemma derive_path_inj:
  assumes "\<And>k k' i i' r. Derive K k i = Inr r \<Longrightarrow> Derive K k' i' = Inr r \<Longrightarrow> k = k' \<and> i = i'"
    and "length is = length js" and "derive_path K is k = Inr r" and "derive_path K js k' = Inr r"
  shows "is = js \<and> k = k'"
  using assms(2-4)
proof (induction "is" js arbitrary: k k' rule: list_induct2)
  case (Cons i "is" j js)
  obtain a b where "Derive K k i = Inr a" "Derive K k' j = Inr b" "derive_path K is a = Inr r" "derive_path K js b = Inr r"
    using Cons.prems by (auto split: sum.splits)
  then show ?case using Cons.IH[of a b] assms(1) by metis
qed simp

text \<open>Coins other than the two are refused, after their key was derived.\<close>

lemma other_coins_refused: "c \<noteq> 0 \<Longrightarrow> c \<noteq> 60 \<Longrightarrow> \<exists>e. DeriveAddress K m c i = Inl e"
  by (auto simp: DeriveAddress_def GetAddress_def split: sum.splits)

end
