(* ===== verification/Quotes_Sink.thy ===== *)
theory Quotes_Sink
  imports Kline_Fixed
begin

text \<open>
  Where bars and numbers about connections leave the quotes service: \<^verbatim>\<open>storage/influxsink/sink.go\<close>, whose client library
  buffers and writes, and the counters of \<^verbatim>\<open>wsmetrics/wsmetrics.go\<close>. \<open>'f\<close> is \<open>float64\<close>; times are nanoseconds.
\<close>

subsection \<open>The sink\<close>

record InfluxConfig =
  icURL :: string
  icToken :: string
  icOrg :: string
  icBucket :: string
  BatchSize :: nat
  FlushInterval :: int
  UseGzip :: bool

text \<open>What \<open>New\<close> gives to the client: the size of a batch, the interval in milliseconds, compression.\<close>

definition Sink_New :: "InfluxConfig \<Rightarrow> nat \<times> int \<times> bool" where
  "Sink_New cfg =
     (let c1 = (if BatchSize cfg = 0 then cfg\<lparr>BatchSize := 2000\<rparr> else cfg);
          c2 = (if FlushInterval c1 = 0 then c1\<lparr>FlushInterval := 1000000000\<rparr> else c1)
      in (BatchSize c2, go_div (FlushInterval c2) 1000000, UseGzip c2))"

record 'f SinkBar =
  sbSymbol :: string
  sbInterval :: string
  sbSource :: string
  sbStartTs :: int
  sbOpen :: 'f
  sbHigh :: 'f
  sbLow :: 'f
  sbClose :: 'f
  sbVol :: 'f
  sbTrades :: int

text \<open>A point: its measurement, tags, fields, of which one is an integer, and time.\<close>

record 'f Point =
  measurement :: string
  tags :: "(string \<times> string) list"
  float_fields :: "(string \<times> 'f) list"
  int_fields :: "(string \<times> int) list"
  ptTime :: int

definition WriteBar :: "'f SinkBar \<Rightarrow> 'f Point" where
  "WriteBar b =
     \<lparr>measurement = ''kline'', tags = [(''symbol'', sbSymbol b), (''interval'', sbInterval b), (''source'', sbSource b)],
      float_fields = [(''o'', sbOpen b), (''h'', sbHigh b), (''l'', sbLow b), (''c'', sbClose b), (''v'', sbVol b)],
      int_fields = [(''n'', sbTrades b)], ptTime = sbStartTs b\<rparr>"

text \<open>What \<open>Run\<close> receives; it gives the points it writes, what it returns, and what it did not take any more.\<close>

datatype 'f sink_event = CtxDone goerror | BarIn "'f SinkBar" | InClosed | SinkTick

fun Sink_Run :: "'f sink_event list \<Rightarrow> 'f Point list \<times> goerror option option \<times> 'f sink_event list" where
  "Sink_Run [] = ([], None, [])"
| "Sink_Run (CtxDone e # evs) = ([], Some (Some e), evs)"
| "Sink_Run (InClosed # evs) = ([], Some None, evs)"
| "Sink_Run (SinkTick # evs) = Sink_Run evs"
| "Sink_Run (BarIn b # evs) = (let (ps, r, rest) = Sink_Run evs in (WriteBar b # ps, r, rest))"

definition bars_in :: "'f sink_event list \<Rightarrow> 'f SinkBar list" where
  "bars_in evs = concat (map (\<lambda>e. case e of BarIn b \<Rightarrow> [b] | _ \<Rightarrow> []) evs)"

definition sink_goes_on :: "'f sink_event \<Rightarrow> bool" where
  "sink_goes_on e \<longleftrightarrow> (case e of CtxDone _ \<Rightarrow> False | InClosed \<Rightarrow> False | _ \<Rightarrow> True)"

text \<open>Every bar before the end becomes a point, in order; the bars behind it are left.\<close>

lemma Sink_Run_writes:
  "\<forall>e \<in> set evs. sink_goes_on e \<Longrightarrow> Sink_Run (evs @ InClosed # rest) = (map WriteBar (bars_in evs), Some None, rest)"
  "\<forall>e \<in> set evs. sink_goes_on e \<Longrightarrow> Sink_Run (evs @ CtxDone x # rest) = (map WriteBar (bars_in evs), Some (Some x), rest)"
proof (induction evs)
  case (Cons e evs)
  case 1
  then show ?case using Cons(1) by (cases e) (simp_all add: sink_goes_on_def bars_in_def)
  case 2
  then show ?case using Cons(2) by (cases e) (simp_all add: sink_goes_on_def bars_in_def)
qed (simp_all add: bars_in_def)

text \<open>An interval below a millisecond becomes none at all.\<close>

lemma flush_interval_zero: "0 < FlushInterval cfg \<Longrightarrow> FlushInterval cfg < 1000000 \<Longrightarrow> fst (snd (Sink_New cfg)) = 0"
  by (simp add: Sink_New_def Let_def go_div_nonneg)

subsection \<open>Counters of connections\<close>

record WsMetrics =
  mConns :: int
  ConnOpenTotal :: nat
  ConnCloseTotal :: "(string \<times> string) \<Rightarrow> nat"
  MsgsOutTotal :: nat
  BytesOutTotal :: nat
  WriteErrorsTotal :: nat
  WriteDurations :: "int list"
  BatchSizes :: "int list"

definition OnOpen :: "WsMetrics \<Rightarrow> WsMetrics" where
  "OnOpen m = m\<lparr>mConns := mConns m + 1, ConnOpenTotal := ConnOpenTotal m + 1\<rparr>"

definition OnClose :: "int \<Rightarrow> string \<Rightarrow> WsMetrics \<Rightarrow> WsMetrics" where
  "OnClose code reason m =
     (let key = ((if code < 0 then CHR ''-'' # fmt_d (- code) else fmt_d code), reason)
      in m\<lparr>mConns := mConns m - 1, ConnCloseTotal := (ConnCloseTotal m)(key := ConnCloseTotal m key + 1)\<rparr>)"

definition ObserveWrite :: "int \<Rightarrow> int \<Rightarrow> int \<Rightarrow> goerror option \<Rightarrow> WsMetrics \<Rightarrow> WsMetrics" where
  "ObserveWrite batchN bytes dur err m =
     (let m1 = (if batchN > 0 then m\<lparr>MsgsOutTotal := MsgsOutTotal m + nat batchN, BatchSizes := BatchSizes m @ [batchN]\<rparr> else m);
          m2 = (if bytes > 0 then m1\<lparr>BytesOutTotal := BytesOutTotal m1 + nat bytes\<rparr> else m1);
          m3 = m2\<lparr>WriteDurations := WriteDurations m2 @ [dur]\<rparr>
      in if err \<noteq> None then m3\<lparr>WriteErrorsTotal := WriteErrorsTotal m3 + 1\<rparr> else m3)"

datatype ws_use = Opened | ClosedWith int string | Wrote int int int "goerror option"

definition ws_count :: "ws_use \<Rightarrow> WsMetrics \<Rightarrow> WsMetrics" where
  "ws_count u m = (case u of Opened \<Rightarrow> OnOpen m | ClosedWith c r \<Rightarrow> OnClose c r m | Wrote n b d e \<Rightarrow> ObserveWrite n b d e m)"

text \<open>The gauge is the openings less the closings: with no caller of \<open>OnClose\<close>, as in the program, it only grows.\<close>

lemma gauge_is: "mConns (fold ws_count us m) = mConns m + int (length (filter (\<lambda>u. u = Opened) us)) -
   int (length (filter (\<lambda>u. \<exists>c r. u = ClosedWith c r) us))"
  by (induction us arbitrary: m) (auto simp: ws_count_def OnOpen_def OnClose_def ObserveWrite_def Let_def split: ws_use.split)

lemma gauge_grows:
  assumes "\<forall>u \<in> set us. \<forall>c r. u \<noteq> ClosedWith c r"
  shows "mConns (fold ws_count us m) - mConns m = int (ConnOpenTotal (fold ws_count us m)) - int (ConnOpenTotal m)"
  using assms
proof (induction us arbitrary: m)
  case (Cons u us)
  then have "mConns (fold ws_count us (ws_count u m)) - mConns (ws_count u m) =
      int (ConnOpenTotal (fold ws_count us (ws_count u m))) - int (ConnOpenTotal (ws_count u m))" by simp
  moreover have "mConns (ws_count u m) - mConns m = int (ConnOpenTotal (ws_count u m)) - int (ConnOpenTotal m)"
    using Cons.prems by (cases u) (auto simp: ws_count_def OnOpen_def ObserveWrite_def Let_def)
  ultimately show ?case by simp
qed simp

end
