(* ===== verification/Order_Bench.thy ===== *)
theory Order_Bench
  imports Kline_Fixed
begin

text \<open>
  \<^verbatim>\<open>pkg/benck/bufferpool.go\<close>: three encoders of an order by hand. A buffer is the string written to it; \<open>'f\<close> is \<open>float64\<close>
  and its printing a parameter.
\<close>

record 'f BenchOrder =
  boID :: int
  boSymbol :: string
  boPrice :: 'f
  boAmount :: 'f
  boSide :: string

definition format_int :: "int \<Rightarrow> string" where
  "format_int n = (if n < 0 then CHR ''-'' # fmt_d (- n) else fmt_d n)"

definition quote :: char where "quote = CHR 0x22"

definition encodeOrderNaiveBuffer :: "('f \<Rightarrow> string) \<Rightarrow> 'f BenchOrder \<Rightarrow> string" where
  "encodeOrderNaiveBuffer ff o1 =
     fold (\<lambda>w buf. buf @ w)
       [CHR ''{'' # quote # ''id'' @ [quote, CHR '':''], format_int (boID o1),
        CHR '','' # quote # ''symbol'' @ [quote, CHR '':'', quote], boSymbol o1,
        quote # CHR '','' # quote # ''price'' @ [quote, CHR '':''], ff (boPrice o1),
        CHR '','' # quote # ''amount'' @ [quote, CHR '':''], ff (boAmount o1),
        CHR '','' # quote # ''side'' @ [quote, CHR '':'', quote], boSide o1, [quote, CHR ''}'']] []"

text \<open>The pooled buffer still holds what was written before, and is reset.\<close>

definition encodeOrderPoolBuffer :: "string \<Rightarrow> ('f \<Rightarrow> string) \<Rightarrow> 'f BenchOrder \<Rightarrow> string \<times> string" where
  "encodeOrderPoolBuffer pooled ff o1 =
     (let buf = (let b = []; b = b @ CHR ''{'' # quote # ''id'' @ [quote, CHR '':'']; b = b @ format_int (boID o1);
                     b = b @ CHR '','' # quote # ''symbol'' @ [quote, CHR '':'', quote]; b = b @ boSymbol o1;
                     b = b @ quote # CHR '','' # quote # ''price'' @ [quote, CHR '':'']; b = b @ ff (boPrice o1);
                     b = b @ CHR '','' # quote # ''amount'' @ [quote, CHR '':'']; b = b @ ff (boAmount o1);
                     b = b @ CHR '','' # quote # ''side'' @ [quote, CHR '':'', quote]; b = b @ boSide o1
                 in b @ [quote, CHR ''}''])
      in (buf, buf))"

definition encodeOrderManualJSON :: "('f \<Rightarrow> string) \<Rightarrow> 'f BenchOrder \<Rightarrow> string" where
  "encodeOrderManualJSON ff o1 =
     fold (\<lambda>w buf. buf @ w)
       [''{'', quote # ''id'' @ [quote, CHR '':''], format_int (boID o1),
        CHR '','' # quote # ''symbol'' @ [quote, CHR '':'', quote], boSymbol o1, [quote],
        CHR '','' # quote # ''price'' @ [quote, CHR '':''], ff (boPrice o1),
        CHR '','' # quote # ''amount'' @ [quote, CHR '':''], ff (boAmount o1),
        CHR '','' # quote # ''side'' @ [quote, CHR '':'', quote], boSide o1, [quote], ''}''] []"

text \<open>All three write the same, whatever the pooled buffer held.\<close>

lemma encoders_agree:
  "fst (encodeOrderPoolBuffer pooled ff o1) = encodeOrderNaiveBuffer ff o1"
  "encodeOrderManualJSON ff o1 = encodeOrderNaiveBuffer ff o1"
  by (simp_all add: encodeOrderPoolBuffer_def encodeOrderNaiveBuffer_def encodeOrderManualJSON_def Let_def)

text \<open>Strings are not escaped: a symbol can carry fields of its own, so that the text begins like that of another order.\<close>

lemma encoders_forged:
  assumes "boSymbol o1 = ''A'' @ [quote] @ '','' @ [quote] @ ''price'' @ [quote] @ '':'' @ ff p @ '','' @ [quote] @ ''amount'' @ [quote] @ '':'' @
      ff a @ '','' @ [quote] @ ''side'' @ [quote] @ '':'' @ [quote] @ s"
  shows "\<exists>tail. encodeOrderNaiveBuffer ff o1 = butlast (encodeOrderNaiveBuffer ff
      \<lparr>boID = boID o1, boSymbol = ''A'', boPrice = p, boAmount = a, boSide = s\<rparr>) @ tail"
  by (simp add: encodeOrderNaiveBuffer_def butlast_append assms)

end
