(* ===== verification/Spec2Isabelle.thy ===== *)
theory Spec2Isabelle
  imports Book_Properties Engine_Properties Kline_Properties Watcher_Properties Ws_Properties
    Service_Properties Platform_Properties Market_Flow Ws_Life Request_Ids
    Event_Recovery Scan_Catchup Scan_Chairs Ws_Demo Deposit_Repo
    Frame_Server Exec_Md Funds_Start Json_Codecs Wallet_Keys Quotes_Sink Order_Bench
begin

text \<open>
  A model of the core of gopherex, an exchange in Go: the matching engine with its logs, the
  candlestick aggregation, the websocket hub that distributes the bars, the deposit watcher, and the
  account and funds services with their error path; and of the studies beside them: a scanner of blocks, a
  hub for slow clients, frames over TCP and a client of market data.

  \<^bold>\<open>How Go is modelled.\<close> A call that may panic or not return has the type \<open>'a go\<close> (\<open>Ret\<close>, \<open>Panic\<close>,
  \<open>Hang\<close>, in \<open>Go_Prelude\<close>); errors are values of \<open>goerror + 'a\<close> or \<open>goerror option\<close>. \<open>int64\<close> is \<open>int\<close>
  with \<open>i64\<close>, the wrap-around, wherever an operation can leave the range; the unsigned widths are
  words. Structs are records under the source's names, a Go map that is ranged over is an association
  list (\<open>Go_Map\<close>), pointers to shared structures are addresses of an explicit store (\<open>Level_List\<close>), and
  a callback is a function that acts on a state of the caller's choice. Goroutines are turns: one
  definition per turn of a loop, composed by step relations in any order (\<open>Engine_Recovery\<close>,
  \<open>Watcher_Flow\<close>, \<open>Ws_Properties\<close>).

  \<^bold>\<open>Matching\<close> (\<^verbatim>\<open>internal/matching\<close>). \<open>Go_Heap\<close>: the price heaps and \<open>container/heap\<close>. \<open>Order_Spec\<close>:
  orders, trades and the abstract book, two lists in price-time order of which matching eats a prefix.
  \<open>Naive_Book\<close>, \<open>Level_Book\<close> (with the linked lists of \<open>Level_List\<close>) and \<open>Heap_Book\<close> are the three
  books of the code, every operation; \<open>Heap_Refine\<close> proves that the heap book, the one the engine runs,
  refines the abstract book, and \<open>Book_Properties\<close> states what the books do: refinement, best prices,
  the shape of trades, equality of the heap and the naive book on fresh orders, and where they go
  wrong.

  \<^bold>\<open>Engine\<close> (\<^verbatim>\<open>internal/engine\<close>, \<^verbatim>\<open>pkg/wal\<close>). \<open>Engine_Types\<close> and \<open>Codecs\<close>: commands, events and their
  fixed-width records. \<open>Wal\<close>: the log writer over a buffer and a disk that may fill up, replay, the
  reader. \<open>Outbox_Log\<close>: the event outbox, its repair, the cursor file, the publisher. \<open>Engine_Actor\<close>:
  one batch of a symbol's actor (log first, then apply, then flush), the adapter, the emitters, the
  replay. \<open>Engine_Manager\<close>: the engine that creates an actor per symbol after repair and replay. The
  laws are in \<open>Log_Laws\<close>, \<open>Engine_Laws\<close> and \<open>Engine_Recovery\<close> (every reachable actor's log rebuilds its
  book), the properties in \<open>Engine_Properties\<close>. \<open>Event_Flow\<close> states what an abstract exchange answers to
  commands and joins the parts: the actor's outbox file, and the bus behind the publisher, get exactly
  these answers. \<open>Event_Recovery\<close>: a restart after a crash completes an outbox file of which any first
  records were written.

  \<^bold>\<open>Candlesticks\<close> (\<^verbatim>\<open>internal/quotes/kline\<close>). \<open>Kline_Fixed\<close>: \<open>ParseFixed\<close>, \<open>FormatFixed\<close> and the time
  buckets. \<open>Kline_Agg\<close>: \<open>TradeAgg\<close>, which holds bars back for late trades, and \<open>RollupAgg\<close>, which fills
  gaps. \<open>Kline_Shard\<close>: routing, and the chain of four aggregators in a shard. \<open>Kline_Laws\<close> and
  \<open>Kline_Rollup\<close> compare each aggregator with a reference (\<open>bars_of\<close>: one bar for each bucket, rolled
  up from its children in order); \<open>Kline_Chain\<close> shows that an aggregator reaches its callback only
  through the bars it emits, so that the contract \<open>stage\<close>, interpreted at each of the three levels,
  carries the reference up the chain. The properties are in \<open>Kline_Properties\<close>.

  \<^bold>\<open>Distribution\<close> (\<^verbatim>\<open>internal/quotes/ws\<close>, \<^verbatim>\<open>internal/quotes/gateway\<close>). \<open>Ws_Hub\<close>: connections that keep
  the latest payload of each topic, the hub, whose sets of subscribers have addresses because \<open>Publish\<close>
  uses them without the lock, topics and encoding, the in-memory broker and the gateway over it.
  \<open>Ws_Laws\<close>: the hub one operation at a time. \<open>Ws_Properties\<close>: its operations as interleaved atomic
  steps (\<open>act_step\<close>), what a publication delivers, what reaches the hub through the broker, and how a
  payload is overtaken, stranded or meets a closed channel. \<open>Ws_Life\<close>: the two pumps of a connection
  over its socket, from the upgrade to the end, while everybody else uses the hub. \<open>Brokers\<close>: the
  broker over NATS, and the interface it shares with the in-memory one as a locale interpreted on both.
  \<open>Market_Flow\<close> joins the parts: trades that a shard accepts become bars in the connections of the
  clients that subscribe to them.

  \<^bold>\<open>Deposits\<close> (\<^verbatim>\<open>internal/watcher\<close>). \<open>Watcher_Types\<close>: transfers, the cursor table, the chain adapters
  and the two strategies. \<open>Watcher_Scan\<close>: the scan loop, pushing to the stream, the master's tick.
  \<open>Watcher_Flow\<close>: workers, handlers and ack workers over bounded channels as a step relation. The
  properties, in \<open>Watcher_Properties\<close>: what a scan has pushed and saved whatever fails, what is pushed
  twice or never scanned, and that messages are conserved.

  \<^bold>\<open>Studies.\<close> The scanner of blocks in \<^verbatim>\<open>learn/eth/scan\<close> has four handlers. \<open>Scan_Ack\<close>: the last
  (\<^verbatim>\<open>handler3.go\<close>), whose master, push worker, ack manager and retries are the steps of \<open>h3_step\<close> over
  bounded channels; the saved cursor never passes a block that is not in the stream, and with the
  identifiers the code makes there never is one. \<open>Scan_Catchup\<close>: the other three, which push some time,
  or wait for each push. \<open>Scan_Chairs\<close>: the blocks of the three chains they scan. \<open>Ws_Demo\<close>: the hub of
  \<^verbatim>\<open>deploy/wsdemo_steps/05_slow_client_backpressure\<close>, whose connections hold a bounded number of bytes.
  \<open>Frame_Server\<close> (\<^verbatim>\<open>exec/networks/exec\<close>): frames are read back as they were written and the echo server's
  bytes are the first of them, but a deadline inside a frame loses its beginning. \<open>Exec_Md\<close>
  (\<^verbatim>\<open>exec/networks\<close>): numbers that agree with \<open>ParseFixed\<close>, bars, a hub and connecting again.

  \<^bold>\<open>Services\<close> (\<^verbatim>\<open>internal/account\<close>, \<^verbatim>\<open>internal/funds\<close>, \<^verbatim>\<open>pkg\<close>). \<open>Accounts\<close>: requests that take effect
  once over a transactional table, currencies, the cache of balances. \<open>Deposit_Repo\<close>: the confirmed
  deposits that concurrent workers take and mark as credited. \<open>Funds\<close>: balances read through
  redis, the limiter's store, the master lock. \<open>Api_Errors\<close>: error values, the server's interceptors,
  the gateway's answer and the circuit breaker's judgement. \<open>Service_Properties\<close>: exactly what a
  repeated request does under any faults, the cache against the database, the limiter against one
  bucket per key, and what a client sees of an error. \<open>Request_Ids\<close>: the identifier of a request
  through contexts and metadata. \<open>Sources\<close> (\<^verbatim>\<open>internal/quotes/datasource\<close>, \<^verbatim>\<open>mdsource\<close>): the messages
  of the exchanges as trades, and connecting again. \<open>Platform\<close>: registration and discovery, the start
  of a service as what it opens and closes, the rules of sentinel and the breakers. Their properties
  are in \<open>Platform_Properties\<close>. \<open>Funds_Start\<close>: the two programs that start the funds service load the
  same rules and serve under the same circumstances. \<open>Wallet_Keys\<close>: paths of derived keys.
  \<open>Order_Bench\<close>: three encoders of one order. \<open>Quotes_Sink\<close>: the sink of bars and the counters of
  connections. \<open>Json_Codecs\<close>: the engine's other codecs, which keep the contract of the binary ones.

  \<^bold>\<open>Fuel.\<close> Loops that are not structural take fuel and give \<open>Hang\<close> without it: the matching loops the
  number of resting orders and heap entries, the sift loops of the heaps the length of the heap, the
  gap loop (\<open>gap_fuel\<close>) one more than the buckets between two starts, the scan one more than the
  heights between its ends. The properties that say a call returns show that this is enough; for the
  gap loop and the scan the bound holds when the period is positive and the times and heights are below
  \<open>2 ^ 61\<close>.

  \<^bold>\<open>Parameters.\<close> The order book under an actor, the codecs, the file system's contents and its errors;
  the node, the database's and redis' answers, the client of NATS, JSON and decimals of the watcher;
  JSON, \<open>Duration.String\<close> and the socket's errors of the hub. Their hypotheses are named: \<open>exec_ok\<close> (a
  pipeline without an error has applied its commands), \<open>stream_laws\<close> (a stream of redis keeps the
  entries it has accepted), \<open>transports\<close> (what gRPC carries of a context), the laws of the codec
  locales.

  \<^bold>\<open>Not modelled.\<close> JSON itself (a library); waiting, tickers and timers, of which only the turns remain; a
  sender that blocks on a full \<open>out\<close> channel; \<open>fsync\<close>, so a flush reaches the disk; Unicode beyond ASCII
  in strings; logging, and metrics beyond those of connections and of the database pool; when the
  deadlines and pings of the websocket fall; the cryptography of the wallet; configuration files, routing
  and handlers of the API gateway, which only pass values on. Generated code, the other process entry
  points and the first four demonstration programs are not part of the model.
\<close>

end
